(* ===== verification/Prelude.thy ===== *)
theory Prelude
  imports Main "HOL-Library.Word" "HOL-Library.Signed_Division"
begin

text \<open>
  Shared vocabulary of the development: the machine integer types of the i686 kernel, the
  fact collections the component theories extend, and the C counting loops.

  \<open>for_up i n body s\<close> is the loop \<open>for(; i < n; ++i) body\<close> over an unsigned counter of any
  width, with the mutable state \<open>s\<close> passed through; \<open>for_ret\<close> is the same loop where the body
  may \<open>return\<close> from the enclosing function (\<open>Inl\<close>) or continue (\<open>Inr\<close>).  The rules
  \<open>for_up_invariant\<close> and \<open>for_ret_invariant\<close> carry every loop proof of the development.
\<close>

unbundle bit_operations_syntax

section \<open>Types\<close>

type_synonym u8 = "8 word"
type_synonym u16 = "16 word"
type_synonym u32 = "32 word"
type_synonym u64 = "64 word"

text \<open>The facts every component proof may unfold: word arithmetic read through \<open>unat\<close>.\<close>

named_theorems unat_arith_simps
named_theorems loop_simps

section \<open>Words read as natural numbers\<close>

lemma unat_add_small [unat_arith_simps]:
  "unat (a + b :: 'a::len word) = unat a + unat b" if "unat a + unat b < 2 ^ LENGTH('a)"
  using that by (simp add: unat_word_ariths)

lemma unat_Suc_less [unat_arith_simps]:
  "i < n \<Longrightarrow> unat (i + 1 :: 'a::len word) = Suc (unat i)"
proof -
  assume "i < n"
  then have "unat i < unat n" by (simp add: word_less_nat_alt)
  then have "unat i + 1 \<le> unat n" by simp
  moreover have "unat n < 2 ^ LENGTH('a)" by (rule unsigned_less)
  ultimately have "unat i + 1 < 2 ^ LENGTH('a)" by (rule le_less_trans)
  then show ?thesis by (simp add: unat_word_ariths unsigned_1)
qed

lemma unat_of_nat_small [unat_arith_simps]:
  "k < 2 ^ LENGTH('a) \<Longrightarrow> unat (of_nat k :: 'a::len word) = k"
  by (simp add: unsigned_of_nat take_bit_nat_eq_self)

lemma unat_less_u32: "unat (a :: u32) < 4294967296"
  using unsigned_less [of a] by simp

lemma le_of_less_plus_one: "i < n \<Longrightarrow> i + 1 \<le> (n :: 'a::len word)"
  by (simp add: word_le_nat_alt unat_Suc_less) (simp add: word_less_nat_alt)

lemma of_nat_eq_iff_small:
  "\<lbrakk> i < 2 ^ LENGTH('a); j < 2 ^ LENGTH('a) \<rbrakk> \<Longrightarrow>
   (of_nat i :: 'a::len word) = of_nat j \<longleftrightarrow> i = j"
  by (metis unat_of_nat_small)

text \<open>C's signed division truncates towards zero.\<close>

definition c_sdiv :: "'a::len word \<Rightarrow> 'a word \<Rightarrow> 'a word" where
  "c_sdiv a b = word_of_int (sint a sdiv sint b)"

lemma sint_nonneg:
  assumes "\<not> sint (a :: 'a::len word) < 0"
  shows "sint a = int (unat a)"
proof -
  have "sint a < 2 ^ (LENGTH('a) - 1)" using sint_less [of a] by simp
  also have "(2 :: int) ^ (LENGTH('a) - 1) \<le> 2 ^ LENGTH('a)" by (simp add: power_increasing)
  finally have "take_bit LENGTH('a) (sint a) = sint a"
    using assms by (simp add: take_bit_int_eq_self_iff)
  then show ?thesis by (simp add: uint_sint [symmetric] del: uint_sint)
qed

lemma sint_of_small:
  assumes "unat (a :: 'a::len word) < 2 ^ (LENGTH('a) - 1)"
  shows "sint a = int (unat a)"
proof -
  have "int (unat a) < int (2 ^ (LENGTH('a) - 1))" using assms by (simp only: of_nat_less_iff)
  then have "int (unat a) < 2 ^ (LENGTH('a) - 1)" by (simp only: of_nat_power of_nat_numeral)
  then have "signed_take_bit (LENGTH('a) - 1) (int (unat a)) = int (unat a)"
    by (intro signed_take_bit_int_eq_self) (auto intro: order_trans [of _ 0])
  then show ?thesis by (simp add: sint_uint)
qed

lemma small_of_sint:
  assumes "\<not> sint (a :: 'a::len word) < 0"
  shows "unat a < 2 ^ (LENGTH('a) - 1)"
proof -
  have "int (unat a) < 2 ^ (LENGTH('a) - 1)" using sint_nonneg [OF assms] sint_less [of a] by simp
  then have "int (unat a) < int (2 ^ (LENGTH('a) - 1))" by (simp only: of_nat_power of_nat_numeral)
  then show ?thesis by (simp only: of_nat_less_iff)
qed

lemma sint_eqD: "sint (c :: 'a::len word) = sint d \<Longrightarrow> c = d"
  by (rule signed_word_eqI)

lemma sdiv_int_nat: "int x sdiv int y = int (x div y)"
  by (simp add: signed_divide_int_def zdiv_int sgn_if)

lemma c_sdiv_nonneg:
  assumes "\<not> sint (a :: 'a::len word) < 0" "\<not> sint b < 0"
  shows "unat (c_sdiv a b) = unat a div unat b"
proof -
  have "unat a div unat b < 2 ^ LENGTH('a)"
    using div_le_dividend le_less_trans unsigned_less by blast
  then have "take_bit LENGTH('a) (unat a div unat b) = unat a div unat b"
    by (simp add: take_bit_nat_eq_self_iff)
  moreover have "sint a sdiv sint b = int (unat a div unat b)"
    unfolding assms [THEN sint_nonneg] by (rule sdiv_int_nat)
  ultimately show ?thesis by (simp add: c_sdiv_def unsigned_of_nat)
qed

section \<open>Counting loops\<close>

function for_up :: "'a::len word \<Rightarrow> 'a word \<Rightarrow> ('a word \<Rightarrow> 's \<Rightarrow> 's) \<Rightarrow> 's \<Rightarrow> 's" where
  "for_up i n body s = (if i < n then for_up (i + 1) n body (body i s) else s)"
  by pat_completeness auto
termination
  by (relation "measure (\<lambda>(i, n, _, _). unat n - unat i)")
    (auto simp: unat_Suc_less word_less_nat_alt)

declare for_up.simps [simp del]

function for_ret ::
  "'a::len word \<Rightarrow> 'a word \<Rightarrow> ('a word \<Rightarrow> 's \<Rightarrow> 'r + 's) \<Rightarrow> 's \<Rightarrow> 'r + 's" where
  "for_ret i n body s =
     (if i < n
      then (case body i s of Inl r \<Rightarrow> Inl r | Inr s' \<Rightarrow> for_ret (i + 1) n body s')
      else Inr s)"
  by pat_completeness auto
termination
  by (relation "measure (\<lambda>(i, n, _, _). unat n - unat i)")
    (auto simp: unat_Suc_less word_less_nat_alt)

declare for_ret.simps [simp del]

lemma for_up_done [loop_simps]: "\<not> i < n \<Longrightarrow> for_up i n body s = s"
  by (subst for_up.simps) simp

lemma for_up_step [loop_simps]: "i < n \<Longrightarrow> for_up i n body s = for_up (i + 1) n body (body i s)"
  by (subst for_up.simps) simp

lemma for_ret_done [loop_simps]: "\<not> i < n \<Longrightarrow> for_ret i n body s = Inr s"
  by (subst for_ret.simps) simp

lemma for_ret_step [loop_simps]:
  "i < n \<Longrightarrow> for_ret i n body s =
     (case body i s of Inl r \<Rightarrow> Inl r | Inr s' \<Rightarrow> for_ret (i + 1) n body s')"
  by (subst for_ret.simps) simp

text \<open>The loop is the fold of its body over the counter values.\<close>

lemma for_up_fold:
  "for_up i n body s = fold (\<lambda>k. body (of_nat k)) [unat i..<unat n] s"
proof (induction i n body s rule: for_up.induct)
  case (1 i n body s)
  show ?case
  proof (cases "i < n")
    case True
    then have "[unat i..<unat n] = unat i # [unat (i + 1)..<unat n]"
      by (simp add: upt_conv_Cons word_less_nat_alt unat_Suc_less)
    then show ?thesis using True "1.IH" by (simp add: for_up_step)
  next
    case False
    then show ?thesis by (simp add: for_up_done word_less_nat_alt)
  qed
qed

text \<open>The invariant rules: \<open>P k s\<close> describes the state before the iteration with counter \<open>k\<close>.\<close>

lemma for_up_invariant:
  assumes "P i s" and "i \<le> n"
    and "\<And>k t. \<lbrakk> i \<le> k; k < n; P k t \<rbrakk> \<Longrightarrow> P (k + 1) (body k t)"
  shows "P n (for_up i n body s)"
  using assms
proof (induction i n body s rule: for_up.induct)
  case (1 i n body s)
  show ?case
  proof (cases "i < n")
    case True
    have "P (i + 1) (body i s)" using "1.prems" True by simp
    moreover have "i + 1 \<le> n" using True by (rule le_of_less_plus_one)
    moreover have "\<And>k t. \<lbrakk> i + 1 \<le> k; k < n; P k t \<rbrakk> \<Longrightarrow> P (k + 1) (body k t)"
    proof -
      fix k t assume "i + 1 \<le> k" "k < n" "P k t"
      moreover have "i \<le> k"
        using \<open>i + 1 \<le> k\<close> unat_Suc_less [OF True] by (simp add: word_le_nat_alt)
      ultimately show "P (k + 1) (body k t)" using "1.prems"(3) by blast
    qed
    ultimately show ?thesis using "1.IH" [OF True] True by (simp add: for_up_step)
  next
    case False
    then have "i = n" using "1.prems"(2) by simp
    then show ?thesis using "1.prems"(1) by (simp add: for_up_done)
  qed
qed

lemma for_ret_invariant:
  assumes "P i s" and "i \<le> n"
    and "\<And>k t t'. \<lbrakk> i \<le> k; k < n; P k t; body k t = Inr t' \<rbrakk> \<Longrightarrow> P (k + 1) t'"
    and "\<And>k t r. \<lbrakk> i \<le> k; k < n; P k t; body k t = Inl r \<rbrakk> \<Longrightarrow> Q r"
  shows "case for_ret i n body s of Inl r \<Rightarrow> Q r | Inr t \<Rightarrow> P n t"
  using assms
proof (induction i n body s rule: for_ret.induct)
  case (1 i n body s)
  show ?case
  proof (cases "i < n")
    case True
    note step = "1.prems"(3) and exit = "1.prems"(4)
    have le: "i \<le> k" if "i + 1 \<le> k" for k
      using that unat_Suc_less [OF True] by (simp add: word_le_nat_alt)
    show ?thesis
    proof (cases "body i s")
      case (Inl r)
      then show ?thesis using True exit [of i s r] "1.prems"(1) by (simp add: for_ret_step)
    next
      case (Inr s')
      have "P (i + 1) s'" using step [of i s s'] True "1.prems"(1) Inr by simp
      then have "case for_ret (i + 1) n body s' of Inl r \<Rightarrow> Q r | Inr t \<Rightarrow> P n t"
        using "1.IH" [OF True Inr] le_of_less_plus_one [OF True] step exit le by blast
      then show ?thesis using True Inr by (simp add: for_ret_step)
    qed
  next
    case False
    then have "i = n" using "1.prems"(2) by simp
    then show ?thesis using "1.prems"(1) by (simp add: for_ret_done)
  qed
qed

lemma for_up_noop: "(\<And>k t. \<lbrakk> i \<le> k; k < n \<rbrakk> \<Longrightarrow> body k t = t) \<Longrightarrow> for_up i n body s = s"
proof (cases "i \<le> n")
  case True
  assume "\<And>k t. \<lbrakk> i \<le> k; k < n \<rbrakk> \<Longrightarrow> body k t = t"
  then show ?thesis
    using for_up_invariant [where P = "\<lambda>_ t. t = s" and i = i and n = n and s = s and body = body]
      True by auto
next
  case False
  then show ?thesis by (simp add: for_up_done not_le not_less order.strict_implies_order)
qed

text \<open>\<open>for_down i lo body s\<close> is \<open>for(; i > lo; --i) body\<close>.\<close>

function for_down :: "'a::len word \<Rightarrow> 'a word \<Rightarrow> ('a word \<Rightarrow> 's \<Rightarrow> 's) \<Rightarrow> 's \<Rightarrow> 's" where
  "for_down i lo body s = (if lo < i then for_down (i - 1) lo body (body i s) else s)"
  by pat_completeness auto
termination
  by (relation "measure (\<lambda>(i, _, _, _). unat i)")
    (auto intro!: measure_unat)

declare for_down.simps [simp del]

lemma for_down_done [loop_simps]: "\<not> lo < i \<Longrightarrow> for_down i lo body s = s"
  by (subst for_down.simps) simp

lemma for_down_step [loop_simps]:
  "lo < i \<Longrightarrow> for_down i lo body s = for_down (i - 1) lo body (body i s)"
  by (subst for_down.simps) simp

lemma unat_pred_of_less: "lo < i \<Longrightarrow> unat (i - 1 :: 'a::len word) = unat i - 1"
  by (cases "i = 0") (simp_all add: unat_minus_one)

lemma for_down_invariant:
  assumes "P i s" and "lo \<le> i"
    and "\<And>k t. \<lbrakk> lo < k; k \<le> i; P k t \<rbrakk> \<Longrightarrow> P (k - 1) (body k t)"
  shows "P lo (for_down i lo body s)"
  using assms
proof (induction i lo body s rule: for_down.induct)
  case (1 i lo body s)
  show ?case
  proof (cases "lo < i")
    case True
    have pred: "unat (i - 1) = unat i - 1" using True by (rule unat_pred_of_less)
    have "P (i - 1) (body i s)" using "1.prems" True by simp
    moreover have "lo \<le> i - 1" using True pred by (simp add: word_le_nat_alt word_less_nat_alt)
    moreover have "\<And>k t. \<lbrakk> lo < k; k \<le> i - 1; P k t \<rbrakk> \<Longrightarrow> P (k - 1) (body k t)"
    proof -
      fix k t assume "lo < k" "k \<le> i - 1" "P k t"
      moreover have "k \<le> i" using \<open>k \<le> i - 1\<close> pred by (simp add: word_le_nat_alt)
      ultimately show "P (k - 1) (body k t)" using "1.prems"(3) by blast
    qed
    ultimately show ?thesis using "1.IH" [OF True] True by (simp add: for_down_step)
  next
    case False
    then have "i = lo" using "1.prems"(2) by simp
    then show ?thesis using "1.prems"(1) by (simp add: for_down_done)
  qed
qed

end
