(* ===== verification/CMem.thy ===== *)
theory CMem
  imports Prelude
begin

text \<open>
  The byte-addressed memory the C code reads and writes through pointers: a total function from
  32-bit addresses to bytes, so pointer arithmetic wraps as it does on the i686.  \<open>rd16\<close>,
  \<open>rd32\<close>, \<open>wr16\<close> and \<open>wr32\<close> are the little-endian accesses through \<open>uint16_t*\<close> and
  \<open>uint32_t*\<close>.  \<open>cstr m p s\<close> says that a NUL-terminated string with the bytes \<open>s\<close> is stored
  at \<open>p\<close>; a window \<open>a - p < n\<close> is the set of the \<open>n\<close> bytes from \<open>p\<close>, also when it wraps.
\<close>

unbundle bit_operations_syntax

type_synonym mem = "u32 \<Rightarrow> u8"

section \<open>Windows of addresses\<close>

lemma window_Suc:
  "k < n \<Longrightarrow> (a - p < k + 1) = (a - p < k \<or> a = p + k)" for a p k n :: "'a::len word"
proof -
  assume "k < n"
  then have "unat (k + 1) = Suc (unat k)" by (rule unat_Suc_less)
  then have "(a - p < k + 1) = (a - p < k \<or> a - p = k)"
    by (auto simp: word_less_nat_alt less_Suc_eq) (simp_all add: word_unat_eq_iff)
  then show ?thesis by (auto simp: algebra_simps)
qed

lemma window_member: "k < n \<Longrightarrow> (p + k) - p < (n :: 'a::len word)"
  by simp

section \<open>Multi-byte accesses\<close>

definition rd16 :: "mem \<Rightarrow> u32 \<Rightarrow> u16" where
  "rd16 m a = ucast (m a) OR push_bit 8 (ucast (m (a + 1)))"

definition wr16 :: "mem \<Rightarrow> u32 \<Rightarrow> u16 \<Rightarrow> mem" where
  "wr16 m a v = m(a := ucast v, a + 1 := ucast (drop_bit 8 v))"

definition rd32 :: "mem \<Rightarrow> u32 \<Rightarrow> u32" where
  "rd32 m a = ucast (m a) OR push_bit 8 (ucast (m (a + 1)))
    OR push_bit 16 (ucast (m (a + 2))) OR push_bit 24 (ucast (m (a + 3)))"

definition wr32 :: "mem \<Rightarrow> u32 \<Rightarrow> u32 \<Rightarrow> mem" where
  "wr32 m a v = m(a := ucast v, a + 1 := ucast (drop_bit 8 v),
    a + 2 := ucast (drop_bit 16 v), a + 3 := ucast (drop_bit 24 v))"

lemma rd32_wr32_same [simp]: "rd32 (wr32 m a v) a = v"
proof (rule bit_word_eqI)
  fix n assume "n < LENGTH(32)"
  then consider "n < 8" | "8 \<le> n \<and> n < 16" | "16 \<le> n \<and> n < 24" | "24 \<le> n \<and> n < 32" by force
  then show "bit (rd32 (wr32 m a v) a) n = bit v n"
    by cases (auto simp: rd32_def wr32_def bit_simps)
qed

lemma rd16_wr16_same [simp]: "rd16 (wr16 m a v) a = v"
proof (rule bit_word_eqI)
  fix n assume "n < LENGTH(16)"
  then consider "n < 8" | "8 \<le> n \<and> n < 16" by force
  then show "bit (rd16 (wr16 m a v) a) n = bit v n"
    by cases (auto simp: rd16_def wr16_def bit_simps)
qed

abbreviation aligned4 :: "u32 \<Rightarrow> bool" where
  "aligned4 a \<equiv> 4 dvd unat a"

lemma aligned4_offset:
  assumes "aligned4 a" and "unat i < 4"
  shows "unat (a + i) = unat a + unat i" and "unat (a + i) div 4 = unat a div 4"
proof -
  obtain q where q: "unat a = 4 * q" using assms(1) by (auto elim: dvdE)
  have "unat a < 4294967296" by (rule unat_less_u32)
  then have "unat a + unat i < 2 ^ LENGTH(32)" using q assms(2) by simp
  then show eq: "unat (a + i) = unat a + unat i" by (rule unat_add_small)
  show "unat (a + i) div 4 = unat a div 4" using q assms(2) by (simp add: eq)
qed

lemma aligned4_disjoint:
  assumes "aligned4 a" "aligned4 b" "a \<noteq> b" "unat i < 4" "unat j < 4"
  shows "a + i \<noteq> b + j"
proof
  assume "a + i = b + j"
  then have "unat a div 4 = unat b div 4"
    using assms aligned4_offset(2) [of a i] aligned4_offset(2) [of b j] by simp
  then have "unat a = unat b" using assms(1,2) by (metis dvd_div_mult_self)
  then show False using assms(3) by (simp add: word_unat_eq_iff)
qed

lemma rd32_wr32_other [simp]:
  assumes "aligned4 a" "aligned4 b" "a \<noteq> b"
  shows "rd32 (wr32 m a v) b = rd32 m b"
proof -
  have d: "b + j \<noteq> a + i" if "unat i < 4" "unat j < 4" for i j
    using aligned4_disjoint [of b a j i] assms that by auto
  note dd = d [of 0 0] d [of 1 0] d [of 2 0] d [of 3 0] d [of 0 1] d [of 1 1] d [of 2 1] d [of 3 1]
    d [of 0 2] d [of 1 2] d [of 2 2] d [of 3 2] d [of 0 3] d [of 1 3] d [of 2 3] d [of 3 3]
  show ?thesis using dd by (simp add: rd32_def wr32_def)
qed

section \<open>NUL-terminated strings\<close>

fun cstr :: "mem \<Rightarrow> u32 \<Rightarrow> u8 list \<Rightarrow> bool" where
  "cstr m p [] \<longleftrightarrow> m p = 0"
| "cstr m p (c # cs) \<longleftrightarrow> m p = c \<and> c \<noteq> 0 \<and> cstr m (p + 1) cs"

lemma cstr_nth: "cstr m p s \<Longrightarrow> i < length s \<Longrightarrow> m (p + of_nat i) = s ! i \<and> s ! i \<noteq> 0"
proof (induction s arbitrary: p i)
  case (Cons c cs)
  show ?case
  proof (cases i)
    case (Suc j)
    then show ?thesis using Cons.IH [of "p + 1" j] Cons.prems by (simp add: add.assoc)
  qed (use Cons.prems in auto)
qed simp

lemma cstr_end: "cstr m p s \<Longrightarrow> m (p + of_nat (length s)) = 0"
proof (induction s arbitrary: p)
  case (Cons c cs)
  then show ?case using Cons.IH [of "p + 1"] by (simp add: add.assoc)
qed simp

lemma cstrI:
  "\<lbrakk> \<And>i. i < length s \<Longrightarrow> m (p + of_nat i) = s ! i; 0 \<notin> set s; m (p + of_nat (length s)) = 0 \<rbrakk>
   \<Longrightarrow> cstr m p s"
proof (induction s arbitrary: p)
  case (Cons c cs)
  have "cstr m (p + 1) cs"
  proof (rule Cons.IH)
    show "m (p + 1 + of_nat i) = cs ! i" if "i < length cs" for i
      using Cons.prems(1) [of "Suc i"] that by (simp add: add.assoc)
    show "0 \<notin> set cs" and "m (p + 1 + of_nat (length cs)) = 0"
      using Cons.prems by (auto simp: add.assoc)
  qed
  then show ?case using Cons.prems(1) [of 0] Cons.prems(2) by auto
qed simp

lemma cstr_nonzero: "cstr m p s \<Longrightarrow> 0 \<notin> set s"
  by (induction s arbitrary: p) auto

text \<open>A string that fits the address space: it ends, so it is shorter than 2^32 bytes.\<close>

lemma cstr_length: "cstr m p s \<Longrightarrow> length s < 2 ^ 32"
proof (rule ccontr)
  assume s: "cstr m p s" and "\<not> length s < 2 ^ 32"
  define i where "i = length s - 2 ^ 32"
  have i: "i < length s" "length s = i + 2 ^ 32"
    using \<open>\<not> length s < 2 ^ 32\<close> by (auto simp: i_def)
  have "(of_nat (length s) :: u32) = of_nat i"
    unfolding i(2) by (simp add: word_eq_iff_unsigned unsigned_of_nat take_bit_eq_mod)
  then show False using cstr_nth [OF s i(1)] cstr_end [OF s] by simp
qed

lemma cstr_unique: "cstr m p s \<Longrightarrow> cstr m p t \<Longrightarrow> s = t"
proof (induction s arbitrary: p t)
  case Nil
  then show ?case by (cases t) auto
next
  case (Cons c cs)
  then show ?case by (cases t) auto
qed

text \<open>A store outside the window of a string leaves the string in place.\<close>

lemma cstr_frame:
  assumes "cstr m p s" and "\<And>i. i \<le> length s \<Longrightarrow> m' (p + of_nat i) = m (p + of_nat i)"
  shows "cstr m' p s"
proof (rule cstrI)
  show "m' (p + of_nat i) = s ! i" if "i < length s" for i
    using assms that cstr_nth by simp
  show "0 \<notin> set s" using assms(1) by (rule cstr_nonzero)
  show "m' (p + of_nat (length s)) = 0" using assms cstr_end by simp
qed

end
