(* ===== verification/KString.thy ===== *)
theory KString
  imports CMem "HOL-Library.Monad_Syntax"
begin

text \<open>
  The kernel's string library, kernel/libk/kstring.c, over byte memory.  A function that may run
  past its argument for ever (no NUL byte in front of it) is a \<^theory_text>\<open>partial_function\<close> in
  the option monad: \<open>None\<close> is not returning.  A pointer result \<open>0\<close> is NULL; the failed \<open>kassert\<close> of
  the default build returns the macro's second argument, and what it prints is not modelled.
  \<open>char\<close> is signed on the i686, so comparisons of characters go through \<open>sint\<close>.
\<close>

unbundle bit_operations_syntax

section \<open>Memory blocks\<close>

definition kmemcpy :: "mem \<Rightarrow> u32 \<Rightarrow> u32 \<Rightarrow> u32 \<Rightarrow> u32 \<times> mem" where
  "kmemcpy m destination source num =
     (if destination = 0 \<or> source = 0 then (0, m)
      else (destination,
            for_up 0 num (\<lambda>len t. t(destination + len := t (source + len))) m))"

function move_forward :: "u32 \<Rightarrow> u32 \<Rightarrow> u32 \<Rightarrow> mem \<Rightarrow> mem" where
  "move_forward dest src num m =
     (if num \<noteq> 0 then move_forward (dest + 1) (src + 1) (num - 1) (m(dest := m src)) else m)"
  by pat_completeness auto
termination
  by (relation "measure (\<lambda>(_, _, num, _). unat num)") (auto intro: measure_unat)

function move_backward :: "u32 \<Rightarrow> u32 \<Rightarrow> u32 \<Rightarrow> mem \<Rightarrow> mem" where
  "move_backward dest src num m =
     (if num \<noteq> 0
      then move_backward (dest - 1) (src - 1) (num - 1) (m(dest - 1 := m (src - 1)))
      else m)"
  by pat_completeness auto
termination
  by (relation "measure (\<lambda>(_, _, num, _). unat num)") (auto intro: measure_unat)

declare move_forward.simps [simp del] move_backward.simps [simp del]

definition kmemmove :: "mem \<Rightarrow> u32 \<Rightarrow> u32 \<Rightarrow> u32 \<Rightarrow> u32 \<times> mem" where
  "kmemmove m destination source num =
     (if destination = 0 \<or> source = 0 then (0, m)
      else if destination = source \<or> num = 0 then (destination, m)
      else if destination < source
        then (destination, move_forward destination source num m)
      else (destination, move_backward (destination + num) (source + num) num m))"

definition kmemchr :: "mem \<Rightarrow> u32 \<Rightarrow> u32 \<Rightarrow> u32 \<Rightarrow> u32" where
  "kmemchr m ptr value num =
     (if ptr = 0 then 0
      else case for_ret 0 num
             (\<lambda>len (_ :: unit). if scast (m (ptr + len)) = value then Inl (ptr + len) else Inr ()) ()
           of Inl r \<Rightarrow> r | Inr _ \<Rightarrow> 0)"

definition kmemcmp :: "mem \<Rightarrow> u32 \<Rightarrow> u32 \<Rightarrow> u32 \<Rightarrow> int" where
  "kmemcmp m ptr1 ptr2 num =
     (if ptr1 = 0 \<or> ptr2 = 0 then - 2
      else case for_ret 0 num
             (\<lambda>len (_ :: unit).
                if m (ptr1 + len) < m (ptr2 + len) then Inl (- 1)
                else if m (ptr1 + len) > m (ptr2 + len) then Inl 1
                else Inr ()) ()
           of Inl r \<Rightarrow> r | Inr _ \<Rightarrow> 0)"

definition kmemset :: "mem \<Rightarrow> u32 \<Rightarrow> u32 \<Rightarrow> u32 \<Rightarrow> u32 \<times> mem" where
  "kmemset m ptr value num =
     (if ptr = 0 then (0, m)
      else let value_byte = ucast (value AND 0xFF) :: u8
           in (ptr, for_up 0 num (\<lambda>i t. t(ptr + i := value_byte)) m))"

section \<open>Strings\<close>

partial_function (option) kstrlen_loop :: "mem \<Rightarrow> u32 \<Rightarrow> u32 \<Rightarrow> u32 option" where
  "kstrlen_loop m str len =
     (if m (str + len) \<noteq> 0 then kstrlen_loop m str (len + 1) else Some len)"

definition kstrlen :: "mem \<Rightarrow> u32 \<Rightarrow> u32 option" where
  "kstrlen m str = (if str = 0 then Some 0 else kstrlen_loop m str 0)"

partial_function (option) kstrcat_loop :: "u32 \<Rightarrow> u32 \<Rightarrow> mem \<Rightarrow> mem option" where
  "kstrcat_loop ptr source m =
     (if m source \<noteq> 0 then kstrcat_loop (ptr + 1) (source + 1) (m(ptr := m source))
      else Some (m(ptr := 0)))"

definition kstrcat :: "mem \<Rightarrow> u32 \<Rightarrow> u32 \<Rightarrow> (u32 \<times> mem) option" where
  "kstrcat m destination source =
     (if destination = 0 \<or> source = 0 then Some (0, m)
      else do {
        l \<leftarrow> kstrlen m destination;
        m' \<leftarrow> kstrcat_loop (destination + l) source m;
        Some (destination, m')
      })"

function kstrncat_loop :: "u32 \<Rightarrow> u32 \<Rightarrow> u32 \<Rightarrow> mem \<Rightarrow> mem" where
  "kstrncat_loop ptr source num m =
     (if m source \<noteq> 0 \<and> 0 < num
      then kstrncat_loop (ptr + 1) (source + 1) (num - 1) (m(ptr := m source))
      else m(ptr := 0))"
  by pat_completeness auto
termination
  by (relation "measure (\<lambda>(_, _, num, _). unat num)")
    (auto intro: measure_unat simp: word_gt_0)

declare kstrncat_loop.simps [simp del]

definition kstrncat :: "mem \<Rightarrow> u32 \<Rightarrow> u32 \<Rightarrow> u32 \<Rightarrow> (u32 \<times> mem) option" where
  "kstrncat m destination source num =
     (if destination = 0 \<or> source = 0 then Some (0, m)
      else do {
        length_of_str \<leftarrow> kstrlen m destination;
        Some (destination,
          kstrncat_loop (destination + length_of_str) source (num - (length_of_str + 1)) m)
      })"

definition kstrchr :: "mem \<Rightarrow> u32 \<Rightarrow> u32 \<Rightarrow> u32 option" where
  "kstrchr m str character =
     (if str = 0 then Some 0
      else do {
        len \<leftarrow> kstrlen m str;
        Some (if (ucast character :: u8) = 0 then str + len
              else case for_ret 0 len
                (\<lambda>index (_ :: unit). if m (str + index) = ucast character then Inl (str + index) else Inr ()) ()
              of Inl r \<Rightarrow> r | Inr _ \<Rightarrow> 0)
      })"

function kstrrchr_loop :: "mem \<Rightarrow> u32 \<Rightarrow> u32 \<Rightarrow> u8 \<Rightarrow> u32" where
  "kstrrchr_loop m str len c =
     (if len \<noteq> 0
      then (if m (str + (len - 1)) = c then str + (len - 1) else kstrrchr_loop m str (len - 1) c)
      else 0)"
  by pat_completeness auto
termination
  by (relation "measure (\<lambda>(_, _, len, _). unat len)") (auto intro: measure_unat)

declare kstrrchr_loop.simps [simp del]

definition kstrrchr :: "mem \<Rightarrow> u32 \<Rightarrow> u32 \<Rightarrow> u32 option" where
  "kstrrchr m str character =
     (if str = 0 then Some 0
      else do {
        len \<leftarrow> kstrlen m str;
        Some (if (ucast character :: u8) = 0 then str + len
              else kstrrchr_loop m str len (ucast character))
      })"

partial_function (option) kstrcmp_index :: "mem \<Rightarrow> u32 \<Rightarrow> u32 \<Rightarrow> u32 \<Rightarrow> u32 option" where
  "kstrcmp_index m lhs rhs i =
     (if m (lhs + i) \<noteq> 0 \<and> m (rhs + i) \<noteq> 0 \<and> m (lhs + i) = m (rhs + i)
      then kstrcmp_index m lhs rhs (i + 1) else Some i)"

definition char_cmp :: "u8 \<Rightarrow> u8 \<Rightarrow> int" where
  "char_cmp c d = (if sint c < sint d then - 1 else if sint c > sint d then 1 else 0)"

definition kstrcmp :: "mem \<Rightarrow> u32 \<Rightarrow> u32 \<Rightarrow> int option" where
  "kstrcmp m lhs rhs =
     (if lhs = 0 \<or> rhs = 0 then Some (- 2)
      else do {
        i \<leftarrow> kstrcmp_index m lhs rhs 0;
        Some (char_cmp (m (lhs + i)) (m (rhs + i)))
      })"

definition kstrncmp :: "mem \<Rightarrow> u32 \<Rightarrow> u32 \<Rightarrow> u32 \<Rightarrow> int" where
  "kstrncmp m lhs rhs sz =
     (if lhs = 0 \<or> rhs = 0 then - 2
      else case for_ret 0 sz
             (\<lambda>index (_ :: unit).
                if sint (m (lhs + index)) < sint (m (rhs + index)) then Inl (- 1)
                else if sint (m (lhs + index)) > sint (m (rhs + index)) then Inl 1
                else Inr ()) ()
           of Inl r \<Rightarrow> r | Inr _ \<Rightarrow> 0)"

partial_function (option) kstrcpy_loop :: "u32 \<Rightarrow> u32 \<Rightarrow> u32 \<Rightarrow> mem \<Rightarrow> mem option" where
  "kstrcpy_loop destination source len m =
     (if m (source + len) \<noteq> 0
      then kstrcpy_loop destination source (len + 1) (m(destination + len := m (source + len)))
      else Some (m(destination + len := 0)))"

definition kstrcpy :: "mem \<Rightarrow> u32 \<Rightarrow> u32 \<Rightarrow> (u32 \<times> mem) option" where
  "kstrcpy m destination source =
     (if destination = 0 \<or> source = 0 then Some (0, m)
      else do {
        m' \<leftarrow> kstrcpy_loop destination source 0 m;
        Some (destination, m')
      })"

definition kstrncpy :: "mem \<Rightarrow> u32 \<Rightarrow> u32 \<Rightarrow> u32 \<Rightarrow> (u32 \<times> mem) option" where
  "kstrncpy m destination source num =
     (if destination = 0 \<or> source = 0 then Some (0, m)
      else if num = 0 then Some (destination, m)
      else do {
        size \<leftarrow> kstrlen m source;
        (let len = min (num - 1) size;
             m' = for_up 0 len (\<lambda>i t. t(destination + i := t (source + i))) m
         in Some (destination, m'(destination + len := 0)))
      })"

text \<open>
  \<open>kstrspn\<close> compares \<open>int32_t\<close> counters with \<open>(int32_t)kstrlen(..)\<close>: a length of \<open>2^31\<close> or more is
  negative there and the loop does not run, which \<open>signed_bound\<close> writes as the bound 0.
\<close>

definition signed_bound :: "u32 \<Rightarrow> u32" where
  "signed_bound l = (if sint l < 0 then 0 else l)"

definition kstrspn :: "mem \<Rightarrow> u32 \<Rightarrow> u32 \<Rightarrow> u32 option" where
  "kstrspn m str1 str2 =
     (if str1 = 0 \<or> str2 = 0 then Some (- 1)
      else do {
        l1 \<leftarrow> kstrlen m str1;
        if signed_bound l1 = 0 then Some l1
        else do {
          l2 \<leftarrow> kstrlen m str2;
          Some (case for_ret 0 (signed_bound l1)
            (\<lambda>i (_ :: unit).
               (case for_ret 0 (signed_bound l2)
                  (\<lambda>j (_ :: unit). if m (str1 + i) = m (str2 + j) then Inl () else Inr ()) ()
                of Inl _ \<Rightarrow> Inr () | Inr _ \<Rightarrow> Inl i)) ()
           of Inl i \<Rightarrow> i | Inr _ \<Rightarrow> l1)
        }
      })"

section \<open>Numbers\<close>

definition digit_char :: "bool \<Rightarrow> u32 \<Rightarrow> u8" where
  "digit_char lowercase d =
     (if d < 10 then ucast (d + 48) else if \<not> lowercase then ucast (d + 55) else ucast (d + 87))"

partial_function (option) itoa_digits ::
  "u32 \<Rightarrow> u32 \<Rightarrow> u32 \<Rightarrow> bool \<Rightarrow> u64 \<Rightarrow> u32 \<Rightarrow> mem \<Rightarrow> (u32 \<times> mem) option" where
  "itoa_digits string_ret ret_size base lowercase input index m =
     (if base = 0 then None
      else let current_input = ucast (input mod ucast base) :: u32;
               input' = c_sdiv input (ucast base);
               current_char = digit_char lowercase current_input;
               m' = (if index < ret_size then m(string_ret + index := current_char) else m);
               index' = (if index < ret_size then index + 1 else index)
           in if input' \<noteq> 0
              then itoa_digits string_ret ret_size base lowercase input' index' m'
              else Some (index', m'))"

definition itoa_reverse :: "u32 \<Rightarrow> u32 \<Rightarrow> mem \<Rightarrow> mem" where
  "itoa_reverse string_ret index m =
     (let start_index = (if m string_ret = 45 then 1 else 0)
      in for_up 0 (index div 2)
           (\<lambda>i t. let temp = t (string_ret + (i + start_index));
                       t1 = t(string_ret + (i + start_index) := t (string_ret + (index - i - 1)))
                   in t1(string_ret + (index - i - 1) := temp)) m)"

definition kint_to_string ::
  "mem \<Rightarrow> u64 \<Rightarrow> u32 \<Rightarrow> u32 \<Rightarrow> u32 \<Rightarrow> bool \<Rightarrow> (u32 \<times> mem) option" where
  "kint_to_string m input string_ret ret_size base lowercase =
     (if string_ret = 0 then Some (0, m)
      else do {
        (let neg = 0 < ret_size \<and> sint input < 0;
             m1 = (if neg then m(string_ret := 45) else m);
             input1 = (if neg then input * (- 1) else input)
         in do {
           (index, m2) \<leftarrow> itoa_digits string_ret ret_size base lowercase input1 (if neg then 1 else 0) m1;
           (let m3 = (if index < ret_size then m2(string_ret + index := 0) else m2)
            in Some (string_ret, itoa_reverse string_ret index m3))
         })
      })"

definition kint_to_char :: "u8 \<Rightarrow> u8" where
  "kint_to_char i = (if 0 \<le> sint i \<and> sint i \<le> 9 then 48 + i else 0)"

definition kchar_to_int :: "u8 \<Rightarrow> u8" where
  "kchar_to_int c = c - 48"

section \<open>Blocks: closed forms\<close>

lemma copy_loop:
  fixes d s n :: u32
  assumes disj: "\<And>a. a - d < n \<Longrightarrow> \<not> a - s < n"
  shows "for_up 0 n (\<lambda>i t. t(d + i := t (s + i))) m = (\<lambda>a. if a - d < n then m (s + (a - d)) else m a)"
proof -
  let ?P = "\<lambda>k t. t = (\<lambda>a. if a - d < k then m (s + (a - d)) else m a)"
  have "?P n (for_up 0 n (\<lambda>i t. t(d + i := t (s + i))) m)"
  proof (rule for_up_invariant [where P = ?P])
    fix k t assume k: "k < n" and t: "?P k t"
    have "\<not> (s + k) - d < n" using disj [of "s + k"] k by auto
    then have "\<not> (s + k) - d < k" using k by (meson order.strict_trans)
    then have "t (s + k) = m (s + k)" using t by simp
    then show "?P (k + 1) (t(d + k := t (s + k)))"
      using t by (auto simp: fun_eq_iff window_Suc [OF k])
  qed (auto simp: fun_eq_iff)
  then show ?thesis .
qed

lemma fill_loop:
  "for_up 0 n (\<lambda>i t. t(p + i := v)) m = (\<lambda>a :: u32. if a - p < n then v else m a)"
proof -
  let ?P = "\<lambda>k t. t = (\<lambda>a. if a - p < k then v else m a)"
  have "?P n (for_up 0 n (\<lambda>i t. t(p + i := v)) m)"
    by (rule for_up_invariant [where P = ?P]) (auto simp: fun_eq_iff window_Suc)
  then show ?thesis .
qed

lemma unat_minus_one: "n \<noteq> 0 \<Longrightarrow> unat (n - 1 :: u32) = unat n - 1"
  by (simp add: unat_minus_one)

lemma sum_no_wrap:
  "0 < unat a + unat b \<Longrightarrow> unat a + unat b < 2 ^ 32 \<Longrightarrow> (a :: u32) + b \<noteq> 0"
proof
  assume "0 < unat a + unat b" "unat a + unat b < 2 ^ 32" and z: "a + b = 0"
  then have "unat (a + b) = unat a + unat b" by (intro unat_add_small) simp
  then show False using z \<open>0 < unat a + unat b\<close> by simp
qed

text \<open>
  Both directions copy the whole block as it was, for windows that overlap in the direction the
  loop is used for: forward with the source above, backward with the source below.
\<close>

lemma move_forward_spec:
  assumes "s - d \<noteq> 0" and "unat (s - d) + unat n \<le> 2 ^ 32"
  shows "move_forward d s n m = (\<lambda>a. if a - d < n then m (s + (a - d)) else m a)"
  using assms
proof (induction d s n m rule: move_forward.induct)
  case (1 d s n m)
  show ?case
  proof (cases "n = 0")
    case True
    then show ?thesis by (subst move_forward.simps) simp
  next
    case False
    then have n: "unat (n - 1) = unat n - 1" and pos: "0 < unat n"
      by (auto simp: unat_minus_one unat_gt_0)
    have "move_forward d s n m = move_forward (d + 1) (s + 1) (n - 1) (m(d := m s))"
      using False by (subst move_forward.simps) simp
    also have "\<dots> =
        (\<lambda>a. if a - (d + 1) < n - 1 then (m(d := m s)) (s + 1 + (a - (d + 1))) else (m(d := m s)) a)"
      using "1.prems" n by (intro "1.IH" [OF False]) auto
    also have "\<dots> = (\<lambda>a. if a - d < n then m (s + (a - d)) else m a)"
    proof
      fix a
      have win: "(a - d < n) = (a = d \<or> a - (d + 1) < n - 1)"
      proof (cases "a = d")
        case False
        then have "a - d \<noteq> 0" by simp
        then have "unat (a - d - 1) = unat (a - d) - 1" "0 < unat (a - d)"
          by (auto simp: unat_minus_one unat_gt_0)
        then show ?thesis using False n pos by (auto simp: word_less_nat_alt diff_diff_eq)
      qed (use pos in \<open>simp add: word_less_nat_alt\<close>)
      have far: "s + (a - d) \<noteq> d" if "a - d < n" "a \<noteq> d"
      proof -
        have "unat (a - d) < unat n" using that by (simp add: word_less_nat_alt)
        moreover have "0 < unat (s - d)" using "1.prems"(1) by (simp add: unat_gt_0)
        ultimately have "(s - d) + (a - d) \<noteq> 0"
          using "1.prems"(2) by (intro sum_no_wrap) auto
        then show ?thesis by (auto simp: algebra_simps)
      qed
      show "(if a - (d + 1) < n - 1 then (m(d := m s)) (s + 1 + (a - (d + 1))) else (m(d := m s)) a)
          = (if a - d < n then m (s + (a - d)) else m a)"
      proof (cases "a = d")
        case True
        have "\<not> (- 1 :: u32) < n - 1" by (simp add: not_less word_n1_ge)
        then show ?thesis using True win by auto
      next
        case False
        then show ?thesis using win far by (auto simp: algebra_simps)
      qed
    qed
    finally show ?thesis .
  qed
qed

lemma move_backward_spec:
  assumes "unat (d - s) + unat n \<le> 2 ^ 32"
  shows "move_backward d s n m = (\<lambda>a. if d - 1 - a < n then m (s - (d - a)) else m a)"
  using assms
proof (induction d s n m rule: move_backward.induct)
  case (1 d s n m)
  show ?case
  proof (cases "n = 0")
    case True
    then show ?thesis by (subst move_backward.simps) simp
  next
    case False
    then have n: "unat (n - 1) = unat n - 1" and pos: "0 < unat n"
      by (auto simp: unat_minus_one unat_gt_0)
    let ?m' = "m(d - 1 := m (s - 1))"
    have "move_backward d s n m = move_backward (d - 1) (s - 1) (n - 1) ?m'"
      using False by (subst move_backward.simps) simp
    also have "\<dots> = (\<lambda>a. if d - 1 - 1 - a < n - 1 then ?m' (s - 1 - (d - 1 - a)) else ?m' a)"
      using "1.prems" n by (intro "1.IH" [OF False]) auto
    also have "\<dots> = (\<lambda>a. if d - 1 - a < n then m (s - (d - a)) else m a)"
    proof
      fix a
      show "(if d - 1 - 1 - a < n - 1 then ?m' (s - 1 - (d - 1 - a)) else ?m' a)
          = (if d - 1 - a < n then m (s - (d - a)) else m a)"
      proof (cases "a = d - 1")
        case True
        have "\<not> (- 1 :: u32) < n - 1" by (simp add: not_less word_n1_ge)
        then show ?thesis using True pos by (simp add: word_less_nat_alt)
      next
        case False
        let ?k = "d - 1 - a"
        have "?k \<noteq> 0" using False by (auto simp: algebra_simps)
        then have k: "unat (?k - 1) = unat ?k - 1" "0 < unat ?k"
          by (rule unat_minus_one, rule unat_gt_0 [THEN iffD2])
        then have win: "(d - 1 - 1 - a < n - 1) = (?k < n)"
          using n pos by (auto simp: word_less_nat_alt algebra_simps)
        have "s - 1 - (d - 1 - a) \<noteq> d - 1" if "?k < n"
        proof -
          have "unat ?k < unat n" using that by (simp add: word_less_nat_alt)
          then have "(d - s) + ?k \<noteq> 0" using "1.prems" k(2) by (intro sum_no_wrap) auto
          then show ?thesis by (auto simp: algebra_simps)
        qed
        then show ?thesis using win False by (auto simp: algebra_simps)
      qed
    qed
    finally show ?thesis .
  qed
qed

lemma window_complement: "n \<noteq> 0 \<Longrightarrow> (n - 1 - x < n) = (x < (n :: u32))"
  by uint_arith

text \<open>\<open>kmemmove\<close> copies the block as it was before the call, however the windows overlap.\<close>

lemma kmemmove_block:
  assumes "destination \<noteq> 0" "source \<noteq> 0"
    and "unat destination + unat num \<le> 2 ^ 32" "unat source + unat num \<le> 2 ^ 32"
  shows "kmemmove m destination source num =
    (destination, \<lambda>a. if a - destination < num then m (source + (a - destination)) else m a)"
proof -
  let ?d = destination and ?s = source and ?n = num
  let ?copy = "\<lambda>a. if a - ?d < ?n then m (?s + (a - ?d)) else m a"
  consider "?d = ?s \<or> ?n = 0" | "?d \<noteq> ?s" "?n \<noteq> 0" "?d < ?s" | "?d \<noteq> ?s" "?n \<noteq> 0" "\<not> ?d < ?s"
    by blast
  then show ?thesis
  proof cases
    case 1
    then show ?thesis using assms(1,2) by (auto simp: kmemmove_def)
  next
    case 2
    have "unat (?s - ?d) = unat ?s - unat ?d"
      using 2(3) by (simp add: unat_sub word_less_nat_alt word_le_nat_alt)
    then have "move_forward ?d ?s ?n m = ?copy"
      using 2 assms(4) by (intro move_forward_spec) auto
    then show ?thesis using 2 assms(1,2) by (simp add: kmemmove_def)
  next
    case 3
    have "unat (?d - ?s) = unat ?d - unat ?s"
      using 3(3) by (simp add: unat_sub word_less_nat_alt word_le_nat_alt)
    then have "move_backward (?d + ?n) (?s + ?n) ?n m
        = (\<lambda>a. if ?d + ?n - 1 - a < ?n then m (?s + ?n - (?d + ?n - a)) else m a)"
      using 3 assms(3) by (intro move_backward_spec) auto
    also have "\<dots> = ?copy"
    proof -
      have "(?d + ?n - 1 - a < ?n) = (a - ?d < ?n)" for a
      proof -
        have e: "?d + ?n - 1 - a = ?n - 1 - (a - ?d)" by simp
        show ?thesis unfolding e by (rule window_complement [OF 3(2)])
      qed
      moreover have "?s + ?n - (?d + ?n - a) = ?s + (a - ?d)" for a by (simp add: algebra_simps)
      ultimately show ?thesis by (simp only: fun_eq_iff) blast
    qed
    finally show ?thesis using 3 assms(1,2) by (simp add: kmemmove_def)
  qed
qed

section \<open>Strings: results on stored strings\<close>

lemma kstrlen_loop_cstr: "cstr m (p + l) s \<Longrightarrow> kstrlen_loop m p l = Some (l + of_nat (length s))"
proof (induction s arbitrary: l)
  case Nil
  then show ?case by (subst kstrlen_loop.simps) simp
next
  case (Cons c cs)
  then have "cstr m (p + (l + 1)) cs" by (simp add: add.assoc)
  then have "kstrlen_loop m p (l + 1) = Some (l + 1 + of_nat (length cs))" by (rule Cons.IH)
  moreover have "kstrlen_loop m p l = kstrlen_loop m p (l + 1)"
    using Cons.prems by (subst kstrlen_loop.simps) simp
  ultimately show ?case by (simp add: add.assoc)
qed

lemma kstrlen_cstr: "p \<noteq> 0 \<Longrightarrow> cstr m p s \<Longrightarrow> kstrlen m p = Some (of_nat (length s))"
  using kstrlen_loop_cstr [of m p 0 s] by (simp add: kstrlen_def)

text \<open>What the copy loop of \<open>kstrcat\<close> and \<open>kstrcpy\<close> writes: the bytes and the terminator.\<close>

lemma kstrcat_loop_cstr:
  assumes "cstr m s t" and "\<And>i j. \<lbrakk> i \<le> length t; j \<le> length t \<rbrakk> \<Longrightarrow> d + of_nat i \<noteq> s + of_nat j"
  shows "\<exists>m'. kstrcat_loop d s m = Some m' \<and> cstr m' d t \<and>
    (\<forall>a. (\<forall>i \<le> length t. a \<noteq> d + of_nat i) \<longrightarrow> m' a = m a)"
  using assms
proof (induction t arbitrary: d s m)
  case Nil
  then show ?case by (subst kstrcat_loop.simps) auto
next
  case (Cons c t)
  let ?m = "m(d := m s)"
  have apart: "d + 1 + of_nat i \<noteq> s + 1 + of_nat j" if "i \<le> length t" "j \<le> length t" for i j
    using Cons.prems(2) [of "Suc i" "Suc j"] that by (simp add: add.assoc)
  have "cstr ?m (s + 1) t"
  proof (rule cstr_frame)
    show "cstr m (s + 1) t" using Cons.prems(1) by simp
    show "?m (s + 1 + of_nat i) = m (s + 1 + of_nat i)" if "i \<le> length t" for i
      using Cons.prems(2) [of 0 "Suc i"] that by (auto simp: add.assoc)
  qed
  from Cons.IH [OF this apart]
  obtain m' where m': "kstrcat_loop (d + 1) (s + 1) ?m = Some m'" "cstr m' (d + 1) t"
    and keep: "\<And>a. (\<forall>i \<le> length t. a \<noteq> d + 1 + of_nat i) \<Longrightarrow> m' a = ?m a" by metis
  have far: "d \<noteq> d + 1 + of_nat i" if "i \<le> length t" for i
  proof
    assume "d = d + 1 + of_nat i"
    then have z: "(of_nat (Suc i) :: u32) = 0" by (simp add: algebra_simps)
    have "Suc i < 2 ^ 32"
      using that cstr_length [OF Cons.prems(1)] by simp
    then show False using unat_of_nat_small [where 'a = 32, of "Suc i"] z by simp
  qed
  have "m' d = c" using keep [of d] far Cons.prems(1) by simp
  moreover have "kstrcat_loop d s m = Some m'"
    using Cons.prems(1) m'(1) by (subst kstrcat_loop.simps) simp
  moreover have "m' a = m a" if "\<forall>i \<le> length (c # t). a \<noteq> d + of_nat i" for a
  proof -
    have "a \<noteq> d + 1 + of_nat i" if "i \<le> length t" for i
      using \<open>\<forall>i \<le> length (c # t). a \<noteq> d + of_nat i\<close> [rule_format, of "Suc i"] that
      by (simp add: add.assoc)
    moreover have "a \<noteq> d"
      using \<open>\<forall>i \<le> length (c # t). a \<noteq> d + of_nat i\<close> [rule_format, of 0] by simp
    ultimately show ?thesis using keep [of a] by simp
  qed
  ultimately show ?case using m'(2) Cons.prems(1) by auto
qed

lemma cstr_append:
  "cstr m p s \<Longrightarrow> cstr m' (p + of_nat (length s)) t \<Longrightarrow>
   (\<And>i. i < length s \<Longrightarrow> m' (p + of_nat i) = m (p + of_nat i)) \<Longrightarrow> cstr m' p (s @ t)"
proof (induction s arbitrary: p)
  case (Cons c s)
  have "cstr m' (p + 1) (s @ t)"
  proof (rule Cons.IH)
    show "cstr m (p + 1) s" using Cons.prems(1) by simp
    show "cstr m' (p + 1 + of_nat (length s)) t" using Cons.prems(2) by (simp add: add.assoc)
    show "m' (p + 1 + of_nat i) = m (p + 1 + of_nat i)" if "i < length s" for i
      using Cons.prems(3) [of "Suc i"] that by (simp add: add.assoc)
  qed
  then show ?case using Cons.prems(1) Cons.prems(3) [of 0] by auto
qed simp

lemma kstrcat_block:
  assumes "d \<noteq> 0" "s \<noteq> 0" "cstr m d x" "cstr m s y"
    and room: "length x + length y < 2 ^ 32"
    and apart: "\<And>i j. \<lbrakk> i \<le> length x + length y; j \<le> length y \<rbrakk> \<Longrightarrow> d + of_nat i \<noteq> s + of_nat j"
  shows "\<exists>m'. kstrcat m d s = Some (d, m') \<and> cstr m' d (x @ y)"
proof -
  have "d + of_nat (length x) + of_nat i \<noteq> s + of_nat j" if "i \<le> length y" "j \<le> length y" for i j
    using apart [of "length x + i" j] that by (simp add: add.assoc)
  from kstrcat_loop_cstr [OF assms(4) this]
  obtain m' where m': "kstrcat_loop (d + of_nat (length x)) s m = Some m'"
      "cstr m' (d + of_nat (length x)) y"
    and keep: "\<And>a. (\<forall>i \<le> length y. a \<noteq> d + of_nat (length x) + of_nat i) \<Longrightarrow> m' a = m a"
    by metis
  have "cstr m' d (x @ y)"
  proof (rule cstr_append [OF assms(3) m'(2)])
    fix i assume i: "i < length x"
    have "d + of_nat i \<noteq> d + of_nat (length x) + of_nat k" if "k \<le> length y" for k
    proof
      assume "d + of_nat i = d + of_nat (length x) + of_nat k"
      then have "(of_nat i :: u32) = of_nat (length x + k)" by (simp add: algebra_simps)
      then have "i = length x + k"
        using of_nat_eq_iff_small [where 'a = 32, of i "length x + k"] i that room by simp
      then show False using i by simp
    qed
    then show "m' (d + of_nat i) = m (d + of_nat i)" by (intro keep) auto
  qed
  then show ?thesis using assms(1,2) kstrlen_cstr [OF assms(1,3)] m'(1)
    by (simp add: kstrcat_def)
qed

text \<open>\<open>kstrcmp\<close> decides by the first difference, the NUL included, as signed characters.\<close>

fun cmp_spec :: "u8 list \<Rightarrow> u8 list \<Rightarrow> int" where
  "cmp_spec (c # s) (d # t) = (if c = d then cmp_spec s t else char_cmp c d)"
| "cmp_spec (c # s) [] = char_cmp c 0"
| "cmp_spec [] (d # t) = char_cmp 0 d"
| "cmp_spec [] [] = 0"

lemma char_cmp_refl [simp]: "char_cmp c c = 0"
  by (simp add: char_cmp_def)

lemma char_cmp_eq_0: "char_cmp c d = 0 \<longleftrightarrow> c = d"
  by (auto simp: char_cmp_def not_less intro: sint_eqD split: if_splits)

lemma cmp_spec_eq_0: "0 \<notin> set s \<Longrightarrow> 0 \<notin> set t \<Longrightarrow> cmp_spec s t = 0 \<longleftrightarrow> s = t"
  by (induction s t rule: cmp_spec.induct) (auto simp: char_cmp_eq_0)

lemma kstrcmp_index_cstr:
  "cstr m (p + i) s \<Longrightarrow> cstr m (q + i) t \<Longrightarrow>
   \<exists>k. kstrcmp_index m p q i = Some k \<and> char_cmp (m (p + k)) (m (q + k)) = cmp_spec s t"
proof (induction s t arbitrary: i rule: cmp_spec.induct)
  case (1 c s d t)
  show ?case
  proof (cases "c = d")
    case True
    have "cstr m (p + (i + 1)) s" "cstr m (q + (i + 1)) t"
      using "1.prems" by (simp_all add: add.assoc)
    from "1.IH" [OF True this] show ?thesis
      using "1.prems" True by (subst kstrcmp_index.simps) simp
  next
    case False
    then show ?thesis using "1.prems" by (subst kstrcmp_index.simps) simp
  qed
qed (subst kstrcmp_index.simps, simp)+

lemma kstrcmp_cstr:
  "\<lbrakk> p \<noteq> 0; q \<noteq> 0; cstr m p s; cstr m q t \<rbrakk> \<Longrightarrow> kstrcmp m p q = Some (cmp_spec s t)"
  using kstrcmp_index_cstr [of m p 0 s q t] by (auto simp: kstrcmp_def)

lemma kstrcmp_eq_0:
  "\<lbrakk> p \<noteq> 0; q \<noteq> 0; cstr m p s; cstr m q t \<rbrakk> \<Longrightarrow> kstrcmp m p q = Some 0 \<longleftrightarrow> s = t"
  by (simp add: kstrcmp_cstr cmp_spec_eq_0 cstr_nonzero)

section \<open>Numerals: \<open>kint_to_string\<close> prints the number\<close>

function digits_rev :: "nat \<Rightarrow> nat \<Rightarrow> nat list" where
  "digits_rev b n = (n mod b) # (if b < 2 \<or> n div b = 0 then [] else digits_rev b (n div b))"
  by pat_completeness auto
termination
  by (relation "measure snd") (auto intro: div_less_dividend simp: div_eq_0_iff)

declare digits_rev.simps [simp del]

fun digits_value :: "nat \<Rightarrow> nat list \<Rightarrow> nat" where
  "digits_value b [] = 0"
| "digits_value b (d # ds) = d + b * digits_value b ds"

lemma digits_value_rev: "1 < b \<Longrightarrow> digits_value b (digits_rev b n) = n"
proof (induction b n rule: digits_rev.induct)
  case (1 b n)
  then show ?case
    by (subst digits_rev.simps) (auto simp: mod_mult_div_eq dest: div_eq_0_iff [THEN iffD1])
qed

lemma digits_rev_bound: "1 < b \<Longrightarrow> d \<in> set (digits_rev b n) \<Longrightarrow> d < b"
proof (induction b n rule: digits_rev.induct)
  case (1 b n)
  then show ?case by (subst (asm) digits_rev.simps) (auto split: if_splits)
qed

lemma digits_rev_length: "1 < b \<Longrightarrow> n < 2 ^ k \<Longrightarrow> length (digits_rev b n) \<le> max 1 k"
proof (induction b n arbitrary: k rule: digits_rev.induct)
  case (1 b n)
  show ?case
  proof (cases "n div b = 0")
    case True
    then show ?thesis by (subst digits_rev.simps) simp
  next
    case False
    have "n \<ge> b" using False by (simp add: div_eq_0_iff)
    then have "n \<noteq> 0" "2 \<le> n" using "1.prems"(1) by auto
    then obtain j where k: "k = Suc j" using "1.prems"(2) by (cases k) auto
    have "n div b \<le> n div 2" using "1.prems"(1) by (simp add: div_le_mono2)
    moreover have "n div 2 < 2 ^ j" using "1.prems"(2) k by (simp add: less_mult_imp_div_less)
    ultimately have "length (digits_rev b (n div b)) \<le> max 1 j"
      using "1.IH" False "1.prems"(1) by (auto intro: le_less_trans)
    moreover have "j \<noteq> 0" using "1.prems"(2) k \<open>2 \<le> n\<close> by (cases j) auto
    ultimately show ?thesis using k False by (subst digits_rev.simps) auto
  qed
qed

lemma ucast_base: "unat (ucast (b :: u32) :: u64) = unat b"
  using unat_less_u32 [of b] by (simp add: unsigned_ucast_eq take_bit_nat_eq_self)

lemma sint_ucast_base: "\<not> sint (ucast (b :: u32) :: u64) < 0"
  using unat_less_u32 [of b] sint_of_small [of "ucast b :: u64"] by (simp add: ucast_base)

lemma offset_distinct:
  fixes q :: u32
  assumes "i < 2 ^ 32" "j < 2 ^ 32"
  shows "q + of_nat i = q + of_nat j \<longleftrightarrow> i = j"
  using of_nat_eq_iff_small [where 'a = 32, of i j] assms by simp

text \<open>The bytes \<open>xs\<close> at \<open>p\<close>, and nothing else, are written.\<close>

definition written :: "mem \<Rightarrow> u32 \<Rightarrow> u8 list \<Rightarrow> mem \<Rightarrow> bool" where
  "written m p xs m' \<longleftrightarrow> (\<forall>k < length xs. m' (p + of_nat k) = xs ! k) \<and>
     (\<forall>a. (\<forall>k < length xs. a \<noteq> p + of_nat k) \<longrightarrow> m' a = m a)"

lemma written_Cons:
  assumes w: "written (m(p := x)) (p + 1) xs m'" and len: "length xs + 1 < 2 ^ 32"
  shows "written m p (x # xs) m'"
proof -
  have "p \<noteq> p + 1 + of_nat k" if "k < length xs" for k
    using offset_distinct [of 0 "Suc k" p] that len by (simp add: add.assoc)
  then have "m' p = x" using w by (simp add: written_def)
  then have "m' (p + of_nat k) = (x # xs) ! k" if "k < length (x # xs)" for k
    using that w by (cases k) (auto simp: written_def add_ac)
  moreover have "m' a = m a" if a: "\<forall>k < length (x # xs). a \<noteq> p + of_nat k" for a
    using w a [rule_format, of 0] a [rule_format, of "Suc _"] by (simp add: written_def add_ac)
  ultimately show ?thesis by (simp add: written_def)
qed

lemma itoa_step:
  fixes p index ret_size base :: u32 and input :: u64 and m :: mem and lc :: bool
  assumes n: "unat input = n" "\<not> sint input < 0" and base: "1 < base" and idx: "index < ret_size"
  defines "quot \<equiv> c_sdiv input (ucast base)" and "m' \<equiv> m(p + index := digit_char lc (of_nat (n mod unat base)))"
  shows "unat quot = n div unat base" "\<not> sint quot < 0"
    "itoa_digits p ret_size base lc input index m =
      (if quot \<noteq> 0 then itoa_digits p ret_size base lc quot (index + 1) m' else Some (index + 1, m'))"
proof -
  show quot': "unat quot = n div unat base"
    using n(1) c_sdiv_nonneg [OF n(2) sint_ucast_base] by (simp add: ucast_base quot_def)
  have "n div unat base \<le> n" by simp
  then have "unat quot < 2 ^ (LENGTH(64) - 1)"
    using small_of_sint [OF n(2)] unfolding quot' n(1) by (rule le_less_trans)
  then show "\<not> sint quot < 0" by (simp add: sint_of_small)
  have "unat (input mod ucast base) = n mod unat base" using n(1) by (simp add: unat_mod_distrib ucast_base)
  then have "ucast (input mod ucast base) = (of_nat (n mod unat base) :: u32)" by (metis of_nat_unat)
  moreover have "base \<noteq> 0" using base by auto
  ultimately show "itoa_digits p ret_size base lc input index m =
      (if quot \<noteq> 0 then itoa_digits p ret_size base lc quot (index + 1) m' else Some (index + 1, m'))"
    using idx by (subst itoa_digits.simps) (simp add: Let_def quot_def m'_def)
qed

lemma itoa_digits_spec:
  assumes "unat input = n" "\<not> sint input < 0" "1 < base"
    and "unat index + length (digits_rev (unat base) n) < unat ret_size"
  shows "\<exists>m'. itoa_digits p ret_size base lc input index m = Some (index + of_nat (length (digits_rev (unat base) n)), m') \<and>
    written m (p + index) (map (\<lambda>d. digit_char lc (of_nat d)) (digits_rev (unat base) n)) m'"
  using assms
proof (induction "unat base" n arbitrary: input index m rule: digits_rev.induct)
  case (1 n)
  let ?b = "unat base" and ?chars = "map (\<lambda>d. digit_char lc (of_nat d))"
  let ?m = "m(p + index := digit_char lc (of_nat (n mod ?b)))" and ?next = "c_sdiv input (ucast base)"
  have b: "1 < ?b" using "1.prems"(3) by (simp add: word_less_nat_alt)
  have idx: "index < ret_size" using "1.prems"(4) by (simp add: word_less_nat_alt)
  note step = itoa_step [OF "1.prems"(1-3) idx]
  show ?case
  proof (cases "n div ?b = 0")
    case True
    then have "?next = 0" using step(1) by (simp add: unat_eq_0)
    moreover have "digits_rev ?b n = [n mod ?b]" using True by (subst digits_rev.simps) simp
    moreover have "written m (p + index) [x] (m(p + index := x))" for x by (simp add: written_def)
    ultimately show ?thesis using step(3) by simp
  next
    case False
    let ?ds = "digits_rev ?b (n div ?b)"
    have ds: "digits_rev ?b n = (n mod ?b) # ?ds" using False b by (subst digits_rev.simps) simp
    have len: "unat (index + 1) + length ?ds < unat ret_size" "length ?ds + 1 < 2 ^ 32"
      using "1.prems"(4) ds unat_Suc_less [OF idx] unat_less_u32 [of ret_size] by simp_all
    have "\<not> (?b < 2 \<or> n div ?b = 0)" using False b by simp
    from "1.hyps" [OF this step(1,2) "1.prems"(3) len(1), of ?m] obtain m' where
      m': "itoa_digits p ret_size base lc ?next (index + 1) ?m = Some (index + 1 + of_nat (length ?ds), m')"
        "written ?m (p + index + 1) (?chars ?ds) m'" by (auto simp: add.assoc)
    have "?next \<noteq> 0" using False step(1) by auto
    then show ?thesis using step(3) m'(1) written_Cons [OF m'(2)] len(2) ds by (simp add: add.assoc)
  qed
qed

text \<open>The swap loop reverses the digits; a middle digit may be swapped with itself.\<close>

definition half_reversed :: "mem \<Rightarrow> u32 \<Rightarrow> u8 list \<Rightarrow> nat \<Rightarrow> mem \<Rightarrow> bool" where
  "half_reversed m q xs i t \<longleftrightarrow> written m q
     (map (\<lambda>j. if j < i \<or> length xs - i \<le> j then xs ! (length xs - 1 - j) else xs ! j) [0..<length xs]) t"

lemma reverse_step:
  assumes t: "half_reversed m q xs i t" and i: "i < (length xs + 1) div 2" and len: "length xs < 2 ^ 32"
  shows "half_reversed m q xs (Suc i) ((t(q + of_nat i := t (q + of_nat (length xs - 1 - i))))
    (q + of_nat (length xs - 1 - i) := t (q + of_nat i)))" (is "half_reversed m q xs (Suc i) ?t")
proof -
  let ?L = "length xs"
  have iL: "i < ?L" "?L - 1 - i < ?L" "i \<le> ?L - 1 - i" using i by auto
  have inj: "q + of_nat i = q + of_nat j \<longleftrightarrow> i = j" if "i < ?L" "j < ?L" for i j
    using of_nat_eq_iff_small [where 'a = 32, of i j] that len by simp
  have at: "t (q + of_nat j) = (if j < i \<or> ?L - i \<le> j then xs ! (?L - 1 - j) else xs ! j)" if "j < ?L" for j
    using t that by (simp add: half_reversed_def written_def)
  have vals: "t (q + of_nat i) = xs ! i" "t (q + of_nat (?L - 1 - i)) = xs ! (?L - 1 - i)"
  proof -
    have "\<not> (i < i \<or> ?L - i \<le> i)" "\<not> (?L - 1 - i < i \<or> ?L - i \<le> ?L - 1 - i)" using iL by linarith+
    then show "t (q + of_nat i) = xs ! i" "t (q + of_nat (?L - 1 - i)) = xs ! (?L - 1 - i)"
      using at [OF iL(1)] at [OF iL(2)] by (simp_all del: of_nat_diff)
  qed
  have "?t (q + of_nat j) = (if j < Suc i \<or> ?L - Suc i \<le> j then xs ! (?L - 1 - j) else xs ! j)" if j: "j < ?L" for j
  proof (cases "j = i \<or> j = ?L - 1 - i")
    case False
    then have "(j < Suc i \<or> ?L - Suc i \<le> j) = (j < i \<or> ?L - i \<le> j)" using j iL by auto
    moreover have "?t (q + of_nat j) = t (q + of_nat j)" using False j iL inj by (simp del: of_nat_diff)
    ultimately show ?thesis using j at by simp
  qed (use j iL vals inj in \<open>auto simp del: of_nat_diff\<close>)
  moreover have "?t a = m a" if "\<forall>j < ?L. a \<noteq> q + of_nat j" for a
    using that iL t by (simp add: half_reversed_def written_def del: of_nat_diff)
  ultimately show ?thesis by (simp add: half_reversed_def written_def)
qed

lemma half_reversed_end:
  assumes "half_reversed m q xs i t" "length xs div 2 \<le> i" "i \<le> (length xs + 1) div 2"
  shows "written m q (rev xs) t"
proof -
  have "(if j < i \<or> length xs - i \<le> j then xs ! (length xs - 1 - j) else xs ! j) = rev xs ! j" if "j < length xs" for j
  proof (cases "j < i \<or> length xs - i \<le> j")
    case True
    then show ?thesis using that by (simp add: rev_nth)
  next
    case False
    then have "length xs - 1 - j = j" using assms(2,3) that by linarith
    then show ?thesis using False that by (simp add: rev_nth)
  qed
  then have "map (\<lambda>j. if j < i \<or> length xs - i \<le> j then xs ! (length xs - 1 - j) else xs ! j) [0..<length xs] = rev xs"
    by (intro nth_equalityI) (simp_all split del: if_split cong: if_cong)
  then show ?thesis using assms(1) by (simp add: half_reversed_def)
qed

lemma reverse_loop:
  fixes q H :: u32 and xs :: "u8 list"
  defines "L \<equiv> length xs"
  defines "swap \<equiv> \<lambda>i (t :: mem). (t(q + i := t (q + (of_nat L - 1 - i))))(q + (of_nat L - 1 - i) := t (q + i))"
  assumes L: "L < 2 ^ 32" "0 < L" and H: "L div 2 \<le> unat H" "unat H \<le> (L + 1) div 2"
    and m: "\<And>j. j < L \<Longrightarrow> m (q + of_nat j) = xs ! j"
  shows "written m q (rev xs) (for_up 0 H swap m)"
proof -
  have "half_reversed m q xs (unat H) (for_up 0 H swap m)"
  proof (rule for_up_invariant [where P = "\<lambda>k t. half_reversed m q xs (unat k) t"])
    fix k :: u32 and t
    assume k: "k < H" and P: "half_reversed m q xs (unat k) t"
    have i: "unat k < (L + 1) div 2" "unat (k + 1) = Suc (unat k)"
      using k H(2) unat_Suc_less [OF k] by (auto simp: word_less_nat_alt)
    have "of_nat L - 1 - k = of_nat (L - 1 - unat k)" using i(1) by (simp add: of_nat_diff)
    then have "swap k t = (t(q + of_nat (unat k) := t (q + of_nat (L - 1 - unat k))))(q + of_nat (L - 1 - unat k) := t (q + of_nat (unat k)))"
      by (simp add: swap_def)
    then show "half_reversed m q xs (unat (k + 1)) (swap k t)"
      using reverse_step [OF P] i L(1) unfolding L_def i(2) by (simp del: of_nat_diff)
  qed (use m L_def in \<open>auto simp: half_reversed_def written_def\<close>)
  then show ?thesis using H unfolding L_def by (rule half_reversed_end)
qed

lemma digit_char_unat:
  "d < 36 \<Longrightarrow> unat (digit_char lc (of_nat d)) =
     (if d < 10 then d + 48 else if \<not> lc then d + 55 else d + 87)"
proof -
  assume d: "d < 36"
  have "unat (of_nat d + of_nat c :: u32) = d + c" if "c < 100" for c
    using that d unat_of_nat_small [where 'a = 32, of "d + c"] by simp
  from this [of 48] this [of 55] this [of 87]
  have s: "unat (of_nat d + 48 :: u32) = d + 48" "unat (of_nat d + 55 :: u32) = d + 55"
    "unat (of_nat d + 87 :: u32) = d + 87" by simp_all
  have "((of_nat d :: u32) < 10) = (d < 10)"
    using d by (simp add: word_less_nat_alt unat_of_nat_small)
  then show ?thesis
    using d s by (simp add: digit_char_def unsigned_ucast_eq take_bit_nat_eq_self)
qed

lemma digit_char_no_sign: "d < 36 \<Longrightarrow> digit_char lc (of_nat d) \<noteq> 0 \<and> digit_char lc (of_nat d) \<noteq> 45"
proof -
  assume "d < 36"
  then have "unat (digit_char lc (of_nat d)) \<noteq> 0" "unat (digit_char lc (of_nat d)) \<noteq> 45"
    by (auto simp: digit_char_unat)
  then show ?thesis by auto
qed

definition numeral_chars :: "nat \<Rightarrow> bool \<Rightarrow> int \<Rightarrow> u8 list" where
  "numeral_chars b lc i = (if i < 0 then [45] else []) @
     map (\<lambda>d. digit_char lc (of_nat d)) (rev (digits_rev b (nat \<bar>i\<bar>)))"

lemma numeral_abs:
  assumes "sint (input :: u64) < 0" "- (2 ^ 63) < sint input"
  shows "unat (input * (- 1)) = nat \<bar>sint input\<bar>" and "\<not> sint (input * (- 1)) < 0"
proof -
  have "unat (word_of_int y :: u64) = nat y" if "0 \<le> y" "y < 2 ^ 63" for y
    using that by (simp add: unsigned_of_int take_bit_int_eq_self)
  from this [of "- sint input"] show u: "unat (input * (- 1)) = nat \<bar>sint input\<bar>"
    using assms by simp
  have "unat (input * (- 1)) < 2 ^ (LENGTH(64) - 1)"
    unfolding u using assms by (simp add: nat_less_iff)
  then show "\<not> sint (input * (- 1)) < 0" by (simp only: sint_of_small)
qed

lemma digits_rev_not_Nil [simp]: "digits_rev b n \<noteq> []"
  by (subst digits_rev.simps) simp

lemma word_div_two: "unat (n div 2 :: u32) = unat n div 2"
  by (simp add: unat_div_distrib)

text \<open>
  The whole conversion: digits, terminator, reversal.  The reversal of a negative numeral starts
  after the sign and its \<open>index / 2\<close> swaps include at most the middle digit with itself.
\<close>

lemma itoa_reverse_string:
  fixes s :: u32 and xs :: "u8 list"
  defines "L \<equiv> length xs"
  assumes s: "s = (if neg then 1 else 0)" and L: "0 < L" "L \<le> 64"
    and digits: "\<And>j. j < L \<Longrightarrow> m (p + s + of_nat j) = xs ! j" and zero: "m (p + s + of_nat L) = 0"
    and sign: "neg \<Longrightarrow> m p = 45" and chars: "0 \<notin> set xs" "45 \<notin> set xs"
  shows "cstr (itoa_reverse p (s + of_nat L) m) p ((if neg then [45] else []) @ rev xs)"
    "\<And>a. (\<And>j. j < L \<Longrightarrow> a \<noteq> p + s + of_nat j) \<Longrightarrow> itoa_reverse p (s + of_nat L) m a = m a"
proof -
  let ?q = "p + s"
  define swap :: "u32 \<Rightarrow> mem \<Rightarrow> mem" where
    "swap = (\<lambda>i t. (t(?q + i := t (?q + (of_nat L - 1 - i))))(?q + (of_nat L - 1 - i) := t (?q + i)))"
  define H where "H = (s + of_nat L) div 2"
  have start: "(if m p = 45 then 1 else 0) = s"
  proof (cases neg)
    case False
    then have "m p = xs ! 0" "xs ! 0 \<in> set xs" using digits [of 0] L(1) by (simp_all add: s L_def)
    then show ?thesis using chars False by (auto simp: s)
  qed (use sign in \<open>simp add: s\<close>)
  have rev: "itoa_reverse p (s + of_nat L) m = for_up 0 H swap m"
    unfolding itoa_reverse_def start Let_def swap_def H_def by (simp add: algebra_simps)
  have "unat (s + of_nat L :: u32) = unat s + L" "unat s \<le> 1"
    using L(2) by (simp_all add: s unat_add_small unat_of_nat_small)
  then have uH: "unat H = (unat s + L) div 2" "unat s \<le> 1" by (simp_all add: H_def word_div_two)
  have "written m ?q (rev xs) (for_up 0 H swap m)"
    using reverse_loop [of xs H m ?q] L uH digits unfolding swap_def L_def by simp
  then have R: "(\<forall>j < L. for_up 0 H swap m (?q + of_nat j) = rev xs ! j) \<and>
    (\<forall>a. (\<forall>j < L. a \<noteq> ?q + of_nat j) \<longrightarrow> for_up 0 H swap m a = m a)"
    by (simp add: written_def L_def)
  then show frame: "itoa_reverse p (s + of_nat L) m a = m a" if "\<And>j. j < L \<Longrightarrow> a \<noteq> p + s + of_nat j" for a
    using that unfolding rev by blast
  have "?q + of_nat L \<noteq> ?q + of_nat j" if "j < L" for j using offset_distinct [of L j ?q] that L(2) by simp
  then have tail: "cstr (itoa_reverse p (s + of_nat L) m) ?q (rev xs)"
    using R [folded rev] frame [of "?q + of_nat L"] zero chars(1) by (intro cstrI) (auto simp: L_def)
  show "cstr (itoa_reverse p (s + of_nat L) m) p ((if neg then [45] else []) @ rev xs)"
  proof (cases neg)
    case True
    then have "p \<noteq> p + s + of_nat j" if "j < L" for j using offset_distinct [of 0 "Suc j" p] that L(2) by (simp add: s add.assoc)
    then show ?thesis using frame [of p] sign tail True by (simp add: s)
  qed (use tail in \<open>simp add: s\<close>)
qed

lemma kint_to_string_block:
  assumes "p \<noteq> 0" "1 < base" "unat base \<le> 36" "65 < unat ret_size" "- (2 ^ 63) < sint input"
  shows "\<exists>m'. kint_to_string m input p ret_size base lc = Some (p, m')
    \<and> cstr m' p (numeral_chars (unat base) lc (sint input)) \<and> (\<forall>a. \<not> unat (a - p) < 66 \<longrightarrow> m' a = m a)"
proof -
  define neg where "neg = (sint input < 0)"
  define n where "n = nat \<bar>sint input\<bar>"
  define s :: u32 where "s = (if neg then 1 else 0)"
  define ds where "ds = digits_rev (unat base) n"
  define L where "L = length ds"
  define input1 where "input1 = (if neg then input * (- 1) else input)"
  define m1 where "m1 = (if neg then m(p := 45) else m)"
  have pos: "0 < ret_size" using assms(4) by (cases "ret_size = 0") (auto simp: word_gt_0)
  have b: "1 < unat base" using assms(2) by (simp add: word_less_nat_alt)
  have input1: "unat input1 = n" "\<not> sint input1 < 0"
    using numeral_abs [of input] assms(5) sint_nonneg [of input] by (auto simp: input1_def n_def neg_def)
  have "n < 2 ^ 63" using small_of_sint [OF input1(2)] input1(1) by simp
  then have len: "L \<le> 63" "0 < L" using digits_rev_length [OF b, of n 63] by (auto simp: L_def ds_def)
  have us: "unat s \<le> 1" by (simp add: s_def)
  have "unat s + length (digits_rev (unat base) n) < unat ret_size"
    using us len(1) assms(4) unfolding L_def ds_def by linarith
  from itoa_digits_spec [OF input1 assms(2) this, of p lc m1] obtain m2 where
    call: "itoa_digits p ret_size base lc input1 s m1 = Some (s + of_nat L, m2)"
    and get: "\<And>k. k < L \<Longrightarrow> m2 (p + s + of_nat k) = digit_char lc (of_nat (ds ! k))"
    and keep: "\<And>a. (\<forall>k < L. a \<noteq> p + s + of_nat k) \<Longrightarrow> m2 a = m1 a"
    by (auto simp: L_def ds_def written_def)
  have idx: "s + of_nat L < ret_size"
    using us len assms(4) by (simp add: word_less_nat_alt unat_add_small unat_of_nat_small)
  let ?m3 = "m2(p + (s + of_nat L) := 0)" and ?xs = "map (\<lambda>d. digit_char lc (of_nat d)) ds"
  have bound: "d < 36" if "d \<in> set ds" for d
    using digits_rev_bound [OF b, of d n] that assms(3) by (auto simp: ds_def)
  have before: "p \<noteq> p + s + of_nat k" if "neg" "k \<le> L" for k
    using offset_distinct [of 0 "Suc k" p] that len(1) by (simp add: s_def add.assoc)
  note R = itoa_reverse_string [of s neg ?xs ?m3 p, folded s_def, simplified length_map L_def [symmetric]]
  have result: "kint_to_string m input p ret_size base lc = Some (p, itoa_reverse p (s + of_nat L) ?m3)"
    using assms(1) call idx pos
    by (simp add: kint_to_string_def neg_def [symmetric] m1_def [symmetric] input1_def [symmetric]
        s_def [symmetric] Let_def)
  have digits: "?m3 (p + s + of_nat j) = ?xs ! j" if "j < L" for j
    using that get offset_distinct [of j L "p + s"] len by (simp add: L_def add.assoc)
  have sign: "?m3 p = 45" if neg using that before keep [of p] by (auto simp: m1_def add.assoc)
  have chars: "0 \<notin> set ?xs" "45 \<notin> set ?xs" using bound digit_char_no_sign by force+
  have zero: "?m3 (p + s + of_nat L) = 0" by (simp add: add.assoc)
  have "cstr (itoa_reverse p (s + of_nat L) ?m3) p ((if neg then [45] else []) @ rev ?xs)"
    by (rule R(1) [OF refl len(2)]) (use len digits zero sign chars in simp_all)
  then have "cstr (itoa_reverse p (s + of_nat L) ?m3) p (numeral_chars (unat base) lc (sint input))"
    by (simp add: numeral_chars_def neg_def [symmetric] ds_def n_def rev_map)
  moreover have "itoa_reverse p (s + of_nat L) ?m3 a = m a" if a: "\<not> unat (a - p) < 66" for a
  proof -
    have far: "a \<noteq> p + s + of_nat k" if "k \<le> L" for k
    proof
      assume "a = p + s + of_nat k"
      then have "a - p = s + of_nat k" by (simp add: algebra_simps)
      then have "unat (a - p) = unat s + k" using that us len(1) by (simp add: unat_add_small unat_of_nat_small)
      then show False using a that us len(1) by simp
    qed
    have "itoa_reverse p (s + of_nat L) ?m3 a = ?m3 a"
      by (rule R(2) [OF refl len(2)]) (use len digits zero sign chars far in simp_all)
    moreover have "a \<noteq> p" using a by auto
    ultimately show ?thesis using far [of L] far keep [of a] by (simp add: m1_def add.assoc)
  qed
  ultimately show ?thesis using result by blast
qed

text \<open>Reading a numeral back.\<close>

definition digit_value :: "u8 \<Rightarrow> nat" where
  "digit_value c = (if unat c < 58 then unat c - 48 else if unat c < 91 then unat c - 55 else unat c - 87)"

definition numeral_value :: "nat \<Rightarrow> u8 list \<Rightarrow> int" where
  "numeral_value b s = (if hd s = 45 then - int (digits_value b (map digit_value (rev (tl s))))
     else int (digits_value b (map digit_value (rev s))))"

lemma digit_value_char: "d < 36 \<Longrightarrow> digit_value (digit_char lc (of_nat d)) = d"
  by (simp add: digit_value_def digit_char_unat)

lemma numeral_value_chars:
  assumes "1 < b" "b \<le> 36"
  shows "numeral_value b (numeral_chars b lc i) = i"
proof -
  let ?ds = "digits_rev b (nat \<bar>i\<bar>)" and ?f = "\<lambda>d. digit_char lc (of_nat d)"
  have small: "d < 36" if "d \<in> set ?ds" for d
    using digits_rev_bound [OF assms(1) that] assms(2) by simp
  then have "map digit_value (map ?f ?ds) = ?ds"
    by (simp add: map_idI digit_value_char)
  then have v: "digits_value b (map digit_value (map ?f ?ds)) = nat \<bar>i\<bar>"
    using digits_value_rev [OF assms(1)] by simp
  show ?thesis
  proof (cases "i < 0")
    case True
    then show ?thesis using v by (simp add: numeral_chars_def numeral_value_def rev_map)
  next
    case False
    have "hd (map ?f (rev ?ds)) = ?f (last ?ds)" by (simp add: hd_map hd_rev)
    moreover have "?f (last ?ds) \<noteq> 45" using digit_char_no_sign small by simp
    ultimately show ?thesis using v False by (simp add: numeral_chars_def numeral_value_def rev_map)
  qed
qed

section \<open>Properties\<close>

text \<open>C26. \<open>kmemmove\<close> copies the block as it was before the call, whether or not the two blocks
  overlap and in which direction, and leaves every other byte.\<close>

theorem kmemmove_overlap:
  assumes "destination \<noteq> 0" "source \<noteq> 0"
    and "unat destination + unat num \<le> 2 ^ 32" "unat source + unat num \<le> 2 ^ 32"
  shows "kmemmove m destination source num =
    (destination, \<lambda>a. if a - destination < num then m (source + (a - destination)) else m a)"
  by (rule kmemmove_block [OF assms])

theorem kmemmove_overlap_witness:
  "kmemmove ucast 3 1 4 = (3, \<lambda>a. if a - 3 < 4 then ucast (1 + (a - 3)) else ucast a)"
  by (rule kmemmove_overlap) simp_all

text \<open>\<open>kstrcat\<close> returns, and leaves at the destination the concatenation of the two strings,
  when the result and the source do not share a byte.\<close>

theorem kstrcat_appends:
  assumes "d \<noteq> 0" "s \<noteq> 0" "cstr m d x" "cstr m s y" "length x + length y < 2 ^ 32"
    and "\<And>i j. \<lbrakk> i \<le> length x + length y; j \<le> length y \<rbrakk> \<Longrightarrow> d + of_nat i \<noteq> s + of_nat j"
  shows "\<exists>m'. kstrcat m d s = Some (d, m') \<and> cstr m' d (x @ y)"
  by (rule kstrcat_block [OF assms])

definition sample_strings :: mem where
  "sample_strings = (\<lambda>_. 0)(8 := 97, 9 := 98, 32 := 99, 33 := 98)"

lemma sample_cstr: "cstr sample_strings 8 [97, 98]" "cstr sample_strings 32 [99, 98]"
  by (simp_all add: sample_strings_def)

theorem kstrcat_appends_witness:
  "\<exists>m'. kstrcat sample_strings 8 32 = Some (8, m') \<and> cstr m' 8 ([97, 98] @ [99, 98])"
proof (rule kstrcat_appends)
  fix i j :: nat
  assume "i \<le> length [97 :: u8, 98] + length [99 :: u8, 98]" "j \<le> length [99 :: u8, 98]"
  then have "i \<in> {0, 1, 2, 3, 4}" "j \<in> {0, 1, 2}" by auto
  then show "(8 :: u32) + of_nat i \<noteq> 32 + of_nat j" by auto
qed (use sample_cstr in simp_all)

text \<open>\<open>kstrcmp\<close> returns, and its result is 0 exactly for equal strings and otherwise the
  order of the first characters that differ, read as signed, the terminator included.\<close>

theorem kstrcmp_decides:
  assumes "p \<noteq> 0" "q \<noteq> 0" "cstr m p s" "cstr m q t"
  shows "kstrcmp m p q = Some (cmp_spec s t) \<and> (cmp_spec s t = 0 \<longleftrightarrow> s = t)"
  using assms by (simp add: kstrcmp_cstr cmp_spec_eq_0 cstr_nonzero)

theorem kstrcmp_decides_witness: "kstrcmp sample_strings 8 32 = Some (- 1)"
proof -
  have "cmp_spec [97, 98] [99, 98] = - 1" by (simp add: char_cmp_def)
  then show ?thesis using kstrcmp_decides [OF _ _ sample_cstr] by simp
qed

text \<open>C25. \<open>kint_to_string\<close> with a buffer of more than 65 bytes returns for every number above
  \<open>-2^63\<close> and every base from 2 to 36, in both letter cases, and leaves a string that reads back,
  sign included, as the number.\<close>

theorem kint_to_string_roundtrip:
  assumes "p \<noteq> 0" "1 < base" "unat base \<le> 36" "65 < unat ret_size" "- (2 ^ 63) < sint input"
  shows "\<exists>m' s. kint_to_string m input p ret_size base lowercase = Some (p, m') \<and>
    cstr m' p s \<and> numeral_value (unat base) s = sint input"
proof -
  have "1 < unat base" using assms(2) by (simp add: word_less_nat_alt)
  then have "numeral_value (unat base) (numeral_chars (unat base) lowercase (sint input)) = sint input"
    using assms(3) by (rule numeral_value_chars)
  then show ?thesis using kint_to_string_block [OF assms, of m lowercase] by blast
qed

theorem kint_to_string_roundtrip_witness:
  "\<exists>m' s. kint_to_string (\<lambda>_. 0) (- 255) 16 66 16 True = Some (16, m') \<and>
    cstr m' 16 s \<and> numeral_value 16 s = - 255"
  using kint_to_string_roundtrip [of 16 16 66 "- 255" "\<lambda>_. 0" True] by simp

end
