(* ===== verification/KCtype.thy ===== *)
theory KCtype
  imports Prelude
begin

text \<open>
  Character classes, kernel/libk/kctype.c.  The C functions take and return \<open>int32_t\<close>: the
  argument is a signed 32-bit word, the truth value of a class test is a \<open>bool\<close>.
\<close>

unbundle bit_operations_syntax

section \<open>Classes\<close>

abbreviation in_range :: "int \<Rightarrow> u32 \<Rightarrow> int \<Rightarrow> bool" where
  "in_range lo ch hi \<equiv> lo \<le> sint ch \<and> sint ch \<le> hi"

definition kislower :: "u32 \<Rightarrow> bool" where
  "kislower ch = in_range 97 ch 122"

definition kisupper :: "u32 \<Rightarrow> bool" where
  "kisupper ch = in_range 65 ch 90"

definition kisdigit :: "u32 \<Rightarrow> bool" where
  "kisdigit ch = in_range 48 ch 57"

definition kisalpha :: "u32 \<Rightarrow> bool" where
  "kisalpha ch = (kisupper ch \<or> kislower ch)"

definition kisalnum :: "u32 \<Rightarrow> bool" where
  "kisalnum ch = (kisalpha ch \<or> kisdigit ch)"

definition kisxdigit :: "u32 \<Rightarrow> bool" where
  "kisxdigit ch = (kisdigit ch \<or> in_range 97 ch 102 \<or> in_range 65 ch 70)"

definition kiscntrl :: "u32 \<Rightarrow> bool" where
  "kiscntrl ch = (in_range 0 ch 31 \<or> ch = 127)"

definition kisgraph :: "u32 \<Rightarrow> bool" where
  "kisgraph ch = in_range 33 ch 126"

definition kisspace :: "u32 \<Rightarrow> bool" where
  "kisspace ch = (in_range 9 ch 13 \<or> ch = 32)"

definition kisblank :: "u32 \<Rightarrow> bool" where
  "kisblank ch = (ch = 9 \<or> ch = 32)"

definition kisprint :: "u32 \<Rightarrow> bool" where
  "kisprint ch = (ch = 32 \<or> kisgraph ch)"

definition kispunct :: "u32 \<Rightarrow> bool" where
  "kispunct ch = (in_range 33 ch 47 \<or> in_range 58 ch 64 \<or> in_range 91 ch 96 \<or> in_range 123 ch 126)"

definition ktolower :: "u32 \<Rightarrow> u32" where
  "ktolower ch = (if kisupper ch then ch - 32 else ch)"

definition ktoupper :: "u32 \<Rightarrow> u32" where
  "ktoupper ch = (if kislower ch then ch + 32 else ch)"

lemmas kctype_defs = kislower_def kisupper_def kisdigit_def kisalpha_def kisalnum_def
  kisxdigit_def kiscntrl_def kisgraph_def kisspace_def kisblank_def kisprint_def kispunct_def

section \<open>How the classes divide the characters\<close>

lemma sint_eq_numeral: "ch = 32 \<longleftrightarrow> sint ch = 32" "ch = 127 \<longleftrightarrow> sint ch = 127" "ch = 9 \<longleftrightarrow> sint ch = 9"
  for ch :: u32
  using sint_eqD [of ch 32] sint_eqD [of ch 127] sint_eqD [of ch 9] by auto

lemma graph_split: "kisgraph ch \<longleftrightarrow> kisalnum ch \<or> kispunct ch" "\<not> (kisalnum ch \<and> kispunct ch)"
  by (auto simp: kctype_defs)

lemma ascii_split:
  assumes "0 \<le> sint ch" "sint ch < 128"
  shows "kisprint ch \<longleftrightarrow> \<not> kiscntrl ch"
  using assms by (auto simp: kctype_defs sint_eq_numeral)

lemma sint_shift:
  assumes "- 1000 \<le> sint (ch :: u32)" "sint ch \<le> 1000"
  shows "sint (ch + 32) = sint ch + 32" "sint (ch - 32) = sint ch - 32"
  using assms by (simp_all add: sint_word_ariths signed_take_bit_int_eq_self)

section \<open>Properties\<close>

text \<open>On the ASCII range the classes form a partition: a character is a control character, a
  space, alphanumeric or punctuation, exactly one of them, and printable exactly when it is not a
  control character.\<close>

theorem character_classes:
  assumes "0 \<le> sint ch" "sint ch < 128"
  shows "(kisprint ch \<longleftrightarrow> \<not> kiscntrl ch) \<and> (kisprint ch \<longleftrightarrow> ch = 32 \<or> kisalnum ch \<or> kispunct ch) \<and>
    \<not> (kisalnum ch \<and> kispunct ch) \<and> \<not> kisalnum 32 \<and> \<not> kispunct 32"
  using ascii_split [OF assms] graph_split [of ch]
  by (auto simp: kisprint_def kisalnum_def kisalpha_def kisupper_def kislower_def kisdigit_def kispunct_def)

theorem character_classes_witness: "kisprint 65 \<and> kisalnum 65"
  using character_classes [of 65] by (simp add: kctype_defs)

text \<open>\<open>ktolower\<close> and \<open>ktoupper\<close> shift letters the wrong way: no letter is converted to a letter
  of the other case.\<close>

theorem case_conversion_misses:
  "(kisupper ch \<longrightarrow> ktolower ch = ch - 32 \<and> \<not> kislower (ktolower ch)) \<and>
   (kislower ch \<longrightarrow> ktoupper ch = ch + 32 \<and> \<not> kisupper (ktoupper ch))"
  using sint_shift [of ch] by (auto simp: ktolower_def ktoupper_def kisupper_def kislower_def)

theorem case_conversion_misses_witness: "ktolower 65 = 33 \<and> ktoupper 97 = 129"
  using case_conversion_misses [of 65] case_conversion_misses [of 97]
  by (simp add: kisupper_def kislower_def)

end
