(* ===== verification/KMath.thy ===== *)
theory KMath
  imports Prelude
begin

text \<open>
  Integer helpers, kernel/libk/kmath.c, on signed and unsigned words.  A signed result that
  overflows wraps (the compiler's two's complement); a division by zero is \<open>None\<close>.
\<close>

unbundle bit_operations_syntax

definition ksignbit :: "u8 \<Rightarrow> u8" where
  "ksignbit val = (if \<not> sint val \<ge> 0 then 1 else 0)"

definition kabs :: "u32 \<Rightarrow> u32" where
  "kabs val = (if sint val \<ge> 0 then val else - val)"

definition ksign :: "u8 \<Rightarrow> u8" where
  "ksign val = (if val = 0 then 0 else if kabs (scast val) > 0 then 1 else - 1)"

definition kmin :: "u64 \<Rightarrow> u64 \<Rightarrow> u64" where
  "kmin x y = (if sint x < sint y then x else y)"

definition kmax :: "u64 \<Rightarrow> u64 \<Rightarrow> u64" where
  "kmax x y = (if sint x > sint y then x else y)"

definition kmod :: "u64 \<Rightarrow> u64 \<Rightarrow> u64 option" where
  "kmod x y = (if y = 0 then None else Some (x - y * c_sdiv x y))"

definition kpow :: "u64 \<Rightarrow> u64 \<Rightarrow> u64" where
  "kpow base exponent =
     for_up 0 (if sint exponent < 0 then 0 else exponent) (\<lambda>_ result. result * base) 1"

definition kpow_u :: "u64 \<Rightarrow> u64 \<Rightarrow> u64" where
  "kpow_u base exponent = for_up 0 exponent (\<lambda>_ result. result * base) 1"

section \<open>What they compute\<close>

lemma power_loop: "for_up 0 n (\<lambda>_ r. r * b) 1 = (b :: u64) ^ unat (n :: u64)"
proof -
  let ?P = "\<lambda>k r. r = b ^ unat k"
  have "?P n (for_up 0 n (\<lambda>_ r. r * b) 1)"
    by (rule for_up_invariant [where P = ?P]) (auto simp: unat_Suc_less)
  then show ?thesis .
qed

lemma unat_power_word: "unat (b ^ k :: 'a::len word) = unat b ^ k mod 2 ^ LENGTH('a)"
  by (induction k) (simp_all add: unat_word_ariths unsigned_1 mod_mult_right_eq)

lemma kabs_abs: "unat (kabs val) = nat \<bar>sint val\<bar>"
proof (cases "sint val \<ge> 0")
  case True
  then show ?thesis using sint_nonneg [of val] by (simp add: kabs_def)
next
  case False
  have lower: "- (2 ^ 31) \<le> sint val" using sint_ge [of val] by simp
  have "unat (word_of_int y :: u32) = nat y" if "0 \<le> y" "y < 2 ^ 32" for y
    using that by (simp add: unsigned_of_int take_bit_int_eq_self)
  from this [of "- sint val"] show ?thesis
    using False lower by (simp add: kabs_def)
qed

lemma ksign_never_negative: "ksign val = (if val = 0 then 0 else 1)"
proof (cases "val = 0")
  case False
  then have "sint val \<noteq> 0" using sint_eqD [of val 0] by auto
  moreover have "sint (scast val :: u32) = sint val" by (simp add: sint_up_scast is_up)
  ultimately have "unat (kabs (scast val)) \<noteq> 0" by (simp add: kabs_abs)
  then have "kabs (scast val) \<noteq> 0" by auto
  then show ?thesis using False by (simp add: ksign_def word_gt_0)
qed (simp add: ksign_def)

lemma sint_word_of_int_small:
  "- (2 ^ (LENGTH('a) - 1)) \<le> y \<Longrightarrow> y < 2 ^ (LENGTH('a) - 1) \<Longrightarrow> sint (word_of_int y :: 'a::len word) = y"
  by (simp add: signed_of_int signed_take_bit_int_eq_self)

lemma kmod_smod:
  assumes "y \<noteq> 0"
  shows "kmod x y = Some (word_of_int (sint x smod sint y))"
proof -
  have "x - y * c_sdiv x y = word_of_int (sint x) - word_of_int (sint y) * word_of_int (sint x sdiv sint y)"
    by (simp add: c_sdiv_def)
  also have "\<dots> = word_of_int (sint x - sint y * (sint x sdiv sint y))"
    by (simp only: wi_hom_mult wi_hom_sub)
  also have "sint x - sint y * (sint x sdiv sint y) = sint x smod sint y"
    using sdiv_mult_smod_eq [of "sint x" "sint y"] by (simp add: algebra_simps)
  finally show ?thesis using assms by (simp add: kmod_def)
qed

section \<open>Properties\<close>

text \<open>\<open>kpow_u\<close> computes the power modulo \<open>2^64\<close>, for every base and exponent.\<close>

theorem kpow_u_power: "unat (kpow_u base exponent) = unat base ^ unat exponent mod 2 ^ 64"
  by (simp add: kpow_u_def power_loop unat_power_word)

text \<open>\<open>kmod\<close> is the remainder of C's division, with the sign of the dividend, and has no value
  for the divisor 0.\<close>

theorem kmod_remainder: "kmod x y = (if y = 0 then None else Some (word_of_int (sint x smod sint y)))"
  by (simp add: kmod_smod) (simp add: kmod_def)

end
