(* ===== verification/Bitset.thy ===== *)
theory Bitset
  imports CMem
begin

text \<open>
  Bit sets in memory, kernel/kernel/utils/bitset/bitset.c.  \<open>bitset_at index m p\<close> reads bit
  \<open>index\<close> of the bytes at \<open>p\<close>; it is also the view every allocator proof uses, with the effect
  of the two kinds of store on it in \<open>bitset_set_true\<close> and \<open>bitset_set_false\<close>.
\<close>

unbundle bit_operations_syntax

definition bitset_at :: "u32 \<Rightarrow> mem \<Rightarrow> u32 \<Rightarrow> bool" where
  "bitset_at index m bitset =
     (ucast (m (bitset + index div 8)) AND (push_bit (unat (index mod 8)) 1 :: u32) \<noteq> 0)"

definition bitset_set_at :: "u32 \<Rightarrow> mem \<Rightarrow> u32 \<Rightarrow> bool \<Rightarrow> mem" where
  "bitset_set_at index m bitset val =
     (let a = bitset + index div 8
      in if val
         then m(a := m a OR ucast (push_bit (unat (index mod 8)) (1 :: u32)))
         else m(a := m a AND ucast (push_bit (unat (index mod 8)) (0xFE :: u32))))"

section \<open>Bits of bytes\<close>

lemma unat_mod_8: "unat (i mod 8 :: u32) = unat i mod 8" "unat (i mod 8 :: u32) < 8"
  by (simp_all add: unat_mod_distrib)

lemma unat_div_8: "unat (i div 8 :: u32) = unat i div 8"
  by (simp add: unat_div_distrib)

lemma bitset_at_bit: "bitset_at i m p = bit (m (p + i div 8)) (unat i mod 8)"
proof -
  have "bitset_at i m p = bit (ucast (m (p + i div 8)) :: u32) (unat (i mod 8))"
    unfolding bitset_at_def by (simp add: bit_iff_and_push_bit_not_eq_0)
  then show ?thesis using unat_mod_8 [of i] by (simp add: bit_simps)
qed

lemma u32_split_8: "(i :: u32) = j \<longleftrightarrow> i div 8 = j div 8 \<and> unat i mod 8 = unat j mod 8"
proof
  assume "i div 8 = j div 8 \<and> unat i mod 8 = unat j mod 8"
  then have "unat i div 8 = unat j div 8" "unat i mod 8 = unat j mod 8"
    by (auto simp flip: unat_div_8)
  then have "unat i = unat j" by (metis mult_div_mod_eq)
  then show "i = j" by (simp add: word_unat_eq_iff)
qed simp

lemma byte_bit: "bit (b :: u8) k \<Longrightarrow> k < 8"
  using bit_imp_le_length [of b k] by simp

lemma bit_one_shift: "\<lbrakk> n < 8; k < 8 \<rbrakk> \<Longrightarrow> bit (ucast (push_bit n (1 :: u32)) :: u8) k \<longleftrightarrow> k = n"
  unfolding bit_unsigned_iff bit_push_bit_iff bit_1_iff by auto

lemma bitset_set_true [simp]:
  "bitset_at j (bitset_set_at i m p True) p \<longleftrightarrow> j = i \<or> bitset_at j m p"
proof (cases "j div 8 = i div 8")
  case True
  then have "j = i \<longleftrightarrow> unat j mod 8 = unat i mod 8" using u32_split_8 [of j i] by simp
  moreover have "bit (ucast (push_bit (unat (i mod 8)) (1 :: u32)) :: u8) (unat j mod 8)
      \<longleftrightarrow> unat j mod 8 = unat i mod 8"
    using unat_mod_8 [of i] by (subst bit_one_shift) auto
  ultimately show ?thesis using True
    by (simp add: bitset_at_bit bitset_set_at_def Let_def bit_or_iff) blast
next
  case False
  then show ?thesis by (auto simp: bitset_at_bit bitset_set_at_def Let_def)
qed

lemma bit_0xFE: "bit (0xFE :: u32) k \<longleftrightarrow> 1 \<le> k \<and> k < 8"
proof -
  have "(0xFE :: u32) = take_bit 8 (NOT 1)" by simp
  then have "bit (0xFE :: u32) k \<longleftrightarrow> bit (take_bit 8 (NOT 1) :: u32) k" by (rule arg_cong)
  then show ?thesis unfolding bit_take_bit_iff bit_not_iff bit_1_iff by auto
qed

lemma bit_clear_mask:
  "\<lbrakk> n < 8; k < 8 \<rbrakk> \<Longrightarrow> bit (ucast (push_bit n (0xFE :: u32)) :: u8) k \<longleftrightarrow> n < k"
  unfolding bit_unsigned_iff bit_push_bit_iff bit_0xFE by auto

lemma bitset_set_false [simp]:
  "bitset_at j (bitset_set_at i m p False) p \<longleftrightarrow>
     bitset_at j m p \<and> \<not> (j div 8 = i div 8 \<and> unat j mod 8 \<le> unat i mod 8)"
proof (cases "j div 8 = i div 8")
  case True
  have "bit (ucast (push_bit (unat (i mod 8)) (0xFE :: u32)) :: u8) (unat j mod 8)
      \<longleftrightarrow> unat i mod 8 < unat j mod 8"
    using unat_mod_8 [of i] by (subst bit_clear_mask) auto
  then show ?thesis using True
    by (auto simp: bitset_at_bit bitset_set_at_def Let_def bit_and_iff not_le)
next
  case False
  then show ?thesis by (auto simp: bitset_at_bit bitset_set_at_def Let_def)
qed

text \<open>A store changes only the byte that holds the bit.\<close>

lemma bitset_set_frame: "a \<noteq> p + i div 8 \<Longrightarrow> bitset_set_at i m p v a = m a"
  by (simp add: bitset_set_at_def Let_def)

section \<open>A bit set read by 32-bit words\<close>

lemma rd32_bit: "k < 32 \<Longrightarrow> bit (rd32 m a) k = bit (m (a + of_nat (k div 8))) (k mod 8)"
proof -
  assume "k < 32"
  then consider "k < 8" | "8 \<le> k \<and> k < 16" | "16 \<le> k \<and> k < 24" | "24 \<le> k \<and> k < 32" by force
  then show ?thesis
  proof cases
    case 2
    then have "k div 8 = 1" "k mod 8 = k - 8" by presburger+
    then show ?thesis using 2 by (auto simp: rd32_def bit_simps dest: byte_bit)
  next
    case 3
    then have "k div 8 = 2" "k mod 8 = k - 16" by presburger+
    then show ?thesis using 3 by (auto simp: rd32_def bit_simps dest: byte_bit)
  next
    case 4
    then have "k div 8 = 3" "k mod 8 = k - 24" by presburger+
    then show ?thesis using 4 by (auto simp: rd32_def bit_simps dest: byte_bit)
  qed (auto simp: rd32_def bit_simps dest: byte_bit)
qed

lemma word_index:
  assumes "unat i < 2 ^ 27" "k < 32"
  shows "unat (i * 32 + of_nat k :: u32) = unat i * 32 + k"
    and "(i * 32 + of_nat k :: u32) div 8 = i * 4 + of_nat (k div 8)"
proof -
  have "unat (i * 32) = unat i * 32" using assms(1) by (simp add: unat_word_ariths)
  moreover have "unat (of_nat k :: u32) = k" using assms(2) by (simp add: unat_of_nat_small)
  ultimately show eq: "unat (i * 32 + of_nat k) = unat i * 32 + k"
    using assms by (subst unat_add_small) auto
  have "unat (i * 4) = unat i * 4" using assms(1) by (simp add: unat_word_ariths)
  moreover have "unat (of_nat (k div 8) :: u32) = k div 8"
    using assms(2) by (intro unat_of_nat_small) auto
  moreover have "k div 8 < 4" using assms(2) by auto
  ultimately have "unat (i * 4 + of_nat (k div 8)) = unat i * 4 + k div 8"
    using assms(1) by (subst unat_add_small) auto
  moreover have "(unat i * 32 + k) div 8 = unat i * 4 + k div 8" by simp
  ultimately show "(i * 32 + of_nat k) div 8 = i * 4 + of_nat (k div 8)"
    by (simp add: word_unat_eq_iff unat_div_8 eq)
qed

lemma rd32_bitset:
  assumes "unat i < 2 ^ 27" "k < 32"
  shows "bit (rd32 m (p + 4 * i)) k = bitset_at (i * 32 + of_nat k) m p"
proof -
  have "(unat i * 32 + k) mod 8 = k mod 8" by presburger
  then show ?thesis using assms
    by (simp add: rd32_bit bitset_at_bit word_index add.assoc [symmetric])
      (simp add: mult.commute)
qed

lemma word_full: "(w :: u32) = 0xFFFFFFFF \<longleftrightarrow> (\<forall>k < 32. bit w k)"
proof -
  have "(0xFFFFFFFF :: u32) = - 1" by simp
  then show ?thesis by (auto simp: bit_eq_iff)
qed

lemma rd32_full:
  assumes "unat i < 2 ^ 27"
  shows "rd32 m (p + 4 * i) = 0xFFFFFFFF \<longleftrightarrow> (\<forall>k < 32. bitset_at (i * 32 + of_nat k) m p)"
  using rd32_bitset [OF assms] by (simp add: word_full)

end
