(* ===== verification/Bitmap.thy ===== *)
theory Bitmap
  imports Bitset
begin

text \<open>
  The bitmap allocator, kernel/kernel/utils/allocators/bitmap/bitmap_allocator.c: the search for
  the first clear bit that the buddy allocator uses, and the allocator with a cache of free
  indices.  The cache is the list of its \<open>int32_t\<close> entries, \<open>-1\<close> for an empty one; the flag is
  \<open>*has_searched_cache\<close>.  The inner loops count in a \<open>uint8_t\<close>.
\<close>

unbundle bit_operations_syntax

section \<open>Search\<close>

definition bitmap_find_first_zero_bit :: "mem \<Rightarrow> u32 \<Rightarrow> u32 \<Rightarrow> u32" where
  "bitmap_find_first_zero_bit m bitset n =
     (case for_ret 0 n
        (\<lambda>i (_ :: unit).
           if rd32 m (bitset + 4 * i) \<noteq> 0xFFFFFFFF
           then for_ret (0 :: u8) 32
                  (\<lambda>j (_ :: unit). if \<not> bitset_at (i * 32 + ucast j) m bitset
                                   then Inl (i * 32 + ucast j) else Inr ()) ()
           else Inr ()) ()
      of Inl index \<Rightarrow> index | Inr _ \<Rightarrow> n)"

section \<open>The allocator\<close>

definition bitmap_allocator_init :: "mem \<Rightarrow> u32 \<Rightarrow> u32 \<Rightarrow> u32 list \<Rightarrow> mem \<times> u32 list \<times> bool" where
  "bitmap_allocator_init m bitset n cache =
     (for_up 0 (n div 32 * 4) (\<lambda>i t. t(bitset + i := 0)) m,
      map (\<lambda>_. - 1) cache, False)"

definition take_cached :: "u32 list \<Rightarrow> u32 option" where
  "take_cached cache =
     (case for_ret 0 (of_nat (length cache))
        (\<lambda>i (_ :: unit). if cache ! unat (i :: u32) \<noteq> - 1 then Inl i else Inr ()) ()
      of Inl i \<Rightarrow> Some i | Inr _ \<Rightarrow> None)"

definition fill_cache :: "mem \<Rightarrow> u32 \<Rightarrow> u32 \<Rightarrow> u32 list \<Rightarrow> u32 list" where
  "fill_cache m bitset number_of_entries cache =
     (let cache_n = of_nat (length cache) :: u32
      in snd (case for_ret 0 number_of_entries
        (\<lambda>i (free, c).
           if \<not> free < cache_n then Inl (free, c)
           else if rd32 m (bitset + 4 * i) \<noteq> 0xFFFFFFFF
           then Inr (case for_ret (0 :: u8) 32
               (\<lambda>j (free, c).
                  if \<not> free < cache_n then Inl (free, c)
                  else if \<not> bitset_at (i * 32 + ucast j) m bitset
                  then Inr (free + 1, c[unat free := i * 32 + ucast j])
                  else Inr (free, c)) (free, c)
             of Inl s \<Rightarrow> s | Inr s \<Rightarrow> s)
           else Inr (free, c)) (0, cache)
        of Inl s \<Rightarrow> s | Inr s \<Rightarrow> s))"

function allocate_impl ::
  "mem \<Rightarrow> u32 \<Rightarrow> u32 \<Rightarrow> u32 list \<Rightarrow> bool \<Rightarrow> u32 \<times> mem \<times> u32 list \<times> bool" where
  "allocate_impl m bitset number_of_entries cache has_searched =
     (case take_cached cache of
        Some i \<Rightarrow>
          (let current_entry = cache ! unat i;
               q = c_sdiv current_entry 32;
               a = bitset + 4 * q
           in (current_entry,
               wr32 m a (rd32 m a OR push_bit (unat (current_entry - 32 * q)) 1),
               cache[unat i := - 1], False))
      | None \<Rightarrow>
          (if has_searched then (- 1, m, cache, False)
           else allocate_impl m bitset number_of_entries
                  (fill_cache m bitset number_of_entries cache) True))"
  by pat_completeness auto
termination
  by (relation "measure (\<lambda>(_, _, _, _, has_searched). if has_searched then 0 else 1)") auto

declare allocate_impl.simps [simp del]

definition bitmap_allocate ::
  "mem \<Rightarrow> u32 \<Rightarrow> u32 \<Rightarrow> u32 list \<Rightarrow> bool \<Rightarrow> u32 \<times> mem \<times> u32 list \<times> bool" where
  "bitmap_allocate m bitset n cache has_filled =
     (let (allocated_page, s) = allocate_impl m bitset n cache has_filled
      in (if allocated_page = - 1 then 0 else allocated_page, s))"

definition bitmap_free :: "mem \<Rightarrow> u32 \<Rightarrow> u32 \<Rightarrow> u32 \<Rightarrow> mem" where
  "bitmap_free m bitset n index = (if n * 4 > index then bitset_set_at index m bitset False else m)"

section \<open>The search finds the least clear bit\<close>

lemma u32_between:
  "unat k < 32 * unat i + (n + 1) \<Longrightarrow> \<not> unat k < 32 * unat i + n \<Longrightarrow> unat (k :: u32) = unat (i :: u32) * 32 + n"
  by linarith

lemma find_in_word:
  assumes i: "unat i < 2 ^ 27" and below: "\<forall>k. unat k < 32 * unat i \<longrightarrow> bitset_at k m p"
  shows "case for_ret (0 :: u8) 32
      (\<lambda>j (_ :: unit). if \<not> bitset_at (i * 32 + ucast j) m p then Inl (i * 32 + ucast j) else Inr ()) ()
    of Inl r \<Rightarrow> unat r < 32 * (unat i + 1) \<and> \<not> bitset_at r m p \<and> (\<forall>k. unat k < unat r \<longrightarrow> bitset_at k m p)
     | Inr _ \<Rightarrow> \<forall>k. unat k < 32 * unat i + unat (32 :: u8) \<longrightarrow> bitset_at k m p"
proof (rule for_ret_invariant
    [where P = "\<lambda>j _. \<forall>k. unat k < 32 * unat i + unat j \<longrightarrow> bitset_at k m p"])
  have eq: "unat (i * 32 + ucast j) = unat i * 32 + unat j" if "j < 32" for j :: u8
    using word_index(1) [OF i, of "unat j"] that by (simp add: word_less_nat_alt)
  show "\<forall>k. unat k < 32 * unat i + unat (j + 1) \<longrightarrow> bitset_at k m p"
    if j: "j < 32" and P: "\<forall>k. unat k < 32 * unat i + unat j \<longrightarrow> bitset_at k m p"
      and step: "(if \<not> bitset_at (i * 32 + ucast j) m p then Inl (i * 32 + ucast j) else Inr ()) = Inr t'"
    for j :: u8 and t t' :: unit
  proof (intro allI impI)
    fix k :: u32 assume k: "unat k < 32 * unat i + unat (j + 1)"
    show "bitset_at k m p"
    proof (cases "unat k < 32 * unat i + unat j")
      case False
      then have "unat k = unat (i * 32 + ucast j)"
        using k unat_Suc_less [OF j] eq [OF j] by simp
      then have "k = i * 32 + ucast j" by (simp add: word_unat_eq_iff)
      then show ?thesis using step by (simp split: if_splits)
    qed (use P in blast)
  qed
  show "unat r < 32 * (unat i + 1) \<and> \<not> bitset_at r m p \<and> (\<forall>k. unat k < unat r \<longrightarrow> bitset_at k m p)"
    if j: "j < 32" and P: "\<forall>k. unat k < 32 * unat i + unat j \<longrightarrow> bitset_at k m p"
      and stop: "(if \<not> bitset_at (i * 32 + ucast j) m p then Inl (i * 32 + ucast j) else Inr ()) = Inl r"
    for j :: u8 and t :: unit and r
    using stop P eq [OF j] j by (auto simp: word_less_nat_alt split: if_splits)
qed (use below in auto)

lemma find_first_zero:
  assumes n: "unat n \<le> 2 ^ 27"
  shows "(\<exists>r. bitmap_find_first_zero_bit m p n = r \<and> unat r < 32 * unat n \<and> \<not> bitset_at r m p
      \<and> (\<forall>k. unat k < unat r \<longrightarrow> bitset_at k m p))
    \<or> bitmap_find_first_zero_bit m p n = n \<and> (\<forall>k. unat k < 32 * unat n \<longrightarrow> bitset_at k m p)"
proof -
  let ?body = "\<lambda>i (_ :: unit).
           if rd32 m (p + 4 * i) \<noteq> 0xFFFFFFFF
           then for_ret (0 :: u8) 32
                  (\<lambda>j (_ :: unit). if \<not> bitset_at (i * 32 + ucast j) m p
                                   then Inl (i * 32 + ucast j) else Inr ()) ()
           else Inr ()"
  let ?Q = "\<lambda>r. unat r < 32 * unat n \<and> \<not> bitset_at r m p \<and> (\<forall>k. unat k < unat r \<longrightarrow> bitset_at k m p)"
  let ?P = "\<lambda>i (_ :: unit). \<forall>k. unat k < 32 * unat i \<longrightarrow> bitset_at k m p"
  have "case for_ret 0 n ?body () of Inl r \<Rightarrow> ?Q r | Inr t \<Rightarrow> ?P n t"
  proof (rule for_ret_invariant [where P = ?P])
    fix i and t t' :: unit assume i: "i < n" and P: "?P i t" and step: "?body i t = Inr t'"
    have i27: "unat i < 2 ^ 27" using i n by (simp add: word_less_nat_alt)
    show "?P (i + 1) t'"
    proof (cases "rd32 m (p + 4 * i) = 0xFFFFFFFF")
      case True
      show ?thesis
      proof (intro allI impI)
        fix k :: u32 assume k: "unat k < 32 * unat (i + 1)"
        show "bitset_at k m p"
        proof (cases "unat k < 32 * unat i")
          case False
          define b where "b = unat k - 32 * unat i"
          have b: "b < 32" using k False unat_Suc_less [OF i] by (simp add: b_def)
          then have "unat k = unat (i * 32 + of_nat b)" using word_index(1) [OF i27, of b] False
            by (simp add: b_def)
          then have "k = i * 32 + of_nat b" by (simp only: word_unat_eq_iff)
          then show ?thesis using True rd32_full [OF i27] b by simp
        qed (use P in blast)
      qed
    next
      case False
      have "unat (32 :: u8) = 32" by simp
      then have "32 * unat (i + 1) = 32 * unat i + unat (32 :: u8)"
        using unat_Suc_less [OF i] by linarith
      then show ?thesis using False step find_in_word [OF i27 P] by simp
    qed
  next
    fix i and t :: unit and r assume i: "i < n" and P: "?P i t" and stop: "?body i t = Inl r"
    have i27: "unat i < 2 ^ 27" using i n by (simp add: word_less_nat_alt)
    have "unat i + 1 \<le> unat n" using i by (simp add: word_less_nat_alt)
    then show "?Q r" using stop find_in_word [OF i27 P] by (auto split: if_splits)
  qed auto
  then show ?thesis by (auto simp: bitmap_find_first_zero_bit_def split: sum.splits)
qed

end
