(* ===== verification/Buddy.thy ===== *)
theory Buddy
  imports Bitmap KString
begin

text \<open>
  The binary buddy allocator, kernel/kernel/utils/allocators/buddy/buddy_memory_allocator.c.
  One bit set holds a region per level, the highest level (fewest, largest blocks) first;
  \<open>level_start\<close> is the first bit of a level.  Sizes and indices are \<open>uint32_t\<close>; a returned
  address is an offset and \<open>0\<close> is NULL.  The bits of a shift by 32 or more are undefined in C and
  zero here; no caller has more than eleven levels.
\<close>

unbundle bit_operations_syntax

section \<open>Operations\<close>

definition binary_buddy_memory_allocator_init :: "mem \<Rightarrow> u32 \<Rightarrow> u32 \<Rightarrow> bool \<times> mem" where
  "binary_buddy_memory_allocator_init m allocator allocator_type_size =
     (let (r, m') = kmemset m allocator 0 allocator_type_size in (r \<noteq> 0, m'))"

lemma unat_shift_right: "unat (drop_bit k (x :: u32)) = unat x div 2 ^ k"
proof -
  have "unat (drop_bit k x) = drop_bit k (take_bit LENGTH(32) (unat x))"
    by (rule unsigned_drop_bit_eq)
  moreover have "take_bit LENGTH(32) (unat x) = unat x"
    using unat_less_u32 [of x] by (simp add: take_bit_nat_eq_self)
  ultimately show ?thesis by (simp only: drop_bit_eq_div)
qed

lemma halving: "drop_bit 1 x \<noteq> 0 \<Longrightarrow> unat (drop_bit 1 (x :: u32)) < unat x"
proof -
  assume "drop_bit 1 x \<noteq> 0"
  then have "x \<noteq> 0" by (metis drop_bit_of_0)
  then have "0 < unat x" by (simp add: unat_gt_0)
  then show ?thesis by (simp only: unat_shift_right) simp
qed

function log2_loop :: "u32 \<Rightarrow> u32 \<Rightarrow> u32" where
  "log2_loop x result =
     (if drop_bit 1 x \<noteq> 0 then log2_loop (drop_bit 1 x) (result + 1) else result)"
  by pat_completeness auto
termination
  by (relation "measure (\<lambda>(x, _). unat x)")
    (use halving in auto)

declare log2_loop.simps [simp del]

definition log2 :: "u32 \<Rightarrow> u32" where
  "log2 x = log2_loop x 0"

definition highest_count :: "u32 \<Rightarrow> u32 \<Rightarrow> u32" where
  "highest_count num_of_lowest number_of_levels = drop_bit (unat (number_of_levels - 1)) num_of_lowest"

definition level_start :: "u32 \<Rightarrow> u32 \<Rightarrow> u32 \<Rightarrow> u32" where
  "level_start number_of_levels level highest =
     (push_bit (unat (number_of_levels - level - 1)) 1 - 1) * highest"

definition set_run :: "u32 \<Rightarrow> u32 \<Rightarrow> u32 \<Rightarrow> bool \<Rightarrow> mem \<Rightarrow> mem" where
  "set_run allocator first count val m =
     for_up 0 count (\<lambda>j t. bitset_set_at (first + j) t allocator val) m"

partial_function (option) set_upto :: "u32 \<Rightarrow> u32 \<Rightarrow> u32 \<Rightarrow> u32 \<Rightarrow> mem \<Rightarrow> mem option" where
  "set_upto allocator start i end_index m =
     (if i \<le> end_index
      then set_upto allocator start (i + 1) end_index (bitset_set_at (start + i) m allocator True)
      else Some m)"

definition binary_buddy_memory_allocator_reserve ::
  "mem \<Rightarrow> u32 \<Rightarrow> u32 \<Rightarrow> u32 \<Rightarrow> u32 \<Rightarrow> u32 \<Rightarrow> u32 \<Rightarrow> (bool \<times> mem) option" where
  "binary_buddy_memory_allocator_reserve m allocator start_index end_index
     num_of_elements_in_level level_in_allocator number_of_levels =
     (if level_in_allocator \<ge> number_of_levels then Some (False, m)
      else do {
        let num_of_lowest = push_bit (unat level_in_allocator) num_of_elements_in_level;
        let highest = highest_count num_of_lowest number_of_levels;
        let start = level_start number_of_levels level_in_allocator highest;
        let num_in_level = (end_index - start_index) + 1;
        m1 \<leftarrow> set_upto allocator start start_index end_index m;
        let (m2, _) = for_down (number_of_levels - 1) level_in_allocator
              (\<lambda>i (t, num_higher).
                 (set_run allocator (level_start number_of_levels i highest
                       + drop_bit (unat (i - level_in_allocator)) start_index) num_higher True t,
                  (if num_higher div 2 = 0 then 1 else num_higher div 2)))
              (m1, num_of_elements_in_level div 2);
        let (m3, _) = for_up 0 level_in_allocator
              (\<lambda>i (t, num_lower).
                 (set_run allocator (level_start number_of_levels i highest
                       + push_bit (unat (level_in_allocator - i)) start_index) num_lower True t,
                  num_lower * 2))
              (m2, num_in_level * 2);
        Some (True, m3)
      })"

definition mark_higher :: "u32 \<Rightarrow> u32 \<Rightarrow> u32 \<Rightarrow> u32 \<Rightarrow> u32 \<Rightarrow> mem \<Rightarrow> mem" where
  "mark_higher allocator number_of_levels highest level allocation_index m =
     for_down (number_of_levels - 1) level
       (\<lambda>i t. bitset_set_at (level_start number_of_levels i highest
                + drop_bit (unat (i - level)) allocation_index) t allocator True) m"

definition mark_lower :: "u32 \<Rightarrow> u32 \<Rightarrow> u32 \<Rightarrow> u32 \<Rightarrow> u32 \<Rightarrow> bool \<Rightarrow> mem \<Rightarrow> mem" where
  "mark_lower allocator number_of_levels highest level allocation_index val m =
     fst (for_up 0 level
       (\<lambda>i (t, num). (set_run allocator (level_start number_of_levels i highest
                        + push_bit (unat (level - i)) allocation_index) num val t, num * 2))
       (m, 2))"

definition binary_buddy_memory_allocator_allocate ::
  "mem \<Rightarrow> u32 \<Rightarrow> u32 \<Rightarrow> u32 \<Rightarrow> u32 \<Rightarrow> u32 \<Rightarrow> u32 \<times> mem" where
  "binary_buddy_memory_allocator_allocate m allocator lowest_mem_size num_of_lowest
     number_of_levels amount_to_allocate =
     (let level = log2 amount_to_allocate
      in if level \<ge> number_of_levels then (0, m)
      else
        (let highest = highest_count num_of_lowest number_of_levels;
             start = level_start number_of_levels level highest;
             n = drop_bit (unat level) num_of_lowest;
             allocation_index = bitmap_find_first_zero_bit m (allocator + 4 * (start div 32)) n
         in if allocation_index = n then (0, m)
         else
           (let size_of_allocation = amount_to_allocate * lowest_mem_size;
                ret_addr = allocation_index * size_of_allocation;
                m1 = bitset_set_at (start + allocation_index) m allocator True;
                m2 = mark_higher allocator number_of_levels highest level allocation_index m1;
                m3 = mark_lower allocator number_of_levels highest level allocation_index True m2
            in (ret_addr, m3))))"

definition unmark_higher :: "u32 \<Rightarrow> u32 \<Rightarrow> u32 \<Rightarrow> u32 \<Rightarrow> u32 \<Rightarrow> mem \<Rightarrow> mem" where
  "unmark_higher allocator number_of_levels highest level allocation_index m =
     (case for_ret level number_of_levels
        (\<lambda>i t. let start = level_start number_of_levels i highest;
                    index = drop_bit (unat (i - level)) allocation_index;
                    pair_index = (if index mod 2 = 0 then index + 1 else index - 1)
                in if bitset_at (start + pair_index) t allocator then Inl t
                   else Inr (bitset_set_at (start + index) t allocator False)) m
      of Inl t \<Rightarrow> t | Inr t \<Rightarrow> t)"

definition binary_buddy_memory_allocator_free ::
  "mem \<Rightarrow> u32 \<Rightarrow> u32 \<Rightarrow> u32 \<Rightarrow> u32 \<Rightarrow> u32 \<Rightarrow> u32 \<Rightarrow> (bool \<times> mem) option" where
  "binary_buddy_memory_allocator_free m allocator lowest_mem_size num_of_lowest
     number_of_levels address_to_free amount_to_free =
     (let level = log2 amount_to_free
      in if level \<ge> number_of_levels then Some (False, m)
      else
        (let highest = highest_count num_of_lowest number_of_levels;
             start = level_start number_of_levels level highest;
             n = drop_bit (unat level) num_of_lowest
         in if amount_to_free * lowest_mem_size = 0 then None
         else
           (let allocation_index = address_to_free div (amount_to_free * lowest_mem_size)
            in if allocation_index \<ge> n then Some (False, m)
            else
              (let m1 = bitset_set_at (start + allocation_index) m allocator False;
                   m2 = unmark_higher allocator number_of_levels highest level allocation_index m1;
                   m3 = mark_lower allocator number_of_levels highest level allocation_index False m2
               in Some (True, m3)))))"

section \<open>Levels\<close>

text \<open>The words of the source read as naturals: level \<open>l\<close> of \<open>L\<close> starts at \<open>region_start\<close>.\<close>

definition region_start :: "nat \<Rightarrow> nat \<Rightarrow> nat \<Rightarrow> nat" where
  "region_start L H l = (2 ^ (L - 1 - l) - 1) * H"

definition level_bit :: "mem \<Rightarrow> u32 \<Rightarrow> nat \<Rightarrow> nat \<Rightarrow> nat \<Rightarrow> nat \<Rightarrow> bool" where
  "level_bit m p L H l k = bitset_at (of_nat (region_start L H l + k)) m p"

definition agree_off :: "u32 \<Rightarrow> nat \<Rightarrow> mem \<Rightarrow> mem \<Rightarrow> bool" where
  "agree_off p B t m \<longleftrightarrow> (\<forall>a. \<not> unat (a - p) < B \<longrightarrow> t a = m a)"

lemma agree_off_refl [simp]: "agree_off p B m m"
  by (simp add: agree_off_def)

lemma agree_off_trans: "agree_off p B t u \<Longrightarrow> agree_off p B u m \<Longrightarrow> agree_off p B t m"
  by (simp add: agree_off_def)

lemma agree_off_set:
  assumes "j < 8 * B" "j < 2 ^ 32"
  shows "agree_off p B (bitset_set_at (of_nat j) m p v) m"
  unfolding agree_off_def
proof (intro allI impI)
  fix a assume a: "\<not> unat (a - p) < B"
  have "unat ((of_nat j :: u32) div 8) = j div 8"
    using assms(2) by (simp add: unat_div_8 unat_of_nat_small)
  then have "a \<noteq> p + of_nat j div 8" using a assms(1) by auto
  then show "bitset_set_at (of_nat j) m p v a = m a" by (rule bitset_set_frame)
qed

lemma bitset_at_shift:
  assumes "32 dvd s" "s + k < 2 ^ 32"
  shows "bitset_at (of_nat k) m (p + 4 * (of_nat s div 32)) = bitset_at (of_nat (s + k)) m p"
proof -
  obtain q where q: "s = 32 * q" using assms(1) by (auto elim: dvdE)
  have "(of_nat s :: u32) div 32 = of_nat q"
  proof -
    have "unat (of_nat s :: u32) = s"
      by (rule unat_of_nat_small) (use assms(2) in simp)
    moreover have "unat (of_nat q :: u32) = q"
      by (rule unat_of_nat_small) (use assms(2) q in simp)
    ultimately show ?thesis unfolding word_unat_eq_iff using q by (simp add: unat_div_distrib)
  qed
  moreover have "(of_nat k :: u32) div 8 = of_nat (k div 8)"
    "(of_nat (s + k) :: u32) div 8 = of_nat ((s + k) div 8)"
    using assms(2) by (simp_all only: word_unat_eq_iff unat_div_8)
      (simp_all add: unat_of_nat_small del: of_nat_add)
  moreover have "(s + k) div 8 = 4 * q + k div 8" "(s + k) mod 8 = k mod 8"
    unfolding q by presburger+
  ultimately show ?thesis using assms(2)
    by (simp add: bitset_at_bit unat_of_nat_small del: of_nat_add) (simp add: add.assoc)
qed

lemma log2_1 [simp]: "log2 1 = 0"
  by (simp add: log2_def log2_loop.simps)

lemma doubling: "0 < e \<Longrightarrow> (e - 1) * H + H * e = (2 * e - 1) * (H :: nat)"
  by (cases e) (auto simp: algebra_simps)

lemma ex_level: "0 < (L :: nat) \<Longrightarrow> (\<exists>l < L. Q l) \<longleftrightarrow> Q 0 \<or> (\<exists>l. 0 < l \<and> l < L \<and> Q l)"
  by (metis gr0I)

locale buddy_geometry =
  fixes N L H :: nat
  assumes levels: "0 < L" "L \<le> 16"
    and pages: "N = H * 2 ^ (L - 1)" "N \<le> 2 ^ 20"
    and aligned: "32 dvd H" "0 < H"
begin

lemma N_pos: "0 < N"
  using pages aligned by simp

lemma region_step:
  assumes "0 < l" "l < L"
  shows "region_start L H l + H * 2 ^ (L - 1 - l) = region_start L H (l - 1)"
proof -
  have "L - 1 - (l - 1) = Suc (L - 1 - l)" using assms by simp
  then show ?thesis using doubling [of "2 ^ (L - 1 - l)" H]
    by (simp only: region_start_def power_Suc) simp
qed

lemma region_below: "l < L \<Longrightarrow> region_start L H l + H * 2 ^ (L - 1 - l) \<le> 2 * N"
proof -
  assume "l < L"
  have "(2 ^ (L - 1 - l) - 1) * H + H * 2 ^ (L - 1 - l) \<le> 2 * (H * 2 ^ (L - 1 - l))"
    by (subst doubling) (simp_all add: algebra_simps)
  also have "\<dots> \<le> 2 * N"
    using \<open>l < L\<close> by (auto simp: pages intro!: power_increasing)
  finally show ?thesis by (simp add: region_start_def)
qed

lemma region_before:
  assumes "l' < l" "l < L" "k < H * 2 ^ (L - 1 - l)"
  shows "region_start L H l + k < region_start L H l'"
proof -
  have "region_start L H l + k < (2 ^ Suc (L - 1 - l) - 1) * H"
    using assms(3) doubling [of "2 ^ (L - 1 - l)" H]
    by (simp only: region_start_def power_Suc) simp
  also have "\<dots> \<le> (2 ^ (L - 1 - l') - 1) * H"
  proof -
    have "Suc (L - 1 - l) \<le> L - 1 - l'" using assms(1,2) by simp
    then have "(2 :: nat) ^ Suc (L - 1 - l) \<le> 2 ^ (L - 1 - l')" by (rule power_increasing) simp
    then show ?thesis by (intro mult_le_mono1 diff_le_mono)
  qed
  finally show ?thesis by (simp add: region_start_def)
qed

lemma region_inj:
  assumes "l < L" "k < H * 2 ^ (L - 1 - l)" "l' < L" "k' < H * 2 ^ (L - 1 - l')"
  shows "region_start L H l + k = region_start L H l' + k' \<longleftrightarrow> l = l' \<and> k = k'"
  using region_before [of l' l k] region_before [of l l' k'] assms
  by (cases l l' rule: linorder_cases) auto

lemma ancestor_less: "l < L \<Longrightarrow> i < N \<Longrightarrow> i div 2 ^ l < H * 2 ^ (L - 1 - l)"
proof -
  assume l: "l < L" and i: "i < N"
  have "L - 1 = (L - 1 - l) + l" using l by simp
  then have "N = H * 2 ^ (L - 1 - l) * 2 ^ l" unfolding pages by (metis mult.assoc power_add)
  then show ?thesis using i by (simp add: less_mult_imp_div_less)
qed

lemma region_32: "32 dvd region_start L H l"
  using aligned by (simp add: region_start_def)

lemma bits_small: "l < L \<Longrightarrow> k \<le> H * 2 ^ (L - 1 - l) \<Longrightarrow> region_start L H l + k < 2 ^ 32"
  using region_below [of l] pages(2) by simp

lemma level_start_nat:
  assumes "l < L"
  shows "level_start (of_nat L) (of_nat l) (of_nat H) = of_nat (region_start L H l)"
proof -
  have "(of_nat L - of_nat l - 1 :: u32) = of_nat (L - 1 - l)" using assms levels
    by (simp add: of_nat_diff algebra_simps)
  moreover have "unat (of_nat (L - 1 - l) :: u32) = L - 1 - l"
    using levels by (intro unat_of_nat_small) simp
  ultimately have "unat (of_nat L - of_nat l - 1 :: u32) = L - 1 - l" by simp
  then show ?thesis by (simp add: level_start_def region_start_def of_nat_diff push_bit_of_1)
qed

lemma highest_count_nat: "highest_count (of_nat N) (of_nat L) = of_nat H"
proof -
  have "(of_nat L - 1 :: u32) = of_nat (L - 1)" using levels by (simp add: of_nat_diff)
  moreover have "unat (of_nat (L - 1) :: u32) = L - 1"
    using levels by (intro unat_of_nat_small) simp
  ultimately have "unat (of_nat L - 1 :: u32) = L - 1" by simp
  moreover have "unat (of_nat N :: u32) = N"
    by (rule unat_of_nat_small) (use pages(2) in simp)
  moreover have "unat (of_nat H :: u32) = H"
  proof (rule unat_of_nat_small)
    have "H \<le> N" using pages(1) by simp
    then show "H < 2 ^ LENGTH(32)" using pages(2) by simp
  qed
  moreover have "N div 2 ^ (L - 1) = H" using pages(1) by simp
  ultimately show ?thesis unfolding highest_count_def word_unat_eq_iff unat_shift_right by simp
qed

end

section \<open>Allocating one page\<close>

definition page_used :: "nat \<Rightarrow> nat \<Rightarrow> mem \<Rightarrow> u32 \<Rightarrow> nat \<Rightarrow> bool" where
  "page_used L H m p i = level_bit m p L H 0 i"

definition ancestors_marked :: "nat \<Rightarrow> nat \<Rightarrow> nat \<Rightarrow> mem \<Rightarrow> u32 \<Rightarrow> bool" where
  "ancestors_marked N L H m p \<longleftrightarrow>
     (\<forall>i < N. page_used L H m p i \<longrightarrow> (\<forall>l < L. level_bit m p L H l (i div 2 ^ l)))"

context buddy_geometry
begin

lemma ancestor_word:
  "l < L \<Longrightarrow> i < N \<Longrightarrow> drop_bit l (of_nat i :: u32) = of_nat (i div 2 ^ l)"
proof -
  assume i: "i < N"
  then have "i < 2 ^ LENGTH(32)" using pages(2) by simp
  moreover from this have "i div 2 ^ l < 2 ^ LENGTH(32)"
    by (rule le_less_trans [OF div_le_dividend])
  ultimately show ?thesis
    unfolding word_unat_eq_iff unat_shift_right by (subst (1 2) unat_of_nat_small) auto
qed

lemma of_nat_level: "unat k < L \<Longrightarrow> level_start (of_nat L) k (of_nat H) = of_nat (region_start L H (unat k))"
  using level_start_nat [of "unat k"] by simp

lemma top_level: "unat (of_nat L - 1 :: u32) = L - 1"
proof -
  have "(of_nat L - 1 :: u32) = of_nat (L - 1)" using levels by (simp add: of_nat_diff)
  moreover have "unat (of_nat (L - 1) :: u32) = L - 1"
    by (rule unat_of_nat_small) (use levels in simp)
  ultimately show ?thesis by simp
qed

lemma bytes: "8 * (N div 4) = 2 * N"
proof -
  have "4 dvd N" using aligned(1) pages(1) by (auto elim!: dvdE)
  then show ?thesis by auto
qed

lemma agree_off_level:
  assumes "l < L" "k < H * 2 ^ (L - 1 - l)"
  shows "agree_off p (N div 4) (bitset_set_at (of_nat (region_start L H l + k)) m p v) m"
proof (rule agree_off_set)
  show "region_start L H l + k < 8 * (N div 4)"
    using region_below [OF assms(1)] assms(2) unfolding bytes by linarith
  show "region_start L H l + k < 2 ^ 32" using bits_small [OF assms(1), of k] assms(2) by simp
qed

lemma mark_higher_bits:
  assumes i: "i < N"
  shows "(\<forall>j. bitset_at j (mark_higher p (of_nat L) (of_nat H) 0 (of_nat i) m) p \<longleftrightarrow>
        bitset_at j m p \<or> (\<exists>l. 0 < l \<and> l < L \<and> j = of_nat (region_start L H l + i div 2 ^ l)))
    \<and> agree_off p (N div 4) (mark_higher p (of_nat L) (of_nat H) 0 (of_nat i) m) m"
proof -
  let ?P = "\<lambda>(k :: u32) t. (\<forall>j. bitset_at j t p \<longleftrightarrow>
        bitset_at j m p \<or> (\<exists>l. unat k < l \<and> l < L \<and> j = of_nat (region_start L H l + i div 2 ^ l)))
      \<and> agree_off p (N div 4) t m"
  have "?P 0 (mark_higher p (of_nat L) (of_nat H) 0 (of_nat i) m)"
    unfolding mark_higher_def
  proof (rule for_down_invariant [where P = ?P])
    show "?P (of_nat L - 1) m" using top_level by auto
    show "0 \<le> (of_nat L - 1 :: u32)" by simp
    fix k :: u32 and t
    assume k: "0 < k" "k \<le> of_nat L - 1" and P: "?P k t"
    have l: "0 < unat k" "unat k < L"
      using k top_level levels(1) by (auto simp: word_le_nat_alt word_less_nat_alt)
    have pred: "unat (k - 1) = unat k - 1" using k(1) by (rule unat_pred_of_less)
    let ?j = "of_nat (region_start L H (unat k) + i div 2 ^ unat k) :: u32"
    have word: "level_start (of_nat L) k (of_nat H) + drop_bit (unat (k - 0)) (of_nat i) = ?j"
      using l by (simp add: of_nat_level ancestor_word [OF _ i])
    have agree: "agree_off p (N div 4) (bitset_set_at ?j t p True) t"
      by (rule agree_off_level [OF l(2) ancestor_less [OF l(2) i]])
    have step: "(\<exists>l. unat (k - 1) < l \<and> l < L \<and> j = of_nat (region_start L H l + i div 2 ^ l)) \<longleftrightarrow>
        j = ?j \<or> (\<exists>l. unat k < l \<and> l < L \<and> j = of_nat (region_start L H l + i div 2 ^ l))" for j :: u32
    proof -
      have "unat k - 1 < l \<longleftrightarrow> l = unat k \<or> unat k < l" for l using l(1) by arith
      then show ?thesis unfolding pred
        using l(2) by (simp only: conj_disj_distribR ex_disj_distrib simp_thms)
    qed
    have "bitset_at j (bitset_set_at ?j t p True) p \<longleftrightarrow> bitset_at j m p \<or>
        (\<exists>l. unat (k - 1) < l \<and> l < L \<and> j = of_nat (region_start L H l + i div 2 ^ l))" for j
      unfolding step bitset_set_true P [THEN conjunct1, rule_format] by (rule disj_left_commute)
    moreover have "agree_off p (N div 4) (bitset_set_at ?j t p True) m"
      using agree P agree_off_trans by blast
    ultimately show "?P (k - 1) (bitset_set_at (level_start (of_nat L) k (of_nat H)
        + drop_bit (unat (k - 0)) (of_nat i)) t p True)"
      unfolding word by (intro conjI allI)
  qed
  then show ?thesis by simp
qed

lemma level_bit_inj:
  assumes "l < L" "k \<le> H * 2 ^ (L - 1 - l)" "l' < L" "k' \<le> H * 2 ^ (L - 1 - l')"
  shows "(of_nat (region_start L H l + k) :: u32) = of_nat (region_start L H l' + k') \<longleftrightarrow>
    region_start L H l + k = region_start L H l' + k'"
  by (rule of_nat_eq_iff_small) (use assms bits_small in auto)

lemma alloc_page_search:
  assumes "\<not> page_used L H m p N"
  obtains i where "i \<le> N" "\<not> page_used L H m p i" "\<forall>k < i. page_used L H m p k"
    and "bitmap_find_first_zero_bit m (p + 4 * (of_nat (region_start L H 0) div 32)) (of_nat N) = of_nat i"
proof -
  define q where "q = p + 4 * (of_nat (region_start L H 0) div 32)"
  have bit: "bitset_at (of_nat k) m q = page_used L H m p k" if "k \<le> N" for k
    unfolding q_def page_used_def level_bit_def
    by (rule bitset_at_shift [OF region_32]) (use bits_small [of 0 k] that levels pages in auto)
  have uN: "unat (of_nat N :: u32) = N" by (rule unat_of_nat_small) (use pages(2) in simp)
  then have "unat (of_nat N :: u32) \<le> 2 ^ 27" using pages(2) by simp
  from find_first_zero [OF this, of m q] obtain r where
    r: "bitmap_find_first_zero_bit m q (of_nat N) = r" "\<not> bitset_at r m q"
      "\<forall>k. unat k < unat r \<longrightarrow> bitset_at k m q"
  proof (elim disjE exE conjE)
    assume "\<forall>k. unat k < 32 * unat (of_nat N :: u32) \<longrightarrow> bitset_at k m q"
    then have "bitset_at (of_nat N) m q" using uN N_pos by simp
    then show ?thesis using bit [of N] assms by simp
  qed blast
  have "unat r \<le> N"
  proof (rule ccontr)
    assume "\<not> unat r \<le> N"
    then have "bitset_at (of_nat N) m q" using r(3) uN by simp
    then show False using bit [of N] assms by simp
  qed
  moreover have "\<not> page_used L H m p (unat r)" using r(2) bit [OF \<open>unat r \<le> N\<close>] by simp
  moreover have "\<forall>k < unat r. page_used L H m p k"
  proof (intro allI impI)
    fix k assume k: "k < unat r"
    then have "unat (of_nat k :: u32) = k" by (intro unat_of_nat_small) (use unat_less_u32 [of r] in simp)
    then have "bitset_at (of_nat k) m q" using r(3) k by simp
    then show "page_used L H m p k" using bit [of k] k \<open>unat r \<le> N\<close> by simp
  qed
  ultimately show ?thesis using that [of "unat r"] r(1) by (simp add: q_def)
qed

lemma alloc_page_call:
  "binary_buddy_memory_allocator_allocate m p sz (of_nat N) (of_nat L) 1 =
     (let i = bitmap_find_first_zero_bit m (p + 4 * (of_nat (region_start L H 0) div 32)) (of_nat N)
      in if i = of_nat N then (0, m)
         else (i * sz, mark_higher p (of_nat L) (of_nat H) 0 i
                (bitset_set_at (of_nat (region_start L H 0) + i) m p True)))"
proof -
  have "unat (of_nat L :: u32) = L" by (rule unat_of_nat_small) (use levels in simp)
  then have L: "\<not> (of_nat L :: u32) \<le> 0" using levels(1) by (simp add: word_le_nat_alt)
  have s: "level_start (of_nat L) 0 (of_nat H) = of_nat (region_start L H 0)"
    using level_start_nat [of 0] levels(1) by simp
  have "drop_bit (unat (0 :: u32)) (of_nat N :: u32) = of_nat N" by simp
  then show ?thesis using L
    by (simp add: binary_buddy_memory_allocator_allocate_def highest_count_nat s mark_lower_def
        for_up_done Let_def)
qed

lemma alloc_page_effect:
  fixes m p i
  defines "m' \<equiv> mark_higher p (of_nat L) (of_nat H) 0 (of_nat i)
      (bitset_set_at (of_nat (region_start L H 0) + of_nat i) m p True)"
  assumes i: "i < N"
  shows "\<And>l k. l < L \<Longrightarrow> k < H * 2 ^ (L - 1 - l) \<Longrightarrow>
      level_bit m' p L H l k \<longleftrightarrow> level_bit m p L H l k \<or> k = i div 2 ^ l"
    and "page_used L H m' p N \<longleftrightarrow> page_used L H m p N"
    and "agree_off p (N div 4) m' m"
proof -
  let ?m1 = "bitset_set_at (of_nat (region_start L H 0 + i)) m p True"
  have m': "m' = mark_higher p (of_nat L) (of_nat H) 0 (of_nat i) ?m1" by (simp add: m'_def)
  note higher = mark_higher_bits [OF i, of p ?m1, folded m']
  have i0: "i < H * 2 ^ (L - 1 - 0)" using i pages(1) by simp
  have bits: "bitset_at j m' p \<longleftrightarrow> bitset_at j m p \<or>
      (\<exists>l < L. j = of_nat (region_start L H l + i div 2 ^ l))" for j
  proof -
    have "(\<exists>l < L. j = of_nat (region_start L H l + i div 2 ^ l)) \<longleftrightarrow>
        j = of_nat (region_start L H 0 + i) \<or>
        (\<exists>l. 0 < l \<and> l < L \<and> j = of_nat (region_start L H l + i div 2 ^ l))"
      using ex_level [OF levels(1), of "\<lambda>l. j = of_nat (region_start L H l + i div 2 ^ l)"] by simp
    then show ?thesis using higher by (simp only: bitset_set_true disj_ac)
  qed
  have word: "(of_nat (region_start L H l + k) :: u32) = of_nat (region_start L H l' + i div 2 ^ l')
      \<longleftrightarrow> region_start L H l + k = region_start L H l' + i div 2 ^ l'"
    if "l < L" "k \<le> H * 2 ^ (L - 1 - l)" "l' < L" for l l' k
    using level_bit_inj [of l k l' "i div 2 ^ l'"] ancestor_less [OF that(3) i] that by simp
  show "level_bit m' p L H l k \<longleftrightarrow> level_bit m p L H l k \<or> k = i div 2 ^ l"
    if "l < L" "k < H * 2 ^ (L - 1 - l)" for l k
  proof -
    have "(of_nat (region_start L H l + k) :: u32) = of_nat (region_start L H l' + i div 2 ^ l')
        \<longleftrightarrow> l = l' \<and> k = i div 2 ^ l'" if "l' < L" for l'
      using word [of l k l'] region_inj [of l k l' "i div 2 ^ l'"] ancestor_less [OF _ i]
        that \<open>l < L\<close> \<open>k < H * 2 ^ (L - 1 - l)\<close> by simp
    then show ?thesis unfolding level_bit_def bits using \<open>l < L\<close> by blast
  qed
  show "page_used L H m' p N \<longleftrightarrow> page_used L H m p N"
  proof -
    have "region_start L H 0 + N \<noteq> region_start L H l + i div 2 ^ l" if "l < L" for l
      using region_before [of 0 l "i div 2 ^ l"] ancestor_less [OF that i] that i by (cases "l = 0") auto
    then have "(of_nat (region_start L H 0 + N) :: u32) \<noteq> of_nat (region_start L H l + i div 2 ^ l)"
      if "l < L" for l
      using word [of 0 N l] that levels(1) pages(1) by simp
    then show ?thesis unfolding page_used_def level_bit_def bits by blast
  qed
  have "agree_off p (N div 4) ?m1 m" by (rule agree_off_level [OF levels(1) i0])
  then show "agree_off p (N div 4) m' m" using higher agree_off_trans by blast
qed

text \<open>
  Allocating one page: the least page that is not in use, and nothing when all are in use.  The
  bit after the last page stays clear, which is what makes the search stop at index \<open>N\<close>.
\<close>

lemma alloc_page_cases:
  assumes "\<not> page_used L H m p N"
  obtains (full) "\<forall>k < N. page_used L H m p k"
      "binary_buddy_memory_allocator_allocate m p sz (of_nat N) (of_nat L) 1 = (0, m)"
    | (page) i m' where "i < N" "\<not> page_used L H m p i" "\<forall>k < i. page_used L H m p k"
      "binary_buddy_memory_allocator_allocate m p sz (of_nat N) (of_nat L) 1 = (of_nat i * sz, m')"
      "\<And>l k. l < L \<Longrightarrow> k < H * 2 ^ (L - 1 - l) \<Longrightarrow>
        level_bit m' p L H l k \<longleftrightarrow> level_bit m p L H l k \<or> k = i div 2 ^ l"
      "\<not> page_used L H m' p N" "agree_off p (N div 4) m' m"
proof -
  obtain i where i: "i \<le> N" "\<not> page_used L H m p i" "\<forall>k < i. page_used L H m p k"
    and find: "bitmap_find_first_zero_bit m (p + 4 * (of_nat (region_start L H 0) div 32)) (of_nat N) = of_nat i"
    using alloc_page_search [OF assms] by blast
  show ?thesis
  proof (cases "i = N")
    case True
    then show ?thesis using full i(3) find by (simp add: alloc_page_call)
  next
    case False
    then have iN: "i < N" using i(1) by simp
    have "(of_nat i :: u32) \<noteq> of_nat N"
      using of_nat_eq_iff_small [where 'a = 32, of i N] False iN pages(2) by simp
    then have "binary_buddy_memory_allocator_allocate m p sz (of_nat N) (of_nat L) 1 =
        (of_nat i * sz, mark_higher p (of_nat L) (of_nat H) 0 (of_nat i)
          (bitset_set_at (of_nat (region_start L H 0) + of_nat i) m p True))"
      using find by (simp add: alloc_page_call Let_def)
    then show ?thesis using page [OF iN i(2,3)] alloc_page_effect [OF iN] assms by blast
  qed
qed

lemma alloc_page_ancestors:
  assumes "i < N" "\<And>l k. l < L \<Longrightarrow> k < H * 2 ^ (L - 1 - l) \<Longrightarrow>
      level_bit m' p L H l k \<longleftrightarrow> level_bit m p L H l k \<or> k = i div 2 ^ l"
    and "ancestors_marked N L H m p"
  shows "ancestors_marked N L H m' p"
  unfolding ancestors_marked_def
proof (intro allI impI)
  fix k l assume k: "k < N" "page_used L H m' p k" and l: "l < L"
  have "level_bit m p L H 0 k \<or> k = i"
    using assms(2) [of 0 k] k levels(1) pages(1) by (simp add: page_used_def)
  then have "level_bit m p L H l (k div 2 ^ l) \<or> k = i"
    using assms(3) k(1) l by (auto simp: ancestors_marked_def page_used_def)
  then show "level_bit m' p L H l (k div 2 ^ l)"
    using assms(2) [OF l ancestor_less [OF l k(1)]] by auto
qed

end

section \<open>Freeing one page\<close>

text \<open>The pages that the mask \<open>0xFE << k\<close> clears with page \<open>i\<close>: those below it in its byte.\<close>

definition freed_with :: "nat \<Rightarrow> nat \<Rightarrow> bool" where
  "freed_with i k \<longleftrightarrow> k div 8 = i div 8 \<and> k \<le> i"

lemma freed_with_mod: "freed_with i k \<longleftrightarrow> k div 8 = i div 8 \<and> k mod 8 \<le> i mod 8"
proof (cases "k div 8 = i div 8")
  case True
  have "k = 8 * (k div 8) + k mod 8" "i = 8 * (i div 8) + i mod 8" by simp_all
  then have "k \<le> i \<longleftrightarrow> k mod 8 \<le> i mod 8" unfolding True by linarith
  then show ?thesis by (simp only: freed_with_def)
qed (simp add: freed_with_def)

context buddy_geometry
begin

lemma region_8: "8 dvd region_start L H l"
  using region_32 [of l] by (rule dvd_trans [rotated]) simp

lemma clear_page:
  assumes "k \<le> N" "i < N"
  shows "page_used L H (bitset_set_at (of_nat (region_start L H 0 + i)) m p False) p k \<longleftrightarrow>
    page_used L H m p k \<and> \<not> freed_with i k"
proof -
  let ?r = "region_start L H 0"
  have bound: "?r + N < 2 ^ LENGTH(32)" using bits_small [of 0 N] levels(1) pages(1) by simp
  have u: "unat (of_nat (?r + x) :: u32) = ?r + x" if "x \<le> N" for x
    by (rule unat_of_nat_small) (use that bound in linarith)
  obtain q where q: "?r = 8 * q" using region_8 by (auto elim: dvdE)
  have d: "(?r + x) div 8 = q + x div 8" "(?r + x) mod 8 = x mod 8" for x
    unfolding q by simp_all
  note uk = u [OF assms(1)] and ui = u [OF less_imp_le [OF assms(2)]]
  have A: "(of_nat (?r + k) :: u32) div 8 = of_nat (?r + i) div 8 \<longleftrightarrow> k div 8 = i div 8"
    unfolding word_unat_eq_iff unat_div_8 uk ui d by simp
  show ?thesis
    unfolding page_used_def level_bit_def bitset_set_false A uk ui d freed_with_mod ..
qed

lemma clear_ancestor:
  assumes "k \<le> N" "0 < l" "l < L" "x < H * 2 ^ (L - 1 - l)"
  shows "page_used L H (bitset_set_at (of_nat (region_start L H l + x)) m p False) p k \<longleftrightarrow>
    page_used L H m p k"
proof -
  let ?r = "region_start L H 0"
  have bound: "?r + N < 2 ^ LENGTH(32)" using bits_small [of 0 N] levels(1) pages(1) by simp
  have less: "region_start L H l + x < ?r" by (rule region_before) (use assms in auto)
  have u: "unat (of_nat (?r + k) :: u32) = ?r + k"
    by (rule unat_of_nat_small) (use assms(1) bound in linarith)
  have v: "unat (of_nat (region_start L H l + x) :: u32) = region_start L H l + x"
    by (rule unat_of_nat_small) (use less bound in linarith)
  obtain q where q: "?r = 8 * q" using region_8 by (auto elim: dvdE)
  have "(region_start L H l + x) div 8 < q" using less q by linarith
  moreover have "q \<le> (?r + k) div 8" unfolding q by simp
  ultimately have "(?r + k) div 8 \<noteq> (region_start L H l + x) div 8" by linarith
  then have "(of_nat (?r + k) :: u32) div 8 \<noteq> of_nat (region_start L H l + x) div 8"
    unfolding word_unat_eq_iff unat_div_8 u v .
  then show ?thesis by (simp only: page_used_def level_bit_def bitset_set_false simp_thms)
qed

lemma unmark_higher_pages:
  assumes i: "i < N"
  shows "(\<forall>k \<le> N. page_used L H (unmark_higher p (of_nat L) (of_nat H) 0 (of_nat i) m) p k \<longleftrightarrow>
      page_used L H m p k \<and> \<not> freed_with i k) \<or>
    (\<forall>k \<le> N. page_used L H (unmark_higher p (of_nat L) (of_nat H) 0 (of_nat i) m) p k \<longleftrightarrow>
      page_used L H m p k)"
proof -
  let ?used = "\<lambda>t k. page_used L H t p k"
  let ?F = "\<lambda>k. ?used m k \<and> \<not> freed_with i k"
  let ?same = "\<lambda>t. \<forall>k \<le> N. ?used t k \<longleftrightarrow> ?used m k"
  let ?gone = "\<lambda>t. \<forall>k \<le> N. ?used t k \<longleftrightarrow> ?F k"
  let ?P = "\<lambda>(l :: u32) t. ?gone t \<or> ?same t"
  let ?start = "\<lambda>l. level_start (of_nat L) l (of_nat H)"
  let ?index = "\<lambda>l. drop_bit (unat (l - 0)) (of_nat i) :: u32"
  have uL: "unat (of_nat L :: u32) = L" by (rule unat_of_nat_small) (use levels in simp)
  have stp: "?P (l + 1) (bitset_set_at (?start l + ?index l) t p False)"
    if l: "l < of_nat L" and P: "?P l t" for l t
  proof -
    have lL: "unat l < L" using l uL by (simp add: word_less_nat_alt)
    have w: "?start l + ?index l = of_nat (region_start L H (unat l) + i div 2 ^ unat l)"
      using lL by (simp add: of_nat_level ancestor_word [OF _ i])
    show ?thesis
    proof (cases "unat l = 0")
      case True
      then show ?thesis using P unfolding w by (auto simp: clear_page i simp del: of_nat_add)
    next
      case False
      then show ?thesis using P lL unfolding w
        by (auto simp: clear_ancestor [OF _ _ lL ancestor_less [OF lL i]] simp del: of_nat_add)
    qed
  qed
  have "case for_ret 0 (of_nat L)
        (\<lambda>l t. let start = ?start l; index = ?index l;
                    pair_index = (if index mod 2 = 0 then index + 1 else index - 1)
                in if bitset_at (start + pair_index) t p then Inl t
                   else Inr (bitset_set_at (start + index) t p False)) m
      of Inl t \<Rightarrow> ?P 0 t | Inr t \<Rightarrow> ?P (of_nat L) t"
  proof (rule for_ret_invariant [where P = ?P])
    fix k t t'
    assume "k < of_nat L" "?P k t"
      "(let start = ?start k; index = ?index k;
            pair_index = (if index mod 2 = 0 then index + 1 else index - 1)
        in if bitset_at (start + pair_index) t p then Inl t
           else Inr (bitset_set_at (start + index) t p False)) = Inr t'"
    then show "?P (k + 1) t'" using stp [of k t] by (auto simp only: Let_def split: if_splits)
  qed (auto simp: Let_def split: if_splits)
  then show ?thesis unfolding unmark_higher_def by (simp split: sum.splits)
qed

lemma free_page_effect:
  assumes i: "i < N" and sz: "0 < sz" "N * sz \<le> 2 ^ 32"
  shows "\<exists>m'. binary_buddy_memory_allocator_free m p (of_nat sz) (of_nat N) (of_nat L) (of_nat (i * sz)) 1 = Some (True, m')
    \<and> (\<forall>k \<le> N. page_used L H m' p k \<longleftrightarrow> page_used L H m p k \<and> \<not> freed_with i k)"
proof -
  have uL: "unat (of_nat L :: u32) = L" by (rule unat_of_nat_small) (use levels in simp)
  then have L: "\<not> (of_nat L :: u32) \<le> 0" using levels(1) by (simp add: word_le_nat_alt)
  have s: "level_start (of_nat L) 0 (of_nat H) = of_nat (region_start L H 0)"
    using level_start_nat [of 0] levels(1) by simp
  have usz: "unat (of_nat sz :: u32) = sz"
  proof (rule unat_of_nat_small)
    have "1 < N \<Longrightarrow> sz < N * sz" using sz(1) by simp
    moreover have "1 < N"
    proof -
      have "32 \<le> H" using aligned by (rule dvd_imp_le)
      also have "H \<le> N" using pages(1) by simp
      finally show ?thesis by simp
    qed
    ultimately have "sz < N * sz" by blast
    also have "N * sz \<le> 2 ^ LENGTH(32)" using sz(2) by simp
    finally show "sz < 2 ^ LENGTH(32)" .
  qed
  have "i * sz < N * sz" using i sz(1) by simp
  also have "N * sz \<le> 2 ^ LENGTH(32)" using sz(2) by simp
  finally have uisz: "unat (of_nat (i * sz) :: u32) = i * sz" by (rule unat_of_nat_small)
  have ui: "unat (of_nat i :: u32) = i" by (rule unat_of_nat_small) (use i pages(2) in simp)
  have uN: "unat (of_nat N :: u32) = N" by (rule unat_of_nat_small) (use pages(2) in simp)
  have "unat ((of_nat (i * sz) :: u32) div of_nat sz) = i"
    using sz(1) by (simp add: unat_div_distrib usz uisz del: of_nat_mult)
  then have idx: "(of_nat (i * sz) :: u32) div of_nat sz = of_nat i"
    using ui by (simp only: word_unat_eq_iff)
  have sz0: "(of_nat sz :: u32) \<noteq> 0" using usz sz(1) by auto
  have iN: "\<not> (of_nat N :: u32) \<le> of_nat i" using i ui uN by (simp add: word_le_nat_alt)
  let ?m1 = "bitset_set_at (of_nat (region_start L H 0 + i)) m p False"
  let ?m2 = "unmark_higher p (of_nat L) (of_nat H) 0 (of_nat i) ?m1"
  have "binary_buddy_memory_allocator_free m p (of_nat sz) (of_nat N) (of_nat L) (of_nat (i * sz)) 1 = Some (True, ?m2)"
    using L sz0 iN
    by (simp add: binary_buddy_memory_allocator_free_def highest_count_nat s mark_lower_def
        for_up_done Let_def idx del: of_nat_mult)
  moreover have "page_used L H ?m2 p k \<longleftrightarrow> page_used L H m p k \<and> \<not> freed_with i k" if "k \<le> N" for k
    using unmark_higher_pages [OF i, of p ?m1] clear_page [OF that i, of m p] that by blast
  ultimately show ?thesis by blast
qed

end

section \<open>Reserving\<close>

lemma set_run_true:
  "bitset_at j (set_run p f c True m) p \<longleftrightarrow> j - f < c \<or> bitset_at j m p"
proof -
  let ?P = "\<lambda>k t. \<forall>j. bitset_at j t p \<longleftrightarrow> j - f < k \<or> bitset_at j m p"
  have "?P c (for_up 0 c (\<lambda>j t. bitset_set_at (f + j) t p True) m)"
    by (rule for_up_invariant [where P = ?P]) (auto simp: window_Suc)
  then show ?thesis by (simp add: set_run_def)
qed

lemma set_upto_loop:
  assumes "e \<noteq> - 1"
  shows "set_upto p st i e m = Some (for_up i (e + 1) (\<lambda>j t. bitset_set_at (st + j) t p True) m)"
proof (induction i "e + 1" "\<lambda>j t. bitset_set_at (st + j) t p True" m rule: for_up.induct)
  case (1 i m)
  have "1 + e \<noteq> 0" using assms by (metis add.commute add_eq_0_iff)
  then have "unat (e + 1) = unat e + 1" using unatSuc [of e] by (simp add: add.commute)
  then have "i \<le> e \<longleftrightarrow> i < e + 1" 
    by (simp add: word_le_nat_alt word_less_nat_alt less_Suc_eq_le)
  then show ?case using "1.hyps"
    by (subst set_upto.simps) (simp add: for_up_step for_up_done)
qed

lemma window_below: "unat c + unat n \<le> unat j \<Longrightarrow> \<not> j - c < (n :: u32)"
proof
  assume le: "unat c + unat n \<le> unat j" and less: "j - c < n"
  have "c \<le> j" using le by (simp add: word_le_nat_alt)
  then have "unat (j - c) = unat j - unat c" by (rule unat_sub)
  then show False using le less by (simp add: word_less_nat_alt)
qed

context buddy_geometry
begin

lemma page_word:
  assumes "k \<le> N"
  shows "unat (of_nat (region_start L H 0 + k) :: u32) = region_start L H 0 + k"
  by (rule unat_of_nat_small) (use bits_small [of 0 k] assms levels(1) pages(1) in simp)

lemma run_below_pages:
  assumes "k \<le> N" "unat f + unat c \<le> region_start L H 0"
  shows "page_used L H (set_run p f c True m) p k \<longleftrightarrow> page_used L H m p k"
proof -
  have "\<not> of_nat (region_start L H 0 + k) - f < c"
    by (rule window_below) (use page_word [OF assms(1)] assms(2) in simp)
  then show ?thesis by (simp only: page_used_def level_bit_def set_run_true simp_thms)
qed

lemma run_on_pages:
  assumes "k \<le> N" "a + n \<le> N + 1"
  shows "page_used L H (set_run p (of_nat (region_start L H 0 + a)) (of_nat n) True m) p k \<longleftrightarrow>
    a \<le> k \<and> k < a + n \<or> page_used L H m p k"
proof -
  let ?r = "region_start L H 0"
  have un: "unat (of_nat n :: u32) = n" by (rule unat_of_nat_small) (use assms pages(2) in simp)
  have r: "?r + N + 1 < 2 ^ 32" using region_below [of 0] levels(1) pages by simp
  show ?thesis
  proof (cases "a \<le> k")
    case True
    have "of_nat (?r + k) - of_nat (?r + a) = (of_nat (k - a) :: u32)"
      using True by (simp add: of_nat_diff)
    moreover have "unat (of_nat (k - a) :: u32) = k - a"
      by (rule unat_of_nat_small) (use assms(1) pages(2) in simp)
    ultimately have "of_nat (?r + k) - of_nat (?r + a) < (of_nat n :: u32) \<longleftrightarrow> k < a + n"
      using True un by (simp add: word_less_nat_alt del: of_nat_add) arith
    then show ?thesis using True by (simp only: page_used_def level_bit_def set_run_true simp_thms)
  next
    case False
    have "unat (of_nat (?r + a) :: u32) = ?r + a"
      by (rule unat_of_nat_small) (use r assms(2) in simp)
    then have "unat (of_nat (?r + k) - of_nat (?r + a) :: u32) = ?r + k + 2 ^ 32 - (?r + a)"
      using False page_word [OF assms(1)] by (simp add: unat_sub_if' del: of_nat_add)
    then have "\<not> (of_nat (?r + k) - of_nat (?r + a) :: u32) < of_nat n"
      using un assms False pages(2) by (simp add: word_less_nat_alt del: of_nat_add)
    then show ?thesis using False by (simp only: page_used_def level_bit_def set_run_true simp_thms)
  qed
qed

lemma higher_run_fits:
  assumes "0 < l" "l < L"
  shows "region_start L H l + H * 2 ^ (l - 1) \<le> region_start L H 0"
proof -
  have e: "(2 :: nat) ^ (L - 1 - l) \<le> 2 ^ (L - 2)" "(2 :: nat) ^ (l - 1) \<le> 2 ^ (L - 2)"
    using assms by (intro power_increasing; simp)+
  have L: "L - 1 = Suc (L - 2)" using assms by simp
  have "2 ^ (L - 1 - l) - 1 + 2 ^ (l - 1) \<le> (2 :: nat) ^ (L - 1) - 1"
    using e unfolding L power_Suc by linarith
  then have "(2 ^ (L - 1 - l) - 1 + 2 ^ (l - 1)) * H \<le> (2 ^ (L - 1) - 1) * H" by (rule mult_le_mono1)
  then show ?thesis by (simp add: region_start_def algebra_simps)
qed

text \<open>The loop of \<open>reserve\<close> over the higher levels, which leaves the pages alone.\<close>

lemma reserve_loop_keeps:
  fixes p :: u32
  defines "body \<equiv> \<lambda>i (t, num_higher). (set_run p (level_start (of_nat L) i (of_nat H)
        + drop_bit (unat (i - 0)) 0) num_higher True t,
      (if num_higher div 2 = 0 then 1 else num_higher div 2 :: u32))"
  obtains m2 num where "for_down (of_nat L - 1) 0 body (m1, of_nat N div 2) = (m2, num)"
    "\<And>x. x \<le> N \<Longrightarrow> page_used L H m2 p x \<longleftrightarrow> page_used L H m1 p x"
proof -
  let ?P = "\<lambda>(k :: u32) (t, num :: u32). (\<forall>x \<le> N. page_used L H t p x \<longleftrightarrow> page_used L H m1 p x)
      \<and> (0 < unat k \<longrightarrow> unat num = H * 2 ^ (unat k - 1))"
  have "?P 0 (for_down (of_nat L - 1) 0 body (m1, of_nat N div 2))"
  proof (rule for_down_invariant [where P = ?P])
    have uN: "unat (of_nat N :: u32) = N" by (rule unat_of_nat_small) (use pages(2) in simp)
    have "N div 2 = H * 2 ^ (L - 1 - 1)" if pos: "0 < L - 1"
    proof -
      obtain j where j: "L - 1 = Suc j" using pos by (cases "L - 1") auto
      show ?thesis unfolding pages(1) j by simp
    qed
    then show "?P (of_nat L - 1) (m1, of_nat N div 2)"
      unfolding top_level using uN by (simp add: word_div_two)
    show "0 \<le> (of_nat L - 1 :: u32)" by simp
    fix k :: u32 and tn
    assume k: "0 < k" "k \<le> of_nat L - 1" and P: "?P k tn"
    obtain t num where tn: "tn = (t, num)" by (cases tn)
    have l: "0 < unat k" "unat k < L"
      using k top_level levels(1) by (auto simp: word_le_nat_alt word_less_nat_alt)
    have num: "unat num = H * 2 ^ (unat k - 1)" using P l tn by simp
    have start: "unat (of_nat (region_start L H (unat k)) :: u32) = region_start L H (unat k)"
      by (rule unat_of_nat_small) (use bits_small [OF l(2), of 0] in simp)
    have "page_used L H (set_run p (of_nat (region_start L H (unat k))) num True t) p x \<longleftrightarrow> page_used L H t p x"
      if "x \<le> N" for x
      by (rule run_below_pages [OF that]) (use higher_run_fits [OF l] start num in simp)
    moreover have "unat (if num div 2 = 0 then 1 else num div 2) = H * 2 ^ (unat (k - 1) - 1)"
      if "0 < unat (k - 1)"
    proof -
      have pred: "unat (k - 1) = unat k - 1" using k(1) by (rule unat_pred_of_less)
      have "unat k - 1 = Suc (unat (k - 1) - 1)" using that pred by simp
      then have half: "unat (num div 2) = H * 2 ^ (unat (k - 1) - 1)"
        using num by (simp add: word_div_two)
      then have "num div 2 \<noteq> 0" using aligned(2) by auto
      then show ?thesis using half by simp
    qed
    ultimately show "?P (k - 1) (body k tn)" using P l tn by (simp add: of_nat_level body_def)
  qed
  then show ?thesis by (cases "for_down (of_nat L - 1) 0 body (m1, of_nat N div 2)") (auto intro: that)
qed

lemma reserve_first_pages:
  assumes e: "e < N"
  shows "\<exists>m'. binary_buddy_memory_allocator_reserve m p 0 (of_nat e) (of_nat N) 0 (of_nat L) = Some (True, m')
    \<and> (\<forall>k \<le> N. page_used L H m' p k \<longleftrightarrow> k \<le> e \<or> page_used L H m p k)"
proof -
  have uL: "unat (of_nat L :: u32) = L" by (rule unat_of_nat_small) (use levels in simp)
  then have L: "\<not> (of_nat L :: u32) \<le> 0" using levels(1) by (simp add: word_le_nat_alt)
  have s: "level_start (of_nat L) 0 (of_nat H) = of_nat (region_start L H 0)"
    using level_start_nat [of 0] levels(1) by simp
  have "(of_nat (e + 1) :: u32) \<noteq> of_nat 0"
    using of_nat_eq_iff_small [where 'a = 32, of "e + 1" 0] e pages(2) by simp
  then have e1: "(of_nat e :: u32) \<noteq> - 1" by auto
  define m1 where "m1 = set_run p (of_nat (region_start L H 0 + 0)) (of_nat (e + 1)) True m"
  obtain m2 num where m2: "for_down (of_nat L - 1) 0
      (\<lambda>i (t, num_higher). (set_run p (level_start (of_nat L) i (of_nat H) + drop_bit (unat (i - 0)) 0) num_higher True t,
        (if num_higher div 2 = 0 then 1 else num_higher div 2 :: u32))) (m1, of_nat N div 2) = (m2, num)"
    and keep: "\<And>x. x \<le> N \<Longrightarrow> page_used L H m2 p x \<longleftrightarrow> page_used L H m1 p x"
    by (rule reserve_loop_keeps [of p m1]) blast
  have m1: "set_upto p (of_nat (region_start L H 0)) 0 (of_nat e) m = Some m1"
    unfolding set_upto_loop [OF e1] m1_def set_run_def by (simp add: add.commute)
  have "binary_buddy_memory_allocator_reserve m p 0 (of_nat e) (of_nat N) 0 (of_nat L) = Some (True, m2)"
    using L m1 m2
    by (simp add: binary_buddy_memory_allocator_reserve_def highest_count_nat s Let_def for_up_done)
  moreover have "page_used L H m2 p k \<longleftrightarrow> k \<le> e \<or> page_used L H m p k" if "k \<le> N" for k
    using keep [OF that] run_on_pages [OF that, of 0 "e + 1" p m] e
    by (simp add: m1_def less_Suc_eq_le)
  ultimately show ?thesis by blast
qed

end

end
