(* ===== verification/PageAlloc.thy ===== *)
theory PageAlloc
  imports Buddy
begin

text \<open>
  The page allocators built on the buddy allocator: physical pages
  (mem/phys/global_phys_allocator.c), kernel virtual pages (mem/virt/kernel_virt_allocator.c),
  the pages of the ACPI shim (mem/virt/osi_virt_mem_allocator.c) and the bump allocator of
  mem/virt/heap_virt_mem_allocator.c.  The static allocator objects lie in kernel memory at the
  addresses of a \<open>layout\<close>, which also has the end of the kernel image that the linker script
  defines; the static variables are passed through.
\<close>

unbundle bit_operations_syntax

section \<open>Constants\<close>

definition PAGE_SIZE :: u32 where "PAGE_SIZE = 4096"
definition MAX_ACPICA_SIZE :: u32 where "MAX_ACPICA_SIZE = 1024"
definition MAX_KERNEL_HEAP_SIZE :: u32 where "MAX_KERNEL_HEAP_SIZE = 0x10000"
definition KERNEL_OFFSET :: u32 where "KERNEL_OFFSET = 0xC0000000"
definition V2P :: "u32 \<Rightarrow> u32" where "V2P a = a - KERNEL_OFFSET"
definition P2V :: "u32 \<Rightarrow> u32" where "P2V a = a + KERNEL_OFFSET"
definition HEAP_START_ADDR :: u32 where "HEAP_START_ADDR = P2V (MAX_KERNEL_HEAP_SIZE * 3)"

lemmas mem_constants = PAGE_SIZE_def MAX_ACPICA_SIZE_def MAX_KERNEL_HEAP_SIZE_def
  KERNEL_OFFSET_def V2P_def P2V_def HEAP_START_ADDR_def

record layout =
  global_phys_allocator :: u32
  kernel_virt_allocator :: u32
  osi_buddy_memory_allocator :: u32
  endkernel :: u32

section \<open>Physical pages\<close>

definition kernel_image_pages :: "layout \<Rightarrow> u32" where
  "kernel_image_pages lay =
     V2P (endkernel lay) div PAGE_SIZE + (if V2P (endkernel lay) mod PAGE_SIZE > 0 then 1 else 0)"

definition global_phys_allocator_init :: "layout \<Rightarrow> mem \<Rightarrow> (bool \<times> mem) option" where
  "global_phys_allocator_init lay m =
     (let (ret0, m0) = binary_buddy_memory_allocator_init m (global_phys_allocator lay) 262016
      in if \<not> ret0 then Some (False, m0)
         else binary_buddy_memory_allocator_reserve m0 (global_phys_allocator lay) 0
                (kernel_image_pages lay) 32768 0 11)"

definition global_phys_allocator_allocate_pages :: "layout \<Rightarrow> u32 \<Rightarrow> mem \<Rightarrow> u32 \<times> mem" where
  "global_phys_allocator_allocate_pages lay num_of_pages m =
     binary_buddy_memory_allocator_allocate m (global_phys_allocator lay) PAGE_SIZE 32768 11 num_of_pages"

definition global_phys_allocator_allocate_page :: "layout \<Rightarrow> mem \<Rightarrow> u32 \<times> mem" where
  "global_phys_allocator_allocate_page lay m = global_phys_allocator_allocate_pages lay 1 m"

definition global_phys_allocator_free_pages :: "layout \<Rightarrow> u32 \<Rightarrow> u32 \<Rightarrow> mem \<Rightarrow> (bool \<times> mem) option" where
  "global_phys_allocator_free_pages lay page_phys_addr num_of_pages m =
     binary_buddy_memory_allocator_free m (global_phys_allocator lay) PAGE_SIZE 32768 11
       page_phys_addr num_of_pages"

definition global_phys_allocator_free_page :: "layout \<Rightarrow> u32 \<Rightarrow> mem \<Rightarrow> (bool \<times> mem) option" where
  "global_phys_allocator_free_page lay page_phys_addr m =
     global_phys_allocator_free_pages lay page_phys_addr 1 m"

section \<open>Kernel virtual pages\<close>

definition kernel_virt_allocator_init :: "layout \<Rightarrow> mem \<Rightarrow> (bool \<times> mem) option" where
  "kernel_virt_allocator_init lay m =
     (let (ret0, m0) = binary_buddy_memory_allocator_init m (kernel_virt_allocator lay) 65408
      in if \<not> ret0 then Some (False, m0)
         else do {
           (ret1, m1) \<leftarrow> binary_buddy_memory_allocator_reserve m0 (kernel_virt_allocator lay) 0
                           (kernel_image_pages lay - 1) 8192 0 9;
           if \<not> ret1 then Some (False, m1)
           else binary_buddy_memory_allocator_reserve m1 (kernel_virt_allocator lay) 16 23 32 8 9
         })"

definition kernel_virt_allocator_reserve_pages :: "layout \<Rightarrow> u32 \<Rightarrow> u32 \<Rightarrow> mem \<Rightarrow> (bool \<times> mem) option" where
  "kernel_virt_allocator_reserve_pages lay page_virt_addr num_of_pages m =
     binary_buddy_memory_allocator_reserve m (kernel_virt_allocator lay)
       (V2P page_virt_addr div PAGE_SIZE - 1)
       ((V2P page_virt_addr div PAGE_SIZE - 1) + num_of_pages) 8192 0 9"

definition kernel_virt_allocator_reserve_page :: "layout \<Rightarrow> u32 \<Rightarrow> mem \<Rightarrow> (bool \<times> mem) option" where
  "kernel_virt_allocator_reserve_page lay page_virt_addr m =
     kernel_virt_allocator_reserve_pages lay page_virt_addr 1 m"

definition kernel_virt_allocator_allocate_pages :: "layout \<Rightarrow> u32 \<Rightarrow> mem \<Rightarrow> u32 \<times> mem" where
  "kernel_virt_allocator_allocate_pages lay num_of_pages m =
     (let (r, m') = binary_buddy_memory_allocator_allocate m (kernel_virt_allocator lay)
                      PAGE_SIZE 8192 9 num_of_pages
      in (P2V r, m'))"

definition kernel_virt_allocator_allocate_page :: "layout \<Rightarrow> mem \<Rightarrow> u32 \<times> mem" where
  "kernel_virt_allocator_allocate_page lay m = kernel_virt_allocator_allocate_pages lay 1 m"

definition kernel_virt_allocator_free_pages :: "layout \<Rightarrow> u32 \<Rightarrow> u32 \<Rightarrow> mem \<Rightarrow> (bool \<times> mem) option" where
  "kernel_virt_allocator_free_pages lay page_virt_addr num_of_pages m =
     binary_buddy_memory_allocator_free m (kernel_virt_allocator lay) PAGE_SIZE 8192 9
       (V2P page_virt_addr) num_of_pages"

definition kernel_virt_allocator_free_page :: "layout \<Rightarrow> u32 \<Rightarrow> mem \<Rightarrow> (bool \<times> mem) option" where
  "kernel_virt_allocator_free_page lay page_virt_addr m =
     kernel_virt_allocator_free_pages lay page_virt_addr 1 m"

section \<open>Pages of the ACPI shim and of the heap\<close>

definition osi_virt_mem_allocator_init :: "layout \<Rightarrow> mem \<Rightarrow> bool \<times> u32 \<times> mem" where
  "osi_virt_mem_allocator_init lay m =
     (let (osi_virt_range_start, m1) = kernel_virt_allocator_allocate_pages lay MAX_ACPICA_SIZE m
      in if osi_virt_range_start = 0 then (False, osi_virt_range_start, m1)
         else (let (r, m2) = kmemset m1 (osi_buddy_memory_allocator lay) 0 224
               in (r \<noteq> 0, osi_virt_range_start, m2)))"

definition osi_virt_mem_allocator_allocate_pages :: "layout \<Rightarrow> u32 \<Rightarrow> u32 \<Rightarrow> mem \<Rightarrow> u32 \<times> mem" where
  "osi_virt_mem_allocator_allocate_pages lay osi_virt_range_start num_of_pages m =
     (let (r, m') = binary_buddy_memory_allocator_allocate m (osi_buddy_memory_allocator lay)
                      PAGE_SIZE MAX_ACPICA_SIZE 3 num_of_pages
      in (osi_virt_range_start + r, m'))"

definition osi_virt_mem_allocator_allocate_page :: "layout \<Rightarrow> u32 \<Rightarrow> mem \<Rightarrow> u32 \<times> mem" where
  "osi_virt_mem_allocator_allocate_page lay osi_virt_range_start m =
     osi_virt_mem_allocator_allocate_pages lay osi_virt_range_start 1 m"

definition osi_virt_mem_allocator_free_pages ::
  "layout \<Rightarrow> u32 \<Rightarrow> u32 \<Rightarrow> u32 \<Rightarrow> mem \<Rightarrow> (bool \<times> mem) option" where
  "osi_virt_mem_allocator_free_pages lay osi_virt_range_start page_virt_addr num_of_pages m =
     binary_buddy_memory_allocator_free m (osi_buddy_memory_allocator lay) PAGE_SIZE MAX_ACPICA_SIZE 3
       (page_virt_addr - osi_virt_range_start) num_of_pages"

definition osi_virt_mem_allocator_free_page :: "layout \<Rightarrow> u32 \<Rightarrow> u32 \<Rightarrow> mem \<Rightarrow> (bool \<times> mem) option" where
  "osi_virt_mem_allocator_free_page lay osi_virt_range_start page_virt_addr m =
     osi_virt_mem_allocator_free_pages lay osi_virt_range_start page_virt_addr 1 m"

definition kernel_virt_mem_allocate_pages :: "u32 \<Rightarrow> u32 \<Rightarrow> u32 \<times> u32" where
  "kernel_virt_mem_allocate_pages num_of_pages num_of_pages_allocated =
     (if num_of_pages_allocated + num_of_pages > MAX_KERNEL_HEAP_SIZE then (0, num_of_pages_allocated)
      else (HEAP_START_ADDR + num_of_pages_allocated * PAGE_SIZE, num_of_pages_allocated + num_of_pages))"

definition kernel_virt_mem_allocate_page :: "u32 \<Rightarrow> u32 \<times> u32" where
  "kernel_virt_mem_allocate_page num_of_pages_allocated =
     kernel_virt_mem_allocate_pages 1 num_of_pages_allocated"

section \<open>The three geometries\<close>

interpretation phys: buddy_geometry 32768 11 32
  by unfold_locales auto

interpretation virt: buddy_geometry 8192 9 32
  by unfold_locales auto

interpretation osi: buddy_geometry 1024 3 256
  by unfold_locales auto

section \<open>The interface of a page allocator\<close>

text \<open>
  What the clients of a page allocator rely on: while the allocator is \<open>ready\<close>, one call returns
  the least page not in use and takes it, or the failure value when there is none.
\<close>

fun allocate_series :: "('s \<Rightarrow> u32 \<times> 's) \<Rightarrow> nat \<Rightarrow> 's \<Rightarrow> u32 list \<times> 's" where
  "allocate_series alloc 0 s = ([], s)"
| "allocate_series alloc (Suc n) s =
     (let (a, s') = alloc s; (as, s'') = allocate_series alloc n s' in (a # as, s''))"

locale page_allocator =
  fixes alloc :: "'s \<Rightarrow> u32 \<times> 's"
    and in_use :: "'s \<Rightarrow> nat \<Rightarrow> bool"
    and ready :: "'s \<Rightarrow> bool"
    and address :: "nat \<Rightarrow> u32"
    and failure :: u32
    and N :: nat
  assumes alloc_full: "ready s \<Longrightarrow> \<forall>k < N. in_use s k \<Longrightarrow> alloc s = (failure, s)"
    and alloc_least: "\<lbrakk> ready s; i < N; \<not> in_use s i; \<forall>k < i. in_use s k \<rbrakk> \<Longrightarrow>
      \<exists>s'. alloc s = (address i, s') \<and> ready s' \<and> (\<forall>k < N. in_use s' k \<longleftrightarrow> k = i \<or> in_use s k)"
    and address_inj: "inj_on address {..<N}"
    and address_failure: "\<lbrakk> ready s; i < N; address i = failure \<rbrakk> \<Longrightarrow> in_use s i"
begin

lemma alloc_cases:
  assumes "ready s"
  obtains (full) "\<forall>k < N. in_use s k" "alloc s = (failure, s)"
    | (page) i s' where "i < N" "\<not> in_use s i" "\<forall>k < i. in_use s k" "alloc s = (address i, s')"
        "ready s'" "\<forall>k < N. in_use s' k \<longleftrightarrow> k = i \<or> in_use s k" "address i \<noteq> failure"
proof (cases "\<forall>k < N. in_use s k")
  case True
  then show ?thesis using full alloc_full [OF assms] by blast
next
  case False
  define i where "i = (LEAST k. \<not> in_use s k)"
  obtain k where k: "k < N" "\<not> in_use s k" using False by blast
  then have "\<not> in_use s i" "i \<le> k" "\<forall>j < i. in_use s j"
    unfolding i_def
    using LeastI [of "\<lambda>k. \<not> in_use s k" k] Least_le [of "\<lambda>k. \<not> in_use s k" k]
    by (auto dest: not_less_Least)
  moreover from this k have "i < N" by simp
  ultimately show ?thesis
    using page alloc_least [OF assms, of i] address_failure [OF assms, of i] by blast
qed

lemma series_fresh:
  assumes "ready s"
  shows "case allocate_series alloc n s of (as, s') \<Rightarrow>
    ready s' \<and> length as = n \<and> distinct (filter (\<lambda>a. a \<noteq> failure) as) \<and>
    (\<forall>a \<in> set as. a \<noteq> failure \<longrightarrow> (\<exists>i < N. a = address i \<and> \<not> in_use s i \<and> in_use s' i)) \<and>
    (\<forall>k < N. in_use s k \<longrightarrow> in_use s' k)"
  using assms
proof (induction n arbitrary: s)
  case (Suc n)
  obtain as s2 where rec: "allocate_series alloc n (snd (alloc s)) = (as, s2)" by fastforce
  from Suc.prems show ?case
  proof (cases rule: alloc_cases)
    case full
    then show ?thesis using Suc.IH [OF Suc.prems] rec by simp
  next
    case (page i s1)
    have IH: "ready s2" "length as = n" "distinct (filter (\<lambda>a. a \<noteq> failure) as)"
      "\<forall>a \<in> set as. a \<noteq> failure \<longrightarrow> (\<exists>i < N. a = address i \<and> \<not> in_use s1 i \<and> in_use s2 i)"
      "\<forall>k < N. in_use s1 k \<longrightarrow> in_use s2 k"
      using Suc.IH [OF page(5)] rec page(4) by simp_all
    have i: "in_use s1 i" using page(1,6) by blast
    have "address i \<notin> set as"
    proof
      assume "address i \<in> set as"
      then obtain j where "j < N" "address i = address j" "\<not> in_use s1 j"
        using IH(4) page(7) by blast
      then show False using address_inj page(1) i by (auto dest: inj_onD)
    qed
    moreover have "\<exists>i < N. a = address i \<and> \<not> in_use s i \<and> in_use s2 i"
      if "a \<in> set as" "a \<noteq> failure" for a
      using IH(4) that page(6) by blast
    moreover have "\<exists>j < N. address i = address j \<and> \<not> in_use s j \<and> in_use s2 j"
      using page(1,2) i IH(5) by blast
    ultimately show ?thesis using IH rec page(4,6) by auto
  qed
qed simp

end

definition phys_page_used :: "layout \<Rightarrow> mem \<Rightarrow> nat \<Rightarrow> bool" where
  "phys_page_used lay m i = page_used 11 32 m (global_phys_allocator lay) i"

definition virt_page_used :: "layout \<Rightarrow> mem \<Rightarrow> nat \<Rightarrow> bool" where
  "virt_page_used lay m i = page_used 9 32 m (kernel_virt_allocator lay) i"

definition phys_ready :: "layout \<Rightarrow> mem \<Rightarrow> bool" where
  "phys_ready lay m \<longleftrightarrow> phys_page_used lay m 0 \<and> \<not> phys_page_used lay m 32768"

definition virt_ready :: "layout \<Rightarrow> mem \<Rightarrow> bool" where
  "virt_ready lay m \<longleftrightarrow> virt_page_used lay m 0 \<and> \<not> virt_page_used lay m 8192"

definition osi_page_used :: "layout \<Rightarrow> mem \<Rightarrow> nat \<Rightarrow> bool" where
  "osi_page_used lay m i = page_used 3 256 m (osi_buddy_memory_allocator lay) i"

definition osi_ready :: "layout \<Rightarrow> mem \<Rightarrow> bool" where
  "osi_ready lay m \<longleftrightarrow> osi_page_used lay m 0 \<and> \<not> osi_page_used lay m 1024"

definition page_frame :: "u32 \<Rightarrow> nat \<Rightarrow> u32" where
  "page_frame base i = base + of_nat i * PAGE_SIZE"

lemma unat_page: "i < 2 ^ 20 \<Longrightarrow> unat (of_nat i * PAGE_SIZE :: u32) = i * 4096"
proof -
  assume "i < 2 ^ 20"
  then have "unat (of_nat (i * 4096) :: u32) = i * 4096" by (intro unat_of_nat_small) simp
  then show ?thesis by (simp add: PAGE_SIZE_def)
qed

lemma page_frame_inj: "inj_on (page_frame base) {..<2 ^ 20}"
proof (rule inj_onI)
  fix i j :: nat
  assume "i \<in> {..<2 ^ 20}" "j \<in> {..<2 ^ 20}" "page_frame base i = page_frame base j"
  then have "unat (of_nat i * PAGE_SIZE :: u32) = unat (of_nat j * PAGE_SIZE :: u32)"
    by (simp add: page_frame_def)
  then show "i = j" using unat_page [of i] unat_page [of j] \<open>i \<in> _\<close> \<open>j \<in> _\<close> by simp
qed

lemma page_frame_base: "i < 2 ^ 20 \<Longrightarrow> page_frame base i = base \<longleftrightarrow> i = 0"
  using inj_onD [OF page_frame_inj, of base i 0] by (auto simp: page_frame_def)

lemma page_0_marked:
  "\<lbrakk> \<forall>k < N. used' k \<longleftrightarrow> k = i \<or> used k; (0 :: nat) < N; used 0 \<rbrakk> \<Longrightarrow> used' 0"
  by blast

text \<open>One page from a buddy allocator, in the form the interface asks for.\<close>

context buddy_geometry
begin

lemma alloc_page_full:
  assumes "\<not> page_used L H m p N" "\<forall>k < N. page_used L H m p k"
  shows "binary_buddy_memory_allocator_allocate m p sz (of_nat N) (of_nat L) 1 = (0, m)"
  by (rule alloc_page_cases [OF assms(1), of sz]) (use assms(2) in auto)

lemma alloc_page_least:
  assumes "\<not> page_used L H m p N" "i < N" "\<not> page_used L H m p i" "\<forall>k < i. page_used L H m p k"
  shows "\<exists>m'. binary_buddy_memory_allocator_allocate m p sz (of_nat N) (of_nat L) 1 = (of_nat i * sz, m')
    \<and> \<not> page_used L H m' p N \<and> (\<forall>k < N. page_used L H m' p k \<longleftrightarrow> k = i \<or> page_used L H m p k)"
proof (rule alloc_page_cases [OF assms(1), of sz])
  assume "\<forall>k < N. page_used L H m p k"
  then show ?thesis using assms(2,3) by blast
next
  fix j m'
  assume j: "j < N" "\<not> page_used L H m p j" "\<forall>k < j. page_used L H m p k"
    and call: "binary_buddy_memory_allocator_allocate m p sz (of_nat N) (of_nat L) 1 = (of_nat j * sz, m')"
    and lev: "\<And>l k. l < L \<Longrightarrow> k < H * 2 ^ (L - 1 - l) \<Longrightarrow>
        level_bit m' p L H l k \<longleftrightarrow> level_bit m p L H l k \<or> k = j div 2 ^ l"
    and last: "\<not> page_used L H m' p N"
  have "i = j" using assms(3,4) j(2,3) by (cases i j rule: linorder_cases) auto
  then show ?thesis
    using call last lev [of 0] levels(1) pages(1) by (auto simp: page_used_def)
qed

end

text \<open>The three allocators of the kernel provide the interface.\<close>

interpretation phys_pages: page_allocator "global_phys_allocator_allocate_page lay"
  "phys_page_used lay" "phys_ready lay" "page_frame 0" 0 32768 for lay
proof
  fix s :: mem and i :: nat
  note defs = phys_ready_def phys_page_used_def global_phys_allocator_allocate_page_def
    global_phys_allocator_allocate_pages_def
  show "global_phys_allocator_allocate_page lay s = (0, s)"
    if "phys_ready lay s" "\<forall>k < 32768. phys_page_used lay s k"
    using phys.alloc_page_full [of s "global_phys_allocator lay" PAGE_SIZE] that by (simp add: defs)
  show "\<exists>s'. global_phys_allocator_allocate_page lay s = (page_frame 0 i, s') \<and> phys_ready lay s' \<and>
      (\<forall>k < 32768. phys_page_used lay s' k \<longleftrightarrow> k = i \<or> phys_page_used lay s k)"
    if "phys_ready lay s" "i < 32768" "\<not> phys_page_used lay s i" "\<forall>k < i. phys_page_used lay s k"
    using phys.alloc_page_least [of s "global_phys_allocator lay" i PAGE_SIZE] that
    by (auto simp: defs page_frame_def)
  show "inj_on (page_frame 0) {..<32768}" by (rule inj_on_subset [OF page_frame_inj]) auto
  show "phys_page_used lay s i" if "phys_ready lay s" "i < 32768" "page_frame 0 i = 0"
    using that page_frame_base [of i 0] by (simp add: defs)
qed

interpretation virt_pages: page_allocator "kernel_virt_allocator_allocate_page lay"
  "virt_page_used lay" "virt_ready lay" "page_frame KERNEL_OFFSET" KERNEL_OFFSET 8192 for lay
proof
  fix s :: mem and i :: nat
  note defs = virt_ready_def virt_page_used_def kernel_virt_allocator_allocate_page_def
    kernel_virt_allocator_allocate_pages_def P2V_def
  show "kernel_virt_allocator_allocate_page lay s = (KERNEL_OFFSET, s)"
    if "virt_ready lay s" "\<forall>k < 8192. virt_page_used lay s k"
    using virt.alloc_page_full [of s "kernel_virt_allocator lay" PAGE_SIZE] that by (simp add: defs)
  show "\<exists>s'. kernel_virt_allocator_allocate_page lay s = (page_frame KERNEL_OFFSET i, s') \<and>
      virt_ready lay s' \<and> (\<forall>k < 8192. virt_page_used lay s' k \<longleftrightarrow> k = i \<or> virt_page_used lay s k)"
    if "virt_ready lay s" "i < 8192" "\<not> virt_page_used lay s i" "\<forall>k < i. virt_page_used lay s k"
    using virt.alloc_page_least [of s "kernel_virt_allocator lay" i PAGE_SIZE] that
    by (auto simp: defs page_frame_def)
  show "inj_on (page_frame KERNEL_OFFSET) {..<8192}" by (rule inj_on_subset [OF page_frame_inj]) auto
  show "virt_page_used lay s i"
    if "virt_ready lay s" "i < 8192" "page_frame KERNEL_OFFSET i = KERNEL_OFFSET"
    using that page_frame_base [of i KERNEL_OFFSET] by (simp add: defs)
qed

interpretation osi_pages: page_allocator "osi_virt_mem_allocator_allocate_page lay start"
  "osi_page_used lay" "osi_ready lay" "page_frame start" start 1024 for lay start
proof
  fix s :: mem and i :: nat
  note defs = osi_ready_def osi_page_used_def osi_virt_mem_allocator_allocate_page_def
    osi_virt_mem_allocator_allocate_pages_def MAX_ACPICA_SIZE_def
  show "osi_virt_mem_allocator_allocate_page lay start s = (start, s)"
    if "osi_ready lay s" "\<forall>k < 1024. osi_page_used lay s k"
    using osi.alloc_page_full [of s "osi_buddy_memory_allocator lay" PAGE_SIZE] that by (simp add: defs)
  show "\<exists>s'. osi_virt_mem_allocator_allocate_page lay start s = (page_frame start i, s') \<and>
      osi_ready lay s' \<and> (\<forall>k < 1024. osi_page_used lay s' k \<longleftrightarrow> k = i \<or> osi_page_used lay s k)"
    if "osi_ready lay s" "i < 1024" "\<not> osi_page_used lay s i" "\<forall>k < i. osi_page_used lay s k"
    using osi.alloc_page_least [of s "osi_buddy_memory_allocator lay" i PAGE_SIZE] that
    by (auto simp: defs page_frame_def)
  show "inj_on (page_frame start) {..<1024}" by (rule inj_on_subset [OF page_frame_inj]) auto
  show "osi_page_used lay s i" if "osi_ready lay s" "i < 1024" "page_frame start i = start"
    using that page_frame_base [of i start] by (simp add: defs)
qed

section \<open>After initialisation\<close>

lemma init_clears:
  assumes "p \<noteq> 0"
  shows "\<exists>m'. binary_buddy_memory_allocator_init m p sz = (True, m') \<and>
    (\<forall>j. unat j < 8 * unat sz \<longrightarrow> \<not> bitset_at j m' p)"
proof -
  define m' where "m' = (\<lambda>a. if a - p < sz then 0 else m a)"
  have "binary_buddy_memory_allocator_init m p sz = (True, m')"
    using assms fill_loop [of sz p 0 m]
    by (simp add: binary_buddy_memory_allocator_init_def kmemset_def m'_def)
  moreover have "\<not> bitset_at j m' p" if "unat j < 8 * unat sz" for j
  proof -
    have "j div 8 < sz" using that by (simp add: word_less_nat_alt unat_div_8)
    then show ?thesis by (simp add: bitset_at_bit m'_def)
  qed
  ultimately show ?thesis by blast
qed

context buddy_geometry
begin

lemma init_no_page_used:
  assumes "p \<noteq> 0" "region_start L H 0 + N < 8 * unat sz"
  shows "\<exists>m'. binary_buddy_memory_allocator_init m p sz = (True, m') \<and>
    (\<forall>k \<le> N. \<not> page_used L H m' p k)"
proof -
  obtain m' where m': "binary_buddy_memory_allocator_init m p sz = (True, m')"
    "\<forall>j. unat j < 8 * unat sz \<longrightarrow> \<not> bitset_at j m' p"
    using init_clears [OF assms(1)] by blast
  have "\<not> page_used L H m' p k" if "k \<le> N" for k
    unfolding page_used_def level_bit_def
    using m'(2) page_word [OF that] that assms(2) by simp
  then show ?thesis using m'(1) by blast
qed

end

lemma phys_init_pages:
  assumes "global_phys_allocator lay \<noteq> 0" "unat (kernel_image_pages lay) < 32768"
  shows "\<exists>m'. global_phys_allocator_init lay m = Some (True, m') \<and>
    (\<forall>k \<le> 32768. phys_page_used lay m' k \<longleftrightarrow> k \<le> unat (kernel_image_pages lay))"
proof -
  let ?p = "global_phys_allocator lay"
  have "region_start 11 32 0 + 32768 < 8 * unat (262016 :: u32)" by (simp add: region_start_def)
  from phys.init_no_page_used [OF assms(1) this, of m] obtain m0 where
    m0: "binary_buddy_memory_allocator_init m ?p 262016 = (True, m0)"
      "\<forall>k \<le> 32768. \<not> page_used 11 32 m0 ?p k" by blast
  from phys.reserve_first_pages [OF assms(2), of m0 ?p] obtain m' where
    "binary_buddy_memory_allocator_reserve m0 ?p 0 (kernel_image_pages lay) 32768 0 11 = Some (True, m')"
    "\<forall>k \<le> 32768. page_used 11 32 m' ?p k \<longleftrightarrow> k \<le> unat (kernel_image_pages lay) \<or> page_used 11 32 m0 ?p k"
    by auto
  then show ?thesis using m0 by (auto simp: global_phys_allocator_init_def phys_page_used_def)
qed

lemma phys_init_ready:
  assumes "global_phys_allocator lay \<noteq> 0" "unat (kernel_image_pages lay) < 32768"
  shows "\<exists>m'. global_phys_allocator_init lay m = Some (True, m') \<and> phys_ready lay m'"
  using phys_init_pages [OF assms] assms(2) by (fastforce simp: phys_ready_def)

text \<open>
  The second reservation of \<open>kernel_virt_allocator_init\<close>, blocks 16 to 23 of level 8, evaluated:
  the lower loop starts with the count of the highest level, so it marks 16 pages at level 0.
\<close>

lemma heap_reservation:
  "\<exists>m'. binary_buddy_memory_allocator_reserve m p 16 23 32 8 9 = Some (True, m') \<and>
    (\<forall>k \<le> 8192. page_used 9 32 m' p k \<longleftrightarrow> 4096 \<le> k \<and> k < 4112 \<or> page_used 9 32 m p k)"
proof -
  define t where "t = set_run p 64 2048 True (set_run p 160 1024 True (set_run p 352 512 True
    (set_run p 736 256 True (set_run p 1504 128 True (set_run p 3040 64 True (set_run p 6112 32 True
    (set_run p 12256 16 True (for_up 16 24 (\<lambda>j t. bitset_set_at (0 + j) t p True) m))))))))"
  have "binary_buddy_memory_allocator_reserve m p 16 23 32 8 9 = Some (True, t)"
    by (simp add: binary_buddy_memory_allocator_reserve_def highest_count_def level_start_def
        set_upto_loop for_up_step for_up_done for_down_done t_def push_bit_eq_mult drop_bit_eq_div)
  moreover have "page_used 9 32 t p k \<longleftrightarrow> 4096 \<le> k \<and> k < 4112 \<or> page_used 9 32 m p k"
    if k: "k \<le> 8192" for k
  proof -
    have r: "region_start 9 32 0 = 8160" by (simp add: region_start_def)
    note below = virt.run_below_pages [OF k, unfolded r]
    have "page_used 9 32 t p k \<longleftrightarrow>
        page_used 9 32 (set_run p 12256 16 True (for_up 16 24 (\<lambda>j t. bitset_set_at (0 + j) t p True) m)) p k"
      by (simp add: t_def below)
    also have "\<dots> \<longleftrightarrow> 4096 \<le> k \<and> k < 4112 \<or>
        page_used 9 32 (for_up 16 24 (\<lambda>j t. bitset_set_at (0 + j) t p True) m) p k"
      using virt.run_on_pages [OF k, of 4096 16] by (simp add: r)
    also have "page_used 9 32 (for_up 16 24 (\<lambda>j t. bitset_set_at (0 + j) t p True) m) p k \<longleftrightarrow>
        page_used 9 32 m p k"
    proof (rule for_up_invariant [where P = "\<lambda>_ t. page_used 9 32 t p k \<longleftrightarrow> page_used 9 32 m p k"])
      fix j :: u32 and t
      assume j: "j < 24" and P: "page_used 9 32 t p k \<longleftrightarrow> page_used 9 32 m p k"
      have "(of_nat (8160 + k) :: u32) \<noteq> j"
        using virt.page_word [OF k] j by (auto simp: r word_less_nat_alt)
      then show "page_used 9 32 (bitset_set_at (0 + j) t p True) p k \<longleftrightarrow> page_used 9 32 m p k"
        using P by (simp add: page_used_def level_bit_def r)
    qed simp_all
    finally show ?thesis .
  qed
  ultimately show ?thesis by blast
qed

lemma virt_init_pages:
  assumes "kernel_virt_allocator lay \<noteq> 0" "0 < unat (kernel_image_pages lay)"
    "unat (kernel_image_pages lay) \<le> 8192"
  shows "\<exists>m'. kernel_virt_allocator_init lay m = Some (True, m') \<and>
    (\<forall>k \<le> 8192. virt_page_used lay m' k \<longleftrightarrow> k < unat (kernel_image_pages lay) \<or> 4096 \<le> k \<and> k < 4112)"
proof -
  let ?p = "kernel_virt_allocator lay" and ?e = "kernel_image_pages lay - 1"
  have "kernel_image_pages lay \<noteq> 0" using assms(2) by auto
  then have ue: "unat ?e = unat (kernel_image_pages lay) - 1" by (rule unat_minus_one)
  then have e: "unat ?e < 8192" using assms(2,3) by simp
  have "region_start 9 32 0 + 8192 < 8 * unat (65408 :: u32)" by (simp add: region_start_def)
  from virt.init_no_page_used [OF assms(1) this, of m] obtain m0 where
    m0: "binary_buddy_memory_allocator_init m ?p 65408 = (True, m0)"
      "\<forall>k \<le> 8192. \<not> page_used 9 32 m0 ?p k" by blast
  from virt.reserve_first_pages [OF e, of m0 ?p] obtain m1 where
    m1: "binary_buddy_memory_allocator_reserve m0 ?p 0 ?e 8192 0 9 = Some (True, m1)"
      "\<forall>k \<le> 8192. page_used 9 32 m1 ?p k \<longleftrightarrow> k \<le> unat ?e \<or> page_used 9 32 m0 ?p k"
    by auto
  obtain m2 where
    m2: "binary_buddy_memory_allocator_reserve m1 ?p 16 23 32 8 9 = Some (True, m2)"
      "\<forall>k \<le> 8192. page_used 9 32 m2 ?p k \<longleftrightarrow> 4096 \<le> k \<and> k < 4112 \<or> page_used 9 32 m1 ?p k"
    using heap_reservation [of m1 ?p] by blast
  have "k \<le> unat ?e \<longleftrightarrow> k < unat (kernel_image_pages lay)" for k
    using assms(2) ue by auto
  then show ?thesis using m0 m1 m2
    by (auto simp: kernel_virt_allocator_init_def virt_page_used_def)
qed

text \<open>A request of 512 or more pages is above the nine levels: no page, but not NULL either.\<close>

lemma log2_1024 [simp]: "log2 1024 = 10"
  by (simp add: log2_def log2_loop.simps drop_bit_eq_div)

lemma virt_request_too_large:
  "kernel_virt_allocator_allocate_pages lay MAX_ACPICA_SIZE m = (KERNEL_OFFSET, m)"
  by (simp add: kernel_virt_allocator_allocate_pages_def binary_buddy_memory_allocator_allocate_def
      MAX_ACPICA_SIZE_def P2V_def)

section \<open>Properties\<close>

text \<open>C1. After \<open>global_phys_allocator_init\<close>, the pages that any number of successive
  \<open>global_phys_allocator_allocate_page\<close> calls return, apart from NULL, are pairwise different
  page frames above the kernel image and below 128 MiB.\<close>

theorem phys_pages_distinct:
  assumes "global_phys_allocator lay \<noteq> 0" "unat (kernel_image_pages lay) < 32768"
  shows "\<exists>m0. global_phys_allocator_init lay m = Some (True, m0) \<and>
    (case allocate_series (global_phys_allocator_allocate_page lay) n m0 of (as, m') \<Rightarrow>
       length as = n \<and> distinct (filter (\<lambda>a. a \<noteq> 0) as) \<and>
       (\<forall>a \<in> set as. a \<noteq> 0 \<longrightarrow>
          (\<exists>i < 32768. unat (kernel_image_pages lay) < i \<and> a = of_nat i * PAGE_SIZE)))"
proof -
  obtain m0 where init: "global_phys_allocator_init lay m = Some (True, m0)"
    and used: "\<forall>k \<le> 32768. phys_page_used lay m0 k \<longleftrightarrow> k \<le> unat (kernel_image_pages lay)"
    using phys_init_pages [OF assms, of m] by blast
  have "phys_ready lay m0" using used assms(2) by (simp add: phys_ready_def)
  from phys_pages.series_fresh [OF this, of n] used init show ?thesis
    by (force simp: page_frame_def split: prod.splits)
qed

definition sample_layout :: layout where
  "sample_layout = \<lparr> global_phys_allocator = 0xC0110000, kernel_virt_allocator = 0xC0180000,
     osi_buddy_memory_allocator = 0xC01A0000, endkernel = 0xC0200800 \<rparr>"

lemma sample_image [simp]: "kernel_image_pages sample_layout = 513"
  by (simp add: kernel_image_pages_def sample_layout_def mem_constants)

lemma sample_nonzero [simp]: "global_phys_allocator sample_layout \<noteq> 0"
  "kernel_virt_allocator sample_layout \<noteq> 0" "osi_buddy_memory_allocator sample_layout \<noteq> 0"
  by (simp_all add: sample_layout_def)

theorem phys_pages_distinct_witness:
  "\<exists>m0. global_phys_allocator_init sample_layout (\<lambda>_. 0) = Some (True, m0) \<and>
    (case allocate_series (global_phys_allocator_allocate_page sample_layout) 3 m0 of (as, m') \<Rightarrow>
       length as = 3 \<and> distinct (filter (\<lambda>a. a \<noteq> 0) as) \<and>
       (\<forall>a \<in> set as. a \<noteq> 0 \<longrightarrow> (\<exists>i < 32768. 513 < i \<and> a = of_nat i * PAGE_SIZE)))"
  using phys_pages_distinct [of sample_layout "\<lambda>_. 0" 3] by simp

text \<open>C6. One page from the physical allocator, on both branches: the least free frame, which
  is not NULL and is in use afterwards with every other frame as before, or NULL with the
  memory unchanged when all frames are in use.\<close>

theorem phys_page_least_free:
  assumes "phys_ready lay m"
  shows "case global_phys_allocator_allocate_page lay m of (a, m') \<Rightarrow>
    (if \<forall>k < 32768. phys_page_used lay m k then a = 0 \<and> m' = m
     else \<exists>i < 32768. a = of_nat i * PAGE_SIZE \<and> a \<noteq> 0 \<and> \<not> phys_page_used lay m i \<and>
            (\<forall>k < i. phys_page_used lay m k) \<and> phys_ready lay m' \<and>
            (\<forall>k < 32768. phys_page_used lay m' k \<longleftrightarrow> k = i \<or> phys_page_used lay m k))"
  using assms
proof (cases rule: phys_pages.alloc_cases)
  case full
  then show ?thesis by simp
next
  case (page i m')
  then show ?thesis by (auto simp: page_frame_def)
qed

lemma sample_phys_ready:
  obtains m0 where "global_phys_allocator_init sample_layout (\<lambda>_. 0) = Some (True, m0)"
    "phys_ready sample_layout m0" "\<forall>k \<le> 32768. phys_page_used sample_layout m0 k \<longleftrightarrow> k \<le> 513"
  using phys_init_pages [of sample_layout "\<lambda>_. 0"] by (auto simp: phys_ready_def)

theorem phys_page_least_free_witness:
  "\<exists>m0 m'. global_phys_allocator_init sample_layout (\<lambda>_. 0) = Some (True, m0) \<and>
     global_phys_allocator_allocate_page sample_layout m0 = (514 * PAGE_SIZE, m')"
proof -
  obtain m0 where m0: "global_phys_allocator_init sample_layout (\<lambda>_. 0) = Some (True, m0)"
    and ready: "phys_ready sample_layout m0"
    and used: "\<forall>k \<le> 32768. phys_page_used sample_layout m0 k \<longleftrightarrow> k \<le> 513"
    by (rule sample_phys_ready)
  obtain a m' where call: "global_phys_allocator_allocate_page sample_layout m0 = (a, m')" by fastforce
  have free: "\<not> phys_page_used sample_layout m0 514" using used by simp
  then have "\<not> (\<forall>k < 32768. phys_page_used sample_layout m0 k)" by (auto intro!: exI [of _ 514])
  then have "\<exists>i < 32768. a = of_nat i * PAGE_SIZE \<and> \<not> phys_page_used sample_layout m0 i \<and>
      (\<forall>k < i. phys_page_used sample_layout m0 k)"
    using phys_page_least_free [OF ready] call by (simp only: prod.case if_False) blast
  then obtain i where i: "i < 32768" "a = of_nat i * PAGE_SIZE" "\<not> phys_page_used sample_layout m0 i"
    "\<forall>k < i. phys_page_used sample_layout m0 k" by blast
  have "\<not> i \<le> 513" using i(1,3) used by simp
  moreover have "\<not> 514 < i" using i(4) free by blast
  ultimately have "i = 514" by linarith
  then show ?thesis using m0 call i(2) by auto
qed

text \<open>Freeing frame \<open>i\<close> marks it free together with every frame below it in the same byte
  of the bit set, and no other frame.\<close>

theorem phys_free_page_effect:
  assumes "i < 32768"
  shows "\<exists>m'. global_phys_allocator_free_page lay (of_nat i * PAGE_SIZE) m = Some (True, m') \<and>
    (\<forall>k < 32768. phys_page_used lay m' k \<longleftrightarrow>
       phys_page_used lay m k \<and> \<not> (k div 8 = i div 8 \<and> k \<le> i))"
  using phys.free_page_effect [OF assms, of 4096 m "global_phys_allocator lay"]
  by (auto simp: global_phys_allocator_free_page_def global_phys_allocator_free_pages_def
      phys_page_used_def PAGE_SIZE_def freed_with_def)

theorem phys_free_page_effect_witness:
  "\<exists>m'. global_phys_allocator_free_page sample_layout (of_nat 9 * PAGE_SIZE) (\<lambda>_. 0xFF) = Some (True, m') \<and>
    (\<forall>k < 32768. phys_page_used sample_layout m' k \<longleftrightarrow>
       phys_page_used sample_layout (\<lambda>_. 0xFF) k \<and> \<not> (k div 8 = 9 div 8 \<and> k \<le> 9))"
  by (rule phys_free_page_effect) simp

text \<open>C39. The bit mask of \<open>bitset_set_at\<close> breaks the allocator: with the frames up to \<open>i\<close> in use
  and \<open>i + 1\<close> free in the same byte, an allocate, a free of the frame it returned and another
  allocate return a frame at or below \<open>i\<close>, which its owner never freed.\<close>

theorem phys_double_allocation:
  assumes "phys_ready lay m" "i + 1 < 32768" "(i + 1) mod 8 \<noteq> 0"
    and "\<forall>k \<le> i. phys_page_used lay m k" "\<not> phys_page_used lay m (i + 1)"
    and "0 < i div 8"
  shows "\<exists>a m1 m2 b m3. global_phys_allocator_allocate_page lay m = (a, m1) \<and>
    global_phys_allocator_free_page lay a m1 = Some (True, m2) \<and>
    global_phys_allocator_allocate_page lay m2 = (b, m3) \<and>
    (\<exists>k \<le> i. b = of_nat k * PAGE_SIZE \<and> phys_page_used lay m k)"
proof -
  let ?i = "i + 1"
  have same: "?i div 8 = i div 8" using assms(3) by (metis Suc_eq_plus1 div_Suc)
  from assms(1) obtain m1 where alloc1: "global_phys_allocator_allocate_page lay m = (page_frame 0 ?i, m1)"
    and ready1: "phys_ready lay m1"
    and used1: "\<forall>k < 32768. phys_page_used lay m1 k \<longleftrightarrow> k = ?i \<or> phys_page_used lay m k"
    using phys_pages.alloc_least [of lay m ?i] assms(2,4,5) by auto
  from phys.free_page_effect [of ?i 4096 m1 "global_phys_allocator lay"] assms(2) obtain m2 where
    free: "global_phys_allocator_free_page lay (page_frame 0 ?i) m1 = Some (True, m2)"
    and used2: "\<forall>k \<le> 32768. phys_page_used lay m2 k \<longleftrightarrow> phys_page_used lay m1 k \<and> \<not> freed_with ?i k"
    by (auto simp: global_phys_allocator_free_page_def global_phys_allocator_free_pages_def
      phys_page_used_def PAGE_SIZE_def page_frame_def)
  let ?k = "8 * (i div 8)"
  have k: "?k \<le> i" "?k < 32768" "0 < ?k" "freed_with ?i ?k"
    using assms(2,6) same by (auto simp: freed_with_def)
  have ready2: "phys_ready lay m2"
    using ready1 used2 k(3) same assms(6) by (auto simp: phys_ready_def freed_with_def)
  have below: "\<forall>j < ?k. phys_page_used lay m2 j"
  proof (intro allI impI)
    fix j assume j: "j < ?k"
    then have "\<not> freed_with ?i j" using same by (auto simp: freed_with_def)
    then show "phys_page_used lay m2 j" using j k assms(2,4) used1 used2 by simp
  qed
  have "\<not> phys_page_used lay m2 ?k" using used2 k by simp
  then obtain m3 where "global_phys_allocator_allocate_page lay m2 = (page_frame 0 ?k, m3)"
    using phys_pages.alloc_least [OF ready2 k(2) _ below] by blast
  then show ?thesis using alloc1 free k(1) assms(4) by (fastforce simp: page_frame_def)
qed

theorem phys_double_allocation_witness:
  "\<exists>m a m1 m2 b m3. global_phys_allocator_init sample_layout (\<lambda>_. 0) = Some (True, m) \<and>
    global_phys_allocator_allocate_page sample_layout m = (a, m1) \<and>
    global_phys_allocator_free_page sample_layout a m1 = Some (True, m2) \<and>
    global_phys_allocator_allocate_page sample_layout m2 = (b, m3) \<and>
    (\<exists>k \<le> 513. b = of_nat k * PAGE_SIZE \<and> phys_page_used sample_layout m k)"
proof -
  obtain m0 where m0: "global_phys_allocator_init sample_layout (\<lambda>_. 0) = Some (True, m0)"
    and ready: "phys_ready sample_layout m0"
    and used: "\<forall>k \<le> 32768. phys_page_used sample_layout m0 k \<longleftrightarrow> k \<le> 513"
    by (rule sample_phys_ready)
  have "\<forall>k \<le> 513. phys_page_used sample_layout m0 k" "\<not> phys_page_used sample_layout m0 (513 + 1)"
    using used by auto
  then show ?thesis
    using phys_double_allocation [OF ready, of 513] m0 by auto
qed

text \<open>\<open>osi_virt_mem_allocator_init\<close> reports success for every memory whatever: its request
  for 1024 pages is above the levels of the kernel virtual allocator, the failed request comes
  back as \<open>P2V(NULL)\<close>, and the shim's range starts at \<open>0xC0000000\<close>, the base of the kernel.\<close>

theorem osi_init_never_fails:
  assumes "osi_buddy_memory_allocator lay \<noteq> 0"
  shows "\<exists>m'. osi_virt_mem_allocator_init lay m = (True, KERNEL_OFFSET, m')"
  using assms
  by (simp add: osi_virt_mem_allocator_init_def virt_request_too_large kmemset_def KERNEL_OFFSET_def)

theorem osi_init_never_fails_witness:
  "\<exists>m'. osi_virt_mem_allocator_init sample_layout (\<lambda>_. 0xFF) = (True, KERNEL_OFFSET, m')"
  by (rule osi_init_never_fails) simp

text \<open>\<open>kernel_virt_allocator_init\<close> succeeds and leaves in use the pages of the kernel image and
  16 pages from page 4096: the reservation of the eight 256-page blocks of the heap marks 16 of
  their 2048 pages at the level that single pages are taken from.\<close>

theorem kernel_virt_init_pages:
  assumes "kernel_virt_allocator lay \<noteq> 0" "0 < unat (kernel_image_pages lay)"
    "unat (kernel_image_pages lay) \<le> 8192"
  shows "\<exists>m'. kernel_virt_allocator_init lay m = Some (True, m') \<and>
    (\<forall>k < 8192. virt_page_used lay m' k \<longleftrightarrow> k < unat (kernel_image_pages lay) \<or> 4096 \<le> k \<and> k < 4112)"
  using virt_init_pages [OF assms, of m] by fastforce

theorem kernel_virt_init_pages_witness:
  "\<exists>m'. kernel_virt_allocator_init sample_layout (\<lambda>_. 0xFF) = Some (True, m') \<and>
    (\<forall>k < 8192. virt_page_used sample_layout m' k \<longleftrightarrow> k < 513 \<or> 4096 \<le> k \<and> k < 4112)"
  using kernel_virt_init_pages [of sample_layout "\<lambda>_. 0xFF"] by simp

end
