(* ===== verification/Quicksort.thy ===== *)
theory Quicksort
  imports CMem "HOL-Library.Multiset"
begin

text \<open>
  kernel/kernel/utils/algorithms: the byte-wise \<open>swap\<close> over memory and \<open>quicksort_array\<close>.  The
  sorted array is the list of its elements and the indices are \<open>uint32_t\<close>; an access outside the
  array is \<open>None\<close>, as C does not define it.  The recursive calls may not end, so the sort is a
  \<^theory_text>\<open>partial_function\<close>.
\<close>

unbundle bit_operations_syntax

section \<open>swap\<close>

definition swap_bytes :: "u32 \<Rightarrow> u32 \<Rightarrow> u32 \<Rightarrow> mem \<Rightarrow> mem" where
  "swap_bytes a b sz m =
     for_up 0 sz (\<lambda>i t. let tmp = t (a + i); t1 = t(a + i := t (b + i)) in t1(b + i := tmp)) m"

section \<open>quicksort\<close>

definition aread :: "'a list \<Rightarrow> u32 \<Rightarrow> 'a option" where
  "aread xs i = (if unat i < length xs then Some (xs ! unat i) else None)"

definition aswap :: "'a list \<Rightarrow> u32 \<Rightarrow> u32 \<Rightarrow> 'a list option" where
  "aswap xs i j =
     (if unat i < length xs \<and> unat j < length xs
      then Some (xs[unat i := xs ! unat j, unat j := xs ! unat i]) else None)"

definition partition_loop :: "u32 \<Rightarrow> u32 \<Rightarrow> u32 \<Rightarrow> u32 list \<Rightarrow> (u32 \<times> u32 list) option" where
  "partition_loop pivot lo_index hi_index array =
     (case for_ret lo_index hi_index
        (\<lambda>j (i, xs).
           case aread xs j of
             None \<Rightarrow> Inl ()
           | Some x \<Rightarrow>
               if x \<le> pivot
               then (case aswap xs (i + 1) j of None \<Rightarrow> Inl () | Some ys \<Rightarrow> Inr (i + 1, ys))
               else Inr (i, xs))
        (lo_index - 1, array)
      of Inl _ \<Rightarrow> None | Inr s \<Rightarrow> Some s)"

definition partition_array :: "u32 list \<Rightarrow> u32 \<Rightarrow> u32 \<Rightarrow> (u32 \<times> u32 list) option" where
  "partition_array array lo_index hi_index =
     Option.bind (aread array hi_index) (\<lambda>pivot.
       Option.bind (partition_loop pivot lo_index hi_index array) (\<lambda>(i, xs).
         Option.bind (aswap xs (i + 1) hi_index) (\<lambda>ys. Some (i + 1, ys))))"

partial_function (option) quicksort_array :: "u32 list \<Rightarrow> u32 \<Rightarrow> u32 \<Rightarrow> u32 list option" where
  "quicksort_array array lo_index hi_index =
     (if lo_index \<ge> hi_index then Some array
      else Option.bind (partition_array array lo_index hi_index) (\<lambda>(p, xs).
             Option.bind (quicksort_array xs lo_index (p - 1)) (\<lambda>ys.
               quicksort_array ys (p + 1) hi_index)))"

section \<open>The byte swap exchanges two words\<close>

lemma swap_bytes_spec:
  assumes "\<And>i j. \<lbrakk> i < sz; j < sz \<rbrakk> \<Longrightarrow> a + i \<noteq> b + j"
  shows "swap_bytes a b sz m =
    (\<lambda>x. if x - a < sz then m (b + (x - a)) else if x - b < sz then m (a + (x - b)) else m x)"
proof -
  let ?P = "\<lambda>k t. t =
    (\<lambda>x. if x - a < k then m (b + (x - a)) else if x - b < k then m (a + (x - b)) else m x)"
  have "?P sz (swap_bytes a b sz m)"
    unfolding swap_bytes_def
  proof (rule for_up_invariant [where P = ?P])
    fix k :: u32 and t
    assume k: "k < sz" and t: "?P k t"
    have apart: "\<not> a + k - b < k" "\<not> b + k - a < k"
    proof -
      have "a + k \<noteq> b + j" "b + k \<noteq> a + j" if "j < k" for j
        using assms [of k j] assms [of j k] that k by (auto dest: order.strict_trans)
      from this(1) [of "a + k - b"] this(2) [of "b + k - a"]
      show "\<not> a + k - b < k" "\<not> b + k - a < k" by auto
    qed
    have "t (a + k) = m (a + k)" "t (b + k) = m (b + k)" using t apart by simp_all
    moreover have "a + k \<noteq> b + k" using assms k by blast
    ultimately show "?P (k + 1) (let tmp = t (a + k); t1 = t(a + k := t (b + k)) in t1(b + k := tmp))"
      using t apart by (auto simp: fun_eq_iff window_Suc [OF k] Let_def)
  qed auto
  then show ?thesis .
qed

section \<open>Partition\<close>

lemma aswap_some:
  "\<lbrakk> unat i < length xs; unat j < length xs \<rbrakk> \<Longrightarrow>
   aswap xs i j = Some (xs[unat i := xs ! unat j, unat j := xs ! unat i])"
  by (simp add: aswap_def)

definition partitioned :: "u32 list \<Rightarrow> u32 \<Rightarrow> nat \<Rightarrow> nat \<Rightarrow> nat \<Rightarrow> nat \<Rightarrow> u32 list \<Rightarrow> bool" where
  "partitioned xs pivot lo a j hi ys \<longleftrightarrow>
     lo \<le> a \<and> a \<le> j \<and> mset ys = mset xs \<and>
     (\<forall>k. lo \<le> k \<and> k < a \<longrightarrow> ys ! k \<le> pivot) \<and> (\<forall>k. a \<le> k \<and> k < j \<longrightarrow> pivot < ys ! k) \<and>
     (\<forall>k. k < lo \<or> j \<le> k \<longrightarrow> ys ! k = xs ! k)"

lemma partition_step:
  assumes P: "partitioned xs pivot lo a j hi ys" and j: "j < length xs"
  shows "pivot < ys ! j \<Longrightarrow> partitioned xs pivot lo a (Suc j) hi ys"
    and "ys ! j \<le> pivot \<Longrightarrow> partitioned xs pivot lo (Suc a) (Suc j) hi (ys[a := ys ! j, j := ys ! a])"
proof -
  show "pivot < ys ! j \<Longrightarrow> partitioned xs pivot lo a (Suc j) hi ys"
    using P by (auto simp: partitioned_def less_Suc_eq)
  assume le: "ys ! j \<le> pivot"
  have len: "length ys = length xs" using P by (auto simp: partitioned_def dest: mset_eq_length)
  have a: "a \<le> j" "a < length ys" using P j len by (auto simp: partitioned_def)
  have "mset (ys[a := ys ! j, j := ys ! a]) = mset ys" using a j len by (simp add: mset_swap)
  then show "partitioned xs pivot lo (Suc a) (Suc j) hi (ys[a := ys ! j, j := ys ! a])"
    using P a le j len by (auto simp: partitioned_def nth_list_update less_Suc_eq)
qed

lemma partition_loop_spec:
  assumes "lo \<le> hi" "unat hi < length xs" "length xs < 2 ^ 32"
  shows "\<exists>i ys. partition_loop pivot lo hi xs = Some (i, ys) \<and> unat (i + 1) \<le> unat hi \<and>
    partitioned xs pivot (unat lo) (unat (i + 1)) (unat hi) (unat hi) ys"
proof -
  let ?P = "\<lambda>j (i, ys). unat (i + 1) \<le> unat j \<and>
    partitioned xs pivot (unat lo) (unat (i + 1)) (unat j) (unat hi) ys"
  let ?body = "\<lambda>j (i, xs).
           case aread xs j of
             None \<Rightarrow> Inl ()
           | Some x \<Rightarrow>
               if x \<le> pivot
               then (case aswap xs (i + 1) j of None \<Rightarrow> Inl () | Some ys \<Rightarrow> Inr (i + 1, ys))
               else Inr (i, xs)"
  have step: "\<exists>s'. ?body j s = Inr s' \<and> ?P (j + 1) s'" if j: "j < hi" and P: "?P j s" for j s
  proof -
    obtain i ys where s: "s = (i, ys)" by (cases s)
    have jn: "unat j < length xs" using j assms(2) by (simp add: word_less_nat_alt)
    have part: "partitioned xs pivot (unat lo) (unat (i + 1)) (unat j) (unat hi) ys"
      and le: "unat (i + 1) \<le> unat j" using P s by auto
    have len: "length ys = length xs" using part by (auto simp: partitioned_def dest: mset_eq_length)
    have j1: "unat (j + 1) = Suc (unat j)" using j by (rule unat_Suc_less)
    show ?thesis
    proof (cases "ys ! unat j \<le> pivot")
      case True
      have "i + 1 \<le> j" using le by (simp add: word_le_nat_alt)
      then have "unat (i + 1 + 1) = Suc (unat (i + 1))"
        using j by (intro unat_Suc_less [of _ hi]) simp
      then show ?thesis using True s jn len le partition_step(2) [OF part jn] j1
        by (simp add: aread_def aswap_some)
    next
      case False
      then show ?thesis using s jn len le partition_step(1) [OF part jn] j1
        by (simp add: aread_def)
    qed
  qed
  have init: "?P lo (lo - 1, xs)" by (auto simp: partitioned_def)
  have "case for_ret lo hi ?body (lo - 1, xs) of Inl r \<Rightarrow> False | Inr s \<Rightarrow> ?P hi s"
  proof (rule for_ret_invariant [where P = ?P])
    fix k t t' assume "k < hi" "?P k t" "?body k t = Inr t'"
    then show "?P (k + 1) t'" using step by (metis (no_types, lifting) sum.inject(2))
  next
    fix k t r assume "k < hi" "?P k t" "?body k t = Inl r"
    then show False using step by (metis (no_types, lifting) sum.distinct(1))
  qed (use init assms(1) in auto)
  then show ?thesis by (auto simp: partition_loop_def split: sum.splits)
qed

lemma partition_array_spec:
  assumes "lo < hi" "unat hi < length xs" "length xs < 2 ^ 32"
  shows "\<exists>p ys. partition_array xs lo hi = Some (p, ys) \<and> lo \<le> p \<and> p \<le> hi \<and> mset ys = mset xs \<and>
    (\<forall>k. unat lo \<le> k \<and> k < unat p \<longrightarrow> ys ! k \<le> ys ! unat p) \<and>
    (\<forall>k. unat p < k \<and> k \<le> unat hi \<longrightarrow> ys ! unat p < ys ! k) \<and>
    (\<forall>k. k < unat lo \<or> unat hi < k \<longrightarrow> ys ! k = xs ! k)"
proof -
  define pivot where "pivot = xs ! unat hi"
  obtain i ys where loop: "partition_loop pivot lo hi xs = Some (i, ys)"
    and a: "unat (i + 1) \<le> unat hi"
    and part: "partitioned xs pivot (unat lo) (unat (i + 1)) (unat hi) (unat hi) ys"
    using partition_loop_spec [OF less_imp_le [OF assms(1)] assms(2,3), of pivot] by blast
  have len: "length ys = length xs" using part by (auto simp: partitioned_def dest: mset_eq_length)
  let ?zs = "ys[unat (i + 1) := ys ! unat hi, unat hi := ys ! unat (i + 1)]"
  have call: "partition_array xs lo hi = Some (i + 1, ?zs)"
    using loop assms(2) a len by (simp add: partition_array_def aread_def aswap_some pivot_def)
  have piv: "ys ! unat hi = pivot" using part by (simp add: partitioned_def pivot_def)
  have "mset ?zs = mset ys" using a assms(2) len by (simp add: mset_swap)
  then have "mset ?zs = mset xs" using part by (simp add: partitioned_def)
  moreover have "lo \<le> i + 1" "i + 1 \<le> hi" using part a by (auto simp: partitioned_def word_le_nat_alt)
  moreover have "\<forall>k. unat lo \<le> k \<and> k < unat (i + 1) \<longrightarrow> ?zs ! k \<le> ?zs ! unat (i + 1)"
    using part a piv assms(2) len by (auto simp: partitioned_def nth_list_update)
  moreover have "\<forall>k. unat (i + 1) < k \<and> k \<le> unat hi \<longrightarrow> ?zs ! unat (i + 1) < ?zs ! k"
    using part a piv assms(2) len by (auto simp: partitioned_def nth_list_update)
  moreover have "\<forall>k. k < unat lo \<or> unat hi < k \<longrightarrow> ?zs ! k = xs ! k"
    using part a by (auto simp: partitioned_def nth_list_update)
  ultimately show ?thesis using call by blast
qed

section \<open>Sorting\<close>

lemma slice_mset:
  assumes "mset ys = mset xs" "\<forall>k. k < a \<or> b \<le> k \<longrightarrow> ys ! k = xs ! k" "a \<le> b" "b \<le> length xs"
  shows "mset (take (b - a) (drop a ys)) = mset (take (b - a) (drop a xs))"
proof -
  have len: "length ys = length xs" using assms(1) by (rule mset_eq_length)
  have split: "zs = take a zs @ take (b - a) (drop a zs) @ drop b zs" if "length zs = length xs" for zs :: "'a list"
  proof -
    have "drop b zs = drop (b - a) (drop a zs)" using assms(3) by simp
    then show ?thesis by (metis append_take_drop_id)
  qed
  have "take a ys = take a xs" "drop b ys = drop b xs"
    using assms(2,3,4) len by (auto intro: nth_equalityI)
  moreover have "mset (take a ys) + mset (take (b - a) (drop a ys)) + mset (drop b ys) =
      mset (take a xs) + mset (take (b - a) (drop a xs)) + mset (drop b xs)"
    using assms(1) split [OF len] split [of xs] by (metis mset_append add.assoc)
  ultimately show ?thesis by simp
qed

lemma slice_all:
  assumes "mset ys = mset xs" "\<forall>k. k < a \<or> b \<le> k \<longrightarrow> ys ! k = xs ! k" "b \<le> length xs"
    and "\<forall>k. a \<le> k \<and> k < b \<longrightarrow> Q (xs ! k)"
  shows "\<forall>k. a \<le> k \<and> k < b \<longrightarrow> Q (ys ! k)"
proof (cases "a \<le> b")
  case True
  have len: "length ys = length xs" using assms(1) by (rule mset_eq_length)
  have "set (take (b - a) (drop a ys)) = set (take (b - a) (drop a xs))"
    using slice_mset [OF assms(1,2) True assms(3)] by (rule mset_eq_setD)
  moreover have elems: "set (take (b - a) (drop a zs)) = {zs ! k |k. a \<le> k \<and> k < b}"
    if "length zs = length xs" for zs :: "'a list"
  proof -
    have "set (take (b - a) (drop a zs)) = {take (b - a) (drop a zs) ! k |k. k < b - a}"
      using that assms(3) True by (simp add: set_conv_nth)
    also have "\<dots> = {zs ! (a + k) |k. k < b - a}"
    proof -
      have "take (b - a) (drop a zs) ! k = zs ! (a + k)" if "k < b - a" for k
        using that \<open>length zs = length xs\<close> assms(3) by simp
      then show ?thesis unfolding setcompr_eq_image by (intro image_cong) blast+
    qed
    also have "\<dots> = {zs ! k |k. a \<le> k \<and> k < b}"
    proof (rule Collect_cong, rule iffI)
      show "\<exists>k. x = zs ! k \<and> a \<le> k \<and> k < b" if "\<exists>k. x = zs ! (a + k) \<and> k < b - a" for x
      proof -
        from that obtain k where "x = zs ! (a + k)" "k < b - a" by blast
        then show ?thesis by (intro exI [of _ "a + k"]) auto
      qed
      show "\<exists>k. x = zs ! (a + k) \<and> k < b - a" if "\<exists>k. x = zs ! k \<and> a \<le> k \<and> k < b" for x
      proof -
        from that obtain k where "x = zs ! k" "a \<le> k" "k < b" by blast
        then show ?thesis by (intro exI [of _ "k - a"]) auto
      qed
    qed
    finally show ?thesis .
  qed
  ultimately have "{ys ! k |k. a \<le> k \<and> k < b} = {xs ! k |k. a \<le> k \<and> k < b}"
    using elems [OF len] elems [OF refl] by simp
  moreover have "ys ! k \<in> {ys ! k |k. a \<le> k \<and> k < b}" if "a \<le> k \<and> k < b" for k using that by blast
  ultimately have "\<exists>j. ys ! k = xs ! j \<and> a \<le> j \<and> j < b" if "a \<le> k \<and> k < b" for k using that by auto
  then show ?thesis using assms(4) by metis
qed auto

definition sorted_between :: "nat \<Rightarrow> nat \<Rightarrow> u32 list \<Rightarrow> bool" where
  "sorted_between a b xs \<longleftrightarrow> (\<forall>i j. a \<le> i \<and> i \<le> j \<and> j < b \<longrightarrow> xs ! i \<le> xs ! j)"

lemma sorted_join:
  assumes "sorted_between lo p ws" "sorted_between (p + 1) hi ws"
    and low: "\<forall>k. lo \<le> k \<and> k < p \<longrightarrow> ws ! k \<le> ws ! p" and high: "\<forall>k. p + 1 \<le> k \<and> k < hi \<longrightarrow> ws ! p < ws ! k"
  shows "sorted_between lo hi ws"
  unfolding sorted_between_def
proof (intro allI impI, elim conjE)
  fix i j assume ij: "lo \<le> i" "i \<le> j" "j < hi"
  consider "j < p" | "i < p" "p \<le> j" | "i = p" "p < j" | "i = j" | "p < i" using ij by linarith
  then show "ws ! i \<le> ws ! j"
  proof cases
    case 1
    then show ?thesis using ij assms(1) by (simp add: sorted_between_def)
  next
    case 2
    then have "ws ! i \<le> ws ! p" "ws ! p \<le> ws ! j"
      using ij low high by (auto intro: less_imp_le simp: le_less [of p j])
    then show ?thesis by (rule order_trans)
  next
    case 3
    then show ?thesis using high ij by (auto intro: less_imp_le)
  next
    case 5
    then show ?thesis using ij assms(2) by (simp add: sorted_between_def)
  qed simp
qed

text \<open>Permuting the elements of a range only.\<close>

definition permutes_range :: "nat \<Rightarrow> nat \<Rightarrow> u32 list \<Rightarrow> u32 list \<Rightarrow> bool" where
  "permutes_range a b xs ys \<longleftrightarrow> mset ys = mset xs \<and> (\<forall>k. k < a \<or> b \<le> k \<longrightarrow> ys ! k = xs ! k)"

lemma permutes_length: "permutes_range a b xs ys \<Longrightarrow> length ys = length xs"
  by (auto simp: permutes_range_def dest: mset_eq_length)

lemma permutes_all:
  "permutes_range a b xs ys \<Longrightarrow> b \<le> length xs \<Longrightarrow> \<forall>k. a \<le> k \<and> k < b \<longrightarrow> Q (xs ! k) \<Longrightarrow> \<forall>k. a \<le> k \<and> k < b \<longrightarrow> Q (ys ! k)"
  unfolding permutes_range_def by (rule slice_all) auto

text \<open>Sorting both sides of the pivot sorts the range.\<close>

lemma sort_sides:
  assumes part: "permutes_range lo hi xs ys" "lo \<le> p" "p < hi" "hi \<le> length xs"
    and low: "\<forall>k. lo \<le> k \<and> k < p \<longrightarrow> ys ! k \<le> ys ! p" and high: "\<forall>k. p + 1 \<le> k \<and> k < hi \<longrightarrow> ys ! p < ys ! k"
    and left: "permutes_range lo p ys zs" "sorted_between lo p zs"
    and right: "permutes_range (p + 1) hi zs ws" "sorted_between (p + 1) hi ws"
  shows "permutes_range lo hi xs ws" "sorted_between lo hi ws"
proof -
  note len = permutes_length [OF part(1)] permutes_length [OF left(1)]
  have same: "ws ! k = zs ! k" if "k < p + 1" for k using right(1) that by (simp add: permutes_range_def)
  have pivot: "zs ! p = ys ! p" "ws ! p = ys ! p" using left(1) same by (simp_all add: permutes_range_def)
  have "\<forall>k. lo \<le> k \<and> k < p \<longrightarrow> zs ! k \<le> ys ! p" by (rule permutes_all [OF left(1) _ low]) (use part len in simp)
  then have loww: "\<forall>k. lo \<le> k \<and> k < p \<longrightarrow> ws ! k \<le> ws ! p" using same pivot by simp
  have "\<forall>k. p + 1 \<le> k \<and> k < hi \<longrightarrow> ys ! p < zs ! k" using left(1) high by (simp add: permutes_range_def)
  then have "\<forall>k. p + 1 \<le> k \<and> k < hi \<longrightarrow> ys ! p < ws ! k" by (rule permutes_all [OF right(1), rotated]) (use part len in simp)
  then have highw: "\<forall>k. p + 1 \<le> k \<and> k < hi \<longrightarrow> ws ! p < ws ! k" using pivot by simp
  have "sorted_between lo p ws" using left(2) same by (simp add: sorted_between_def)
  then show "sorted_between lo hi ws" using right(2) loww highw by (rule sorted_join)
  show "permutes_range lo hi xs ws" using part left(1) right(1) by (simp add: permutes_range_def)
qed

lemma quicksort_sorts:
  assumes "0 < unat lo" "unat hi < length xs" "length xs < 2 ^ 32" "unat lo \<le> unat hi + 1"
  shows "\<exists>ys. quicksort_array xs lo hi = Some ys \<and> permutes_range (unat lo) (unat hi + 1) xs ys \<and>
    sorted_between (unat lo) (unat hi + 1) ys"
  using assms
proof (induction "unat hi - unat lo" arbitrary: lo hi xs rule: less_induct)
  case less
  show ?case
  proof (cases "lo < hi")
    case False
    then have "unat hi \<le> unat lo" by (simp add: word_less_nat_alt)
    then have "sorted_between (unat lo) (unat hi + 1) xs"
      unfolding sorted_between_def by (metis less_Suc_eq_le Suc_eq_plus1 le_antisym le_trans order_refl)
    then show ?thesis using False by (subst quicksort_array.simps) (auto simp: permutes_range_def)
  next
    case True
    obtain p ys where part: "partition_array xs lo hi = Some (p, ys)" "lo \<le> p" "p \<le> hi" "permutes_range (unat lo) (unat hi + 1) xs ys"
      and low: "\<forall>k. unat lo \<le> k \<and> k < unat p \<longrightarrow> ys ! k \<le> ys ! unat p"
      and high: "\<forall>k. unat p + 1 \<le> k \<and> k < unat hi + 1 \<longrightarrow> ys ! unat p < ys ! k"
      using partition_array_spec [OF True less.prems(2,3)] unfolding permutes_range_def
      by (metis Suc_eq_plus1 Suc_le_eq less_Suc_eq_le)
    note len = permutes_length [OF part(4)]
    have bounds: "unat lo \<le> unat p" "unat p \<le> unat hi" "unat lo < unat hi"
      using part(2,3) True by (simp_all add: word_le_nat_alt word_less_nat_alt)
    have "p \<noteq> 0" using bounds(1) less.prems(1) by auto
    then have p: "unat (p - 1) = unat p - 1" "unat (p + 1) = unat p + 1"
      using unat_minus_one [of p] bounds(2) less.prems(2,3) by (simp_all add: unat_add_small)
    have left: "unat (p - 1) - unat lo < unat hi - unat lo" "unat (p - 1) < length ys" "unat lo \<le> unat (p - 1) + 1" "unat (p - 1) + 1 = unat p"
      unfolding p len using bounds less.prems(1,2) by linarith+
    from less.hyps [OF left(1) less.prems(1) left(2) _ left(3)] less.prems(3) obtain zs where
      zs: "quicksort_array ys lo (p - 1) = Some zs" "permutes_range (unat lo) (unat p) ys zs" "sorted_between (unat lo) (unat p) zs"
      unfolding left(4) len by blast
    have right: "unat hi - unat (p + 1) < unat hi - unat lo" "0 < unat (p + 1)" "unat hi < length zs" "length zs < 2 ^ 32"
      "unat (p + 1) \<le> unat hi + 1"
      unfolding p permutes_length [OF zs(2)] len using bounds less.prems(2,3) by linarith+
    from less.hyps [OF right] obtain ws where ws: "quicksort_array zs (p + 1) hi = Some ws"
        "permutes_range (unat p + 1) (unat hi + 1) zs ws" "sorted_between (unat p + 1) (unat hi + 1) ws"
      unfolding p by blast
    have "quicksort_array xs lo hi = Some ws"
      using part(1) zs(1) ws(1) leD [of hi lo] True by (subst quicksort_array.simps) auto
    then show ?thesis
      using sort_sides [OF part(4) bounds(1) _ _ low high zs(2,3) ws(2,3)] bounds(2) less.prems(2) by simp
  qed
qed

lemma partition_all_greater:
  assumes "unat hi < length xs" "\<forall>k < unat hi. pivot < xs ! k"
  shows "partition_loop pivot 0 hi xs = Some (- 1, xs)"
proof -
  let ?body = "\<lambda>j (i, xs).
           case aread xs j of
             None \<Rightarrow> Inl ()
           | Some x \<Rightarrow>
               if x \<le> pivot
               then (case aswap xs (i + 1) j of None \<Rightarrow> Inl () | Some ys \<Rightarrow> Inr (i + 1, ys))
               else Inr (i, xs)"
  have skip: "aread xs k = Some (xs ! unat k)" "\<not> xs ! unat k \<le> pivot" if "k < hi" for k
    using assms that by (auto simp: aread_def word_less_nat_alt simp flip: not_less)
  have "case for_ret 0 hi ?body (0 - 1, xs) of Inl r \<Rightarrow> False | Inr s \<Rightarrow> s = (- 1, xs)"
  proof (rule for_ret_invariant [where P = "\<lambda>_ s. s = (- 1, xs)"])
    fix k t t' assume k: "k < hi" "t = (- 1, xs)" "?body k t = Inr t'"
    then show "t' = (- 1, xs)" using skip [OF k(1)] by simp
  next
    fix k t r assume k: "k < hi" "t = (- 1, xs)" "?body k t = Inl r"
    then show False using skip [OF k(1)] by simp
  qed auto
  then show ?thesis by (auto simp: partition_loop_def split: sum.splits)
qed

section \<open>Properties\<close>

text \<open>C35. \<open>quicksort_array\<close> from a first index above 0 returns a permutation of the array that is
  sorted from \<open>lo_index\<close> to \<open>hi_index\<close> and unchanged elsewhere.\<close>

theorem quicksort_range:
  assumes "0 < unat lo" "unat hi < length xs" "length xs < 2 ^ 32" "unat lo \<le> unat hi + 1"
  shows "\<exists>ys. quicksort_array xs lo hi = Some ys \<and> mset ys = mset xs \<and>
    (\<forall>k. k < unat lo \<or> unat hi + 1 \<le> k \<longrightarrow> ys ! k = xs ! k) \<and>
    (\<forall>i j. unat lo \<le> i \<and> i \<le> j \<and> j \<le> unat hi \<longrightarrow> ys ! i \<le> ys ! j)"
  using quicksort_sorts [OF assms] by (simp add: sorted_between_def permutes_range_def less_Suc_eq_le conj_assoc)

theorem quicksort_range_witness:
  "\<exists>ys. quicksort_array [9, 7, 3, 5] 1 3 = Some ys \<and> mset ys = mset [9, 7, 3, 5] \<and>
    (\<forall>i j. 1 \<le> i \<and> i \<le> j \<and> j \<le> (3 :: nat) \<longrightarrow> ys ! i \<le> ys ! j)"
  using quicksort_range [of 1 3 "[9, 7, 3, 5]"] by fastforce

text \<open>From index 0 the sort can leave the array: when the last element is the least, the
  pivot ends at index 0, \<open>p - 1\<close> wraps to \<open>0xFFFFFFFF\<close>, and the recursive call on \<open>0 .. 0xFFFFFFFF\<close>
  reads past the end.\<close>

theorem quicksort_index_zero:
  assumes "0 < unat hi" "unat hi < length xs" "length xs < 2 ^ 32"
    and "\<forall>k < unat hi. xs ! unat hi < xs ! k"
  shows "quicksort_array xs 0 hi = None"
proof -
  have hi: "\<not> hi \<le> 0" using assms(1) by auto
  have len: "\<not> unat (- 1 :: u32) < length ys" if "length ys = length xs" for ys :: "u32 list"
  proof -
    have "unat (hi :: u32) \<le> unat (- 1 :: u32)" by (simp add: word_n1_ge flip: word_le_nat_alt)
    moreover have "Suc (unat (- 1 :: u32)) = 2 ^ 32" by (simp add: unsigned_minus_1_eq_mask mask_eq_exp_minus_1)
    ultimately show ?thesis using that assms(3) by simp
  qed
  have part: "partition_array xs 0 hi = Some (0, xs[0 := xs ! unat hi, unat hi := xs ! 0])"
    using partition_all_greater [OF assms(2,4)] assms(1,2)
    by (cases "xs = []") (simp_all add: partition_array_def aread_def aswap_def)
  have "quicksort_array ys 0 (- 1) = None" if "length ys = length xs" for ys
    using len [OF that] by (subst quicksort_array.simps) (simp add: partition_array_def aread_def)
  then show ?thesis using hi part by (subst quicksort_array.simps) simp
qed

theorem quicksort_index_zero_witness: "quicksort_array [2, 1] 0 1 = None"
  by (rule quicksort_index_zero) simp_all

end
