(* ===== verification/MsgQueue.thy ===== *)
theory MsgQueue
  imports Prelude
begin

text \<open>
  The ring buffer of include/kernel/utils/communication_and_events/message_queue.h, for any item
  type and capacity (the macro's parameters).  The capacity is the length of \<open>items_buffer\<close>; the
  code takes indices modulo \<open>capacity - 1\<close>, and a modulus of 0 is \<open>None\<close>.  \<open>contents\<close> is the queue
  the two indices describe; the \<open>fifo_queue\<close> locale is the contract the name promises, which the
  ring buffer keeps only while it holds fewer than \<open>capacity - 2\<close> items.
\<close>

section \<open>Operations\<close>

record 'a queue =
  read_index :: u32
  write_index :: u32
  items_buffer :: "'a list"

definition capacity :: "'a queue \<Rightarrow> u32" where
  "capacity q = of_nat (length (items_buffer q))"

definition queue_init :: "'a queue \<Rightarrow> 'a queue" where
  "queue_init q = q\<lparr> read_index := 0, write_index := 0 \<rparr>"

definition queue_enqueue :: "'a queue \<Rightarrow> 'a \<Rightarrow> (bool \<times> 'a queue) option" where
  "queue_enqueue q new_item =
     (let num_of_elements = write_index q - read_index q
      in if capacity q = num_of_elements then Some (False, q)
      else if capacity q - 1 = 0 then None
      else (let index = write_index q mod (capacity q - 1);
                q1 = q\<lparr> write_index := write_index q + 1 \<rparr>;
                q2 = q1\<lparr> write_index := write_index q1 mod (capacity q - 1) \<rparr>
            in Some (True, q2\<lparr> items_buffer := (items_buffer q2)[unat index := new_item] \<rparr>)))"

definition queue_dequeue :: "'a queue \<Rightarrow> ('a option \<times> 'a queue) option" where
  "queue_dequeue q =
     (let num_of_elements = write_index q - read_index q
      in if num_of_elements = 0 then Some (None, q)
      else if capacity q - 1 = 0 then None
      else (let index = read_index q mod (capacity q - 1);
                q1 = q\<lparr> read_index := read_index q + 1 \<rparr>;
                q2 = q1\<lparr> read_index := read_index q1 mod (capacity q - 1) \<rparr>
            in Some (Some (items_buffer q2 ! unat index), q2)))"

definition queue_is_empty :: "'a queue \<Rightarrow> bool" where
  "queue_is_empty q = (read_index q = write_index q)"

section \<open>The queue a buffer stands for\<close>

definition modulus :: "'a queue \<Rightarrow> nat" where
  "modulus q = length (items_buffer q) - 1"

definition queue_ok :: "'a queue \<Rightarrow> bool" where
  "queue_ok q \<longleftrightarrow> 3 \<le> length (items_buffer q) \<and> length (items_buffer q) < 2 ^ 31 \<and>
     unat (read_index q) < modulus q \<and> unat (write_index q) < modulus q"

definition held :: "'a queue \<Rightarrow> nat" where
  "held q = (unat (write_index q) + modulus q - unat (read_index q)) mod modulus q"

definition contents :: "'a queue \<Rightarrow> 'a list" where
  "contents q = map (\<lambda>k. items_buffer q ! ((unat (read_index q) + k) mod modulus q)) [0..<held q]"

lemma ring_forward: "(r :: nat) < n \<Longrightarrow> w < n \<Longrightarrow> (r + (w + n - r) mod n) mod n = w"
proof -
  assume "r < n" "w < n"
  have "(r + (w + n - r) mod n) mod n = (r + (w + n - r)) mod n" by (simp only: mod_add_right_eq)
  also have "r + (w + n - r) = w + n" using \<open>r < n\<close> by simp
  also have "(w + n) mod n = w" using \<open>w < n\<close> by simp
  finally show ?thesis .
qed

lemma ring_inj:
  assumes "(r :: nat) < n" "i < n" "j < n" "(r + i) mod n = (r + j) mod n"
  shows "i = j"
proof -
  have wrap: "(r + k) mod n = (if r + k < n then r + k else r + k - n)" if "k < n" for k
    using assms(1) that by (simp add: mod_if)
  show ?thesis using assms(2-4) wrap [of i] wrap [of j] by (auto split: if_splits)
qed

lemma held_next_write:
  assumes "(r :: nat) < n" "w < n" "1 < n"
  shows "((w + 1) mod n + n - r) mod n =
    (if (w + n - r) mod n = n - 1 then 0 else (w + n - r) mod n + 1)"
  using assms by (auto simp: mod_if)

lemma held_next_read:
  assumes "(r :: nat) < n" "w < n" "r \<noteq> w" "1 < n"
  shows "(w + n - r) mod n = Suc ((w + n - (r + 1) mod n) mod n)"
  using assms by (auto simp: mod_if)

lemma capacity_words:
  assumes "queue_ok q"
  shows "unat (capacity q - 1) = modulus q" "capacity q - 1 \<noteq> 0" "1 < modulus q"
    "capacity q \<noteq> write_index q - read_index q"
proof -
  let ?n = "length (items_buffer q)"
  have n: "3 \<le> ?n" "?n < 2 ^ 31" using assms by (auto simp: queue_ok_def)
  have u: "unat (capacity q) = ?n"
    unfolding capacity_def by (rule unat_of_nat_small) (use n in simp)
  then have c0: "capacity q \<noteq> 0" using n by auto
  then show m: "unat (capacity q - 1) = modulus q" using u by (simp add: unat_minus_one modulus_def)
  then show "capacity q - 1 \<noteq> 0" using n by (auto simp: modulus_def)
  show "1 < modulus q" using n by (auto simp: modulus_def)
  have r: "unat (read_index q) < modulus q" "unat (write_index q) < modulus q"
    using assms by (auto simp: queue_ok_def)
  have "unat (write_index q - read_index q) \<noteq> ?n"
    using r n by (auto simp: unat_sub_if' modulus_def split: if_splits)
  then show "capacity q \<noteq> write_index q - read_index q" using u by auto
qed

lemma next_index:
  assumes "queue_ok q" "unat i < modulus q"
  shows "unat ((i + 1) mod (capacity q - 1)) = (unat i + 1) mod modulus q"
    and "unat (i mod (capacity q - 1)) = unat i"
proof -
  have "modulus q < 2 ^ 31" using assms(1) by (auto simp: queue_ok_def modulus_def)
  then have "unat (i + 1) = unat i + 1" using assms(2) by (subst unat_add_small) auto
  then show "unat ((i + 1) mod (capacity q - 1)) = (unat i + 1) mod modulus q"
    using capacity_words(1) [OF assms(1)] by (simp add: unat_mod_distrib)
  show "unat (i mod (capacity q - 1)) = unat i"
    using capacity_words(1) [OF assms(1)] assms(2) by (simp add: unat_mod_distrib)
qed

lemma enqueue_ok:
  assumes "queue_ok q"
  shows "\<exists>q'. queue_enqueue q x = Some (True, q') \<and> queue_ok q' \<and> modulus q' = modulus q \<and>
    contents q' = (if length (contents q) = modulus q - 1 then [] else contents q @ [x])"
proof -
  let ?n = "modulus q" and ?r = "unat (read_index q)" and ?w = "unat (write_index q)"
  let ?q' = "q\<lparr> write_index := (write_index q + 1) mod (capacity q - 1),
      items_buffer := (items_buffer q)[unat (write_index q mod (capacity q - 1)) := x] \<rparr>"
  note words = capacity_words [OF assms]
  have rw: "?r < ?n" "?w < ?n" "?n < length (items_buffer q)"
    using assms by (auto simp: queue_ok_def modulus_def)
  have call: "queue_enqueue q x = Some (True, ?q')"
    using words by (simp add: queue_enqueue_def Let_def)
  have n': "modulus ?q' = ?n" by (simp add: modulus_def)
  have w': "unat (write_index ?q') = (?w + 1) mod ?n" using next_index(1) [OF assms rw(2)] by simp
  have ok: "queue_ok ?q'" using assms w' words(3) by (simp add: queue_ok_def n')
  have h: "held ?q' = (if held q = ?n - 1 then 0 else held q + 1)"
    using held_next_write [OF rw(1,2) words(3)] w' n' by (simp add: held_def)
  have len: "length (contents q) = held q" by (simp add: contents_def)
  have hn: "held q < ?n" using words(3) by (simp add: held_def)
  have slot: "(?r + held q) mod ?n = ?w" using ring_forward [OF rw(1,2)] by (simp add: held_def)
  have "contents ?q' = contents q @ [x]" if "held q \<noteq> ?n - 1"
  proof -
    have get: "items_buffer ?q' ! ((?r + k) mod ?n) =
        (if k = held q then x else items_buffer q ! ((?r + k) mod ?n))" if k: "k \<le> held q" for k
    proof (cases "k = held q")
      case True
      then show ?thesis using slot rw next_index(2) [OF assms rw(2)] by simp
    next
      case False
      then have "(?r + k) mod ?n \<noteq> ?w" using slot ring_inj [OF rw(1), of k "held q"] k hn by auto
      then show ?thesis using False next_index(2) [OF assms rw(2)] by simp
    qed
    have "held ?q' = Suc (held q)" using h that by simp
    then show ?thesis using get by (simp add: contents_def n')
  qed
  moreover have "contents ?q' = []" if "held q = ?n - 1" using h that by (simp add: contents_def)
  ultimately show ?thesis using call ok n' len by auto
qed

lemma dequeue_ok:
  assumes "queue_ok q"
  shows "case contents q of
      [] \<Rightarrow> queue_dequeue q = Some (None, q)
    | x # xs \<Rightarrow> \<exists>q'. queue_dequeue q = Some (Some x, q') \<and> queue_ok q' \<and> modulus q' = modulus q \<and> contents q' = xs"
proof -
  let ?n = "modulus q" and ?r = "unat (read_index q)" and ?w = "unat (write_index q)"
  note words = capacity_words [OF assms]
  have rw: "?r < ?n" "?w < ?n" using assms by (auto simp: queue_ok_def)
  have slot: "(?r + held q) mod ?n = ?w" using ring_forward [OF rw(1,2)] by (simp add: held_def)
  show ?thesis
  proof (cases "?r = ?w")
    case True
    then have "write_index q = read_index q" by (simp add: word_unat_eq_iff)
    then have "write_index q - read_index q = 0" by simp
    moreover have "held q = 0" using True rw by (simp add: held_def)
    ultimately show ?thesis by (simp add: contents_def queue_dequeue_def)
  next
    case False
    let ?q' = "q\<lparr> read_index := (read_index q + 1) mod (capacity q - 1) \<rparr>"
    have n': "modulus ?q' = ?n" by (simp add: modulus_def)
    have r': "unat (read_index ?q') = (?r + 1) mod ?n" using next_index(1) [OF assms rw(1)] by simp
    have ok: "queue_ok ?q'" using assms r' words(3) by (simp add: queue_ok_def n')
    have h: "held q = Suc (held ?q')"
      using held_next_read [OF rw False words(3)] r' n' by (simp add: held_def)
    have "write_index q - read_index q \<noteq> 0" using False by auto
    then have call: "queue_dequeue q = Some (Some (items_buffer q ! ?r), ?q')"
      using words next_index(2) [OF assms rw(1)] by (simp add: queue_dequeue_def Let_def)
    have "contents q = items_buffer q ! ?r # contents ?q'"
    proof -
      have "[0..<held q] = 0 # map Suc [0..<held ?q']" unfolding h by (simp add: upt_conv_Cons map_Suc_upt)
      then show ?thesis using rw(1) r' by (simp add: contents_def n' mod_add_left_eq del: upt_Suc)
    qed
    then show ?thesis using call ok n' by simp
  qed
qed

section \<open>The contract of a bounded queue\<close>

fun enqueue_all :: "('q \<Rightarrow> 'a \<Rightarrow> (bool \<times> 'q) option) \<Rightarrow> 'a list \<Rightarrow> 'q \<Rightarrow> 'q option" where
  "enqueue_all enq [] q = Some q"
| "enqueue_all enq (x # xs) q =
     (case enq q x of Some (True, q') \<Rightarrow> enqueue_all enq xs q' | _ \<Rightarrow> None)"

fun dequeue_all :: "('q \<Rightarrow> ('a option \<times> 'q) option) \<Rightarrow> nat \<Rightarrow> 'q \<Rightarrow> ('a list \<times> 'q) option" where
  "dequeue_all deq 0 q = Some ([], q)"
| "dequeue_all deq (Suc n) q =
     (case deq q of
        Some (Some x, q') \<Rightarrow> map_option (\<lambda>(xs, q''). (x # xs, q'')) (dequeue_all deq n q')
      | _ \<Rightarrow> None)"

locale fifo_queue =
  fixes enq :: "'q \<Rightarrow> 'a \<Rightarrow> (bool \<times> 'q) option"
    and deq :: "'q \<Rightarrow> ('a option \<times> 'q) option"
    and items :: "'q \<Rightarrow> 'a list"
    and good :: "'q \<Rightarrow> bool"
    and bound :: "'q \<Rightarrow> nat"
  assumes enq_law: "\<lbrakk> good q; length (items q) < bound q \<rbrakk> \<Longrightarrow>
      \<exists>q'. enq q x = Some (True, q') \<and> good q' \<and> bound q' = bound q \<and> items q' = items q @ [x]"
    and deq_law: "\<lbrakk> good q; items q = x # xs \<rbrakk> \<Longrightarrow>
      \<exists>q'. deq q = Some (Some x, q') \<and> good q' \<and> bound q' = bound q \<and> items q' = xs"
begin

lemma enqueue_many:
  "\<lbrakk> good q; length (items q) + length xs \<le> bound q \<rbrakk> \<Longrightarrow>
   \<exists>q'. enqueue_all enq xs q = Some q' \<and> good q' \<and> bound q' = bound q \<and> items q' = items q @ xs"
proof (induction xs arbitrary: q)
  case (Cons x xs)
  then obtain q' where q': "enq q x = Some (True, q')" "good q'" "bound q' = bound q" "items q' = items q @ [x]"
    using enq_law [of q x] by auto
  have "length (items q') + length xs \<le> bound q'" using Cons.prems(2) q'(3,4) by simp
  then show ?case using Cons.IH [OF q'(2)] q' by auto
qed simp

lemma dequeue_many:
  "\<lbrakk> good q; items q = xs @ ys \<rbrakk> \<Longrightarrow>
   \<exists>q'. dequeue_all deq (length xs) q = Some (xs, q') \<and> good q' \<and> bound q' = bound q \<and> items q' = ys"
proof (induction xs arbitrary: q)
  case (Cons x xs)
  then obtain q' where q': "deq q = Some (Some x, q')" "good q'" "bound q' = bound q" "items q' = xs @ ys"
    using deq_law [of q x "xs @ ys"] by auto
  then show ?case using Cons.IH [OF q'(2,4)] by auto
qed simp

lemma first_in_first_out:
  "\<lbrakk> good q; length (items q) + length xs \<le> bound q \<rbrakk> \<Longrightarrow>
   \<exists>q' q''. enqueue_all enq xs q = Some q' \<and>
     dequeue_all deq (length (items q) + length xs) q' = Some (items q @ xs, q'') \<and> items q'' = []"
  using enqueue_many [of q xs] dequeue_many [of _ "items q @ xs" "[]"] by fastforce

end

interpretation ring: fifo_queue queue_enqueue queue_dequeue contents queue_ok "\<lambda>q. modulus q - 1"
proof
  fix q :: "'a queue" and x
  assume "queue_ok q" "length (contents q) < modulus q - 1"
  then show "\<exists>q'. queue_enqueue q x = Some (True, q') \<and> queue_ok q' \<and> modulus q' - 1 = modulus q - 1 \<and>
      contents q' = contents q @ [x]"
    using enqueue_ok [of q x] by auto
next
  fix q :: "'a queue" and x xs
  assume "queue_ok q" "contents q = x # xs"
  then show "\<exists>q'. queue_dequeue q = Some (Some x, q') \<and> queue_ok q' \<and> modulus q' - 1 = modulus q - 1 \<and>
      contents q' = xs"
    using dequeue_ok [of q] by auto
qed

lemma queue_init_ok:
  assumes "3 \<le> length (items_buffer q)" "length (items_buffer q) < 2 ^ 31"
  shows "queue_ok (queue_init q)" "contents (queue_init q) = []"
    "modulus (queue_init q) = length (items_buffer q) - 1"
  using assms by (auto simp: queue_init_def queue_ok_def modulus_def contents_def held_def)

section \<open>Properties\<close>



text \<open>The queue is never full for \<open>enqueue\<close>: on every reachable state it reports success, and
  the item that brings the number held to \<open>capacity - 1\<close> empties the queue instead.\<close>

theorem queue_overflow_empties:
  assumes "queue_ok q"
  shows "\<exists>q'. queue_enqueue q x = Some (True, q') \<and> queue_ok q' \<and>
    contents q' = (if length (contents q) = modulus q - 1 then [] else contents q @ [x]) \<and>
    (queue_is_empty q' \<longleftrightarrow> length (contents q) = modulus q - 1)"
proof -
  obtain q' where q': "queue_enqueue q x = Some (True, q')" "queue_ok q'"
    "contents q' = (if length (contents q) = modulus q - 1 then [] else contents q @ [x])"
    using enqueue_ok [OF assms, of x] by blast
  have "queue_is_empty q' \<longleftrightarrow> contents q' = []"
  proof
    assume "queue_is_empty q'"
    then show "contents q' = []" by (simp add: queue_is_empty_def contents_def held_def)
  next
    assume c: "contents q' = []"
    have rw: "unat (read_index q') < modulus q'" "unat (write_index q') < modulus q'"
      using q'(2) by (auto simp: queue_ok_def)
    have "held q' = 0" using c by (simp add: contents_def)
    then have "unat (read_index q') = unat (write_index q')"
      using ring_forward [OF rw] rw by (simp add: held_def)
    then show "queue_is_empty q'" by (simp add: queue_is_empty_def word_unat_eq_iff)
  qed
  then show ?thesis using q' by auto
qed

theorem queue_overflow_empties_witness:
  "\<exists>q'. queue_enqueue \<lparr> read_index = 0, write_index = 1, items_buffer = [4, 0, 0 :: nat] \<rparr> 5 = Some (True, q') \<and>
     contents q' = [] \<and> queue_is_empty q'"
proof -
  let ?q = "\<lparr> read_index = 0, write_index = 1, items_buffer = [4, 0, 0 :: nat] \<rparr>"
  have "queue_ok ?q" "length (contents ?q) = modulus ?q - 1"
    by (simp_all add: queue_ok_def modulus_def contents_def held_def mod_Suc)
  then show ?thesis using queue_overflow_empties [of ?q 5] by fastforce
qed

end
