(* ===== verification/Observer.thy ===== *)
theory Observer
  imports Prelude "HOL-Library.Multiset"
begin

text \<open>
  The subject of include/kernel/utils/communication_and_events/observer.h.  An observer is the
  pointer to its structure; \<open>MAX_NUM_OF_OBSERVERS\<close> is the length of the array.  What an observer
  does when notified is an argument of \<open>notify\<close>, since it calls through a function pointer; it
  may change the subject, so the loop reads the subject afresh in each iteration.
\<close>

section \<open>Operations\<close>

record subject =
  observers :: "u32 list"
  num_of_active_observers :: u32

definition add_observer :: "subject \<Rightarrow> u32 \<Rightarrow> bool \<times> subject" where
  "add_observer subj observer =
     (if num_of_active_observers subj = of_nat (length (observers subj)) then (False, subj)
      else (True, subj\<lparr> observers := (observers subj)[unat (num_of_active_observers subj) := observer],
                    num_of_active_observers := num_of_active_observers subj + 1 \<rparr>))"

definition remove_observer :: "subject \<Rightarrow> u32 \<Rightarrow> bool \<times> subject" where
  "remove_observer subj observer =
     (case for_ret 0 (num_of_active_observers subj)
        (\<lambda>i (_ :: unit).
           if observers subj ! unat i = observer
           then (let n = num_of_active_observers subj - 1
                 in Inl (subj\<lparr> observers := (observers subj)[unat i := observers subj ! unat n],
                               num_of_active_observers := n \<rparr>))
           else Inr ()) ()
      of Inl s \<Rightarrow> (True, s) | Inr _ \<Rightarrow> (False, subj))"

partial_function (option) notify_loop ::
  "(u32 \<Rightarrow> 'e \<Rightarrow> subject \<times> 'w \<Rightarrow> subject \<times> 'w) \<Rightarrow> 'e \<Rightarrow> u32 \<Rightarrow> subject \<times> 'w \<Rightarrow> (subject \<times> 'w) option"
where
  "notify_loop on_notify event i s =
     (if i < num_of_active_observers (fst s)
      then notify_loop on_notify event (i + 1) (on_notify (observers (fst s) ! unat i) event s)
      else Some s)"

definition notify ::
  "(u32 \<Rightarrow> 'e \<Rightarrow> subject \<times> 'w \<Rightarrow> subject \<times> 'w) \<Rightarrow> subject \<times> 'w \<Rightarrow> 'e \<Rightarrow> (subject \<times> 'w) option" where
  "notify on_notify s event = notify_loop on_notify event 0 s"

section \<open>The registered observers\<close>

definition registered :: "subject \<Rightarrow> u32 list" where
  "registered s = take (unat (num_of_active_observers s)) (observers s)"

definition subject_ok :: "subject \<Rightarrow> bool" where
  "subject_ok s \<longleftrightarrow> unat (num_of_active_observers s) \<le> length (observers s) \<and> length (observers s) < 2 ^ 32"

lemma registered_nth:
  "subject_ok s \<Longrightarrow> i < unat (num_of_active_observers s) \<Longrightarrow> registered s ! i = observers s ! i"
  by (simp add: registered_def)

lemma registered_length [simp]:
  "subject_ok s \<Longrightarrow> length (registered s) = unat (num_of_active_observers s)"
  by (simp add: registered_def subject_ok_def)

lemma add_observer_spec:
  assumes "subject_ok s"
  shows "case add_observer s p of (b, s') \<Rightarrow> subject_ok s' \<and> length (observers s') = length (observers s) \<and>
    (b \<longleftrightarrow> length (registered s) < length (observers s)) \<and>
    registered s' = (if b then registered s @ [p] else registered s)"
proof -
  let ?n = "num_of_active_observers s" and ?len = "length (observers s)"
  have ok: "unat ?n \<le> ?len" "?len < 2 ^ 32" using assms by (auto simp: subject_ok_def)
  have "unat (of_nat ?len :: u32) = ?len" by (rule unat_of_nat_small) (use ok in simp)
  then have full: "?n = of_nat ?len \<longleftrightarrow> unat ?n = ?len" by (metis of_nat_unat unat_of_nat_small ok(2) word_unat_eq_iff)
  show ?thesis
  proof (cases "unat ?n = ?len")
    case True
    then show ?thesis using full assms by (simp add: add_observer_def)
  next
    case False
    then have less: "unat ?n < ?len" using ok by simp
    have n1: "unat (?n + 1) = Suc (unat ?n)" using less ok by (subst unat_add_small) auto
    have "take (Suc (unat ?n)) ((observers s)[unat ?n := p]) = take (unat ?n) (observers s) @ [p]"
      using less by (simp add: take_Suc_conv_app_nth)
    then show ?thesis using False full less n1 ok assms
      by (simp add: add_observer_def subject_ok_def registered_def)
  qed
qed

lemma remove_last_swap:
  assumes "n < length xs" "i \<le> n"
  shows "mset (take n (xs[i := xs ! n])) = mset (take (Suc n) xs) - {# xs ! i #}"
proof (cases "i = n")
  case True
  then show ?thesis using assms by (simp add: take_Suc_conv_app_nth)
next
  case False
  then have "i < n" using assms by simp
  have "mset (take n (xs[i := xs ! n])) = mset ((take n xs)[i := xs ! n])"
    by (simp add: take_update_swap)
  also have "\<dots> = add_mset (xs ! n) (mset (take n xs) - {# take n xs ! i #})"
    using \<open>i < n\<close> assms by (intro mset_update) simp
  finally show ?thesis using \<open>i < n\<close> assms
    by (simp add: take_Suc_conv_app_nth) (metis add_mset_diff_bothsides diff_union_swap2 insert_DiffM
        length_take min.absorb4 nth_mem_mset nth_take less_imp_le add_mset_add_single multi_member_this)
qed

lemma remove_observer_spec:
  assumes "subject_ok s"
  shows "case remove_observer s p of (b, s') \<Rightarrow> subject_ok s' \<and> length (observers s') = length (observers s) \<and>
    (b \<longleftrightarrow> p \<in> set (registered s)) \<and>
    mset (registered s') = mset (registered s) - {# p #} \<and> (\<not> b \<longrightarrow> s' = s)"
proof -
  let ?n = "num_of_active_observers s"
  let ?out = "\<lambda>i. s\<lparr> observers := (observers s)[unat i := observers s ! unat (?n - 1)],
      num_of_active_observers := ?n - 1 \<rparr>"
  let ?body = "\<lambda>i (_ :: unit). if observers s ! unat i = p
      then (let n = ?n - 1 in Inl (s\<lparr> observers := (observers s)[unat i := observers s ! unat n],
                                      num_of_active_observers := n \<rparr>))
      else Inr ()"
  have "case for_ret 0 ?n ?body () of
      Inl s' \<Rightarrow> \<exists>i < ?n. observers s ! unat i = p \<and> s' = ?out i
    | Inr _ \<Rightarrow> \<forall>k < unat ?n. observers s ! k \<noteq> p"
    by (rule for_ret_invariant [where P = "\<lambda>i _. \<forall>k < unat i. observers s ! k \<noteq> p"])
      (auto simp: unat_Suc_less less_Suc_eq Let_def split: if_splits)
  then consider (found) i where "i < ?n" "observers s ! unat i = p" "remove_observer s p = (True, ?out i)"
    | (absent) "\<forall>k < unat ?n. observers s ! k \<noteq> p" "remove_observer s p = (False, s)"
    unfolding remove_observer_def by (auto split: sum.splits)
  then show ?thesis
  proof cases
    case found
    have n0: "?n \<noteq> 0" using found(1) by auto
    then have n1: "unat ?n = Suc (unat (?n - 1))" by (simp add: unat_minus_one unat_gt_0)
    have i: "unat i < unat ?n" using found(1) by (simp add: word_less_nat_alt)
    have len: "unat (?n - 1) < length (observers s)" using assms n1 by (simp add: subject_ok_def)
    have "mset (registered (?out i)) = mset (registered s) - {# p #}"
      using remove_last_swap [OF len, of "unat i"] i n1 found(2) by (simp add: registered_def)
    moreover have "p \<in> set (registered s)"
      using i found(2) registered_nth [OF assms i] assms by (metis nth_mem registered_length)
    moreover have "subject_ok (?out i)" using assms n1 by (simp add: subject_ok_def)
    ultimately show ?thesis using found(3) by simp
  next
    case absent
    have "p \<notin> set (registered s)"
      using absent(1) registered_nth [OF assms] assms by (metis in_set_conv_nth registered_length)
    then show ?thesis using absent(2) assms by simp
  qed
qed

lemma notify_loop_fold:
  assumes "subject_ok s" "\<And>p e w. on_notify p e (s, w) = (s, call p e w)"
    and "unat i \<le> unat (num_of_active_observers s)"
  shows "notify_loop on_notify event i (s, w) =
    Some (s, fold (\<lambda>p. call p event) (drop (unat i) (registered s)) w)"
  using assms(3)
proof (induction "unat (num_of_active_observers s) - unat i" arbitrary: i w)
  case 0
  then show ?case using assms(1) by (subst notify_loop.simps) (simp add: word_less_nat_alt)
next
  case (Suc n)
  then have i: "i < num_of_active_observers s" by (simp add: word_less_nat_alt)
  have i1: "unat (i + 1) = Suc (unat i)" using i by (rule unat_Suc_less)
  have "drop (unat i) (registered s) = observers s ! unat i # drop (Suc (unat i)) (registered s)"
    using i assms(1) registered_nth [OF assms(1), of "unat i"]
    by (simp add: Cons_nth_drop_Suc [symmetric] word_less_nat_alt)
  then show ?case using Suc.hyps(1) [of "i + 1" "call (observers s ! unat i) event w"] Suc.hyps(2) Suc.prems i i1
    by (subst notify_loop.simps) (simp add: assms(2) word_less_nat_alt)
qed

section \<open>Properties\<close>

text \<open>The subject implements a bounded multiset of observers: \<open>add_observer\<close> succeeds exactly
  when there is room and adds one occurrence at the end, \<open>remove_observer\<close> succeeds exactly for a
  registered observer and removes one occurrence, and both keep the subject well formed.\<close>

theorem observers_bounded_multiset:
  assumes "subject_ok s"
  shows "(case add_observer s p of (b, s') \<Rightarrow> subject_ok s' \<and>
      (b \<longleftrightarrow> length (registered s) < length (observers s)) \<and>
      registered s' = (if b then registered s @ [p] else registered s)) \<and>
    (case remove_observer s p of (b, s') \<Rightarrow> subject_ok s' \<and>
      (b \<longleftrightarrow> p \<in> set (registered s)) \<and> mset (registered s') = mset (registered s) - {# p #})"
  using add_observer_spec [OF assms, of p] remove_observer_spec [OF assms, of p]
  by (auto split: prod.splits)

theorem observers_bounded_multiset_witness:
  "subject_ok (snd (add_observer \<lparr> observers = [0, 0], num_of_active_observers = 1 \<rparr> 9))"
  using observers_bounded_multiset [of "\<lparr> observers = [0, 0], num_of_active_observers = 1 \<rparr>" 9]
  by (simp add: subject_ok_def split: prod.splits)

text \<open>When the observers leave the subject alone, \<open>notify\<close> returns and has called every
  registered observer once, in the order of the array.\<close>

theorem notify_calls_each_once:
  assumes "subject_ok s" "\<And>p e w. on_notify p e (s, w) = (s, call p e w)"
  shows "notify on_notify (s, w) event = Some (s, fold (\<lambda>p. call p event) (registered s) w)"
  using notify_loop_fold [of s on_notify call 0 event w] assms by (simp add: notify_def)

theorem notify_calls_each_once_witness:
  "notify (\<lambda>p e (s, w). (s, w @ [(p, e :: nat)])) (\<lparr> observers = [4, 8, 0], num_of_active_observers = 2 \<rparr>, []) 7
   = Some (\<lparr> observers = [4, 8, 0], num_of_active_observers = 2 \<rparr>, [(4, 7), (8, 7)])"
  using notify_calls_each_once [of "\<lparr> observers = [4, 8, 0], num_of_active_observers = 2 \<rparr>"
      "\<lambda>p e (s, w). (s, w @ [(p, e :: nat)])" "\<lambda>p e w. w @ [(p, e)]" "[]" 7]
  by (simp add: subject_ok_def registered_def)

end
