(* ===== verification/Heap.thy ===== *)
theory Heap
  imports PageAlloc
begin

text \<open>
  The kernel heap, kernel/libk/kstdlib.c: a boundary-tag allocator over the kernel's virtual
  memory with an explicit doubly linked free list.  A block is a run of words: its first and
  last word hold the size in words, with the top bit set while the block is in use; words 1 and
  2 of a free block are the previous and next free block.  The static variables are the fields of
  \<open>heap\<close>; \<open>hmem\<close> is the kernel's virtual memory, in which also the physical page allocator keeps its
  bits.

  \<open>pg\<close> is the effect of \<open>map_page_in_kernel_addr\<close> (Paging) on that memory: \<open>pg a f m\<close> is the memory
  after the page at \<open>a\<close> is backed by frame \<open>f\<close>.  A walk along the free list ends only if the list
  does, so \<open>find_block\<close> and what calls it are partial.
\<close>

unbundle bit_operations_syntax

section \<open>Sizes\<close>

definition BYTES_IN_WORD :: u32 where "BYTES_IN_WORD = 4"
definition MIN_BLOCK_SIZE :: u32 where "MIN_BLOCK_SIZE = 8"
definition WORDS_IN_PAGE :: u32 where "WORDS_IN_PAGE = PAGE_SIZE div BYTES_IN_WORD"

lemmas heap_constants = BYTES_IN_WORD_def MIN_BLOCK_SIZE_def WORDS_IN_PAGE_def PAGE_SIZE_def

definition bytes_to_words :: "u32 \<Rightarrow> u32" where
  "bytes_to_words bytes = bytes div 4 + (if bytes mod 4 > 0 then 1 else 0)"

definition round_up_to_nearest_n_power :: "u32 \<Rightarrow> u32 \<Rightarrow> u32" where
  "round_up_to_nearest_n_power num_to_round multiple =
     (if multiple = 0 then num_to_round
      else let remainder = num_to_round mod multiple
           in if remainder = 0 then num_to_round else num_to_round + multiple - remainder)"

definition get_size :: "u32 \<Rightarrow> u32" where
  "get_size size_word = size_word AND 0x7fffffff"

definition get_allocated_bit :: "u32 \<Rightarrow> bool" where
  "get_allocated_bit size_word = (size_word AND 0x80000000 > 0)"

section \<open>The heap\<close>

record heap =
  hmem :: mem
  first_free_virtual_address :: u32
  last_free_virtual_address :: u32
  number_of_pages_allocated :: u32
  heap_head :: u32

type_synonym page_map = "u32 \<Rightarrow> u32 \<Rightarrow> mem \<Rightarrow> mem"

text \<open>\<open>p[i]\<close> for \<open>uint32_t *p\<close>, read and written.\<close>

definition hget :: "heap \<Rightarrow> u32 \<Rightarrow> u32 \<Rightarrow> u32" where
  "hget h p i = rd32 (hmem h) (p + 4 * i)"

definition hput :: "u32 \<Rightarrow> u32 \<Rightarrow> u32 \<Rightarrow> heap \<Rightarrow> heap" where
  "hput p i v h = h\<lparr> hmem := wr32 (hmem h) (p + 4 * i) v \<rparr>"

definition increase_memory_pool :: "page_map \<Rightarrow> layout \<Rightarrow> heap \<Rightarrow> bool \<times> heap" where
  "increase_memory_pool pg lay h =
     (if number_of_pages_allocated h < MAX_KERNEL_HEAP_SIZE
      then let (phys_addr, m) = global_phys_allocator_allocate_page lay (hmem h);
               h1 = h\<lparr> hmem := m \<rparr>;
               last = last_free_virtual_address h
           in if phys_addr = 0 then (False, h1)
              else let h2 = h1\<lparr> hmem := pg last phys_addr (hmem h1) \<rparr>
                   in if \<not> last + 4 * WORDS_IN_PAGE > HEAP_START_ADDR then (False, h2)
                      else let h3 =
                        (if \<not> get_allocated_bit (hget h2 last (-1))
                         then let new_block_ptr = last - 4 * hget h2 last (-1);
                                  a1 = hput new_block_ptr 0 (hget h2 new_block_ptr 0 + WORDS_IN_PAGE) h2
                              in hput new_block_ptr (hget a1 new_block_ptr 0 - 1) (hget a1 new_block_ptr 0) a1
                         else let b1 = hput last 0 1024 h2;
                                  b2 = hput last 1 0 b1;
                                  b3 = hput last 2 (heap_head b2) b2;
                                  b4 = (if hget b3 last 2 \<noteq> 0 then hput (hget b3 last 2) 1 last b3 else b3);
                                  b5 = hput last 1023 (hget b4 last 0) b4
                              in b5\<lparr> heap_head := last \<rparr>)
                      in (True, h3\<lparr> number_of_pages_allocated := number_of_pages_allocated h3 + 1,
                                   last_free_virtual_address := last + 4 * WORDS_IN_PAGE \<rparr>)
      else (False, h))"

text \<open>The two ways to allocate from a free block: all of it, or its first words.\<close>

definition allocate_whole_block :: "u32 \<Rightarrow> heap \<Rightarrow> heap" where
  "allocate_whole_block block h =
     (let h1 = hput block 0 (hget h block 0 OR 0x80000000) h;
          last = get_size (hget h1 block 0) - 1;
          h2 = hput block last (hget h1 block last OR 0x80000000) h1;
          h3 = (if hget h2 block 1 \<noteq> 0 then hput (hget h2 block 1) 2 (hget h2 block 2) h2
                else h2\<lparr> heap_head := hget h2 block 2 \<rparr>);
          h4 = (if hget h3 block 2 \<noteq> 0 then hput (hget h3 block 2) 1 (hget h3 block 1) h3 else h3);
          h5 = hput block 1 0 h4
      in hput block 2 0 h5)"

definition split_block :: "u32 \<Rightarrow> u32 \<Rightarrow> heap \<Rightarrow> heap" where
  "split_block size_to_allocate block h =
     (let new_split_block = block + 4 * size_to_allocate;
          h1 = hput new_split_block 0 (get_size (hget h block 0 - size_to_allocate)) h;
          h2 = hput new_split_block 1 (hget h1 block 1) h1;
          h3 = hput new_split_block 2 (hget h2 block 2) h2;
          h4 = hput new_split_block (get_size (hget h3 new_split_block 0) - 1)
                 (get_size (hget h3 new_split_block 0)) h3;
          h5 = (if hget h4 block 1 \<noteq> 0 then hput (hget h4 block 1) 2 new_split_block h4
                else h4\<lparr> heap_head := new_split_block \<rparr>);
          h6 = (if hget h5 block 2 \<noteq> 0 then hput (hget h5 block 2) 1 new_split_block h5 else h5);
          h7 = hput block 1 0 h6;
          h8 = hput block 2 0 h7;
          h9 = hput block 0 (size_to_allocate OR 0x80000000) h8
      in hput block (size_to_allocate - 1) (size_to_allocate OR 0x80000000) h9)"

definition allocate_block :: "u32 \<Rightarrow> u32 \<Rightarrow> heap \<Rightarrow> u32 \<times> heap" where
  "allocate_block size_to_allocate block h =
     (if get_allocated_bit (hget h block 0) then (0, h)
      else if get_size (hget h block 0) \<le> size_to_allocate + 2 * MIN_BLOCK_SIZE
           then (block, allocate_whole_block block h)
           else (block, split_block size_to_allocate block h))"

definition kdynamic_memory_init :: "page_map \<Rightarrow> layout \<Rightarrow> heap \<Rightarrow> heap" where
  "kdynamic_memory_init pg lay h =
     (let (phys_frame, m) = global_phys_allocator_allocate_page lay (hmem h);
          start = HEAP_START_ADDR;
          (_, m') = kmemset (pg start phys_frame m) start 0 PAGE_SIZE;
          h1 = h\<lparr> hmem := m', number_of_pages_allocated := 1, first_free_virtual_address := start,
                  last_free_virtual_address := start + 4 * WORDS_IN_PAGE, heap_head := start \<rparr>;
          h2 = hput start 0 WORDS_IN_PAGE h1;
          h3 = hput start 1 0 h2;
          h4 = hput start 2 0 h3
      in hput start (hget h4 start 0 - 1) WORDS_IN_PAGE h4)"

section \<open>Allocation\<close>

partial_function (option) find_block :: "heap \<Rightarrow> u32 \<Rightarrow> u32 \<Rightarrow> u32 option" where
  "find_block h size_in_words current_block =
     (if current_block = 0 then Some 0
      else if get_size (hget h current_block 0) \<ge> size_in_words then Some current_block
      else find_block h size_in_words (hget h current_block 2))"

partial_function (option) kmalloc_loop :: "page_map \<Rightarrow> layout \<Rightarrow> u32 \<Rightarrow> heap \<Rightarrow> (u32 \<times> heap) option" where
  "kmalloc_loop pg lay size_in_words h =
     do {
       block \<leftarrow> find_block h size_in_words (heap_head h);
       if block \<noteq> 0
       then let (ret, h1) = allocate_block size_in_words block h
            in if \<not> (hget h1 ret 1 = 0 \<and> hget h1 ret 2 = 0) then Some (0, h1) else Some (ret + 12, h1)
       else let (grown, h1) = increase_memory_pool pg lay h
            in if grown then kmalloc_loop pg lay size_in_words h1 else Some (0, h1)
     }"

definition kmalloc :: "page_map \<Rightarrow> layout \<Rightarrow> u32 \<Rightarrow> heap \<Rightarrow> (u32 \<times> heap) option" where
  "kmalloc pg lay request h =
     (if request = 0 then Some (0, h)
      else kmalloc_loop pg lay
        (request div BYTES_IN_WORD + (if request mod BYTES_IN_WORD > 0 then 1 else 0) + 4) h)"

definition zeroed_out_kmalloc :: "page_map \<Rightarrow> layout \<Rightarrow> u32 \<Rightarrow> heap \<Rightarrow> (u32 \<times> heap) option" where
  "zeroed_out_kmalloc pg lay request h =
     do {
       (ret, h1) \<leftarrow> kmalloc pg lay request h;
       Some (ret, if ret \<noteq> 0
                  then h1\<lparr> hmem := snd (kmemset (hmem h1) ret 0 (bytes_to_words request * BYTES_IN_WORD)) \<rparr>
                  else h1)
     }"

definition kcalloc :: "page_map \<Rightarrow> layout \<Rightarrow> u32 \<Rightarrow> u32 \<Rightarrow> heap \<Rightarrow> (u32 \<times> heap) option" where
  "kcalloc pg lay num request h = zeroed_out_kmalloc pg lay (num * request) h"

definition uninitialized_kcalloc :: "page_map \<Rightarrow> layout \<Rightarrow> u32 \<Rightarrow> u32 \<Rightarrow> heap \<Rightarrow> (u32 \<times> heap) option" where
  "uninitialized_kcalloc pg lay num request h = kmalloc pg lay (num * request) h"

definition get_head :: "heap \<Rightarrow> u32" where
  "get_head h = heap_head h"

section \<open>Release\<close>

text \<open>The parts of \<open>kfree\<close>: joining the next block, joining the previous block, and the front
  insertion.  The Boolean of the joins says whether the assertion after them holds.\<close>

definition not_self_linked :: "u32 \<Rightarrow> heap \<Rightarrow> bool" where
  "not_self_linked b h \<longleftrightarrow> hget h b 1 \<noteq> b \<and> hget h b 2 \<noteq> b"

definition join_next :: "u32 \<Rightarrow> heap \<Rightarrow> bool \<times> heap" where
  "join_next b h =
     (let prev = hget h b (hget h b 0 + 1);
          next = hget h b (hget h b 0 + 2);
          h1 = (if prev \<noteq> 0 then hput prev 2 b h else h\<lparr> heap_head := b \<rparr>);
          h2 = (if next \<noteq> 0 then hput next 1 b h1 else h1);
          old_index = hget h2 b 0;
          h3 = hput b 1 prev h2;
          h4 = hput b 2 next h3;
          h5 = hput b 0 (hget h4 b 0 + hget h4 b (hget h4 b 0)) h4;
          h6 = hput b (old_index - 1) 0 h5;
          h7 = hput b old_index 0 h6;
          h8 = hput b (old_index + 1) 0 h7;
          h9 = hput b (old_index + 2) 0 h8;
          h10 = hput b (hget h9 b 0 - 1) (hget h9 b 0) h9
      in (not_self_linked b h10, h10))"

definition join_previous :: "u32 \<Rightarrow> heap \<Rightarrow> bool \<times> u32 \<times> heap" where
  "join_previous old h =
     (let old_size = hget h old 0;
          prev = hget h old 1;
          next = hget h old 2;
          h1 = (if prev \<noteq> 0 then hput prev 2 next h
                else if next \<noteq> 0 then h\<lparr> heap_head := next \<rparr> else h);
          h2 = (if next \<noteq> 0 then hput next 1 prev h1 else h1);
          b = old - 4 * hget h2 old (-1);
          h3 = hput old (-1) 0 h2;
          h4 = hput old 0 0 h3;
          h5 = hput old 1 0 h4;
          h6 = hput old 2 0 h5;
          h7 = hput b 0 (hget h6 b 0 + old_size) h6;
          h8 = hput b (hget h7 b 0 - 1) (hget h7 b 0) h7
      in (not_self_linked b h8, b, h8))"

definition insert_front :: "u32 \<Rightarrow> heap \<Rightarrow> heap" where
  "insert_front b h =
     (if \<not> (hget h b 1 = 0 \<and> hget h b 2 = 0) then h
      else let h1 = hput b 1 0 h;
               h2 = hput b 2 (heap_head h1) h1;
               h3 = (if hget h2 b 2 \<noteq> 0 then hput (hget h2 b 2) 1 b h2 else h2)
           in h3\<lparr> heap_head := b \<rparr>)"

definition kfree :: "u32 \<Rightarrow> heap \<Rightarrow> heap" where
  "kfree payload_ptr h =
     (if payload_ptr = 0 then h
      else let b = payload_ptr - 12
           in if \<not> (hget h b 1 = 0 \<and> hget h b 2 = 0) then h
              else let h1 = hput b 0 (hget h b 0 AND 0x7fffffff) h;
                       h2 = hput b (hget h1 b 0 - 1) (hget h1 b (hget h1 b 0 - 1) AND 0x7fffffff) h1;
                       next_free = \<not> get_allocated_bit (hget h2 b (hget h2 b 0));
                       (ok1, h3) = (if next_free then join_next b h2 else (True, h2))
                   in if \<not> ok1 then h3
                      else let previous_free = (b > HEAP_START_ADDR \<and> \<not> get_allocated_bit (hget h3 b (-1)));
                               (ok2, b', h4) = (if previous_free then join_previous b h3 else (True, b, h3))
                           in if \<not> ok2 then h4
                              else if \<not> (next_free \<or> previous_free) then insert_front b' h4 else h4)"

section \<open>Resizing\<close>

definition grow_in_place :: "u32 \<Rightarrow> u32 \<Rightarrow> u32 \<Rightarrow> heap \<Rightarrow> heap" where
  "grow_in_place block_head next_block_head new_size_in_words h =
     (let new_next_block_size = hget h next_block_head 0 - (new_size_in_words - get_size (hget h block_head 0));
          memory_taken_from_next_block = hget h next_block_head 0 - new_next_block_size
      in if new_next_block_size \<le> 2 * MIN_BLOCK_SIZE
         then let prev = hget h next_block_head 1;
                  next = hget h next_block_head 2;
                  h1 = (if prev \<noteq> 0 then hput prev 2 next h else h);
                  h2 = (if next \<noteq> 0 then hput next 1 prev h1 else h1);
                  h3 = hput block_head 0 (hget h2 block_head 0 + hget h2 next_block_head 0) h2
              in hput block_head (get_size (hget h3 block_head 0) - 1) (hget h3 block_head 0) h3
         else let start = next_block_head + 4 * new_next_block_size;
                  prev = hget h next_block_head 1;
                  h1 = hput start 1 prev h;
                  h2 = (if prev \<noteq> 0 then hput prev 2 start h1 else h1);
                  next = hget h2 next_block_head 2;
                  h3 = hput start 2 next h2;
                  h4 = (if next \<noteq> 0 then hput next 1 start h3 else h3);
                  h5 = hput start 0 new_next_block_size h4;
                  h6 = hput start (new_next_block_size - 1) (hget h5 start 0) h5;
                  h7 = hput block_head 0 (hget h6 block_head 0 + memory_taken_from_next_block) h6
              in hput block_head (get_size (hget h7 block_head 0) - 1) (hget h7 block_head 0) h7)"

definition shrink_in_place :: "u32 \<Rightarrow> u32 \<Rightarrow> heap \<Rightarrow> heap" where
  "shrink_in_place block_head new_size_in_words h =
     (let next_block_head = block_head + 4 * get_size (hget h block_head 0);
          difference_in_size = get_size (hget h block_head 0) - new_size_in_words - 4
      in if \<not> difference_in_size > 2 * MIN_BLOCK_SIZE then h
         else if next_block_head < last_free_virtual_address h \<and> \<not> get_allocated_bit (hget h next_block_head 0)
         then let new_split_block = next_block_head - 4 * difference_in_size;
                  h1 = hput next_block_head 0 (hget h next_block_head 0 + difference_in_size) h;
                  h2 = hput block_head (get_size (hget h1 block_head 0) - 1) 0 h1;
                  h3 = hput block_head 0 (hget h2 block_head 0 - difference_in_size) h2;
                  h4 = hput block_head (hget h3 block_head 0 - 1) (hget h3 block_head 0) h3;
                  h5 = hput new_split_block 0 (hget h4 next_block_head 0) h4;
                  h6 = hput new_split_block 1 (hget h5 next_block_head 1) h5;
                  h7 = hput new_split_block 2 (hget h6 next_block_head 2) h6;
                  h8 = hput new_split_block (hget h7 new_split_block 0 - 1) (hget h7 new_split_block 0) h7;
                  h9 = hput next_block_head 0 0 h8;
                  prev = hget h9 block_head 1;
                  next = hget h9 block_head 2;
                  h10 = (if prev \<noteq> 0 then hput prev 2 new_split_block h9 else h9\<lparr> heap_head := new_split_block \<rparr>)
              in if next \<noteq> 0 then hput next 1 new_split_block h10 else h10
         else let h1 = hput block_head 0 (hget h block_head 0 - difference_in_size) h;
                  h2 = hput block_head (get_size (hget h1 block_head 0) - 1) (hget h1 block_head 0) h1;
                  new_block_head = block_head + 4 * get_size (hget h2 block_head 0);
                  h3 = hput new_block_head 0 difference_in_size h2;
                  h4 = hput new_block_head 1 0 h3;
                  h5 = hput new_block_head 2 (heap_head h4) h4;
                  h6 = hput (heap_head h5) 1 new_block_head h5;
                  h7 = hput new_block_head (difference_in_size - 1) difference_in_size h6
              in h7\<lparr> heap_head := new_block_head \<rparr>)"

definition krealloc :: "page_map \<Rightarrow> layout \<Rightarrow> u32 \<Rightarrow> u32 \<Rightarrow> heap \<Rightarrow> (u32 \<times> heap) option" where
  "krealloc pg lay ptr new_size h =
     (let new_size_in_words = bytes_to_words new_size;
          block_head = ptr - 12;
          current = get_size (hget h block_head 0)
      in if new_size_in_words + 4 = current then Some (ptr, h)
         else if new_size_in_words + 4 > current
         then let next_block_head = hget h block_head current
              in if next_block_head < last_free_virtual_address h \<and>
                    \<not> get_allocated_bit (hget h next_block_head 0) \<and>
                    current + get_size (hget h next_block_head 0) \<ge> new_size_in_words
                 then Some (ptr, grow_in_place block_head next_block_head new_size_in_words h)
                 else do {
                   (new_memory_block, h1) \<leftarrow> zeroed_out_kmalloc pg lay new_size h;
                   let (_, m) = kmemcpy (hmem h1) new_memory_block ptr
                                  (BYTES_IN_WORD * (get_size (hget h1 block_head 0) - 4));
                   Some (new_memory_block, kfree ptr (h1\<lparr> hmem := m \<rparr>))
                 }
         else Some (ptr, shrink_in_place block_head new_size_in_words h))"

definition zeroed_out_krealloc :: "page_map \<Rightarrow> layout \<Rightarrow> u32 \<Rightarrow> u32 \<Rightarrow> heap \<Rightarrow> (u32 \<times> heap) option" where
  "zeroed_out_krealloc pg lay ptr new_size h =
     (let current = get_size (hget h ptr (-3))
      in if bytes_to_words new_size + 4 = current then Some (ptr, h)
         else if bytes_to_words new_size + 4 > current
         then let old_size = current - 4
              in do {
                (ret, h1) \<leftarrow> krealloc pg lay ptr new_size h;
                Some (ret, if ret \<noteq> 0
                           then h1\<lparr> hmem := snd (kmemset (hmem h1) (ret + 4 * old_size) 0
                                  ((bytes_to_words new_size - 4 - old_size) * 4)) \<rparr>
                           else h1)
              }
         else krealloc pg lay ptr new_size h)"

end
