(* ===== verification/KVector.thy ===== *)
theory KVector
  imports Heap
begin

text \<open>
  Dynamic arrays, kernel/kernel/utils/data_structures/vector/vector.c, and owned strings,
  data_structures/string/string.c, on the kernel heap.  A \<open>struct vector\<close> is four words: the
  array, the size of an element, the capacity and the length; a \<open>struct string\<close> is the data
  pointer and the length.  A pointer 0 is NULL.
\<close>

unbundle bit_operations_syntax

section \<open>Vectors\<close>

abbreviation vec_d :: "heap \<Rightarrow> u32 \<Rightarrow> u32" where "vec_d h v \<equiv> hget h v 0"
abbreviation vec_data_size :: "heap \<Rightarrow> u32 \<Rightarrow> u32" where "vec_data_size h v \<equiv> hget h v 1"
abbreviation vec_capacity :: "heap \<Rightarrow> u32 \<Rightarrow> u32" where "vec_capacity h v \<equiv> hget h v 2"
abbreviation vec_len :: "heap \<Rightarrow> u32 \<Rightarrow> u32" where "vec_len h v \<equiv> hget h v 3"

definition hcopy :: "u32 \<Rightarrow> u32 \<Rightarrow> u32 \<Rightarrow> heap \<Rightarrow> heap" where
  "hcopy destination source num h = h\<lparr> hmem := snd (kmemcpy (hmem h) destination source num) \<rparr>"

definition create_vector :: "page_map \<Rightarrow> layout \<Rightarrow> u32 \<Rightarrow> heap \<Rightarrow> (u32 \<times> heap) option" where
  "create_vector pg lay data_size h =
     do {
       (ret, h1) \<leftarrow> kmalloc pg lay 16 h;
       if ret = 0 then Some (0, h1)
       else Some (ret, hput ret 3 0 (hput ret 2 0 (hput ret 1 data_size (hput ret 0 0 h1))))
     }"

definition destroy_vector :: "u32 \<Rightarrow> heap \<Rightarrow> bool \<times> heap" where
  "destroy_vector v h =
     (if v = 0 then (False, h) else (True, kfree v (kfree (vec_d h v) h)))"

definition copy_vector :: "page_map \<Rightarrow> layout \<Rightarrow> u32 \<Rightarrow> heap \<Rightarrow> (u32 \<times> heap) option" where
  "copy_vector pg lay v h =
     (if v = 0 then Some (0, h)
      else do {
        (ret, h1) \<leftarrow> create_vector pg lay (vec_data_size h v) h;
        if ret = 0 then Some (0, h1)
        else do {
          let h2 = hput ret 2 (vec_capacity h1 v) h1;
          let h3 = hput ret 3 (vec_len h2 v) h2;
          (d, h4) \<leftarrow> kmalloc pg lay (vec_capacity h3 v * vec_data_size h3 v) h3;
          let h5 = hput ret 0 d h4;
          if vec_d h5 ret = 0 then Some (0, snd (destroy_vector ret h5))
          else Some (ret, hcopy (vec_d h5 ret) (vec_d h5 v) (vec_len h5 v * vec_data_size h5 v) h5)
        }
      })"

definition append_element :: "u32 \<Rightarrow> u32 \<Rightarrow> heap \<Rightarrow> heap" where
  "append_element v data h =
     (let len = vec_len h v;
          h1 = hput v 3 (len + 1) h
      in hcopy (vec_d h1 v + len * vec_data_size h1 v) data (vec_data_size h1 v) h1)"

definition push_back :: "page_map \<Rightarrow> layout \<Rightarrow> u32 \<Rightarrow> u32 \<Rightarrow> heap \<Rightarrow> (bool \<times> heap) option" where
  "push_back pg lay v data h =
     (if \<not> (v \<noteq> 0 \<and> data \<noteq> 0) then Some (False, h)
      else if vec_d h v = 0
      then if \<not> (vec_capacity h v = 0 \<and> vec_len h v = 0) then Some (False, h)
           else do {
             (new_d, h1) \<leftarrow> kmalloc pg lay (2 * vec_data_size h v) h;
             if new_d = 0 then Some (False, h1)
             else let h2 = hput v 0 new_d h1;
                      h3 = hcopy (vec_d h2 v) data (vec_data_size h2 v) h2
                  in Some (True, hput v 3 1 (hput v 2 2 h3))
           }
      else if \<not> vec_len h v \<le> vec_capacity h v then Some (False, h)
      else if vec_len h v < vec_capacity h v then Some (True, append_element v data h)
      else do {
        (new_d, h1) \<leftarrow> krealloc pg lay (vec_d h v) (2 * vec_len h v * vec_data_size h v) h;
        if new_d = 0 then Some (False, h1)
        else let h2 = append_element v data (hput v 0 new_d h1)
             in Some (True, hput v 2 (vec_capacity h2 v * 2) h2)
      })"

definition vector_at :: "u32 \<Rightarrow> u32 \<Rightarrow> heap \<Rightarrow> u32" where
  "vector_at v index h =
     (if \<not> (v \<noteq> 0 \<and> index < vec_len h v) then 0 else vec_d h v + index * vec_data_size h v)"

definition at_const :: "u32 \<Rightarrow> u32 \<Rightarrow> heap \<Rightarrow> u32" where
  "at_const v index h =
     (if \<not> (v \<noteq> 0 \<and> index < vec_len h v) then 0 else vec_d h v + index * vec_data_size h v)"

definition vector_size :: "u32 \<Rightarrow> heap \<Rightarrow> u32" where
  "vector_size v h = (if v = 0 then 0 else vec_len h v)"

text \<open>The bound of the loop in \<open>erase\<close> is read again in every iteration.\<close>

partial_function (option) erase_loop :: "u32 \<Rightarrow> u32 \<Rightarrow> heap \<Rightarrow> heap option" where
  "erase_loop v i h =
     (if i < vec_len h v - 1
      then erase_loop v (i + 1)
             (hcopy (vec_d h v + i * vec_data_size h v) (vec_d h v + (i + 1) * vec_data_size h v)
               (vec_data_size h v) h)
      else Some h)"

definition erase :: "u32 \<Rightarrow> u32 \<Rightarrow> heap \<Rightarrow> (bool \<times> heap) option" where
  "erase v index h =
     (if \<not> (v \<noteq> 0 \<and> vec_d h v \<noteq> 0 \<and> vec_capacity h v \<le> vec_len h v \<and> index < vec_len h v)
      then Some (False, h)
      else do {
        h1 \<leftarrow> erase_loop v index h;
        Some (True, hput v 3 (vec_len h1 v - 1) h1)
      })"

definition clear :: "u32 \<Rightarrow> heap \<Rightarrow> bool \<times> heap" where
  "clear v h =
     (if v = 0 then (False, h)
      else if vec_d h v = 0
      then if \<not> (vec_capacity h v = 0 \<and> vec_len h v = 0) then (False, h) else (True, h)
      else (True, hput v 3 0 h))"

definition destructive_clear :: "u32 \<Rightarrow> heap \<Rightarrow> bool \<times> heap" where
  "destructive_clear v h =
     (if v = 0 then (False, h)
      else (True, hput v 3 0 (hput v 2 0 (hput v 0 0 (kfree (vec_d h v) h)))))"

section \<open>Owned strings\<close>

record kstring =
  str_data :: u32
  str_length :: u32

definition load_string :: "u32 \<Rightarrow> heap \<Rightarrow> kstring" where
  "load_string str h = \<lparr> str_data = hget h str 0, str_length = hget h str 1 \<rparr>"

definition store_string :: "u32 \<Rightarrow> kstring \<Rightarrow> heap \<Rightarrow> heap" where
  "store_string str s h = hput str 1 (str_length s) (hput str 0 (str_data s) h)"

definition string_new_with_len :: "page_map \<Rightarrow> layout \<Rightarrow> u32 \<Rightarrow> u32 \<Rightarrow> heap \<Rightarrow> (kstring \<times> heap) option" where
  "string_new_with_len pg lay data len h =
     (if data = 0 then Some (\<lparr> str_data = 0, str_length = 0 \<rparr>, h)
      else do {
        (str, h1) \<leftarrow> kmalloc pg lay (len + 1) h;
        if str = 0 then Some (\<lparr> str_data = 0, str_length = 0 \<rparr>, h1)
        else let h2 = hcopy str data len h1
             in Some (\<lparr> str_data = str, str_length = len \<rparr>, h2\<lparr> hmem := (hmem h2)(str + len := 0) \<rparr>)
      })"

definition string_new :: "page_map \<Rightarrow> layout \<Rightarrow> u32 \<Rightarrow> heap \<Rightarrow> (kstring \<times> heap) option" where
  "string_new pg lay data h = do { len \<leftarrow> kstrlen (hmem h) data; string_new_with_len pg lay data len h }"

definition destroy_string :: "u32 \<Rightarrow> heap \<Rightarrow> bool \<times> heap" where
  "destroy_string str h =
     (if str = 0 then (False, h)
      else (True, hput str 1 0 (hput str 0 0 (kfree (hget h str 0) h))))"

definition assign_string_with_len ::
  "page_map \<Rightarrow> layout \<Rightarrow> u32 \<Rightarrow> u32 \<Rightarrow> u32 \<Rightarrow> heap \<Rightarrow> (bool \<times> heap) option" where
  "assign_string_with_len pg lay str data len h =
     (if str = 0 then Some (False, h)
      else let (ok, h1) = destroy_string str h
           in if \<not> ok then Some (False, h1)
              else do {
                (new_str, h2) \<leftarrow> string_new_with_len pg lay data len h1;
                if str_data new_str = 0 then Some (False, h2)
                else Some (True, store_string str new_str h2)
              })"

definition assign_string :: "page_map \<Rightarrow> layout \<Rightarrow> u32 \<Rightarrow> u32 \<Rightarrow> heap \<Rightarrow> (bool \<times> heap) option" where
  "assign_string pg lay str data h =
     do { len \<leftarrow> kstrlen (hmem h) data; assign_string_with_len pg lay str data len h }"

definition assign_string_from_string :: "page_map \<Rightarrow> layout \<Rightarrow> u32 \<Rightarrow> u32 \<Rightarrow> heap \<Rightarrow> (bool \<times> heap) option" where
  "assign_string_from_string pg lay str other h =
     assign_string_with_len pg lay str (str_data (load_string other h)) (str_length (load_string other h)) h"

end
