(* ===== verification/Process.thy ===== *)
theory Process
  imports KVector
begin

text \<open>
  Processes and the state of the scheduler: kernel/kernel/scheduler/process.h and the static
  variables of scheduler.c.  The process control block is indexed by process id; \<open>run_queues\<close> by
  \<open>priority - MIN_PRIORITY\<close>.  The processor's registers (\<open>cpu\<close>), the interrupt flag, the page
  directory register and the stack pointer of the task state segment are part of the state, since
  a context switch changes them.
\<close>

section \<open>Processes\<close>

type_synonym pid_t = u32

definition MAX_PRIORITY :: u32 where "MAX_PRIORITY = 4"
definition MIN_PRIORITY :: u32 where "MIN_PRIORITY = 1"
definition DEFAULT_PRIORITY :: u32 where "DEFAULT_PRIORITY = 3"
definition PRIORITY_LEVELS :: u32 where "PRIORITY_LEVELS = (MAX_PRIORITY - MIN_PRIORITY) + 1"
definition MAX_PROCESS :: u32 where "MAX_PROCESS = 128"

lemmas process_constants = MAX_PRIORITY_def MIN_PRIORITY_def DEFAULT_PRIORITY_def
  PRIORITY_LEVELS_def MAX_PROCESS_def

datatype process_state =
  PROCESS_EMPTY | PROCESS_NEW | PROCESS_READY | PROCESS_RUNNING | PROCESS_BLOCKED
| PROCESS_SLEEPING | PROCESS_WAITING | PROCESS_KILLED | PROCESS_BLOCKED_TIMEOUT | PROCESS_ERROR

text \<open>The order of the enumeration's values.\<close>

fun state_number :: "process_state \<Rightarrow> nat" where
  "state_number PROCESS_EMPTY = 0"
| "state_number PROCESS_NEW = 1"
| "state_number PROCESS_READY = 2"
| "state_number PROCESS_RUNNING = 3"
| "state_number PROCESS_BLOCKED = 4"
| "state_number PROCESS_SLEEPING = 5"
| "state_number PROCESS_WAITING = 6"
| "state_number PROCESS_KILLED = 7"
| "state_number PROCESS_BLOCKED_TIMEOUT = 8"
| "state_number PROCESS_ERROR = 9"

lemma state_number_inj: "state_number a = state_number b \<Longrightarrow> a = b"
  by (cases a; cases b) simp_all

instantiation process_state :: linorder
begin

definition less_eq_process_state :: "process_state \<Rightarrow> process_state \<Rightarrow> bool" where
  "less_eq_process_state a b \<longleftrightarrow> state_number a \<le> state_number b"

definition less_process_state :: "process_state \<Rightarrow> process_state \<Rightarrow> bool" where
  "less_process_state a b \<longleftrightarrow> state_number a < state_number b"

instance
  by standard (auto simp: less_eq_process_state_def less_process_state_def intro: state_number_inj)

end

record process_context =
  ctx_ebx :: u32
  ctx_edx :: u32
  ctx_esi :: u32
  ctx_edi :: u32
  ctx_ebp :: u32
  ctx_eip :: u32
  ctx_esp :: u32

record process_t =
  proc_pid :: pid_t
  proc_system :: bool
  proc_priority :: u32
  physical_cr3 :: u32
  virtual_cr3 :: u32
  physical_stack :: u32
  proc_context :: process_context
  proc_name :: kstring

record process_control =
  proc :: process_t
  proc_state :: process_state
  rounds :: u32
  sleep_timeout :: u32

section \<open>The scheduler's state\<close>

record sched =
  pcb :: "pid_t \<Rightarrow> process_control"
  run_queues :: "u32 \<Rightarrow> pid_t list"
  started :: bool
  rr_quantum :: u32
  current_pid :: pid_t
  next_pid :: pid_t
  idle_pid :: pid_t
  init_pid :: pid_t
  post_init_pid :: pid_t
  timer_frequency :: u64
  cpu :: process_context
  cr3 :: u32
  tss_esp0 :: u32
  interrupts_on :: bool

text \<open>How an operation leaves: back to its caller, in another process, or not at all.\<close>

datatype outcome = Returned | Switched | Halted

abbreviation state_of :: "sched \<Rightarrow> pid_t \<Rightarrow> process_state" where
  "state_of s pid \<equiv> proc_state (pcb s pid)"

abbreviation priority_of :: "sched \<Rightarrow> pid_t \<Rightarrow> u32" where
  "priority_of s pid \<equiv> proc_priority (proc (pcb s pid))"

definition set_state :: "pid_t \<Rightarrow> process_state \<Rightarrow> sched \<Rightarrow> sched" where
  "set_state pid st s = s\<lparr> pcb := (pcb s)(pid := (pcb s pid)\<lparr> proc_state := st \<rparr>) \<rparr>"

definition run_queue :: "sched \<Rightarrow> u32 \<Rightarrow> pid_t list" where
  "run_queue s priority = run_queues s (priority - MIN_PRIORITY)"

definition runnable :: "sched \<Rightarrow> pid_t \<Rightarrow> bool" where
  "runnable s pid \<longleftrightarrow> state_of s pid = PROCESS_READY \<or> state_of s pid = PROCESS_RUNNING"

lemma set_state_simps [simp]:
  "state_of (set_state pid st s) p = (if p = pid then st else state_of s p)"
  "proc (pcb (set_state pid st s) p) = proc (pcb s p)"
  "rounds (pcb (set_state pid st s) p) = rounds (pcb s p)"
  "sleep_timeout (pcb (set_state pid st s) p) = sleep_timeout (pcb s p)"
  "run_queues (set_state pid st s) = run_queues s"
  "started (set_state pid st s) = started s"
  "current_pid (set_state pid st s) = current_pid s"
  "next_pid (set_state pid st s) = next_pid s"
  "idle_pid (set_state pid st s) = idle_pid s"
  "cpu (set_state pid st s) = cpu s"
  "rr_quantum (set_state pid st s) = rr_quantum s"
  "timer_frequency (set_state pid st s) = timer_frequency s"
  "interrupts_on (set_state pid st s) = interrupts_on s"
  by (simp_all add: set_state_def)

lemma run_queue_set_state [simp]: "run_queue (set_state pid st s) = run_queue s"
  by (simp add: run_queue_def fun_eq_iff)

end
