(* ===== verification/Scheduler.thy ===== *)
theory Scheduler
  imports Process
begin

text \<open>
  kernel/kernel/scheduler/scheduler.c.  Every operation takes the scheduler state to the next and
  says how it leaves (\<open>outcome\<close>): \<open>Switched\<close> when \<open>arch_restore_context\<close> leaves for another process,
  \<open>Halted\<close> when \<open>suspend_kernel\<close> stops the machine.  A process that is switched to goes on where its
  saved \<open>eip\<close> points; that continuation is outside the model.  A failed \<open>kassert\<close> returns, as in
  the default build; what is printed is not modelled.
\<close>

section \<open>Choosing a process\<close>

definition suspend_kernel :: "sched \<Rightarrow> outcome \<times> sched" where
  "suspend_kernel s = (Halted, s\<lparr> interrupts_on := False \<rparr>)"

function free_pid_search :: "sched \<Rightarrow> u32 \<Rightarrow> u32 \<Rightarrow> u32 \<times> u32" where
  "free_pid_search s pid i =
     (if state_of s pid \<noteq> PROCESS_EMPTY \<and> i < MAX_PROCESS
      then free_pid_search s ((pid + 1) mod MAX_PROCESS) (i + 1) else (pid, i))"
  by pat_completeness auto
termination
  by (relation "measure (\<lambda>(_, _, i). 128 - unat i)")
    (auto simp: unat_Suc_less [of _ MAX_PROCESS] word_less_nat_alt MAX_PROCESS_def)

declare free_pid_search.simps [simp del]

definition get_free_pid :: "sched \<Rightarrow> pid_t option \<times> sched" where
  "get_free_pid s =
     (if state_of s (next_pid s) = PROCESS_EMPTY
      then (Some (next_pid s), s\<lparr> next_pid := (next_pid s + 1) mod MAX_PROCESS \<rparr>)
      else (let (pid, i) = free_pid_search s ((next_pid s + 1) mod MAX_PROCESS) 0
            in if i = MAX_PROCESS then (None, snd (suspend_kernel s))
               else (Some pid, s\<lparr> next_pid := (pid + 1) mod MAX_PROCESS \<rparr>)))"

definition scheduler_create_new_process :: "sched \<Rightarrow> pid_t option \<times> sched" where
  "scheduler_create_new_process s =
     (case get_free_pid s of
        (None, s1) \<Rightarrow> (None, s1)
      | (Some pid, s1) \<Rightarrow>
          (let c = pcb s1 pid;
               p = (proc c)\<lparr> proc_pid := pid, proc_system := False, proc_priority := DEFAULT_PRIORITY \<rparr>
           in (Some pid, s1\<lparr> pcb := (pcb s1)(pid := c\<lparr> proc := p, proc_state := PROCESS_NEW \<rparr>) \<rparr>)))"

function search_higher :: "sched \<Rightarrow> u32 \<Rightarrow> u32 \<Rightarrow> pid_t option" where
  "search_higher s current_priority p =
     (if p > current_priority
      then (case find (runnable s) (run_queue s p) of
              Some pid \<Rightarrow> Some pid
            | None \<Rightarrow> search_higher s current_priority (p - 1))
      else None)"
  by pat_completeness auto
termination
  by (relation "measure (\<lambda>(_, _, p). unat p)") (auto intro!: measure_unat)

function search_lower :: "sched \<Rightarrow> u32 \<Rightarrow> pid_t option" where
  "search_lower s p =
     (if p \<ge> MIN_PRIORITY
      then (case find (runnable s) (run_queue s p) of
              Some pid \<Rightarrow> Some pid
            | None \<Rightarrow> search_lower s (p - 1))
      else None)"
  by pat_completeness auto
termination
  by (relation "measure (\<lambda>(_, p). unat p)")
    (auto intro!: measure_unat simp: MIN_PRIORITY_def word_le_nat_alt)

declare search_higher.simps [simp del] search_lower.simps [simp del]

text \<open>The index after the first occurrence of the current process, or 0.\<close>

fun first_index :: "'a \<Rightarrow> 'a list \<Rightarrow> nat option" where
  "first_index x [] = None"
| "first_index x (y # ys) = (if x = y then Some 0 else map_option Suc (first_index x ys))"

definition next_index :: "pid_t \<Rightarrow> pid_t list \<Rightarrow> nat" where
  "next_index pid q =
     (case first_index pid q of Some i \<Rightarrow> (i + 1) mod length q | None \<Rightarrow> 0)"

definition search_same :: "sched \<Rightarrow> pid_t list \<Rightarrow> pid_t option" where
  "search_same s q =
     find (runnable s)
       (map (\<lambda>i. q ! ((next_index (current_pid s) q + i) mod length q)) [0..<length q])"

definition select_next_process_with_lock :: "sched \<Rightarrow> pid_t" where
  "select_next_process_with_lock s =
     (let current_priority = priority_of s (current_pid s)
      in case search_higher s current_priority MAX_PRIORITY of
           Some pid \<Rightarrow> pid
         | None \<Rightarrow>
             (case search_same s (run_queue s current_priority) of
                Some pid \<Rightarrow> pid
              | None \<Rightarrow>
                  if \<not> current_priority > 0 then 0
                  else (case search_lower s (current_priority - 1) of
                          Some pid \<Rightarrow> pid
                        | None \<Rightarrow> 0)))"

definition select_next_process :: "sched \<Rightarrow> pid_t \<times> sched" where
  "select_next_process s =
     (let ret_pid = select_next_process_with_lock (s\<lparr> interrupts_on := False \<rparr>)
      in (ret_pid, s\<lparr> interrupts_on := True \<rparr>))"

section \<open>Switching\<close>

definition arch_save_context :: "pid_t \<Rightarrow> sched \<Rightarrow> sched" where
  "arch_save_context pid s =
     s\<lparr> pcb := (pcb s)(pid := (pcb s pid)\<lparr> proc := (proc (pcb s pid))\<lparr> proc_context := cpu s \<rparr> \<rparr>) \<rparr>"

definition arch_restore_context :: "pid_t \<Rightarrow> sched \<Rightarrow> sched" where
  "arch_restore_context pid s = s\<lparr> cpu := proc_context (proc (pcb s pid)) \<rparr>"

definition scheduler_set_page_directory :: "pid_t \<Rightarrow> sched \<Rightarrow> sched" where
  "scheduler_set_page_directory pid s = s\<lparr> interrupts_on := True, cr3 := physical_cr3 (proc (pcb s pid)) \<rparr>"

definition switch_to_process_with_lock :: "pid_t \<Rightarrow> sched \<Rightarrow> outcome \<times> sched" where
  "switch_to_process_with_lock new_pid s =
     (if \<not> started s then (Returned, s)
      else (let s1 = s\<lparr> interrupts_on := False \<rparr>; old_pid = current_pid s1
            in if old_pid = new_pid then (Returned, s1)
               else (let s2 = arch_save_context old_pid s1;
                         s3 = set_state new_pid PROCESS_RUNNING s2;
                         s4 = s3\<lparr> current_pid := new_pid \<rparr>;
                         s5 = scheduler_set_page_directory new_pid s4;
                         s6 = s5\<lparr> tss_esp0 := ctx_esp (proc_context (proc (pcb s5 new_pid))) \<rparr>;
                         s7 = s6\<lparr> interrupts_on := True \<rparr>
                     in (Switched, arch_restore_context new_pid s7))))"

text \<open>What follows the call of \<open>arch_save_context\<close>.  The saved \<open>eip\<close> is its return address, so a process that
  is resumed runs this part again, with the \<open>new_pid\<close> of its own last switch.\<close>

definition switch_tail :: "pid_t \<Rightarrow> sched \<Rightarrow> sched" where
  "switch_tail new_pid s =
     (let s3 = set_state new_pid PROCESS_RUNNING s;
          s4 = s3\<lparr> current_pid := new_pid \<rparr>;
          s5 = scheduler_set_page_directory new_pid s4;
          s6 = s5\<lparr> tss_esp0 := ctx_esp (proc_context (proc (pcb s5 new_pid))) \<rparr>;
          s7 = s6\<lparr> interrupts_on := True \<rparr>
      in arch_restore_context new_pid s7)"

lemma switch_is_save_and_tail:
  "started s \<Longrightarrow> current_pid s \<noteq> new_pid \<Longrightarrow>
   switch_to_process_with_lock new_pid s =
     (Switched, switch_tail new_pid (arch_save_context (current_pid s) (s\<lparr> interrupts_on := False \<rparr>)))"
  by (simp add: switch_to_process_with_lock_def switch_tail_def Let_def)

definition switch_to_process :: "pid_t \<Rightarrow> sched \<Rightarrow> outcome \<times> sched" where
  "switch_to_process new_pid s = switch_to_process_with_lock new_pid s"

definition scheduler_reschedule :: "sched \<Rightarrow> outcome \<times> sched" where
  "scheduler_reschedule s =
     (if \<not> started s then (Returned, s)
      else if state_of s (current_pid s) \<noteq> PROCESS_RUNNING
      then switch_to_process_with_lock (select_next_process_with_lock s) s
      else (Returned, s))"

section \<open>Operations\<close>

definition scheduler_queue_system_process :: "pid_t \<Rightarrow> sched \<Rightarrow> sched" where
  "scheduler_queue_system_process pid s =
     (if \<not> pid < MAX_PROCESS then s
      else if \<not> priority_of s pid \<le> MAX_PRIORITY then s
      else if \<not> priority_of s pid \<ge> MIN_PRIORITY then s
      else (let s1 = set_state pid PROCESS_READY s; i = priority_of s1 pid - MIN_PRIORITY
            in s1\<lparr> run_queues := (run_queues s1)(i := run_queues s1 i @ [pid]) \<rparr>))"

definition scheduler_is_started :: "sched \<Rightarrow> bool" where
  "scheduler_is_started s = started s"

definition scheduler_get_pid :: "sched \<Rightarrow> pid_t" where
  "scheduler_get_pid s = current_pid s"

definition scheduler_get_process :: "pid_t \<Rightarrow> sched \<Rightarrow> process_t" where
  "scheduler_get_process pid s = proc (pcb s pid)"

definition scheduler_get_process_state :: "pid_t \<Rightarrow> sched \<Rightarrow> process_state" where
  "scheduler_get_process_state pid s = state_of s pid"

definition scheduler_kill_current_process :: "sched \<Rightarrow> outcome \<times> sched" where
  "scheduler_kill_current_process s =
     (let s1 = set_state (current_pid s) PROCESS_KILLED s
      in case scheduler_reschedule s1 of
           (Returned, s2) \<Rightarrow> suspend_kernel s2
         | r \<Rightarrow> r)"

definition scheduler_fault :: "sched \<Rightarrow> outcome \<times> sched" where
  "scheduler_fault s = scheduler_kill_current_process s"

definition scheduler_block_process :: "pid_t \<Rightarrow> sched \<Rightarrow> outcome \<times> sched" where
  "scheduler_block_process pid s =
     (if \<not> started s \<or> \<not> pid < MAX_PROCESS \<or> pid = idle_pid s then (Returned, s)
      else scheduler_reschedule (set_state pid PROCESS_BLOCKED s))"

definition scheduler_unblock_process :: "pid_t \<Rightarrow> sched \<Rightarrow> sched" where
  "scheduler_unblock_process pid s =
     (if \<not> started s \<or> \<not> pid < MAX_PROCESS \<or> pid = idle_pid s then s
      else if state_of s pid \<in> {PROCESS_BLOCKED, PROCESS_BLOCKED_TIMEOUT, PROCESS_WAITING}
      then set_state pid PROCESS_READY s else s)"

definition scheduler_unblock_process_hint :: "pid_t \<Rightarrow> sched \<Rightarrow> sched" where
  "scheduler_unblock_process_hint pid s =
     (if \<not> started s \<or> \<not> pid < MAX_PROCESS \<or> pid = idle_pid s then s
      else if state_of s pid \<noteq> PROCESS_RUNNING then set_state pid PROCESS_READY s else s)"

definition sleep_ticks :: "u32 \<Rightarrow> sched \<Rightarrow> u32" where
  "sleep_ticks time s =
     (let t = ucast (ucast time * (timer_frequency s div 1000)) in if t = 0 then 1 else t)"

definition scheduler_proc_sleep_ms :: "pid_t \<Rightarrow> u32 \<Rightarrow> sched \<Rightarrow> outcome \<times> sched" where
  "scheduler_proc_sleep_ms pid time s =
     (if \<not> pid < MAX_PROCESS \<or> state_of s pid \<noteq> PROCESS_RUNNING then (Returned, s)
      else scheduler_reschedule
        (s\<lparr> pcb := (pcb s)(pid := (pcb s pid)\<lparr> sleep_timeout := sleep_ticks time s,
                                              proc_state := PROCESS_SLEEPING \<rparr>) \<rparr>))"

definition scheduler_sleep_ms :: "u32 \<Rightarrow> sched \<Rightarrow> outcome \<times> sched" where
  "scheduler_sleep_ms time s = scheduler_proc_sleep_ms (current_pid s) time s"

definition tick_timeout :: "u32 \<Rightarrow> sched \<Rightarrow> sched" where
  "tick_timeout i s =
     (if state_of s i = PROCESS_SLEEPING \<or> state_of s i = PROCESS_BLOCKED_TIMEOUT
      then (let s1 = s\<lparr> pcb := (pcb s)(i := (pcb s i)\<lparr> sleep_timeout := sleep_timeout (pcb s i) - 1 \<rparr>) \<rparr>
            in if sleep_timeout (pcb s1 i) = 0 then set_state i PROCESS_READY s1 else s1)
      else s)"

definition set_rounds :: "pid_t \<Rightarrow> u32 \<Rightarrow> sched \<Rightarrow> sched" where
  "set_rounds pid r s = s\<lparr> pcb := (pcb s)(pid := (pcb s pid)\<lparr> rounds := r \<rparr>) \<rparr>"

definition scheduler_tick :: "sched \<Rightarrow> outcome \<times> sched" where
  "scheduler_tick s =
     (if \<not> started s then (Returned, s)
      else (let s1 = for_up 0 MAX_PROCESS tick_timeout s; cur = current_pid s1
            in if rounds (pcb s1 cur) = rr_quantum s1
               then (let s2 = set_rounds cur 0 s1;
                         previous_state = state_of s2 cur;
                         s3 = (if previous_state \<notin> {PROCESS_BLOCKED, PROCESS_BLOCKED_TIMEOUT, PROCESS_KILLED}
                               then set_state cur PROCESS_READY s2 else s2);
                         (pid, s4) = select_next_process s3
                     in if pid = current_pid s4
                        then (Returned, set_state cur previous_state s4)
                        else switch_to_process pid s4)
               else (Returned, set_rounds cur (rounds (pcb s1 cur) + 1) s1)))"

definition scheduler_yield :: "sched \<Rightarrow> outcome \<times> sched" where
  "scheduler_yield s =
     (if \<not> started s \<or> state_of s (current_pid s) \<noteq> PROCESS_RUNNING then (Returned, s)
      else (let s1 = set_state (current_pid s) PROCESS_READY s;
                pid = select_next_process_with_lock s1
            in if pid \<noteq> current_pid s1 then switch_to_process_with_lock pid s1
               else (Returned, set_state (current_pid s1) PROCESS_RUNNING s1)))"

definition scheduler_start :: "sched \<Rightarrow> outcome \<times> sched" where
  "scheduler_start s =
     (let s1 = s\<lparr> current_pid := post_init_pid s \<rparr>;
          s2 = set_state (current_pid s1) PROCESS_RUNNING s1;
          s3 = s2\<lparr> started := True \<rparr>
      in (Switched, arch_restore_context (current_pid s3) s3))"

definition scheduler_frequency_updated :: "u64 \<Rightarrow> u64 \<Rightarrow> sched \<Rightarrow> sched option" where
  "scheduler_frequency_updated old_frequency new_frequency s =
     (if new_frequency = 0 then None
      else (let s1 = s\<lparr> rr_quantum := ucast (25 * (new_frequency div 1000)) \<rparr>;
                ratio = old_frequency div new_frequency
            in Some (for_up 0 MAX_PROCESS
                 (\<lambda>i t. if state_of t i = PROCESS_SLEEPING
                        then t\<lparr> pcb := (pcb t)(i := (pcb t i)\<lparr> sleep_timeout :=
                               ucast (ucast (sleep_timeout (pcb t i)) * ratio) \<rparr>) \<rparr>
                        else t) s1)))"

section \<open>What the selection returns\<close>

definition has_runnable :: "sched \<Rightarrow> u32 \<Rightarrow> bool" where
  "has_runnable s p \<longleftrightarrow> (\<exists>q \<in> set (run_queue s p). runnable s q)"

lemma find_runnable:
  "find (runnable s) q = None \<longleftrightarrow> \<not> (\<exists>x \<in> set q. runnable s x)"
  "find (runnable s) q = Some r \<Longrightarrow> r \<in> set q \<and> runnable s r"
  by (auto simp: find_None_iff find_Some_iff)

lemma le_pred: "c < p \<Longrightarrow> k \<le> p - 1 \<longleftrightarrow> k < (p :: u32)"
  by (simp add: word_le_nat_alt word_less_nat_alt unat_pred_of_less) arith

lemma search_higher_Some:
  "search_higher s c p = Some r \<Longrightarrow>
   \<exists>k. c < k \<and> k \<le> p \<and> r \<in> set (run_queue s k) \<and> runnable s r \<and>
     (\<forall>k'. k < k' \<and> k' \<le> p \<longrightarrow> \<not> has_runnable s k')"
proof (induction s c p rule: search_higher.induct)
  case (1 s c p)
  have cp: "c < p" using "1.prems" by (subst (asm) search_higher.simps) (simp split: if_splits)
  show ?case
  proof (cases "find (runnable s) (run_queue s p)")
    case None
    then obtain k where k: "c < k" "k \<le> p - 1" "r \<in> set (run_queue s k)" "runnable s r"
      "\<forall>k'. k < k' \<and> k' \<le> p - 1 \<longrightarrow> \<not> has_runnable s k'"
      using "1.IH" [OF cp None] "1.prems" cp by (subst (asm) search_higher.simps) auto
    have "\<not> has_runnable s p" using None by (simp add: find_runnable has_runnable_def)
    then show ?thesis using k le_pred [OF cp] by (metis order_le_less)
  next
    case (Some x)
    then have "x = r" using "1.prems" cp by (subst (asm) search_higher.simps) simp
    then show ?thesis using Some cp find_runnable(2) [OF Some] by (auto intro!: exI [of _ p])
  qed
qed

lemma search_higher_None:
  "search_higher s c p = None \<Longrightarrow> c < k \<Longrightarrow> k \<le> p \<Longrightarrow> \<not> has_runnable s k"
proof (induction s c p rule: search_higher.induct)
  case (1 s c p)
  have cp: "c < p" using "1.prems" by simp
  have none: "find (runnable s) (run_queue s p) = None"
    using "1.prems"(1) cp by (subst (asm) search_higher.simps) (simp split: option.splits)
  then have rest: "search_higher s c (p - 1) = None"
    using "1.prems"(1) cp by (subst (asm) search_higher.simps) simp
  show ?case
  proof (cases "k = p")
    case True
    then show ?thesis using none by (simp add: find_runnable has_runnable_def)
  next
    case False
    then have "k \<le> p - 1" using "1.prems"(3) le_pred [OF cp] by simp
    then show ?thesis using "1.IH" [OF cp none rest "1.prems"(2)] by blast
  qed
qed

lemma search_lower_Some:
  "search_lower s p = Some r \<Longrightarrow>
   \<exists>k. 1 \<le> k \<and> k \<le> p \<and> r \<in> set (run_queue s k) \<and> runnable s r \<and>
     (\<forall>k'. k < k' \<and> k' \<le> p \<longrightarrow> \<not> has_runnable s k')"
proof (induction s p rule: search_lower.induct)
  case (1 s p)
  have p1: "MIN_PRIORITY \<le> p" using "1.prems" by (subst (asm) search_lower.simps) (simp split: if_splits)
  then have p0: "0 < p" by (simp add: MIN_PRIORITY_def word_le_nat_alt word_less_nat_alt)
  show ?case
  proof (cases "find (runnable s) (run_queue s p)")
    case None
    then obtain k where k: "1 \<le> k" "k \<le> p - 1" "r \<in> set (run_queue s k)" "runnable s r"
      "\<forall>k'. k < k' \<and> k' \<le> p - 1 \<longrightarrow> \<not> has_runnable s k'"
      using "1.IH" [OF p1 None] "1.prems" p1 by (subst (asm) search_lower.simps) auto
    have "\<not> has_runnable s p" using None by (simp add: find_runnable has_runnable_def)
    then show ?thesis using k le_pred [OF p0] by (metis order_le_less)
  next
    case (Some x)
    then have "x = r" using "1.prems" p1 by (subst (asm) search_lower.simps) simp
    then show ?thesis using Some p1 find_runnable(2) [OF Some]
      by (auto intro!: exI [of _ p] simp: MIN_PRIORITY_def)
  qed
qed

lemma search_lower_None:
  "search_lower s p = None \<Longrightarrow> 1 \<le> k \<Longrightarrow> k \<le> p \<Longrightarrow> \<not> has_runnable s k"
proof (induction s p rule: search_lower.induct)
  case (1 s p)
  have p1: "MIN_PRIORITY \<le> p" using "1.prems" by (simp add: MIN_PRIORITY_def)
  then have p0: "0 < p" by (simp add: MIN_PRIORITY_def word_le_nat_alt word_less_nat_alt)
  have none: "find (runnable s) (run_queue s p) = None"
    using "1.prems"(1) p1 by (subst (asm) search_lower.simps) (simp split: option.splits)
  then have rest: "search_lower s (p - 1) = None"
    using "1.prems"(1) p1 by (subst (asm) search_lower.simps) simp
  show ?case
  proof (cases "k = p")
    case True
    then show ?thesis using none by (simp add: find_runnable has_runnable_def)
  next
    case False
    then have "k \<le> p - 1" using "1.prems"(3) le_pred [OF p0] by simp
    then show ?thesis using "1.IH" [OF p1 none rest "1.prems"(2)] by blast
  qed
qed

lemma search_same_rotate: "search_same s q = find (runnable s) (rotate (next_index (current_pid s) q) q)"
proof -
  let ?n = "next_index (current_pid s) q"
  have "map (\<lambda>i. q ! ((?n + i) mod length q)) [0..<length q] = rotate ?n q"
    by (rule nth_equalityI) (simp_all add: nth_rotate)
  then show ?thesis by (simp add: search_same_def)
qed

text \<open>The process selected is runnable and no queue of a higher priority has a runnable process.\<close>

lemma select_highest:
  assumes cur: "1 \<le> priority_of s (current_pid s)" "priority_of s (current_pid s) \<le> 4"
    and some: "1 \<le> k" "k \<le> 4" "has_runnable s k"
  shows "\<exists>p. 1 \<le> p \<and> p \<le> 4 \<and> select_next_process_with_lock s \<in> set (run_queue s p) \<and>
    runnable s (select_next_process_with_lock s) \<and>
    (\<forall>p'. p < p' \<and> p' \<le> 4 \<longrightarrow> \<not> has_runnable s p')"
proof -
  let ?c = "priority_of s (current_pid s)"
  show ?thesis
  proof (cases "search_higher s ?c MAX_PRIORITY")
    case (Some r)
    have one: "1 \<le> p" if "?c < p" for p using cur(1) that by simp
    show ?thesis using search_higher_Some [OF Some] Some one
      by (auto simp: select_next_process_with_lock_def MAX_PRIORITY_def)
  next
    case None
    note higher = search_higher_None [OF None, unfolded MAX_PRIORITY_def]
    show ?thesis
    proof (cases "search_same s (run_queue s ?c)")
      case (Some r)
      then have "r \<in> set (run_queue s ?c)" "runnable s r"
        using find_runnable(2) [OF Some [unfolded search_same_rotate]] by simp_all
      then show ?thesis using None Some higher cur
        by (auto simp: select_next_process_with_lock_def intro!: exI [of _ ?c])
    next
      case same: None
      then have no_same: "\<not> has_runnable s ?c"
        by (simp add: search_same_rotate find_runnable has_runnable_def)
      have c0: "0 < ?c" using cur(1) by (simp add: word_le_nat_alt word_less_nat_alt)
      have below: "p \<le> ?c - 1 \<longleftrightarrow> p < ?c" for p by (rule le_pred [OF c0])
      have "k < ?c" using some no_same higher by (metis linorder_cases)
      then obtain r where r: "search_lower s (?c - 1) = Some r"
        using search_lower_None [of s "?c - 1" k] some below by fastforce
      obtain p where p: "1 \<le> p" "p < ?c" "r \<in> set (run_queue s p)" "runnable s r"
        "\<forall>p'. p < p' \<and> p' < ?c \<longrightarrow> \<not> has_runnable s p'"
        using search_lower_Some [OF r] below by auto
      have "\<not> has_runnable s p'" if "p < p'" "p' \<le> 4" for p'
        using that p(5) no_same higher by (metis linorder_cases)
      moreover have "p \<le> 4" using p(2) cur(2) by simp
      moreover have "select_next_process_with_lock s = r"
        using None same r c0 by (simp add: select_next_process_with_lock_def)
      ultimately show ?thesis using p by blast
    qed
  qed
qed

section \<open>The invariant\<close>

text \<open>The run queues hold processes under their priority, each below \<open>MAX_PROCESS\<close> and set up; the
  idle task is in the lowest queue and can run.\<close>

definition queues_ok :: "sched \<Rightarrow> bool" where
  "queues_ok s \<longleftrightarrow>
     (\<forall>p q. 1 \<le> p \<and> p \<le> 4 \<and> q \<in> set (run_queue s p) \<longrightarrow>
        q < MAX_PROCESS \<and> priority_of s q = p \<and> state_of s q \<notin> {PROCESS_EMPTY, PROCESS_NEW}) \<and>
     idle_pid s \<in> set (run_queue s 1) \<and> runnable s (idle_pid s) \<and> next_pid s < MAX_PROCESS"

definition current_queued :: "sched \<Rightarrow> bool" where
  "current_queued s \<longleftrightarrow> 1 \<le> priority_of s (current_pid s) \<and> priority_of s (current_pid s) \<le> 4 \<and>
     current_pid s \<in> set (run_queue s (priority_of s (current_pid s)))"

definition sched_inv :: "sched \<Rightarrow> bool" where
  "sched_inv s \<longleftrightarrow> started s \<and> queues_ok s \<and> current_queued s \<and>
     (\<forall>pid. state_of s pid = PROCESS_RUNNING \<longleftrightarrow> pid = current_pid s)"

text \<open>What the proofs carry while no process is marked running.\<close>

definition between_processes :: "sched \<Rightarrow> bool" where
  "between_processes s \<longleftrightarrow> started s \<and> queues_ok s \<and> current_queued s \<and>
     (\<forall>pid. state_of s pid \<noteq> PROCESS_RUNNING)"

lemma idle_has_runnable: "queues_ok s \<Longrightarrow> has_runnable s 1"
  by (auto simp: queues_ok_def has_runnable_def)

lemma selected_ok:
  assumes "queues_ok s" "current_queued s"
  defines "r \<equiv> select_next_process_with_lock s"
  shows "runnable s r" "r < MAX_PROCESS" "1 \<le> priority_of s r" "priority_of s r \<le> 4"
    "r \<in> set (run_queue s (priority_of s r))"
proof -
  obtain p where p: "1 \<le> p" "p \<le> 4" "r \<in> set (run_queue s p)" "runnable s r"
    using select_highest [of s 1] idle_has_runnable [OF assms(1)] assms(2)
    unfolding r_def current_queued_def by auto
  then have "r < MAX_PROCESS \<and> priority_of s r = p" using assms(1) unfolding queues_ok_def by blast
  then show "runnable s r" "r < MAX_PROCESS" "1 \<le> priority_of s r" "priority_of s r \<le> 4"
    "r \<in> set (run_queue s (priority_of s r))" using p by auto
qed

text \<open>The invariants depend on a few fields only.\<close>

lemma queues_ok_cong:
  assumes "run_queues t = run_queues s" "idle_pid t = idle_pid s" "next_pid t = next_pid s"
    "\<And>p. priority_of t p = priority_of s p"
    "\<And>p. state_of s p \<notin> {PROCESS_EMPTY, PROCESS_NEW} \<Longrightarrow> state_of t p \<notin> {PROCESS_EMPTY, PROCESS_NEW}"
    "runnable s (idle_pid s) \<Longrightarrow> runnable t (idle_pid s)" "queues_ok s"
  shows "queues_ok t"
  using assms(7) unfolding queues_ok_def run_queue_def assms(1-4)
  using assms(5,6) by blast

lemma current_queued_cong:
  assumes "run_queues t = run_queues s" "current_pid t = current_pid s"
    "\<And>p. priority_of t p = priority_of s p"
  shows "current_queued t = current_queued s"
  using assms by (simp add: current_queued_def run_queue_def)

lemma runnable_set_state [simp]:
  "runnable (set_state pid st s) p \<longleftrightarrow>
     (if p = pid then st = PROCESS_READY \<or> st = PROCESS_RUNNING else runnable s p)"
  by (simp add: runnable_def)

lemma queues_ok_set_state:
  assumes "queues_ok s" "st \<notin> {PROCESS_EMPTY, PROCESS_NEW}"
    "pid = idle_pid s \<longrightarrow> st = PROCESS_READY \<or> st = PROCESS_RUNNING"
  shows "queues_ok (set_state pid st s)"
  by (rule queues_ok_cong [OF _ _ _ _ _ _ assms(1)]) (use assms in \<open>auto split: if_splits\<close>)

lemma current_queued_set_state [simp]: "current_queued (set_state pid st s) = current_queued s"
  by (rule current_queued_cong) simp_all

section \<open>Switching keeps the invariant\<close>

lemma switch_fields:
  assumes "started s" "current_pid s \<noteq> r" "switch_to_process_with_lock r s = (out, s')"
  shows "out = Switched" "started s'" "current_pid s' = r" "run_queues s' = run_queues s"
    "idle_pid s' = idle_pid s" "next_pid s' = next_pid s" "interrupts_on s'"
    "\<And>p. priority_of s' p = priority_of s p"
    "\<And>p. state_of s' p = (if p = r then PROCESS_RUNNING else state_of s p)"
    "\<And>p. sleep_timeout (pcb s' p) = sleep_timeout (pcb s p)"
    "cpu s' = proc_context (proc (pcb s r))"
    "\<And>p. proc_context (proc (pcb s' p)) = (if p = current_pid s then cpu s else proc_context (proc (pcb s p)))"
    "cr3 s' = physical_cr3 (proc (pcb s r))" "rr_quantum s' = rr_quantum s"
    "timer_frequency s' = timer_frequency s"
  using assms
  by (auto simp: switch_to_process_with_lock_def arch_save_context_def arch_restore_context_def
      scheduler_set_page_directory_def Let_def set_state_def)

lemma switch_inv:
  assumes "between_processes s" "r = select_next_process_with_lock s" "current_pid s \<noteq> r"
    "switch_to_process_with_lock r s = (out, s')"
  shows "sched_inv s'" "out = Switched"
proof -
  have s: "started s" "queues_ok s" "current_queued s" "\<forall>pid. state_of s pid \<noteq> PROCESS_RUNNING"
    using assms(1) by (auto simp: between_processes_def)
  note sel = selected_ok [OF s(2,3), folded assms(2)]
  note f = switch_fields [OF s(1) assms(3,4)]
  show "out = Switched" by (rule f(1))
  have "queues_ok s'"
    by (rule queues_ok_cong [OF f(4,5,6) _ _ _ s(2)]) (auto simp: f runnable_def)
  moreover have "current_queued s'"
    using sel by (simp add: current_queued_def f run_queue_def)
  ultimately show "sched_inv s'" using f(2,3,9) s(4) by (simp add: sched_inv_def)
qed

lemma reschedule_inv:
  assumes "between_processes s" "\<not> runnable s (current_pid s)"
    "scheduler_reschedule s = (out, s')"
  shows "sched_inv s'" "out = Switched"
proof -
  have s: "started s" "queues_ok s" "current_queued s" "state_of s (current_pid s) \<noteq> PROCESS_RUNNING"
    using assms(1) by (auto simp: between_processes_def)
  have "runnable s (select_next_process_with_lock s)" by (rule selected_ok [OF s(2,3)])
  then have ne: "current_pid s \<noteq> select_next_process_with_lock s" using assms(2) by metis
  have "switch_to_process_with_lock (select_next_process_with_lock s) s = (out, s')"
    using assms(3) s by (simp add: scheduler_reschedule_def)
  then show "sched_inv s'" "out = Switched" using switch_inv [OF assms(1) refl ne] by blast+
qed

lemma reschedule_running:
  "sched_inv s \<Longrightarrow> scheduler_reschedule s = (Returned, s)"
  by (simp add: sched_inv_def scheduler_reschedule_def)

text \<open>Taking the running process off the processor.\<close>

lemma sched_inv_stop:
  assumes "sched_inv s" "st \<notin> {PROCESS_EMPTY, PROCESS_NEW, PROCESS_RUNNING}"
    "current_pid s = idle_pid s \<longrightarrow> st = PROCESS_READY"
  shows "between_processes (set_state (current_pid s) st s)"
  unfolding between_processes_def
proof (intro conjI)
  show "queues_ok (set_state (current_pid s) st s)"
    by (rule queues_ok_set_state) (use assms in \<open>auto simp: sched_inv_def\<close>)
qed (use assms in \<open>auto simp: sched_inv_def\<close>)

lemma sched_inv_other:
  assumes "sched_inv s" "st \<notin> {PROCESS_EMPTY, PROCESS_NEW, PROCESS_RUNNING}" "pid \<noteq> current_pid s"
    "pid = idle_pid s \<longrightarrow> st = PROCESS_READY"
  shows "sched_inv (set_state pid st s)"
  unfolding sched_inv_def
proof (intro conjI)
  show "queues_ok (set_state pid st s)"
    by (rule queues_ok_set_state) (use assms in \<open>auto simp: sched_inv_def\<close>)
qed (use assms in \<open>auto simp: sched_inv_def\<close>)

section \<open>Every operation keeps it\<close>

definition tick_entry :: "process_control \<Rightarrow> process_control" where
  "tick_entry c =
     (if proc_state c = PROCESS_SLEEPING \<or> proc_state c = PROCESS_BLOCKED_TIMEOUT
      then c\<lparr> sleep_timeout := sleep_timeout c - 1,
             proc_state := (if sleep_timeout c - 1 = 0 then PROCESS_READY else proc_state c) \<rparr>
      else c)"

lemma tick_timeout_entry: "tick_timeout i s = s\<lparr> pcb := (pcb s)(i := tick_entry (pcb s i)) \<rparr>"
  by (simp add: tick_timeout_def tick_entry_def set_state_def Let_def)

lemma tick_loop:
  "for_up 0 n tick_timeout s = s\<lparr> pcb := \<lambda>j. if j < n then tick_entry (pcb s j) else pcb s j \<rparr>"
proof -
  let ?P = "\<lambda>k t. t = s\<lparr> pcb := \<lambda>j. if j < k then tick_entry (pcb s j) else pcb s j \<rparr>"
  have "?P n (for_up 0 n tick_timeout s)"
  proof (rule for_up_invariant [where P = ?P])
    fix k t assume k: "k < n" and t: "?P k t"
    have "j < k + 1 \<longleftrightarrow> j < k \<or> j = k" for j
      using unat_Suc_less [OF k] by (auto simp: word_less_nat_alt less_Suc_eq word_unat_eq_iff)
    then show "?P (k + 1) (tick_timeout k t)"
      unfolding t tick_timeout_entry by (auto simp: fun_eq_iff)
  qed (simp_all add: word_zero_le)
  then show ?thesis .
qed

lemma tick_entry_simps [simp]:
  "proc (tick_entry c) = proc c" "rounds (tick_entry c) = rounds c"
  "proc_state (tick_entry c) = PROCESS_RUNNING \<longleftrightarrow> proc_state c = PROCESS_RUNNING"
  "proc_state (tick_entry c) = PROCESS_EMPTY \<longleftrightarrow> proc_state c = PROCESS_EMPTY"
  "proc_state (tick_entry c) = PROCESS_NEW \<longleftrightarrow> proc_state c = PROCESS_NEW"
  "proc_state c = PROCESS_READY \<Longrightarrow> proc_state (tick_entry c) = PROCESS_READY"
  by (auto simp: tick_entry_def)

lemma tick_loop_inv: "sched_inv s \<Longrightarrow> sched_inv (for_up 0 n tick_timeout s)"
proof -
  assume inv: "sched_inv s"
  let ?t = "for_up 0 n tick_timeout s"
  have st: "state_of ?t p = (if p < n then proc_state (tick_entry (pcb s p)) else state_of s p)" for p
    by (simp add: tick_loop)
  have pr: "priority_of ?t p = priority_of s p" for p by (simp add: tick_loop)
  have f: "run_queues ?t = run_queues s" "idle_pid ?t = idle_pid s" "next_pid ?t = next_pid s"
    "current_pid ?t = current_pid s" "started ?t = started s" by (simp_all add: tick_loop)
  have "queues_ok ?t"
    by (rule queues_ok_cong [of ?t s]) (use inv f pr in \<open>auto simp: st runnable_def sched_inv_def\<close>)
  moreover have "current_queued ?t = current_queued s" by (rule current_queued_cong) (use f pr in auto)
  ultimately show "sched_inv ?t" using inv f by (auto simp: sched_inv_def st)
qed

lemma set_rounds_simps [simp]:
  "state_of (set_rounds pid r s) p = state_of s p" "proc (pcb (set_rounds pid r s) p) = proc (pcb s p)"
  "run_queues (set_rounds pid r s) = run_queues s" "started (set_rounds pid r s) = started s"
  "current_pid (set_rounds pid r s) = current_pid s" "idle_pid (set_rounds pid r s) = idle_pid s"
  "next_pid (set_rounds pid r s) = next_pid s" "rr_quantum (set_rounds pid r s) = rr_quantum s"
  by (simp_all add: set_rounds_def)

lemma set_rounds_inv: "sched_inv s \<Longrightarrow> sched_inv (set_rounds pid r s)"
proof -
  assume inv: "sched_inv s"
  have "queues_ok (set_rounds pid r s)"
    by (rule queues_ok_cong [of _ s]) (use inv in \<open>auto simp: runnable_def sched_inv_def\<close>)
  moreover have "current_queued (set_rounds pid r s) = current_queued s" by (rule current_queued_cong) simp_all
  ultimately show ?thesis using inv by (simp add: sched_inv_def)
qed

lemma interrupts_irrelevant [simp]:
  "sched_inv (s\<lparr> interrupts_on := b \<rparr>) = sched_inv s"
  "between_processes (s\<lparr> interrupts_on := b \<rparr>) = between_processes s"
  by (simp_all add: sched_inv_def between_processes_def queues_ok_def current_queued_def run_queue_def
      runnable_def)

lemma runnable_interrupts [simp]: "runnable (s\<lparr> interrupts_on := b \<rparr>) = runnable s"
  by (simp add: runnable_def fun_eq_iff)

lemma run_queue_interrupts [simp]: "run_queue (s\<lparr> interrupts_on := b \<rparr>) = run_queue s"
  by (simp add: run_queue_def fun_eq_iff)

lemma search_interrupts [simp]:
  "search_higher (s\<lparr> interrupts_on := b \<rparr>) c p = search_higher s c p"
  "search_lower (s\<lparr> interrupts_on := b \<rparr>) p = search_lower s p"
proof -
  show "search_higher (s\<lparr> interrupts_on := b \<rparr>) c p = search_higher s c p"
    by (induction s c p rule: search_higher.induct)
      (subst (1 2) search_higher.simps, simp split: option.splits)
  show "search_lower (s\<lparr> interrupts_on := b \<rparr>) p = search_lower s p"
    by (induction s p rule: search_lower.induct)
      (subst (1 2) search_lower.simps, simp split: option.splits)
qed

lemma select_interrupts [simp]:
  "select_next_process_with_lock (s\<lparr> interrupts_on := b \<rparr>) = select_next_process_with_lock s"
  by (simp add: select_next_process_with_lock_def search_same_def cong: option.case_cong if_cong)

lemma set_state_back:
  assumes "sched_inv s"
  shows "set_state (current_pid s) PROCESS_RUNNING (set_state (current_pid s) st s) = s"
  using assms by (simp add: set_state_def sched_inv_def) (auto simp: fun_upd_idem_iff)

lemma yield_inv:
  assumes "sched_inv s" "scheduler_yield s = (out, s')"
  shows "sched_inv s'"
proof -
  let ?s1 = "set_state (current_pid s) PROCESS_READY s"
  have run: "started s" "state_of s (current_pid s) = PROCESS_RUNNING"
    using assms(1) by (auto simp: sched_inv_def)
  have between: "between_processes ?s1" using sched_inv_stop [OF assms(1), of PROCESS_READY] by simp
  let ?r = "select_next_process_with_lock ?s1"
  show ?thesis
  proof (cases "?r = current_pid s")
    case True
    then have "s' = s" using assms run by (auto simp: scheduler_yield_def Let_def set_state_back)
    then show ?thesis using assms(1) by simp
  next
    case False
    then have "switch_to_process_with_lock ?r ?s1 = (out, s')"
      using assms(2) run by (simp add: scheduler_yield_def Let_def)
    then show ?thesis using switch_inv(1) [OF between refl] False by simp
  qed
qed

lemma tick_inv:
  assumes "sched_inv s" "scheduler_tick s = (out, s')"
  shows "sched_inv s'"
proof -
  define s1 where "s1 = for_up 0 MAX_PROCESS tick_timeout s"
  have inv1: "sched_inv s1" unfolding s1_def by (rule tick_loop_inv [OF assms(1)])
  let ?cur = "current_pid s1"
  show ?thesis
  proof (cases "rounds (pcb s1 ?cur) = rr_quantum s1")
    case False
    then have "s' = set_rounds ?cur (rounds (pcb s1 ?cur) + 1) s1"
      using assms by (simp add: scheduler_tick_def s1_def [symmetric] Let_def sched_inv_def)
    then show ?thesis using set_rounds_inv [OF inv1] by simp
  next
    case True
    let ?s2 = "set_rounds ?cur 0 s1"
    let ?s3 = "set_state ?cur PROCESS_READY ?s2"
    have inv2: "sched_inv ?s2" by (rule set_rounds_inv [OF inv1])
    have run: "state_of ?s2 ?cur = PROCESS_RUNNING" using inv2 by (simp add: sched_inv_def)
    have between: "between_processes ?s3" using sched_inv_stop [OF inv2, of PROCESS_READY] by simp
    let ?r = "select_next_process_with_lock ?s3"
    have step: "scheduler_tick s =
        (if ?r = ?cur then (Returned, set_state ?cur PROCESS_RUNNING (?s3\<lparr> interrupts_on := True \<rparr>))
         else switch_to_process_with_lock ?r (?s3\<lparr> interrupts_on := True \<rparr>))"
      using True run assms(1)
      by (simp add: scheduler_tick_def s1_def [symmetric] Let_def sched_inv_def select_next_process_def
          switch_to_process_def)
    show ?thesis
    proof (cases "?r = ?cur")
      case True
      have "s' = set_state ?cur PROCESS_RUNNING (set_state ?cur PROCESS_READY (?s2\<lparr> interrupts_on := True \<rparr>))"
        using step True assms(2) by (simp add: set_state_def)
      then show ?thesis using set_state_back [of "?s2\<lparr> interrupts_on := True \<rparr>" PROCESS_READY] inv2 by simp
    next
      case False
      then show ?thesis
        using switch_inv(1) [of "?s3\<lparr> interrupts_on := True \<rparr>" ?r out s'] between step assms(2) by simp
    qed
  qed
qed

lemma block_inv:
  assumes "sched_inv s" "scheduler_block_process pid s = (out, s')"
  shows "sched_inv s'"
proof (cases "started s \<and> pid < MAX_PROCESS \<and> pid \<noteq> idle_pid s")
  case True
  then have call: "scheduler_reschedule (set_state pid PROCESS_BLOCKED s) = (out, s')"
    using assms(2) by (simp add: scheduler_block_process_def)
  show ?thesis
  proof (cases "pid = current_pid s")
    case pid: True
    have "between_processes (set_state pid PROCESS_BLOCKED s)"
      unfolding pid by (rule sched_inv_stop [OF assms(1)]) (use True pid in auto)
    then show ?thesis using reschedule_inv(1) [OF _ _ call] pid by (simp add: runnable_def)
  next
    case False
    have "sched_inv (set_state pid PROCESS_BLOCKED s)"
      by (rule sched_inv_other [OF assms(1)]) (use True False in auto)
    then show ?thesis using reschedule_running call by simp
  qed
qed (use assms in \<open>auto simp: scheduler_block_process_def\<close>)

lemma ready_inv: "sched_inv s \<Longrightarrow> state_of s pid \<noteq> PROCESS_RUNNING \<Longrightarrow> sched_inv (set_state pid PROCESS_READY s)"
  by (rule sched_inv_other) (auto simp: sched_inv_def)

lemma unblock_inv: "sched_inv s \<Longrightarrow> sched_inv (scheduler_unblock_process pid s)"
  using ready_inv [of s pid] by (auto simp: scheduler_unblock_process_def)

lemma unblock_hint_inv: "sched_inv s \<Longrightarrow> sched_inv (scheduler_unblock_process_hint pid s)"
  using ready_inv [of s pid] by (auto simp: scheduler_unblock_process_hint_def)

lemma kill_inv:
  assumes "sched_inv s" "current_pid s \<noteq> idle_pid s" "scheduler_kill_current_process s = (out, s')"
  shows "sched_inv s'" "out = Switched"
proof -
  let ?s1 = "set_state (current_pid s) PROCESS_KILLED s"
  have "between_processes ?s1" by (rule sched_inv_stop [OF assms(1)]) (use assms(2) in auto)
  moreover obtain o2 s2 where r: "scheduler_reschedule ?s1 = (o2, s2)" by fastforce
  ultimately have "sched_inv s2" "o2 = Switched"
    using reschedule_inv [of ?s1 o2 s2] by (auto simp: runnable_def)
  then show "sched_inv s'" "out = Switched"
    using assms(3) r by (simp_all add: scheduler_kill_current_process_def)
qed

lemma sleep_inv:
  assumes "sched_inv s" "current_pid s \<noteq> idle_pid s" "scheduler_proc_sleep_ms pid t s = (out, s')"
  shows "sched_inv s'"
proof (cases "pid < MAX_PROCESS \<and> state_of s pid = PROCESS_RUNNING")
  case True
  then have pid: "pid = current_pid s" using assms(1) by (auto simp: sched_inv_def)
  let ?s1 = "s\<lparr> pcb := (pcb s)(pid := (pcb s pid)\<lparr> sleep_timeout := sleep_ticks t s,
                                              proc_state := PROCESS_SLEEPING \<rparr>) \<rparr>"
  have call: "scheduler_reschedule ?s1 = (out, s')"
    using assms(3) True by (simp add: scheduler_proc_sleep_ms_def)
  have b: "between_processes (set_state pid PROCESS_SLEEPING s)"
    unfolding pid by (rule sched_inv_stop [OF assms(1)]) (use assms(2) in auto)
  have st: "state_of ?s1 p = state_of (set_state pid PROCESS_SLEEPING s) p" for p by simp
  have "queues_ok ?s1"
    by (rule queues_ok_cong [of _ "set_state pid PROCESS_SLEEPING s"])
      (use b in \<open>auto simp: between_processes_def runnable_def\<close>)
  moreover have "current_queued ?s1 = current_queued s" by (rule current_queued_cong) auto
  ultimately have "between_processes ?s1"
    using b unfolding between_processes_def st by simp
  then show ?thesis using reschedule_inv(1) [OF _ _ call] pid by (simp add: runnable_def)
qed (use assms in \<open>auto simp: scheduler_proc_sleep_ms_def\<close>)

section \<open>New processes\<close>

lemma free_pid_search_bound:
  "pid < MAX_PROCESS \<Longrightarrow> fst (free_pid_search s pid i) < MAX_PROCESS"
proof (induction s pid i rule: free_pid_search.induct)
  case (1 s pid i)
  have "(pid + 1) mod MAX_PROCESS < MAX_PROCESS"
    by (simp add: MAX_PROCESS_def word_less_nat_alt unat_mod_distrib)
  then show ?case using "1.IH" "1.prems" by (subst free_pid_search.simps) auto
qed

lemma free_pid_search_empty:
  "free_pid_search s pid i = (r, k) \<Longrightarrow> i \<le> MAX_PROCESS \<Longrightarrow> k \<noteq> MAX_PROCESS \<Longrightarrow> state_of s r = PROCESS_EMPTY"
proof (induction s pid i rule: free_pid_search.induct)
  case (1 s pid i)
  show ?case
  proof (cases "state_of s pid \<noteq> PROCESS_EMPTY \<and> i < MAX_PROCESS")
    case True
    have "i + 1 \<le> MAX_PROCESS" using True le_of_less_plus_one by blast
    then show ?thesis using True "1.IH" [OF True] "1.prems" by (subst (asm) free_pid_search.simps) simp
  next
    case False
    then show ?thesis using "1.prems" by (subst (asm) free_pid_search.simps) auto
  qed
qed

lemma mod_max_process: "(p + 1) mod MAX_PROCESS < MAX_PROCESS"
  by (simp add: MAX_PROCESS_def word_less_nat_alt unat_mod_distrib)

lemma get_free_pid_spec:
  assumes "next_pid s < MAX_PROCESS" "get_free_pid s = (Some pid, s')"
  shows "pid < MAX_PROCESS" "state_of s pid = PROCESS_EMPTY" "next_pid s' < MAX_PROCESS"
    "s' = s\<lparr> next_pid := next_pid s' \<rparr>"
proof -
  obtain r k where search: "free_pid_search s ((next_pid s + 1) mod MAX_PROCESS) 0 = (r, k)" by fastforce
  have r: "r < MAX_PROCESS" using free_pid_search_bound [OF mod_max_process, of s "next_pid s" 0] search by simp
  have e: "k \<noteq> MAX_PROCESS \<Longrightarrow> state_of s r = PROCESS_EMPTY" using free_pid_search_empty [OF search] by simp
  show "pid < MAX_PROCESS" "state_of s pid = PROCESS_EMPTY" "next_pid s' < MAX_PROCESS"
    "s' = s\<lparr> next_pid := next_pid s' \<rparr>"
    using assms search r e by (auto simp: get_free_pid_def mod_max_process split: if_splits)
qed

text \<open>The shape of the state after a process was created.\<close>

lemma create_new_process_shape:
  assumes "next_pid s < MAX_PROCESS" "scheduler_create_new_process s = (Some pid, s')"
  obtains n where "pid < MAX_PROCESS" "state_of s pid = PROCESS_EMPTY" "n < MAX_PROCESS"
    "s' = s\<lparr> next_pid := n, pcb := (pcb s)(pid := (pcb s pid)\<lparr>
      proc := (proc (pcb s pid))\<lparr> proc_pid := pid, proc_system := False, proc_priority := DEFAULT_PRIORITY \<rparr>,
      proc_state := PROCESS_NEW \<rparr>) \<rparr>"
proof -
  obtain s1 where s1: "get_free_pid s = (Some pid, s1)"
    using assms(2) by (auto simp: scheduler_create_new_process_def Let_def split: prod.splits option.splits)
  note g = get_free_pid_spec [OF assms(1) s1]
  obtain n where n: "s1 = s\<lparr> next_pid := n \<rparr>" "n < MAX_PROCESS" using g(3,4) by metis
  show thesis
    by (rule that [OF g(1,2) n(2)]) (use assms(2) s1 in \<open>simp add: scheduler_create_new_process_def Let_def n\<close>)
qed

text \<open>A process that is not set up is in no queue, so changing its entry keeps the queues.\<close>

lemma new_not_queued:
  assumes "queues_ok s" "state_of s pid \<in> {PROCESS_EMPTY, PROCESS_NEW}"
  shows "1 \<le> p \<Longrightarrow> p \<le> 4 \<Longrightarrow> pid \<notin> set (run_queue s p)" "idle_pid s \<noteq> pid"
  using assms by (auto simp: queues_ok_def runnable_def)

lemma queues_ok_new_entry:
  assumes "queues_ok s" "state_of s pid \<in> {PROCESS_EMPTY, PROCESS_NEW}"
    and "run_queues t = run_queues s" "idle_pid t = idle_pid s" "next_pid t < MAX_PROCESS"
    and other: "\<And>q. q \<noteq> pid \<Longrightarrow> pcb t q = pcb s q"
  shows "queues_ok t"
proof -
  have rq: "run_queue t = run_queue s" by (simp add: run_queue_def assms(3) fun_eq_iff)
  have "q < MAX_PROCESS \<and> priority_of t q = p \<and> state_of t q \<notin> {PROCESS_EMPTY, PROCESS_NEW}"
    if q: "1 \<le> p \<and> p \<le> 4 \<and> q \<in> set (run_queue s p)" for p q
  proof -
    have "q \<noteq> pid" using q new_not_queued(1) [OF assms(1,2)] by blast
    then show ?thesis using q assms(1) other [of q] unfolding queues_ok_def by auto
  qed
  then show ?thesis
    using assms(1,4,5) new_not_queued(2) [OF assms(1,2)] other [of "idle_pid s"]
    by (auto simp: queues_ok_def rq runnable_def)
qed

lemma create_inv:
  assumes "sched_inv s" "scheduler_create_new_process s = (Some pid, s')"
  shows "sched_inv s'" "pid < MAX_PROCESS" "state_of s pid = PROCESS_EMPTY" "state_of s' pid = PROCESS_NEW"
    "priority_of s' pid = DEFAULT_PRIORITY"
proof -
  have np: "next_pid s < MAX_PROCESS" using assms(1) by (simp add: sched_inv_def queues_ok_def)
  obtain n where g: "pid < MAX_PROCESS" "state_of s pid = PROCESS_EMPTY" "n < MAX_PROCESS" and s':
    "s' = s\<lparr> next_pid := n, pcb := (pcb s)(pid := (pcb s pid)\<lparr>
      proc := (proc (pcb s pid))\<lparr> proc_pid := pid, proc_system := False, proc_priority := DEFAULT_PRIORITY \<rparr>,
      proc_state := PROCESS_NEW \<rparr>) \<rparr>"
    by (rule create_new_process_shape [OF np assms(2)])
  have f: "run_queues s' = run_queues s" "idle_pid s' = idle_pid s" "current_pid s' = current_pid s"
    "started s' = started s" "next_pid s' = n"
    by (simp_all add: s')
  show "pid < MAX_PROCESS" "state_of s pid = PROCESS_EMPTY" by (rule g)+
  show "state_of s' pid = PROCESS_NEW" "priority_of s' pid = DEFAULT_PRIORITY" by (simp_all add: s')
  have other: "pcb s' q = pcb s q" if "q \<noteq> pid" for q using that by (simp add: s')
  have "state_of s (current_pid s) = PROCESS_RUNNING" using assms(1) by (simp add: sched_inv_def)
  then have cur: "current_pid s \<noteq> pid" using g(2) by auto
  have rq: "run_queue s' = run_queue s" by (simp add: run_queue_def f fun_eq_iff)
  have "queues_ok s'"
    by (rule queues_ok_new_entry [of s pid]) (use assms(1) g f other in \<open>auto simp: sched_inv_def\<close>)
  moreover have "current_queued s'" using assms(1) cur other by (simp add: sched_inv_def current_queued_def rq f)
  moreover have "state_of s' q = PROCESS_RUNNING \<longleftrightarrow> q = current_pid s" for q
    using assms(1) cur other by (cases "q = pid") (auto simp: sched_inv_def s')
  ultimately show "sched_inv s'" using assms(1) by (simp add: sched_inv_def f)
qed

lemma queue_queues_ok:
  assumes "queues_ok s" "state_of s pid = PROCESS_NEW"
  shows "queues_ok (scheduler_queue_system_process pid s)"
proof (cases "pid < MAX_PROCESS \<and> MIN_PRIORITY \<le> priority_of s pid \<and> priority_of s pid \<le> MAX_PRIORITY")
  case True
  let ?i = "priority_of s pid"
  let ?s1 = "set_state pid PROCESS_READY s"
  let ?s' = "?s1\<lparr> run_queues := (run_queues ?s1)(?i - MIN_PRIORITY := run_queues ?s1 (?i - MIN_PRIORITY) @ [pid]) \<rparr>"
  have call: "scheduler_queue_system_process pid s = ?s'"
    using True by (simp add: scheduler_queue_system_process_def Let_def)
  have rq: "run_queue ?s' p = (if p = ?i then run_queue s p @ [pid] else run_queue s p)" for p
    by (auto simp: run_queue_def)
  have st: "state_of ?s' q = state_of ?s1 q" "priority_of ?s' q = priority_of ?s1 q" for q by simp_all
  have q1: "queues_ok ?s1" by (rule queues_ok_set_state [OF assms(1)]) simp_all
  have rq1: "run_queue ?s1 = run_queue s" by simp
  show ?thesis
    unfolding call queues_ok_def
  proof (intro conjI allI impI)
    fix p q assume q: "1 \<le> p \<and> p \<le> 4 \<and> q \<in> set (run_queue ?s' p)"
    have "q < MAX_PROCESS \<and> priority_of ?s' q = p \<and> state_of ?s' q \<notin> {PROCESS_EMPTY, PROCESS_NEW}"
    proof (cases "q = pid \<and> p = ?i")
      case True
      then show ?thesis using \<open>pid < MAX_PROCESS \<and> _\<close> by simp
    next
      case False
      then have "q \<in> set (run_queue ?s1 p)" using q rq [of p] rq1 by (auto split: if_splits)
      then show ?thesis unfolding st using q1 q unfolding queues_ok_def by blast
    qed
    then show "q < MAX_PROCESS" "priority_of ?s' q = p" "state_of ?s' q \<notin> {PROCESS_EMPTY, PROCESS_NEW}"
      by blast+
  next
    show "idle_pid ?s' \<in> set (run_queue ?s' 1)" using q1 rq [of 1] rq1 by (simp add: queues_ok_def)
    show "runnable ?s' (idle_pid ?s')" using q1 by (simp add: queues_ok_def runnable_def)
    show "next_pid ?s' < MAX_PROCESS" using q1 by (simp add: queues_ok_def)
  qed
qed (use assms in \<open>auto simp: scheduler_queue_system_process_def\<close>)

text \<open>Queueing appends to at most one queue and changes at most the state of the process.\<close>

lemma queue_effect:
  "set (run_queue s p) \<subseteq> set (run_queue (scheduler_queue_system_process pid s) p)"
  "q \<noteq> pid \<Longrightarrow> pcb (scheduler_queue_system_process pid s) q = pcb s q"
  "priority_of (scheduler_queue_system_process pid s) q = priority_of s q"
  "state_of (scheduler_queue_system_process pid s) pid \<in> {state_of s pid, PROCESS_READY}"
  "current_pid (scheduler_queue_system_process pid s) = current_pid s"
  "started (scheduler_queue_system_process pid s) = started s"
  "post_init_pid (scheduler_queue_system_process pid s) = post_init_pid s"
  by (auto simp: scheduler_queue_system_process_def Let_def run_queue_def set_state_def)

lemma queue_inv:
  assumes "sched_inv s" "state_of s pid = PROCESS_NEW"
  shows "sched_inv (scheduler_queue_system_process pid s)"
proof -
  let ?s' = "scheduler_queue_system_process pid s"
  have "state_of s (current_pid s) = PROCESS_RUNNING" using assms(1) by (simp add: sched_inv_def)
  then have cur: "current_pid s \<noteq> pid" using assms(2) by auto
  have "state_of ?s' q = PROCESS_RUNNING \<longleftrightarrow> q = current_pid s" for q
    using assms cur queue_effect(2) [of q pid s] queue_effect(4) [of pid s]
    by (cases "q = pid") (auto simp: sched_inv_def)
  moreover have "current_queued ?s'"
    using assms(1) queue_effect(1) [of s "priority_of s (current_pid s)" pid]
    by (auto simp: sched_inv_def current_queued_def queue_effect(3,5))
  ultimately show ?thesis
    using assms(1) queue_queues_ok [OF _ assms(2)] by (simp add: sched_inv_def queue_effect(5,6))
qed

section \<open>Reachable states\<close>

text \<open>
  The calls the kernel makes while the scheduler runs.  The idle task only yields, so sleeping and
  ending are calls of another process.
\<close>

inductive sched_step :: "sched \<Rightarrow> sched \<Rightarrow> bool" where
  tick: "scheduler_tick s = (r, s') \<Longrightarrow> sched_step s s'"
| yield: "scheduler_yield s = (r, s') \<Longrightarrow> sched_step s s'"
| block: "scheduler_block_process pid s = (r, s') \<Longrightarrow> sched_step s s'"
| unblock: "sched_step s (scheduler_unblock_process pid s)"
| unblock_hint: "sched_step s (scheduler_unblock_process_hint pid s)"
| sleep: "current_pid s \<noteq> idle_pid s \<Longrightarrow> scheduler_sleep_ms t s = (r, s') \<Longrightarrow> sched_step s s'"
| kill: "current_pid s \<noteq> idle_pid s \<Longrightarrow> scheduler_kill_current_process s = (r, s') \<Longrightarrow> sched_step s s'"
| create: "scheduler_create_new_process s = (Some pid, s') \<Longrightarrow> sched_step s s'"
| queue: "state_of s pid = PROCESS_NEW \<Longrightarrow> sched_step s (scheduler_queue_system_process pid s)"

inductive_cases sched_stepE: "sched_step s s'"

inductive sched_reachable :: "sched \<Rightarrow> sched \<Rightarrow> bool" for s0 where
  start: "scheduler_start s0 = (r, s) \<Longrightarrow> sched_reachable s0 s"
| step: "sched_reachable s0 s \<Longrightarrow> sched_step s s' \<Longrightarrow> sched_reachable s0 s'"

definition boot_ok :: "sched \<Rightarrow> bool" where
  "boot_ok s \<longleftrightarrow> queues_ok s \<and> (\<forall>pid. state_of s pid \<noteq> PROCESS_RUNNING) \<and>
     post_init_pid s \<in> set (run_queue s MAX_PRIORITY)"

lemma start_inv: "boot_ok s \<Longrightarrow> scheduler_start s = (r, s') \<Longrightarrow> sched_inv s'"
proof -
  assume boot: "boot_ok s" and call: "scheduler_start s = (r, s')"
  let ?p = "post_init_pid s"
  have f: "started s'" "current_pid s' = ?p" "run_queues s' = run_queues s" "idle_pid s' = idle_pid s"
    "next_pid s' = next_pid s" "\<And>q. priority_of s' q = priority_of s q"
    "\<And>q. state_of s' q = (if q = ?p then PROCESS_RUNNING else state_of s q)"
    using call by (auto simp: scheduler_start_def Let_def arch_restore_context_def set_state_def)
  have rq: "run_queue s' = run_queue s" by (simp add: run_queue_def f fun_eq_iff)
  have "queues_ok s'"
    by (rule queues_ok_cong [OF f(3,4,5)]) (use boot f in \<open>auto simp: boot_ok_def runnable_def\<close>)
  moreover have "priority_of s ?p = 4"
    using boot unfolding boot_ok_def queues_ok_def MAX_PRIORITY_def by auto
  then have "current_queued s'" using boot by (simp add: current_queued_def f rq boot_ok_def MAX_PRIORITY_def)
  ultimately show "sched_inv s'" using f boot by (auto simp: sched_inv_def boot_ok_def)
qed

lemma step_inv: "sched_step s s' \<Longrightarrow> sched_inv s \<Longrightarrow> sched_inv s'"
  by (erule sched_stepE)
    (auto intro: tick_inv yield_inv block_inv unblock_inv unblock_hint_inv kill_inv(1) create_inv(1) queue_inv
      sleep_inv simp: scheduler_sleep_ms_def)

lemma reachable_inv: "sched_reachable s0 s \<Longrightarrow> boot_ok s0 \<Longrightarrow> sched_inv s"
  by (induction rule: sched_reachable.induct) (auto intro: start_inv step_inv)

section \<open>Sleeping, ending and switching\<close>

lemma set_state_pcb: "pcb (set_state p st s) q = (if q = p then (pcb s p)\<lparr> proc_state := st \<rparr> else pcb s q)"
  by (simp add: set_state_def)

lemma switch_pcb:
  assumes "switch_to_process_with_lock r s = (out, s')" "q \<noteq> r" "q \<noteq> current_pid s"
  shows "pcb s' q = pcb s q"
  using assms
  by (auto simp: switch_to_process_with_lock_def arch_save_context_def arch_restore_context_def
      scheduler_set_page_directory_def Let_def set_state_def split: if_splits)

text \<open>A tick treats every process that is neither current nor chosen by its timeout alone.\<close>

text \<open>What a tick does to the other processes: their timeouts, and then nothing, or the switch.\<close>

lemma tick_switch:
  assumes inv: "sched_inv s" and tick: "scheduler_tick s = (out, s')" and pid: "pid < MAX_PROCESS" "pid \<noteq> current_pid s"
  obtains "pcb s' pid = tick_entry (pcb s pid)"
  | s3 r where "between_processes s3" "r = select_next_process_with_lock s3" "r \<noteq> current_pid s3"
      "current_pid s3 = current_pid s" "pcb s3 pid = tick_entry (pcb s pid)"
      "switch_to_process_with_lock r (s3\<lparr> interrupts_on := True \<rparr>) = (out, s')"
proof -
  define s1 where "s1 = for_up 0 MAX_PROCESS tick_timeout s"
  have inv1: "sched_inv s1" unfolding s1_def by (rule tick_loop_inv [OF inv])
  have p1: "pcb s1 pid = tick_entry (pcb s pid)" "current_pid s1 = current_pid s"
    using pid(1) by (simp_all add: s1_def tick_loop)
  let ?cur = "current_pid s1"
  have run: "state_of s1 ?cur = PROCESS_RUNNING" using inv1 by (simp add: sched_inv_def)
  show ?thesis
  proof (cases "rounds (pcb s1 ?cur) = rr_quantum s1")
    case False
    then have "s' = set_rounds ?cur (rounds (pcb s1 ?cur) + 1) s1"
      using tick inv by (simp add: scheduler_tick_def s1_def [symmetric] Let_def sched_inv_def)
    then show ?thesis using p1 pid(2) that(1) by (simp add: set_rounds_def)
  next
    case True
    let ?s3 = "set_state ?cur PROCESS_READY (set_rounds ?cur 0 s1)"
    have between: "between_processes ?s3"
      using sched_inv_stop [OF set_rounds_inv [OF inv1], of PROCESS_READY] by simp
    let ?r = "select_next_process_with_lock ?s3"
    have step: "scheduler_tick s =
        (if ?r = ?cur then (Returned, set_state ?cur PROCESS_RUNNING (?s3\<lparr> interrupts_on := True \<rparr>))
         else switch_to_process_with_lock ?r (?s3\<lparr> interrupts_on := True \<rparr>))"
      using True run inv
      by (simp add: scheduler_tick_def s1_def [symmetric] Let_def sched_inv_def select_next_process_def
          switch_to_process_def)
    have p3: "pcb ?s3 pid = tick_entry (pcb s pid)" "current_pid ?s3 = current_pid s"
      using p1 pid(2) by (simp_all add: set_state_pcb set_rounds_def set_state_def)
    show ?thesis
    proof (cases "?r = ?cur")
      case True
      then show ?thesis using step tick p1 p3 pid(2) that(1) by (auto simp: set_state_pcb)
    next
      case False
      then have "switch_to_process_with_lock ?r (?s3\<lparr> interrupts_on := True \<rparr>) = (out, s')" using step tick by simp
      with between p3 False p1(2) show ?thesis by (intro that(2) [of ?s3 ?r]) simp_all
    qed
  qed
qed

lemma tick_other:
  assumes inv: "sched_inv s" and pid: "pid < MAX_PROCESS" "pid \<noteq> current_pid s"
    and tick: "scheduler_tick s = (out, s')"
  shows "pcb s' pid = tick_entry (pcb s pid) \<or>
    proc_state (tick_entry (pcb s pid)) = PROCESS_READY \<and> state_of s' pid = PROCESS_RUNNING"
  using inv tick pid
proof (cases rule: tick_switch)
  case (2 s3 r)
  show ?thesis
  proof (cases "pid = r")
    case True
    have "runnable s3 r" using selected_ok(1) [of s3] 2(1,2) by (simp add: between_processes_def)
    moreover have "state_of s3 r \<noteq> PROCESS_RUNNING" using 2(1) by (simp add: between_processes_def)
    ultimately have "state_of s3 pid = PROCESS_READY" using True by (auto simp: runnable_def)
    then have "proc_state (tick_entry (pcb s pid)) = PROCESS_READY" using 2(5) by simp
    moreover have "state_of s' pid = PROCESS_RUNNING"
      using switch_fields(9) [OF _ _ 2(6), of pid] 2(1,3) True by (simp add: between_processes_def)
    ultimately show ?thesis by blast
  next
    case False
    then show ?thesis using switch_pcb [OF 2(6) False] pid(2) 2(4,5) by simp
  qed
qed simp

lemma not_current: "sched_inv s \<Longrightarrow> state_of s p \<noteq> PROCESS_RUNNING \<Longrightarrow> p \<noteq> current_pid s"
  unfolding sched_inv_def by blast

fun ticks :: "nat \<Rightarrow> sched \<Rightarrow> sched" where
  "ticks 0 s = s"
| "ticks (Suc n) s = ticks n (snd (scheduler_tick s))"

lemma ticks_inv: "sched_inv s \<Longrightarrow> sched_inv (ticks n s)"
proof (induction n arbitrary: s)
  case (Suc n)
  obtain r s1 where t: "scheduler_tick s = (r, s1)" by fastforce
  then have "sched_inv s1" using tick_inv [OF Suc.prems] by blast
  then show ?case using Suc.IH t by simp
qed simp

lemma sleeper_ticks:
  assumes "sched_inv s" "pid < MAX_PROCESS" "state_of s pid = PROCESS_SLEEPING"
    "n < unat (sleep_timeout (pcb s pid))"
  shows "state_of (ticks n s) pid = PROCESS_SLEEPING \<and>
    unat (sleep_timeout (pcb (ticks n s) pid)) = unat (sleep_timeout (pcb s pid)) - n"
  using assms
proof (induction n arbitrary: s)
  case (Suc n)
  obtain r s1 where t: "scheduler_tick s = (r, s1)" by fastforce
  have cur: "pid \<noteq> current_pid s" by (rule not_current [OF Suc.prems(1)]) (simp add: Suc.prems(3))
  have n0: "sleep_timeout (pcb s pid) \<noteq> 0" using Suc.prems(4) by auto
  then have dec: "unat (sleep_timeout (pcb s pid) - 1) = unat (sleep_timeout (pcb s pid)) - 1"
    by (rule unat_minus_one)
  then have nz: "sleep_timeout (pcb s pid) - 1 \<noteq> 0" using Suc.prems(4) by auto
  have e: "tick_entry (pcb s pid) = (pcb s pid)\<lparr> sleep_timeout := sleep_timeout (pcb s pid) - 1 \<rparr>"
    using Suc.prems(3) nz by (simp add: tick_entry_def)
  have "pcb s1 pid = tick_entry (pcb s pid)"
    using tick_other [OF Suc.prems(1,2) cur t] Suc.prems(3) e by auto
  then have s1: "state_of s1 pid = PROCESS_SLEEPING"
    "unat (sleep_timeout (pcb s1 pid)) = unat (sleep_timeout (pcb s pid)) - 1"
    using e Suc.prems(3) dec by simp_all
  have "n < unat (sleep_timeout (pcb s1 pid))" using Suc.prems(4) s1(2) by simp
  from Suc.IH [OF tick_inv [OF Suc.prems(1) t] Suc.prems(2) s1(1) this] show ?case
    using t s1(2) Suc.prems(4) by simp
qed simp

lemma sleeper_wakes:
  assumes "sched_inv s" "pid < MAX_PROCESS" "state_of s pid = PROCESS_SLEEPING"
    "sleep_timeout (pcb s pid) \<noteq> 0"
  shows "runnable (ticks (unat (sleep_timeout (pcb s pid))) s) pid"
proof -
  let ?n = "unat (sleep_timeout (pcb s pid)) - 1"
  have n: "unat (sleep_timeout (pcb s pid)) = Suc ?n" using assms(4) by (simp add: unat_gt_0)
  have split: "ticks (Suc n) s = snd (scheduler_tick (ticks n s))" for n s
    by (induction n arbitrary: s) simp_all
  let ?t = "ticks ?n s"
  have t: "state_of ?t pid = PROCESS_SLEEPING" "unat (sleep_timeout (pcb ?t pid)) = 1"
    using sleeper_ticks [OF assms(1-3), of ?n] n by simp_all
  then have one: "sleep_timeout (pcb ?t pid) = 1" by (simp add: word_unat_eq_iff)
  have inv: "sched_inv ?t" by (rule ticks_inv [OF assms(1)])
  then have cur: "pid \<noteq> current_pid ?t" by (rule not_current) (use t(1) in simp)
  obtain r s1 where tick: "scheduler_tick ?t = (r, s1)" by fastforce
  have "proc_state (tick_entry (pcb ?t pid)) = PROCESS_READY" using t(1) one by (simp add: tick_entry_def)
  then have "runnable s1 pid" using tick_other [OF inv assms(2) cur tick] by (auto simp: runnable_def)
  moreover have "ticks (unat (sleep_timeout (pcb s pid))) s = s1"
    by (subst n) (simp only: split tick snd_conv)
  ultimately show ?thesis by simp
qed

text \<open>Round robin: after the current process, its queue is searched from the next place on.\<close>

lemma next_index_split:
  assumes "cur \<notin> set xs"
  shows "rotate (next_index cur (xs @ cur # ys)) (xs @ cur # ys) = ys @ xs @ [cur]"
proof -
  have first: "first_index cur (xs @ cur # ys) = Some (length xs)" using assms by (induction xs) auto
  have "next_index cur (xs @ cur # ys) = Suc (length xs) mod length (xs @ cur # ys)"
    unfolding next_index_def first by simp
  then have "rotate (next_index cur (xs @ cur # ys)) (xs @ cur # ys) = rotate (length (xs @ [cur])) ((xs @ [cur]) @ ys)"
    by (simp only: rotate_conv_mod [symmetric]) simp
  then show ?thesis by (simp only: rotate_append)
qed

lemma select_round_robin:
  assumes "run_queue s (priority_of s (current_pid s)) = xs @ current_pid s # ys" "current_pid s \<notin> set xs"
    and "\<forall>p. priority_of s (current_pid s) < p \<and> p \<le> 4 \<longrightarrow> \<not> has_runnable s p"
    and "find (runnable s) (ys @ xs @ [current_pid s]) = Some r"
  shows "select_next_process_with_lock s = r"
proof -
  have "search_higher s (priority_of s (current_pid s)) MAX_PRIORITY = None"
  proof (rule ccontr)
    assume "search_higher s (priority_of s (current_pid s)) MAX_PRIORITY \<noteq> None"
    then obtain x where "search_higher s (priority_of s (current_pid s)) MAX_PRIORITY = Some x" by auto
    from search_higher_Some [OF this] assms(3) show False
      by (auto simp: MAX_PRIORITY_def has_runnable_def)
  qed
  moreover have "search_same s (xs @ current_pid s # ys) = Some r"
    unfolding search_same_rotate next_index_split [OF assms(2)] by (rule assms(4))
  ultimately show ?thesis using assms(1) by (simp add: select_next_process_with_lock_def)
qed

section \<open>A sample boot state\<close>

text \<open>The three kernel tasks as \<open>scheduler_init\<close> queues them: idle, init and post-init.\<close>

definition sample_context :: "u32 \<Rightarrow> process_context" where
  "sample_context e = \<lparr> ctx_ebx = 0, ctx_edx = 0, ctx_esi = 0, ctx_edi = 0, ctx_ebp = 0,
     ctx_eip = e, ctx_esp = 0 \<rparr>"

definition sample_task :: "u32 \<Rightarrow> u32 \<Rightarrow> process_state \<Rightarrow> process_control" where
  "sample_task pid prio st =
     \<lparr> proc = \<lparr> proc_pid = pid, proc_system = True, proc_priority = prio, physical_cr3 = 0x1000,
         virtual_cr3 = 0xC0001000, physical_stack = 0, proc_context = sample_context (pid + 64),
         proc_name = \<lparr> str_data = 0, str_length = 0 \<rparr> \<rparr>,
       proc_state = st, rounds = 0, sleep_timeout = 0 \<rparr>"

definition sample_boot :: sched where
  "sample_boot =
     \<lparr> pcb = (\<lambda>pid. if pid = 0 then sample_task 0 1 PROCESS_READY
              else if pid = 1 then sample_task 1 3 PROCESS_READY
              else if pid = 2 then sample_task 2 4 PROCESS_READY
              else sample_task pid 0 PROCESS_EMPTY),
       run_queues = (\<lambda>i. if i = 0 then [0] else if i = 2 then [1] else if i = 3 then [2] else []),
       started = False, rr_quantum = 25, current_pid = 0, next_pid = 3, idle_pid = 0, init_pid = 1,
       post_init_pid = 2, timer_frequency = 1000, cpu = sample_context 0, cr3 = 0, tss_esp0 = 0,
       interrupts_on = False \<rparr>"

lemma sample_queue:
  "q \<in> set (run_queue sample_boot p) \<longleftrightarrow> (p = 1 \<and> q = 0) \<or> (p = 3 \<and> q = 1) \<or> (p = 4 \<and> q = 2)"
proof -
  have "p - 1 = c \<longleftrightarrow> p = c + 1" for c :: u32 by (auto simp: algebra_simps)
  then show ?thesis by (auto simp: run_queue_def sample_boot_def MIN_PRIORITY_def)
qed

lemma sample_boot_ok: "boot_ok sample_boot"
  unfolding boot_ok_def queues_ok_def sample_queue
  by (auto simp: sample_boot_def sample_task_def MAX_PROCESS_def MAX_PRIORITY_def runnable_def)

definition sample_started :: sched where
  "sample_started = snd (scheduler_start sample_boot)"

lemma sample_started_inv: "sched_inv sample_started"
  by (rule start_inv [OF sample_boot_ok, of "fst (scheduler_start sample_boot)"]) (simp add: sample_started_def)

section \<open>Properties\<close>





text \<open>C38. With no process of a higher priority able to run, the selection is round robin: the first
  process able to run after the current one in its queue, going around, the current one last.\<close>

theorem select_is_round_robin:
  assumes "run_queue s (priority_of s (current_pid s)) = xs @ current_pid s # ys" "current_pid s \<notin> set xs"
    and "\<And>p q. \<lbrakk> priority_of s (current_pid s) < p; p \<le> 4; q \<in> set (run_queue s p) \<rbrakk> \<Longrightarrow> \<not> runnable s q"
    and "find (runnable s) (ys @ xs @ [current_pid s]) = Some r"
  shows "select_next_process_with_lock s = r"
  by (rule select_round_robin [OF assms(1,2) _ assms(4)]) (use assms(3) in \<open>auto simp: has_runnable_def\<close>)

theorem select_is_round_robin_witness:
  "select_next_process_with_lock sample_started = 2"
proof (rule select_is_round_robin [of _ "[]" "[]"])
  have cur: "current_pid sample_started = 2" "priority_of sample_started 2 = 4" "run_queue sample_started 4 = [2]"
    "runnable sample_started 2"
    by (simp_all add: sample_started_def scheduler_start_def sample_boot_def arch_restore_context_def Let_def
        run_queue_def MIN_PRIORITY_def sample_task_def runnable_def set_state_def)
  show "run_queue sample_started (priority_of sample_started (current_pid sample_started)) =
      [] @ current_pid sample_started # []" by (simp add: cur)
  show "\<not> runnable sample_started q"
    if "priority_of sample_started (current_pid sample_started) < p" "p \<le> 4" for p q
    using that by (simp add: cur)
  show "find (runnable sample_started) ([] @ [] @ [current_pid sample_started]) = Some 2" by (simp add: cur)
qed simp





text \<open>Raising the timer frequency breaks the sleepers: the code multiplies their timeouts by
  \<open>old / new\<close>, an integer quotient that is then 0, so every sleeping process has timeout 0, and the
  next decrement of it wraps to \<open>2^32 - 1\<close> ticks.\<close>

theorem frequency_rise_loses_sleepers:
  fixes s :: sched
  assumes "old_frequency < new_frequency" "pid < MAX_PROCESS" "state_of s pid = PROCESS_SLEEPING"
  shows "\<exists>s'. scheduler_frequency_updated old_frequency new_frequency s = Some s' \<and>
    sleep_timeout (pcb s' pid) = 0 \<and> state_of (tick_timeout pid s') pid = PROCESS_SLEEPING \<and>
    sleep_timeout (pcb (tick_timeout pid s') pid) = 2 ^ 32 - 1"
proof -
  let ?upd = "\<lambda>c. if proc_state c = PROCESS_SLEEPING
      then c\<lparr> sleep_timeout := ucast (ucast (sleep_timeout c) * (old_frequency div new_frequency)) \<rparr> else c"
  let ?body = "\<lambda>i t. if state_of t i = PROCESS_SLEEPING
      then t\<lparr> pcb := (pcb t)(i := (pcb t i)\<lparr> sleep_timeout :=
             ucast (ucast (sleep_timeout (pcb t i)) * (old_frequency div new_frequency)) \<rparr>) \<rparr> else t"
  let ?s1 = "s\<lparr> rr_quantum := ucast (25 * (new_frequency div 1000)) \<rparr>"
  let ?P = "\<lambda>k t. pcb t = (\<lambda>j. if j < k then ?upd (pcb s j) else pcb s j)"
  define s' where "s' = for_up 0 MAX_PROCESS ?body ?s1"
  have loop: "?P MAX_PROCESS s'"
    unfolding s'_def
  proof (rule for_up_invariant [where P = ?P])
    fix k and t :: sched assume k: "k < MAX_PROCESS" and t: "?P k t"
    have "j < k + 1 \<longleftrightarrow> j < k \<or> j = k" for j
      using unat_Suc_less [OF k] by (auto simp: word_less_nat_alt less_Suc_eq word_unat_eq_iff)
    then show "?P (k + 1) (?body k t)" using t by (auto simp: fun_eq_iff)
  qed (simp_all add: word_zero_le)
  have ratio: "old_frequency div new_frequency = 0"
  proof -
    have "unat (old_frequency div new_frequency) = 0"
      using assms(1) by (simp add: unat_div_distrib word_less_nat_alt)
    then show ?thesis by (simp only: unat_eq_0)
  qed
  have "new_frequency \<noteq> 0" using assms(1) by auto
  then have call: "scheduler_frequency_updated old_frequency new_frequency s = Some s'"
    by (simp add: scheduler_frequency_updated_def s'_def Let_def)
  have "pcb s' pid = ?upd (pcb s pid)" unfolding loop using assms(2) by simp
  then have "pcb s' pid = (pcb s pid)\<lparr> sleep_timeout := 0 \<rparr>" using ratio assms(3) by simp
  then show ?thesis using call assms(3) by (simp add: tick_timeout_entry tick_entry_def)
qed

theorem frequency_rise_loses_sleepers_witness:
  "\<exists>s'. scheduler_frequency_updated 1000 2000
      (sample_boot\<lparr> pcb := (pcb sample_boot)(1 := (sample_task 1 3 PROCESS_SLEEPING)\<lparr> sleep_timeout := 40 \<rparr>) \<rparr>) = Some s' \<and>
    sleep_timeout (pcb (tick_timeout 1 s') 1) = 2 ^ 32 - 1"
  using frequency_rise_loses_sleepers [of 1000 2000 1
      "sample_boot\<lparr> pcb := (pcb sample_boot)(1 := (sample_task 1 3 PROCESS_SLEEPING)\<lparr> sleep_timeout := 40 \<rparr>) \<rparr>"]
  by (auto simp: MAX_PROCESS_def sample_task_def)

end
