(* ===== verification/Paging.thy ===== *)
theory Paging
  imports Process
begin

text \<open>
  Paging, kernel/kernel/mem/paging/paging.c, over the physical memory of the machine.
  \<open>page_walk\<close> and \<open>translate\<close> are the processor's 32-bit translation through the page directory
  in \<open>loaded_cr3\<close>; a load or store through a virtual pointer is a \<open>vread32\<close>, \<open>vwrite32\<close> or
  \<open>vwrite8\<close>, with a page fault as \<open>None\<close>.  Every change of a mapping in the code reloads the
  page directory register, which flushes the translation buffers, so the walk reads the tables
  as they are.

  The static variables lie in the kernel image, which every address space maps linearly from
  \<open>KERNEL_OFFSET\<close>: they are read and written in the \<open>kernel_view\<close> of the physical memory.  Their
  addresses and the section bounds that the linker script defines are the fields of a
  \<open>paging_layout\<close>.
\<close>

unbundle bit_operations_syntax

section \<open>Constants\<close>

definition PT_PRESENT :: u32 where "PT_PRESENT = 1"
definition PT_RW :: u32 where "PT_RW = 2"
definition PT_USER :: u32 where "PT_USER = 4"
definition PD_PRESENT :: u32 where "PD_PRESENT = 1"
definition PD_RW :: u32 where "PD_RW = 2"
definition PD_USER :: u32 where "PD_USER = 4"
definition KERNEL_START :: u32 where "KERNEL_START = 0x00100000"
definition ARBITRARY_MAPPING_REGION_START :: u32 where
  "ARBITRARY_MAPPING_REGION_START = 1023 * 1024 * PAGE_SIZE"

lemmas paging_flags = PT_PRESENT_def PT_RW_def PT_USER_def PD_PRESENT_def PD_RW_def PD_USER_def

definition return_page_address :: "u32 \<Rightarrow> u32" where
  "return_page_address address = address AND 0xFFFFF000"

definition return_page_offset :: "u32 \<Rightarrow> u32" where
  "return_page_offset address = address AND 0x00000FFF"

definition get_rounded_up_num_of_pages :: "u32 \<Rightarrow> u32" where
  "get_rounded_up_num_of_pages address =
     address div PAGE_SIZE + (if address mod PAGE_SIZE > 0 then 1 else 0)"

definition table_index :: "u32 \<Rightarrow> u32" where
  "table_index virtual_address = (virtual_address div PAGE_SIZE) div 1024"

definition page_index_in_table :: "u32 \<Rightarrow> u32" where
  "page_index_in_table virtual_address = (virtual_address div PAGE_SIZE) mod 1024"

section \<open>The machine\<close>

record paging_layout =
  allocators :: layout
  kernel_page_directory :: u32
  kernel_page_table :: u32
  mapping_page_table :: u32
  boot_page_directory :: u32
  immutable_data_start :: u32
  mutable_data_start :: u32
  mutable_data_end :: u32

record machine =
  pmem :: mem
  loaded_cr3 :: u32
  write_protect :: bool
  kernel_page_directory_ptr :: u32
  current_page_directory :: u32

definition kernel_view :: "machine \<Rightarrow> mem" where
  "kernel_view s = (\<lambda>a. pmem s (V2P a))"

definition set_kernel_view :: "mem \<Rightarrow> machine \<Rightarrow> machine" where
  "set_kernel_view m s = s\<lparr> pmem := (\<lambda>a. m (P2V a)) \<rparr>"

definition page_walk :: "mem \<Rightarrow> u32 \<Rightarrow> u32 \<Rightarrow> (u32 \<times> u32) option" where
  "page_walk pm directory a =
     (let pde = rd32 pm (directory + 4 * table_index a)
      in if pde AND PD_PRESENT = 0 then None
         else let pte = rd32 pm (return_page_address pde + 4 * page_index_in_table a)
              in if pte AND PT_PRESENT = 0 then None else Some (pde, pte))"

definition translate :: "machine \<Rightarrow> u32 \<Rightarrow> u32 option" where
  "translate s a =
     (case page_walk (pmem s) (loaded_cr3 s) a of None \<Rightarrow> None
      | Some (pde, pte) \<Rightarrow> Some (return_page_address pte OR return_page_offset a))"

definition translate_write :: "machine \<Rightarrow> u32 \<Rightarrow> u32 option" where
  "translate_write s a =
     (case page_walk (pmem s) (loaded_cr3 s) a of None \<Rightarrow> None
      | Some (pde, pte) \<Rightarrow>
          if write_protect s \<and> (pde AND PD_RW = 0 \<or> pte AND PT_RW = 0) then None
          else Some (return_page_address pte OR return_page_offset a))"

text \<open>Accesses through aligned pointers.\<close>

definition vread32 :: "machine \<Rightarrow> u32 \<Rightarrow> u32 option" where
  "vread32 s a = map_option (rd32 (pmem s)) (translate s a)"

definition vwrite32 :: "machine \<Rightarrow> u32 \<Rightarrow> u32 \<Rightarrow> machine option" where
  "vwrite32 s a v = map_option (\<lambda>p. s\<lparr> pmem := wr32 (pmem s) p v \<rparr>) (translate_write s a)"

definition vwrite8 :: "machine \<Rightarrow> u32 \<Rightarrow> u8 \<Rightarrow> machine option" where
  "vwrite8 s a v = map_option (\<lambda>p. s\<lparr> pmem := (pmem s)(p := v) \<rparr>) (translate_write s a)"

definition load_page_directory :: "u32 \<Rightarrow> machine \<Rightarrow> machine" where
  "load_page_directory page_directory s = s\<lparr> loaded_cr3 := return_page_address page_directory \<rparr>"

definition enable_ring0_write_protect :: "machine \<Rightarrow> machine" where
  "enable_ring0_write_protect s = s\<lparr> write_protect := True \<rparr>"

section \<open>Initialisation\<close>

definition load_and_turn_on_paging :: "paging_layout \<Rightarrow> machine \<Rightarrow> machine" where
  "load_and_turn_on_paging lay s =
     enable_ring0_write_protect (load_page_directory (V2P (kernel_page_directory lay)) s)"

definition map_image :: "u32 \<Rightarrow> u32 \<Rightarrow> u32 \<Rightarrow> u32 \<Rightarrow> mem \<Rightarrow> mem" where
  "map_image page_table start pages flags m =
     for_up 0 pages (\<lambda>i t. wr32 t (page_table + 4 * (i + V2P start div PAGE_SIZE))
       ((V2P start + i * PAGE_SIZE) OR flags)) m"

definition paging_init :: "paging_layout \<Rightarrow> machine \<Rightarrow> bool \<times> machine" where
  "paging_init lay s =
     (let s1 = s\<lparr> kernel_page_directory_ptr := kernel_page_directory lay,
                  current_page_directory := kernel_page_directory lay \<rparr>;
          image_end = endkernel (allocators lay);
          immutable_size = mutable_data_start lay - immutable_data_start lay;
          pages_in_kernel = (image_end - immutable_data_start lay) div PAGE_SIZE
            + (if image_end mod PAGE_SIZE > 0 then 1 else 0);
          immutable_pages_in_kernel = immutable_size div PAGE_SIZE
            + (if immutable_size mod PAGE_SIZE > 0 then 1 else 0);
          mutable_pages_in_kernel = (image_end - mutable_data_start lay) div PAGE_SIZE
            + (if (mutable_data_end lay - mutable_data_start lay) mod PAGE_SIZE > 0 then 1 else 0)
      in if \<not> (pages_in_kernel + KERNEL_START div PAGE_SIZE \<le> 1024) then (False, s1)
         else if immutable_pages_in_kernel + mutable_pages_in_kernel \<noteq> pages_in_kernel then (False, s1)
         else
           let (_, m1) = kmemset (kernel_view s1) (kernel_page_table lay) 0 4096;
               m2 = map_image (kernel_page_table lay) (immutable_data_start lay)
                      immutable_pages_in_kernel PT_PRESENT m1;
               m3 = map_image (kernel_page_table lay) (mutable_data_start lay)
                      mutable_pages_in_kernel (PT_PRESENT OR PT_RW) m2;
               (_, m4) = kmemset m3 (kernel_page_directory lay) 0 4096;
               m5 = wr32 m4 (kernel_page_directory lay + 4 * 768)
                      (V2P (kernel_page_table lay) OR PD_PRESENT OR PD_RW);
               (_, m6) = kmemset m5 (mapping_page_table lay) 0 4096;
               m7 = wr32 m6 (kernel_page_directory lay + 4 * 1023)
                      (V2P (mapping_page_table lay) OR PD_PRESENT OR PD_RW)
           in (True, load_and_turn_on_paging lay (set_kernel_view m7 s1)))"

definition initialize_kernel_memory :: "paging_layout \<Rightarrow> machine \<Rightarrow> (bool \<times> machine) option" where
  "initialize_kernel_memory lay s =
     do {
       (ok0, m0) \<leftarrow> global_phys_allocator_init (allocators lay) (kernel_view s);
       let s0 = set_kernel_view m0 s;
       if \<not> ok0 then Some (False, s0)
       else do {
         (ok1, m1) \<leftarrow> kernel_virt_allocator_init (allocators lay) (kernel_view s0);
         let s1 = set_kernel_view m1 s0;
         if \<not> ok1 then Some (False, s1)
         else Some (paging_init lay s1)
       }
     }"

section \<open>The window for short-term mappings\<close>

definition map_to_arbitrary_kernel_virt_page_in_current_addr ::
  "paging_layout \<Rightarrow> u32 \<Rightarrow> u32 \<Rightarrow> machine \<Rightarrow> u32 \<times> machine" where
  "map_to_arbitrary_kernel_virt_page_in_current_addr lay phys_addr page_index s =
     (if \<not> page_index \<le> 1023 then (0, s)
      else let s1 = set_kernel_view (wr32 (kernel_view s) (mapping_page_table lay + 4 * page_index)
                      (phys_addr OR PT_PRESENT OR PT_RW)) s
           in (ARBITRARY_MAPPING_REGION_START + page_index * PAGE_SIZE,
               load_page_directory (V2P (current_page_directory s1)) s1))"

definition map_to_arbitrary_kernel_virt_pages_in_current_addr ::
  "paging_layout \<Rightarrow> u32 \<Rightarrow> u32 \<Rightarrow> u32 \<Rightarrow> machine \<Rightarrow> u32 \<times> machine" where
  "map_to_arbitrary_kernel_virt_pages_in_current_addr lay phys_addr page_index page_count s =
     (case for_ret 0 page_count
        (\<lambda>i t. let (p, t') = map_to_arbitrary_kernel_virt_page_in_current_addr lay
                              (phys_addr + i * PAGE_SIZE) (i + page_index) t
               in if p = 0 then Inl (0, t') else Inr t') s of
        Inl r \<Rightarrow> r
      | Inr t \<Rightarrow> (ARBITRARY_MAPPING_REGION_START + page_index * PAGE_SIZE, t))"

definition unmap_arbitrary_kernel_virt_page_in_current_addr ::
  "paging_layout \<Rightarrow> u32 \<Rightarrow> machine \<Rightarrow> bool \<times> machine" where
  "unmap_arbitrary_kernel_virt_page_in_current_addr lay page_index s =
     (if \<not> page_index \<le> 1023 then (False, s)
      else let s1 = set_kernel_view (wr32 (kernel_view s) (mapping_page_table lay + 4 * page_index) 0) s
           in (True, load_page_directory (V2P (current_page_directory s1)) s1))"

definition unmap_arbitrary_kernel_virt_pages_in_current_addr ::
  "paging_layout \<Rightarrow> u32 \<Rightarrow> u32 \<Rightarrow> machine \<Rightarrow> bool \<times> machine" where
  "unmap_arbitrary_kernel_virt_pages_in_current_addr lay page_index page_count s =
     (case for_ret 0 page_count
        (\<lambda>i t. let (ok, t') = unmap_arbitrary_kernel_virt_page_in_current_addr lay (i + page_index) t
               in if \<not> ok then Inl (False, t') else Inr t') s of
        Inl r \<Rightarrow> r
      | Inr t \<Rightarrow> (True, t))"

abbreviation "map_window \<equiv> map_to_arbitrary_kernel_virt_page_in_current_addr"
abbreviation "unmap_window \<equiv> unmap_arbitrary_kernel_virt_page_in_current_addr"

text \<open>A physical page from the allocator, whose bit set is in the kernel image.\<close>

definition allocate_physical_page :: "paging_layout \<Rightarrow> machine \<Rightarrow> u32 \<times> machine" where
  "allocate_physical_page lay s =
     (let (p, m) = global_phys_allocator_allocate_page (allocators lay) (kernel_view s)
      in (p, set_kernel_view m s))"

section \<open>Queries\<close>

definition is_readable :: "paging_layout \<Rightarrow> u32 \<Rightarrow> u32 \<Rightarrow> machine \<Rightarrow> (bool \<times> machine) option" where
  "is_readable lay page_directory virtual_address s =
     (if virtual_address mod PAGE_SIZE \<noteq> 0 then Some (False, s)
      else do {
        pde \<leftarrow> vread32 s (page_directory + 4 * table_index virtual_address);
        if pde AND PD_PRESENT \<noteq> PD_PRESENT then Some (False, s)
        else do {
          let (virt_page_table, s1) = map_window lay (return_page_address pde) 513 s;
          pte \<leftarrow> vread32 s1 (virt_page_table + 4 * page_index_in_table virtual_address);
          Some (pte AND PT_PRESENT = PT_PRESENT, snd (unmap_window lay 513 s1))
        }
      })"

definition is_readable_in_kernel_addr :: "paging_layout \<Rightarrow> u32 \<Rightarrow> machine \<Rightarrow> (bool \<times> machine) option" where
  "is_readable_in_kernel_addr lay virtual_address s =
     is_readable lay (kernel_page_directory_ptr s) virtual_address s"

definition is_readable_in_current_addr :: "paging_layout \<Rightarrow> u32 \<Rightarrow> machine \<Rightarrow> (bool \<times> machine) option" where
  "is_readable_in_current_addr lay virtual_address s =
     is_readable lay (current_page_directory s) virtual_address s"

definition is_writable :: "paging_layout \<Rightarrow> u32 \<Rightarrow> u32 \<Rightarrow> machine \<Rightarrow> (bool \<times> machine) option" where
  "is_writable lay page_directory virtual_address s =
     do {
       (readable, s1) \<leftarrow> is_readable lay page_directory virtual_address s;
       if \<not> readable then Some (False, s1)
       else do {
         pde \<leftarrow> vread32 s1 (page_directory + 4 * table_index virtual_address);
         if pde AND PD_RW \<noteq> PD_RW then Some (False, s1)
         else do {
           let (virt_page_table, s2) = map_window lay (return_page_address pde) 512 s1;
           pte \<leftarrow> vread32 s2 (virt_page_table + 4 * page_index_in_table virtual_address);
           Some (pte AND PT_RW = PT_RW, snd (unmap_window lay 512 s2))
         }
       }
     }"

definition is_writable_in_kernel_addr :: "paging_layout \<Rightarrow> u32 \<Rightarrow> machine \<Rightarrow> (bool \<times> machine) option" where
  "is_writable_in_kernel_addr lay virtual_address s =
     is_writable lay (kernel_page_directory_ptr s) virtual_address s"

definition is_writable_in_current_addr :: "paging_layout \<Rightarrow> u32 \<Rightarrow> machine \<Rightarrow> (bool \<times> machine) option" where
  "is_writable_in_current_addr lay virtual_address s =
     is_writable lay (current_page_directory s) virtual_address s"

definition get_physical_address :: "paging_layout \<Rightarrow> u32 \<Rightarrow> u32 \<Rightarrow> machine \<Rightarrow> (u32 \<times> machine) option" where
  "get_physical_address lay page_directory virtual_address s =
     do {
       (readable, s1) \<leftarrow> is_readable lay page_directory virtual_address s;
       if \<not> readable then Some (0, s1)
       else do {
         pde \<leftarrow> vread32 s1 (page_directory + 4 * table_index virtual_address);
         let (page_table_virt, s2) = map_window lay (return_page_address pde) 514 s1;
         pte \<leftarrow> vread32 s2 (page_table_virt + 4 * page_index_in_table virtual_address);
         Some (return_page_address pte, snd (unmap_window lay 514 s2))
       }
     }"

definition get_physical_address_in_boot :: "paging_layout \<Rightarrow> u32 \<Rightarrow> machine \<Rightarrow> (u32 \<times> machine) option" where
  "get_physical_address_in_boot lay virtual_address s =
     do {
       (readable, s1) \<leftarrow> is_readable lay (boot_page_directory lay) virtual_address s;
       if \<not> readable then Some (0, s1)
       else do {
         pde \<leftarrow> vread32 s1 (boot_page_directory lay + 4 * table_index virtual_address);
         pte \<leftarrow> vread32 s1 (P2V (return_page_address pde) + 4 * page_index_in_table virtual_address);
         Some (return_page_address pte, s1)
       }
     }"

definition get_physical_address_in_kernel_addr ::
  "paging_layout \<Rightarrow> u32 \<Rightarrow> machine \<Rightarrow> (u32 \<times> machine) option" where
  "get_physical_address_in_kernel_addr lay virtual_address s =
     get_physical_address lay (kernel_page_directory_ptr s) virtual_address s"

definition get_physical_address_in_current_addr ::
  "paging_layout \<Rightarrow> u32 \<Rightarrow> machine \<Rightarrow> (u32 \<times> machine) option" where
  "get_physical_address_in_current_addr lay virtual_address s =
     get_physical_address lay (current_page_directory s) virtual_address s"

section \<open>Mapping and unmapping\<close>

definition clear_physical_page :: "paging_layout \<Rightarrow> u32 \<Rightarrow> machine \<Rightarrow> machine option" where
  "clear_physical_page lay physical s =
     do {
       let (ptr, s1) = map_window lay physical 510 s;
       s2 \<leftarrow> for_up 0 PAGE_SIZE (\<lambda>i t. Option.bind t (\<lambda>u. vwrite8 u (ptr + i) 0)) (Some s1);
       Some (snd (unmap_window lay 510 s2))
     }"

definition map_page :: "paging_layout \<Rightarrow> u32 \<Rightarrow> u32 \<Rightarrow> u32 \<Rightarrow> u32 \<Rightarrow> u32 \<Rightarrow> machine \<Rightarrow> (bool \<times> machine) option" where
  "map_page lay page_directory virtual_address phys_frame pt_flags pd_flags s =
     (if \<not> (virtual_address mod PAGE_SIZE = 0 \<and> phys_frame mod PAGE_SIZE = 0) then Some (False, s)
      else do {
        let entry = page_directory + 4 * table_index virtual_address;
        pde \<leftarrow> vread32 s entry;
        s3 \<leftarrow> (if pde AND PD_PRESENT \<noteq> PD_PRESENT
               then do {
                 let (phys_page_table, s1) = allocate_physical_page lay s;
                 s2 \<leftarrow> clear_physical_page lay phys_page_table s1;
                 vwrite32 s2 entry (phys_page_table OR pd_flags)
               }
               else Some s);
        pde' \<leftarrow> vread32 s3 entry;
        let (virt_page_table, s4) = map_window lay (return_page_address pde') 512 s3;
        s5 \<leftarrow> vwrite32 s4 (virt_page_table + 4 * page_index_in_table virtual_address)
               (phys_frame OR pt_flags);
        let (_, s6) = unmap_window lay 512 s5;
        Some (True, load_page_directory (V2P (kernel_page_directory lay)) s6)
      })"

text \<open>A loop over pages whose body may fault or return false.\<close>

definition for_pages ::
  "u32 \<Rightarrow> (u32 \<Rightarrow> machine \<Rightarrow> (bool \<times> machine) option) \<Rightarrow> machine \<Rightarrow> (bool \<times> machine) option" where
  "for_pages n body s =
     (case for_ret 0 n (\<lambda>i t. case body i t of None \<Rightarrow> Inl None
                              | Some (ok, t') \<Rightarrow> if \<not> ok then Inl (Some (False, t')) else Inr t') s of
        Inl r \<Rightarrow> r
      | Inr t \<Rightarrow> Some (True, t))"

definition map_pages :: "paging_layout \<Rightarrow> u32 \<Rightarrow> u32 \<Rightarrow> u32 \<Rightarrow> u32 \<Rightarrow> u32 \<Rightarrow> u32 \<Rightarrow> machine \<Rightarrow> (bool \<times> machine) option" where
  "map_pages lay page_directory virtual_address phys_frame num_of_pages pt_flags pd_flags s =
     (if \<not> (virtual_address mod PAGE_SIZE = 0 \<and> phys_frame mod PAGE_SIZE = 0) then Some (False, s)
      else for_pages num_of_pages
        (\<lambda>i. map_page lay page_directory (virtual_address + i * PAGE_SIZE) (phys_frame + i * PAGE_SIZE)
               pt_flags pd_flags) s)"

definition map_pages_in_kernel_addr :: "paging_layout \<Rightarrow> u32 \<Rightarrow> u32 \<Rightarrow> u32 \<Rightarrow> u32 \<Rightarrow> u32 \<Rightarrow> machine \<Rightarrow> (bool \<times> machine) option" where
  "map_pages_in_kernel_addr lay virtual_address phys_frame num_of_pages pt_flags pd_flags s =
     map_pages lay (kernel_page_directory_ptr s) virtual_address phys_frame num_of_pages pt_flags pd_flags s"

definition map_page_in_kernel_addr :: "paging_layout \<Rightarrow> u32 \<Rightarrow> u32 \<Rightarrow> u32 \<Rightarrow> u32 \<Rightarrow> machine \<Rightarrow> (bool \<times> machine) option" where
  "map_page_in_kernel_addr lay virtual_address phys_frame pt_flags pd_flags s =
     map_pages_in_kernel_addr lay virtual_address phys_frame 1 pt_flags pd_flags s"

definition map_pages_in_current_addr :: "paging_layout \<Rightarrow> u32 \<Rightarrow> u32 \<Rightarrow> u32 \<Rightarrow> u32 \<Rightarrow> u32 \<Rightarrow> machine \<Rightarrow> (bool \<times> machine) option" where
  "map_pages_in_current_addr lay virtual_address phys_frame num_of_pages pt_flags pd_flags s =
     map_pages lay (current_page_directory s) virtual_address phys_frame num_of_pages pt_flags pd_flags s"

definition map_page_in_current_addr :: "paging_layout \<Rightarrow> u32 \<Rightarrow> u32 \<Rightarrow> u32 \<Rightarrow> u32 \<Rightarrow> machine \<Rightarrow> (bool \<times> machine) option" where
  "map_page_in_current_addr lay virtual_address phys_frame pt_flags pd_flags s =
     map_pages_in_current_addr lay virtual_address phys_frame 1 pt_flags pd_flags s"

text \<open>\<open>identity_map_page\<close> does not clear the page table it allocates.\<close>

definition identity_map_page :: "paging_layout \<Rightarrow> u32 \<Rightarrow> u32 \<Rightarrow> u32 \<Rightarrow> u32 \<Rightarrow> machine \<Rightarrow> (bool \<times> machine) option" where
  "identity_map_page lay page_directory address pt_flags pd_flags s =
     do {
       let page = address OR pt_flags;
       let entry = page_directory + 4 * table_index address;
       pde \<leftarrow> vread32 s entry;
       s2 \<leftarrow> (if pde AND PD_PRESENT \<noteq> PD_PRESENT
              then do {
                let (pt_phys, s1) = allocate_physical_page lay s;
                vwrite32 s1 entry (pt_phys OR pd_flags)
              }
              else Some s);
       pde' \<leftarrow> vread32 s2 entry;
       let (pt_virt, s3) = map_window lay (return_page_address pde') 514 s2;
       s4 \<leftarrow> vwrite32 s3 (pt_virt + 4 * page_index_in_table address) page;
       Some (True, snd (unmap_window lay 514 s4))
     }"

definition identity_map_pages :: "paging_layout \<Rightarrow> u32 \<Rightarrow> u32 \<Rightarrow> u32 \<Rightarrow> u32 \<Rightarrow> u32 \<Rightarrow> machine \<Rightarrow> (bool \<times> machine) option" where
  "identity_map_pages lay page_directory address num_of_pages pt_flags pd_flags s =
     (if address mod PAGE_SIZE \<noteq> 0 then Some (False, s)
      else for_pages num_of_pages
        (\<lambda>i. identity_map_page lay page_directory (address + i * PAGE_SIZE) pt_flags pd_flags) s)"

definition identity_map_pages_in_kernel_addr :: "paging_layout \<Rightarrow> u32 \<Rightarrow> u32 \<Rightarrow> u32 \<Rightarrow> u32 \<Rightarrow> machine \<Rightarrow> (bool \<times> machine) option" where
  "identity_map_pages_in_kernel_addr lay address num_of_pages pt_flags pd_flags s =
     identity_map_pages lay (kernel_page_directory_ptr s) address num_of_pages pt_flags pd_flags s"

definition identity_map_page_in_kernel_addr :: "paging_layout \<Rightarrow> u32 \<Rightarrow> u32 \<Rightarrow> u32 \<Rightarrow> machine \<Rightarrow> (bool \<times> machine) option" where
  "identity_map_page_in_kernel_addr lay address pt_flags pd_flags s =
     identity_map_pages_in_kernel_addr lay address 1 pt_flags pd_flags s"

definition identity_map_pages_in_current_addr :: "paging_layout \<Rightarrow> u32 \<Rightarrow> u32 \<Rightarrow> u32 \<Rightarrow> u32 \<Rightarrow> machine \<Rightarrow> (bool \<times> machine) option" where
  "identity_map_pages_in_current_addr lay address num_of_pages pt_flags pd_flags s =
     identity_map_pages lay (current_page_directory s) address num_of_pages pt_flags pd_flags s"

definition identity_map_page_in_current_addr :: "paging_layout \<Rightarrow> u32 \<Rightarrow> u32 \<Rightarrow> u32 \<Rightarrow> machine \<Rightarrow> (bool \<times> machine) option" where
  "identity_map_page_in_current_addr lay address pt_flags pd_flags s =
     identity_map_pages_in_current_addr lay address 1 pt_flags pd_flags s"

definition unmap_page :: "paging_layout \<Rightarrow> u32 \<Rightarrow> u32 \<Rightarrow> machine \<Rightarrow> (u32 \<times> machine) option" where
  "unmap_page lay page_directory virtual_address s =
     (if virtual_address mod PAGE_SIZE \<noteq> 0 then Some (0, s)
      else do {
        pde \<leftarrow> vread32 s (page_directory + 4 * table_index virtual_address);
        let (virt_page_table, s1) = map_window lay (return_page_address pde) 512 s;
        let entry = virt_page_table + 4 * page_index_in_table virtual_address;
        pte \<leftarrow> vread32 s1 entry;
        s2 \<leftarrow> vwrite32 s1 entry 0;
        let (_, s3) = unmap_window lay 512 s2;
        Some (return_page_address pte, load_page_directory (V2P (kernel_page_directory lay)) s3)
      })"

definition unmap_pages :: "paging_layout \<Rightarrow> u32 \<Rightarrow> u32 \<Rightarrow> u32 \<Rightarrow> machine \<Rightarrow> (u32 \<times> machine) option" where
  "unmap_pages lay page_directory virtual_address num_of_pages s =
     (if num_of_pages = 0 then Some (0, s)
      else do {
        let page_start = return_page_address virtual_address;
        (ret, s1) \<leftarrow> unmap_page lay page_directory page_start s;
        s2 \<leftarrow> for_up 1 num_of_pages
          (\<lambda>i t. Option.bind t (\<lambda>u. map_option snd (unmap_page lay page_directory (page_start + i * PAGE_SIZE) u)))
          (Some s1);
        Some (ret + return_page_offset virtual_address, s2)
      })"

definition unmap_pages_in_kernel_addr :: "paging_layout \<Rightarrow> u32 \<Rightarrow> u32 \<Rightarrow> machine \<Rightarrow> (u32 \<times> machine) option" where
  "unmap_pages_in_kernel_addr lay virtual_address num_of_pages s =
     unmap_pages lay (kernel_page_directory_ptr s) virtual_address num_of_pages s"

definition unmap_page_in_kernel_addr :: "paging_layout \<Rightarrow> u32 \<Rightarrow> machine \<Rightarrow> (u32 \<times> machine) option" where
  "unmap_page_in_kernel_addr lay virtual_address s = unmap_pages_in_kernel_addr lay virtual_address 1 s"

definition unmap_pages_in_current_addr :: "paging_layout \<Rightarrow> u32 \<Rightarrow> u32 \<Rightarrow> machine \<Rightarrow> (u32 \<times> machine) option" where
  "unmap_pages_in_current_addr lay virtual_address num_of_pages s =
     unmap_pages lay (current_page_directory s) virtual_address num_of_pages s"

definition unmap_page_in_current_addr :: "paging_layout \<Rightarrow> u32 \<Rightarrow> machine \<Rightarrow> (u32 \<times> machine) option" where
  "unmap_page_in_current_addr lay virtual_address s = unmap_pages_in_current_addr lay virtual_address 1 s"

section \<open>Address spaces of processes\<close>

definition map_kernel_inside_user :: "paging_layout \<Rightarrow> process_t \<Rightarrow> machine \<Rightarrow> machine option" where
  "map_kernel_inside_user lay process s =
     do {
       let (virt_page_directory, s1) = map_window lay (physical_cr3 process) 511 s;
       s2 \<leftarrow> for_up 768 1024 (\<lambda>i t. Option.bind t (\<lambda>u. vwrite32 u (virt_page_directory + 4 * i)
              (rd32 (kernel_view u) (kernel_page_directory lay + 4 * i)))) (Some s1);
       Some (snd (unmap_window lay 511 s2))
     }"

definition user_map :: "paging_layout \<Rightarrow> process_t \<Rightarrow> u32 \<Rightarrow> u32 \<Rightarrow> machine \<Rightarrow> (bool \<times> machine) option" where
  "user_map lay process virt physical s =
     do {
       let (virt_page_directory, s1) = map_window lay (physical_cr3 process) 509 s;
       if virt_page_directory = 0 then Some (False, s1)
       else do {
         let entry = virt_page_directory + 4 * table_index virt;
         pde \<leftarrow> vread32 s1 entry;
         s4 \<leftarrow> (if pde AND PD_PRESENT \<noteq> PD_PRESENT
                then do {
                  let (physical_pd, s2) = allocate_physical_page lay s1;
                  s3 \<leftarrow> vwrite32 s2 entry (physical_pd OR PD_RW OR PD_USER OR PD_PRESENT);
                  clear_physical_page lay physical_pd s3
                }
                else Some s1);
         pde' \<leftarrow> vread32 s4 entry;
         let (virt_page_table, s5) = map_window lay (return_page_address pde') 508 s4;
         s6 \<leftarrow> vwrite32 s5 (virt_page_table + 4 * page_index_in_table virt)
                (physical OR PT_RW OR PT_USER OR PT_PRESENT);
         let (_, s7) = unmap_window lay 508 s6;
         Some (True, snd (unmap_window lay 509 s7))
       }
     }"

definition user_map_pages :: "paging_layout \<Rightarrow> process_t \<Rightarrow> u32 \<Rightarrow> u32 \<Rightarrow> u32 \<Rightarrow> machine \<Rightarrow> (bool \<times> machine) option" where
  "user_map_pages lay process virt physical pages s =
     for_pages pages (\<lambda>page. user_map lay process (virt + page * PAGE_SIZE) (physical + page * PAGE_SIZE)) s"

definition get_kernel_page_directory :: "machine \<Rightarrow> u32" where
  "get_kernel_page_directory s = kernel_page_directory_ptr s"

definition set_current_page_directory :: "u32 \<Rightarrow> machine \<Rightarrow> machine" where
  "set_current_page_directory new_current_page_directory s =
     s\<lparr> current_page_directory := new_current_page_directory \<rparr>"

definition get_current_page_directory :: "machine \<Rightarrow> u32" where
  "get_current_page_directory s = current_page_directory s"

definition get_current_page_directory_phys_addr :: "paging_layout \<Rightarrow> machine \<Rightarrow> (u32 \<times> machine) option" where
  "get_current_page_directory_phys_addr lay s =
     get_physical_address_in_current_addr lay (current_page_directory s) s"

section \<open>Memory behind a pointer: physical\_pointer.c\<close>

record physical_pointer =
  phys_addr :: u32
  phys_pages :: u32
  phys_virt :: u32

definition create_physical_pointer :: "paging_layout \<Rightarrow> u32 \<Rightarrow> u32 \<Rightarrow> machine \<Rightarrow> (physical_pointer \<times> machine) option" where
  "create_physical_pointer lay phys_p pages_p s =
     (if pages_p > 0
      then let (virt, m) = kernel_virt_allocator_allocate_pages (allocators lay) pages_p (kernel_view s);
               s1 = set_kernel_view m s
           in if virt \<noteq> 0
              then do {
                (ok, s2) \<leftarrow> map_pages_in_kernel_addr lay virt phys_p pages_p
                             (PT_PRESENT OR PT_RW) (PD_PRESENT OR PD_RW) s1;
                if \<not> ok then Some (\<lparr> phys_addr = phys_p, phys_pages = pages_p, phys_virt = 0 \<rparr>, s2)
                else Some (\<lparr> phys_addr = phys_p, phys_pages = pages_p, phys_virt = virt \<rparr>, s2)
              }
              else Some (\<lparr> phys_addr = phys_p, phys_pages = pages_p, phys_virt = 0 \<rparr>, s1)
      else Some (\<lparr> phys_addr = phys_p, phys_pages = 0, phys_virt = 0 \<rparr>, s))"

definition free_physical_pointer ::
  "paging_layout \<Rightarrow> physical_pointer \<Rightarrow> machine \<Rightarrow> (bool \<times> physical_pointer \<times> machine) option" where
  "free_physical_pointer lay pp s =
     do {
       (_, s1) \<leftarrow> unmap_pages_in_kernel_addr lay (phys_virt pp) (phys_pages pp) s;
       (ok, m) \<leftarrow> kernel_virt_allocator_free_pages (allocators lay) (phys_virt pp) (phys_pages pp) (kernel_view s1);
       let s2 = set_kernel_view m s1;
       if \<not> ok then Some (False, pp, s2)
       else Some (True, pp\<lparr> phys_virt := 0, phys_pages := 0 \<rparr>, s2)
     }"

end
