(* ===== verification/PagingProps.thy ===== *)
theory PagingProps
  imports Paging
begin

text \<open>
  What paging guarantees.  \<open>window_ready\<close> is the state the operations of Paging keep: the kernel
  page directory is loaded, maps itself writable, and its last entry is the table of the window
  for short-term mappings.  The lemmas up to \<open>set_entry_load\<close> are the frame conditions of stores to
  table entries; \<open>map_page_effect\<close> and \<open>unmap_page_effect\<close> give the memory after an operation, and
  the properties read it through the processor's translation.
\<close>

unbundle bit_operations_syntax

section \<open>Entries of tables\<close>

abbreviation page_aligned :: "u32 \<Rightarrow> bool" where
  "page_aligned a \<equiv> 4096 dvd unat a"

lemma page_masks: "(0xFFFFF000 :: u32) = NOT (mask 12)" "(0xFFF :: u32) = mask 12"
  by (simp_all add: mask_eq_exp_minus_1)

lemma return_page_address_unat: "unat (return_page_address a) = unat a div 4096 * 4096"
proof -
  have "return_page_address a = push_bit 12 (drop_bit 12 a)"
    by (rule bit_word_eqI) (auto simp: return_page_address_def page_masks bit_simps)
  moreover have "unat (drop_bit 12 a) = unat a div 4096"
    using unat_shift_right [of 12 a] by simp
  moreover have "unat a div 4096 * 4096 \<le> unat a" by simp
  ultimately show ?thesis
    using unat_less_u32 [of a]
    by (simp add: push_bit_eq_mult unat_word_ariths mult.commute)
qed

lemma return_page_offset_unat: "unat (return_page_offset a) = unat a mod 4096"
  unfolding return_page_offset_def page_masks
  by (simp add: unsigned_take_bit_eq take_bit_eq_mod unat_mod_distrib flip: take_bit_eq_mask)

lemma page_split: "return_page_address a OR return_page_offset a = a"
  by (rule bit_word_eqI) (auto simp: return_page_address_def return_page_offset_def page_masks bit_simps)

lemma return_page_address_aligned: "page_aligned (return_page_address a)"
  by (simp add: return_page_address_unat)

lemma return_page_address_id: "page_aligned a \<Longrightarrow> return_page_address a = a"
  by (simp add: word_unat_eq_iff return_page_address_unat)

lemma table_index_unat: "unat (table_index a) = unat a div 4194304"
  by (simp add: table_index_def PAGE_SIZE_def unat_div_distrib div_mult2_eq [symmetric])

lemma page_index_unat: "unat (page_index_in_table a) = unat a div 4096 mod 1024"
  by (simp add: page_index_in_table_def PAGE_SIZE_def unat_div_distrib unat_mod_distrib)

lemma entry_unat:
  "\<lbrakk> page_aligned t; unat i < 1024 \<rbrakk> \<Longrightarrow> unat (t + 4 * i) = unat t + 4 * unat i"
proof -
  assume t: "page_aligned t" and i: "unat i < 1024"
  have "unat t < 4294967296" by (rule unat_less_u32)
  then have u: "unat t + 4 * unat i < 4294967296" using t i by (auto elim!: dvdE)
  have "unat (4 * i) = 4 * unat i" using i by (simp add: unat_word_ariths)
  then show ?thesis using u by (simp add: unat_word_ariths)
qed

lemma entry_aligned: "\<lbrakk> page_aligned t; unat i < 1024 \<rbrakk> \<Longrightarrow> aligned4 (t + 4 * i)"
  by (auto simp: entry_unat elim!: dvdE)

lemma entry_inj:
  assumes "page_aligned t" "unat i < 1024" "page_aligned u" "unat j < 1024"
  shows "t + 4 * i = u + 4 * j \<longleftrightarrow> t = u \<and> i = j"
proof -
  obtain k l where k: "unat t = 4096 * k" and l: "unat u = 4096 * l"
    using assms(1,3) by (auto elim!: dvdE)
  have "(4096 * k + 4 * unat i) div 4096 = k" "(4096 * l + 4 * unat j) div 4096 = l"
    using assms(2,4) by simp_all
  then have "4096 * k + 4 * unat i = 4096 * l + 4 * unat j \<longleftrightarrow> k = l \<and> unat i = unat j"
    by (metis add_left_cancel mult_left_cancel zero_neq_numeral)
  moreover have "t + 4 * i = u + 4 * j \<longleftrightarrow> 4096 * k + 4 * unat i = 4096 * l + 4 * unat j"
    using assms k l by (simp add: word_unat_eq_iff entry_unat)
  ultimately show ?thesis using k l by (simp add: word_unat_eq_iff)
qed

lemma entry_store_load:
  assumes "page_aligned t" "unat i < 1024" "page_aligned u" "unat j < 1024"
  shows "rd32 (wr32 m (t + 4 * i) v) (u + 4 * j) = (if u = t \<and> j = i then v else rd32 m (u + 4 * j))"
  using entry_aligned [OF assms(1,2)] entry_aligned [OF assms(3,4)] entry_inj [OF assms(3,4,1,2)] by auto

lemma table_index_less [simp]: "unat (table_index a) < 1024"
  using unat_less_u32 [of a] by (simp add: table_index_unat)

lemma page_index_less [simp]: "unat (page_index_in_table a) < 1024"
  by (simp add: page_index_unat)

text \<open>An entry with its flags: the flags do not reach the address of the frame.\<close>

lemma page_aligned_and: "page_aligned f \<Longrightarrow> unat g < 4096 \<Longrightarrow> f AND g = 0"
proof -
  assume f: "page_aligned f" and g: "unat g < 4096"
  have "g = g AND mask 12"
    using g by (simp add: word_unat_eq_iff unsigned_take_bit_eq take_bit_nat_eq_self flip: take_bit_eq_mask)
  moreover have "f = f AND NOT (mask 12)"
    using return_page_address_id [OF f] by (simp add: return_page_address_def page_masks)
  moreover have "(f AND NOT (mask 12)) AND (g AND mask 12) = 0"
    by (rule bit_word_eqI) (auto simp: bit_simps)
  ultimately show ?thesis by simp
qed

lemma frame_offset:
  assumes "page_aligned f" "unat d < 4096"
  shows "f OR d = f + d"
  by (rule disjunctive_add_eq_or [symmetric]) (rule page_aligned_and [OF assms])

lemma frame_offset_unat:
  assumes "page_aligned f" "unat d < 4096"
  shows "unat (f + d) = unat f + unat d"
proof -
  obtain k where "unat f = 4096 * k" using assms(1) by (rule dvdE)
  moreover have "unat f < 4294967296" by (rule unat_less_u32)
  ultimately have "unat f + unat d < 4294967296" using assms(2) by simp
  then show ?thesis by (simp add: unat_word_ariths)
qed

lemma entry_frame:
  assumes "page_aligned f" "unat fl < 4096"
  shows "return_page_address (f OR fl) = f"
proof -
  obtain k where "unat f = 4096 * k" using assms(1) by (rule dvdE)
  then show ?thesis
    using assms by (simp add: frame_offset word_unat_eq_iff return_page_address_unat frame_offset_unat)
qed

section \<open>The kernel view\<close>

lemma V2P_P2V [simp]: "V2P (P2V a) = a" "P2V (V2P a) = a"
  by (simp_all add: V2P_def P2V_def)

lemma kernel_view_store [simp]:
  "set_kernel_view (wr32 (kernel_view s) a v) s = s\<lparr> pmem := wr32 (pmem s) (V2P a) v \<rparr>"
proof -
  have "P2V b = a + k \<longleftrightarrow> b = V2P a + k" for b k by (auto simp: V2P_def P2V_def algebra_simps)
  from this [of _ 0] this show ?thesis
    by (simp add: set_kernel_view_def kernel_view_def wr32_def fun_eq_iff)
qed

lemma kernel_view_load: "rd32 (kernel_view s) a = rd32 (pmem s) (V2P a)"
proof -
  have "V2P (a + k) = V2P a + k" for k by (simp add: V2P_def)
  then show ?thesis by (simp add: kernel_view_def rd32_def)
qed

section \<open>The state paging keeps\<close>

abbreviation kdir :: "paging_layout \<Rightarrow> u32" where
  "kdir lay \<equiv> V2P (kernel_page_directory lay)"

abbreviation kmap :: "paging_layout \<Rightarrow> u32" where
  "kmap lay \<equiv> V2P (mapping_page_table lay)"

text \<open>The table an entry of the kernel page directory refers to, and the one that maps the
  directory itself.\<close>

definition table_of :: "paging_layout \<Rightarrow> machine \<Rightarrow> u32 \<Rightarrow> u32" where
  "table_of lay s a = return_page_address (rd32 (pmem s) (kdir lay + 4 * table_index a))"

definition window_ready :: "paging_layout \<Rightarrow> machine \<Rightarrow> bool" where
  "window_ready lay s \<longleftrightarrow>
     page_aligned (kdir lay) \<and> page_aligned (kmap lay) \<and> kdir lay \<noteq> kmap lay \<and>
     loaded_cr3 s = kdir lay \<and> current_page_directory s = kernel_page_directory lay \<and>
     kernel_page_directory_ptr s = kernel_page_directory lay \<and>
     rd32 (pmem s) (kdir lay + 4 * 1023) = (kmap lay OR PD_PRESENT OR PD_RW) \<and>
     (let d = kernel_page_directory lay
      in table_index d \<noteq> 1023 \<and> table_of lay s d \<noteq> kdir lay \<and> table_of lay s d \<noteq> kmap lay \<and>
         rd32 (pmem s) (kdir lay + 4 * table_index d) AND 3 = 3 \<and>
         rd32 (pmem s) (table_of lay s d + 4 * page_index_in_table d) = (kdir lay OR PT_PRESENT OR PT_RW))"

lemma flags_and_3: "x AND 3 = 3 \<Longrightarrow> x AND PD_PRESENT \<noteq> 0 \<and> x AND PD_RW \<noteq> 0" for x :: u32
proof -
  assume "x AND 3 = 3"
  moreover have "x AND 1 = (x AND 3) AND 1" "x AND 2 = (x AND 3) AND 2"
    by (simp_all add: and.assoc)
  ultimately show ?thesis by (simp add: paging_flags)
qed

lemma present_bit: "x AND PD_PRESENT \<noteq> PD_PRESENT \<longleftrightarrow> x AND PD_PRESENT = 0"
    "x AND PT_PRESENT \<noteq> PT_PRESENT \<longleftrightarrow> x AND PT_PRESENT = 0" for x :: u32
  by (simp_all add: paging_flags and_one_eq)

text \<open>A pointer into a page: the same entries, another offset.\<close>

lemma page_offset_indices:
  assumes "page_aligned p" "unat d < 4096"
  shows "table_index (p + d) = table_index p" "page_index_in_table (p + d) = page_index_in_table p"
    "return_page_offset (p + d) = d"
proof -
  obtain k where k: "unat p = 4096 * k" using assms(1) by (rule dvdE)
  have u: "unat (p + d) = 4096 * k + unat d" using frame_offset_unat [OF assms] k by simp
  have "(4096 * k + unat d) div 4096 = k" "(4096 * k + unat d) div 4194304 = k div 1024"
    using assms(2) by simp_all
  then show "table_index (p + d) = table_index p" "page_index_in_table (p + d) = page_index_in_table p"
    using k u by (simp_all add: word_unat_eq_iff table_index_unat page_index_unat)
  show "return_page_offset (p + d) = d"
    using u assms(2) by (simp add: word_unat_eq_iff return_page_offset_unat)
qed

lemma window_indices:
  assumes "unat i < 1024"
  shows "page_aligned (ARBITRARY_MAPPING_REGION_START + i * PAGE_SIZE)"
    "table_index (ARBITRARY_MAPPING_REGION_START + i * PAGE_SIZE) = 1023"
    "page_index_in_table (ARBITRARY_MAPPING_REGION_START + i * PAGE_SIZE) = i"
proof -
  have "unat (i * PAGE_SIZE) = 4096 * unat i"
    using assms by (simp add: PAGE_SIZE_def unat_word_ariths)
  then have u: "unat (ARBITRARY_MAPPING_REGION_START + i * PAGE_SIZE) = 4096 * (1047552 + unat i)"
    using assms by (simp add: ARBITRARY_MAPPING_REGION_START_def PAGE_SIZE_def unat_word_ariths)
  then show "page_aligned (ARBITRARY_MAPPING_REGION_START + i * PAGE_SIZE)" by (metis dvd_triv_left)
  have "(1024 * 1023 + unat i) div 1024 = 1023" "(1024 * 1023 + unat i) mod 1024 = unat i"
    using assms unfolding div_mult_self4 mod_mult_self4 by simp_all
  then have "(1047552 + unat i) div 1024 = 1023" "(1047552 + unat i) mod 1024 = unat i" by simp_all
  then show "table_index (ARBITRARY_MAPPING_REGION_START + i * PAGE_SIZE) = 1023"
    "page_index_in_table (ARBITRARY_MAPPING_REGION_START + i * PAGE_SIZE) = i"
    using u by (simp_all add: word_unat_eq_iff table_index_unat page_index_unat)
qed

lemma page_walk_Some:
  assumes "rd32 pm (d + 4 * table_index a) = pde" "pde AND PD_PRESENT \<noteq> 0"
    "rd32 pm (return_page_address pde + 4 * page_index_in_table a) = pte" "pte AND PT_PRESENT \<noteq> 0"
  shows "page_walk pm d a = Some (pde, pte)"
  using assms by (simp add: page_walk_def)

lemma rw_entry:
  assumes "page_aligned f"
  shows "return_page_address (f OR PD_PRESENT OR PD_RW) = f"
    "(f OR PD_PRESENT OR PD_RW) AND PD_PRESENT \<noteq> 0" "(f OR PD_PRESENT OR PD_RW) AND PD_RW \<noteq> 0"
proof -
  have "f OR PD_PRESENT OR PD_RW = f OR 3" by (simp add: paging_flags or.assoc)
  then show "return_page_address (f OR PD_PRESENT OR PD_RW) = f"
    using entry_frame [OF assms, of 3] by simp
  show "(f OR PD_PRESENT OR PD_RW) AND PD_PRESENT \<noteq> 0" "(f OR PD_PRESENT OR PD_RW) AND PD_RW \<noteq> 0"
    by (simp_all add: paging_flags bit.conj_disj_distrib2)
qed

lemma pt_flags_as_pd: "PT_PRESENT = PD_PRESENT" "PT_RW = PD_RW"
  by (simp_all add: paging_flags)

text \<open>The pointer to the page directory and the pointers the window hands out.\<close>

lemma directory_pointer:
  assumes w: "window_ready lay s" and i: "unat i < 1024"
  shows "translate s (kernel_page_directory lay + 4 * i) = Some (kdir lay + 4 * i)"
    "translate_write s (kernel_page_directory lay + 4 * i) = Some (kdir lay + 4 * i)"
proof -
  let ?d = "kernel_page_directory lay"
  have al: "page_aligned (kdir lay)" using w by (simp add: window_ready_def)
  have "?d = kdir lay + 0xC0000000" by (simp add: V2P_def KERNEL_OFFSET_def)
  moreover have "4096 dvd unat (kdir lay + 0xC0000000)"
    using al by (simp add: unat_word_ariths dvd_mod)
  ultimately have d: "page_aligned ?d" by simp
  have four: "unat (4 * i) < 4096" using i by (simp add: unat_word_ariths)
  note ix = page_offset_indices [OF d four]
  have walk: "page_walk (pmem s) (loaded_cr3 s) (?d + 4 * i) =
      Some (rd32 (pmem s) (kdir lay + 4 * table_index ?d), kdir lay OR PD_PRESENT OR PD_RW)"
    using w flags_and_3 rw_entry [OF al]
    by (intro page_walk_Some) (auto simp: window_ready_def ix table_of_def Let_def pt_flags_as_pd)
  have rw: "rd32 (pmem s) (kdir lay + 4 * table_index ?d) AND PD_RW \<noteq> 0"
    using w flags_and_3 by (simp add: window_ready_def Let_def)
  show "translate s (?d + 4 * i) = Some (kdir lay + 4 * i)"
    "translate_write s (?d + 4 * i) = Some (kdir lay + 4 * i)"
    using rw rw_entry [OF al]
    by (simp_all add: translate_def translate_write_def walk ix pt_flags_as_pd frame_offset [OF al four])
qed

lemma window_map:
  assumes w: "window_ready lay s" and i: "unat i < 1024" and f: "page_aligned f"
  shows "map_window lay f i s =
    (ARBITRARY_MAPPING_REGION_START + i * PAGE_SIZE,
     s\<lparr> pmem := wr32 (pmem s) (kmap lay + 4 * i) (f OR PT_PRESENT OR PT_RW) \<rparr>)"
proof -
  have "V2P (mapping_page_table lay + 4 * i) = kmap lay + 4 * i" by (simp add: V2P_def)
  moreover have "i \<le> 1023" using i by (simp add: word_le_nat_alt)
  ultimately show ?thesis
    using w return_page_address_id
    by (simp add: map_to_arbitrary_kernel_virt_page_in_current_addr_def load_page_directory_def
        window_ready_def)
qed

lemma window_unmap:
  assumes w: "window_ready lay s" and i: "unat i < 1024"
  shows "unmap_window lay i s = (True, s\<lparr> pmem := wr32 (pmem s) (kmap lay + 4 * i) 0 \<rparr>)"
proof -
  have "V2P (mapping_page_table lay + 4 * i) = kmap lay + 4 * i" by (simp add: V2P_def)
  moreover have "i \<le> 1023" using i by (simp add: word_le_nat_alt)
  ultimately show ?thesis
    using w return_page_address_id
    by (simp add: unmap_arbitrary_kernel_virt_page_in_current_addr_def load_page_directory_def
        window_ready_def)
qed


text \<open>A store to an entry that the window does not depend on keeps it ready.\<close>

lemma window_ready_store:
  assumes w: "window_ready lay s" and e: "aligned4 e"
    and other: "e \<noteq> kdir lay + 4 * 1023" "e \<noteq> kdir lay + 4 * table_index (kernel_page_directory lay)"
      "e \<noteq> table_of lay s (kernel_page_directory lay) + 4 * page_index_in_table (kernel_page_directory lay)"
  shows "window_ready lay (s\<lparr> pmem := wr32 (pmem s) e v \<rparr>)"
proof -
  let ?d = "kernel_page_directory lay"
  have al: "page_aligned (kdir lay)" using w by (simp add: window_ready_def)
  have 1: "aligned4 (kdir lay + 4 * i)" if "unat i < 1024" for i using al that by (rule entry_aligned)
  have "aligned4 (table_of lay s ?d + 4 * page_index_in_table ?d)"
    by (rule entry_aligned) (simp_all add: table_of_def return_page_address_aligned)
  then have eqs: "rd32 (wr32 (pmem s) e v) (kdir lay + 4 * 1023) = rd32 (pmem s) (kdir lay + 4 * 1023)"
    "rd32 (wr32 (pmem s) e v) (kdir lay + 4 * table_index ?d) = rd32 (pmem s) (kdir lay + 4 * table_index ?d)"
    "rd32 (wr32 (pmem s) e v) (table_of lay s ?d + 4 * page_index_in_table ?d) =
     rd32 (pmem s) (table_of lay s ?d + 4 * page_index_in_table ?d)"
    using e 1 [of 1023] 1 [of "table_index ?d"] other by simp_all
  then have "table_of lay (s\<lparr> pmem := wr32 (pmem s) e v \<rparr>) ?d = table_of lay s ?d"
    by (simp add: table_of_def)
  then show ?thesis using w eqs by (simp add: window_ready_def Let_def)
qed

lemma window_entry:
  assumes w: "window_ready lay s" and i: "unat i < 1024"
  shows "window_ready lay (s\<lparr> pmem := wr32 (pmem s) (kmap lay + 4 * i) v \<rparr>)"
proof (rule window_ready_store [OF w])
  have al: "page_aligned (kdir lay)" "page_aligned (kmap lay)" "kdir lay \<noteq> kmap lay"
    "table_of lay s (kernel_page_directory lay) \<noteq> kmap lay"
    using w by (simp_all add: window_ready_def Let_def)
  show "aligned4 (kmap lay + 4 * i)" using al(2) i by (rule entry_aligned)
  show "kmap lay + 4 * i \<noteq> kdir lay + 4 * 1023"
    "kmap lay + 4 * i \<noteq> kdir lay + 4 * table_index (kernel_page_directory lay)"
    using entry_inj [OF al(2) i al(1), of 1023] entry_inj [OF al(2) i al(1), of "table_index (kernel_page_directory lay)"] al(3)
    by simp_all
  have "page_aligned (table_of lay s (kernel_page_directory lay))"
    by (simp add: table_of_def return_page_address_aligned)
  then show "kmap lay + 4 * i \<noteq> table_of lay s (kernel_page_directory lay) +
      4 * page_index_in_table (kernel_page_directory lay)"
    using entry_inj [OF al(2) i] al(4) by simp
qed

text \<open>A pointer from the window reaches the frame its entry holds.\<close>

lemma window_byte:
  assumes w: "window_ready lay s" and i: "unat i < 1024" and d: "unat d < 4096"
    and f: "page_aligned f" and e: "rd32 (pmem s) (kmap lay + 4 * i) = (f OR PT_PRESENT OR PT_RW)"
  shows "translate s (ARBITRARY_MAPPING_REGION_START + i * PAGE_SIZE + d) = Some (f + d)"
    "translate_write s (ARBITRARY_MAPPING_REGION_START + i * PAGE_SIZE + d) = Some (f + d)"
proof -
  have al: "page_aligned (kmap lay)" using w by (simp add: window_ready_def)
  note ix = page_offset_indices [OF window_indices(1) [OF i] d] window_indices(2,3) [OF i]
  have walk: "page_walk (pmem s) (loaded_cr3 s) (ARBITRARY_MAPPING_REGION_START + i * PAGE_SIZE + d) =
      Some (kmap lay OR PD_PRESENT OR PD_RW, f OR PT_PRESENT OR PT_RW)"
    using w e rw_entry [OF al] rw_entry [OF f]
    by (intro page_walk_Some) (simp_all add: ix window_ready_def pt_flags_as_pd)
  show "translate s (ARBITRARY_MAPPING_REGION_START + i * PAGE_SIZE + d) = Some (f + d)"
    "translate_write s (ARBITRARY_MAPPING_REGION_START + i * PAGE_SIZE + d) = Some (f + d)"
    using rw_entry [OF al] rw_entry [OF f]
    by (simp_all add: translate_def translate_write_def walk ix pt_flags_as_pd frame_offset [OF f d])
qed

lemma window_pointer:
  assumes w: "window_ready lay s" and i: "unat i < 1024" and j: "unat j < 1024"
    and f: "page_aligned f" and e: "rd32 (pmem s) (kmap lay + 4 * i) = (f OR PT_PRESENT OR PT_RW)"
  shows "translate s (ARBITRARY_MAPPING_REGION_START + i * PAGE_SIZE + 4 * j) = Some (f + 4 * j)"
    "translate_write s (ARBITRARY_MAPPING_REGION_START + i * PAGE_SIZE + 4 * j) = Some (f + 4 * j)"
proof -
  have "unat (4 * j) < 4096" using j by (simp add: unat_word_ariths)
  from window_byte [OF w i this f e]
  show "translate s (ARBITRARY_MAPPING_REGION_START + i * PAGE_SIZE + 4 * j) = Some (f + 4 * j)"
    "translate_write s (ARBITRARY_MAPPING_REGION_START + i * PAGE_SIZE + 4 * j) = Some (f + 4 * j)" by simp_all
qed


text \<open>The loads and stores of the mapping operations, in physical memory.\<close>

lemma directory_load:
  assumes "window_ready lay s" "unat i < 1024"
  shows "vread32 s (kernel_page_directory lay + 4 * i) = Some (rd32 (pmem s) (kdir lay + 4 * i))"
  using directory_pointer [OF assms] by (simp add: vread32_def)

text \<open>A table through the window: open entry \<open>i\<close> on the table, access an entry, close it.\<close>

definition set_entry :: "paging_layout \<Rightarrow> u32 \<Rightarrow> u32 \<Rightarrow> u32 \<Rightarrow> u32 \<Rightarrow> mem \<Rightarrow> mem" where
  "set_entry lay i t j v pm =
     wr32 (wr32 (wr32 pm (kmap lay + 4 * i) (t OR PT_PRESENT OR PT_RW)) (t + 4 * j) v) (kmap lay + 4 * i) 0"

lemma set_entry_load:
  assumes "page_aligned (kmap lay)" "page_aligned t" "t \<noteq> kmap lay" "unat i < 1024" "unat j < 1024"
    "aligned4 e"
  shows "rd32 (set_entry lay i t j v pm) e =
    (if e = kmap lay + 4 * i then 0 else if e = t + 4 * j then v else rd32 pm e)"
  using entry_aligned [OF assms(1,4)] entry_aligned [OF assms(2,5)] assms(6)
  by (simp add: set_entry_def)

lemma window_store:
  assumes w: "window_ready lay s" and i: "unat i < 1024" and j: "unat j < 1024"
    and t: "page_aligned t" "t \<noteq> kmap lay"
    and safe: "t + 4 * j \<noteq> kdir lay + 4 * 1023" "t + 4 * j \<noteq> kdir lay + 4 * table_index (kernel_page_directory lay)"
      "t + 4 * j \<noteq> table_of lay s (kernel_page_directory lay) + 4 * page_index_in_table (kernel_page_directory lay)"
  shows "\<exists>s1 s2. map_window lay t i s = (ARBITRARY_MAPPING_REGION_START + i * PAGE_SIZE, s1) \<and>
    vread32 s1 (ARBITRARY_MAPPING_REGION_START + i * PAGE_SIZE + 4 * j) = Some (rd32 (pmem s) (t + 4 * j)) \<and>
    vwrite32 s1 (ARBITRARY_MAPPING_REGION_START + i * PAGE_SIZE + 4 * j) v = Some s2 \<and>
    unmap_window lay i s2 = (True, s\<lparr> pmem := set_entry lay i t j v (pmem s) \<rparr>) \<and>
    window_ready lay (s\<lparr> pmem := set_entry lay i t j v (pmem s) \<rparr>)"
proof -
  let ?e = "kmap lay + 4 * i" and ?d = "kernel_page_directory lay"
  let ?s1 = "s\<lparr> pmem := wr32 (pmem s) ?e (t OR PT_PRESENT OR PT_RW) \<rparr>"
  let ?s2 = "?s1\<lparr> pmem := wr32 (pmem ?s1) (t + 4 * j) v \<rparr>"
  have al: "page_aligned (kmap lay)" using w by (simp add: window_ready_def)
  have w1: "window_ready lay ?s1" by (rule window_entry [OF w i])
  have "rd32 (pmem ?s1) ?e = (t OR PT_PRESENT OR PT_RW)" by simp
  note ptr = window_pointer [OF w1 i j t(1) this]
  have e: "aligned4 ?e" "aligned4 (t + 4 * j)" "?e \<noteq> t + 4 * j"
    using entry_aligned [OF al i] entry_aligned [OF t(1) j] entry_inj [OF al i t(1) j] t(2) by auto
  have "?e \<noteq> kdir lay + 4 * table_index ?d" "aligned4 (kdir lay + 4 * table_index ?d)"
    using w entry_inj [OF al i, of "kdir lay" "table_index ?d"] entry_aligned [of "kdir lay" "table_index ?d"]
    by (auto simp: window_ready_def)
  then have tab: "table_of lay ?s1 ?d = table_of lay s ?d" using e by (simp add: table_of_def)
  have w2: "window_ready lay ?s2"
    by (rule window_ready_store [OF w1 e(2)]) (use safe tab in auto)
  have "unmap_window lay i ?s2 = (True, ?s2\<lparr> pmem := wr32 (pmem ?s2) ?e 0 \<rparr>)"
    by (rule window_unmap [OF w2 i])
  moreover have "?s2\<lparr> pmem := wr32 (pmem ?s2) ?e 0 \<rparr> = s\<lparr> pmem := set_entry lay i t j v (pmem s) \<rparr>"
    by (simp add: set_entry_def)
  moreover have "window_ready lay (?s2\<lparr> pmem := wr32 (pmem ?s2) ?e 0 \<rparr>)" by (rule window_entry [OF w2 i])
  moreover have "map_window lay t i s = (ARBITRARY_MAPPING_REGION_START + i * PAGE_SIZE, ?s1)"
    by (rule window_map [OF w i t(1)])
  moreover have "vread32 ?s1 (ARBITRARY_MAPPING_REGION_START + i * PAGE_SIZE + 4 * j) = Some (rd32 (pmem s) (t + 4 * j))"
    using ptr(1) e by (simp add: vread32_def)
  moreover have "vwrite32 ?s1 (ARBITRARY_MAPPING_REGION_START + i * PAGE_SIZE + 4 * j) v = Some ?s2"
    using ptr(2) by (simp add: vwrite32_def)
  ultimately show ?thesis by metis
qed

text \<open>A page of the kernel address space that has a page table other than the tables of the window.\<close>

definition mappable :: "paging_layout \<Rightarrow> machine \<Rightarrow> u32 \<Rightarrow> bool" where
  "mappable lay s a \<longleftrightarrow> page_aligned a \<and>
     rd32 (pmem s) (kdir lay + 4 * table_index a) AND PD_PRESENT \<noteq> 0 \<and>
     table_of lay s a \<noteq> kdir lay \<and> table_of lay s a \<noteq> kmap lay \<and>
     (let d = kernel_page_directory lay
      in \<not> (table_of lay s a = table_of lay s d \<and> page_index_in_table a = page_index_in_table d))"

lemma page_aligned_mod: "page_aligned a \<longleftrightarrow> a mod PAGE_SIZE = 0"
  by (simp add: PAGE_SIZE_def word_unat_eq_iff unat_mod_distrib mod_eq_0_iff_dvd)

lemma mappable_store:
  assumes w: "window_ready lay s" and m: "mappable lay s a" and i: "unat i < 1024"
  shows "\<exists>s1 s2. map_window lay (table_of lay s a) i s = (ARBITRARY_MAPPING_REGION_START + i * PAGE_SIZE, s1) \<and>
    vread32 s1 (ARBITRARY_MAPPING_REGION_START + i * PAGE_SIZE + 4 * page_index_in_table a) =
      Some (rd32 (pmem s) (table_of lay s a + 4 * page_index_in_table a)) \<and>
    vwrite32 s1 (ARBITRARY_MAPPING_REGION_START + i * PAGE_SIZE + 4 * page_index_in_table a) v = Some s2 \<and>
    unmap_window lay i s2 =
      (True, s\<lparr> pmem := set_entry lay i (table_of lay s a) (page_index_in_table a) v (pmem s) \<rparr>) \<and>
    window_ready lay (s\<lparr> pmem := set_entry lay i (table_of lay s a) (page_index_in_table a) v (pmem s) \<rparr>)"
proof (rule window_store [OF w i page_index_less])
  let ?t = "table_of lay s a" and ?d = "kernel_page_directory lay"
  show t: "page_aligned ?t" by (simp add: table_of_def return_page_address_aligned)
  show "?t \<noteq> kmap lay" using m by (simp add: mappable_def)
  have al: "page_aligned (kdir lay)" using w by (simp add: window_ready_def)
  show "?t + 4 * page_index_in_table a \<noteq> kdir lay + 4 * 1023"
    "?t + 4 * page_index_in_table a \<noteq> kdir lay + 4 * table_index ?d"
    using m entry_inj [OF t page_index_less al, of 1023 a]
      entry_inj [OF t page_index_less al, of "table_index ?d" a] by (simp_all add: mappable_def)
  have "page_aligned (table_of lay s ?d)" by (simp add: table_of_def return_page_address_aligned)
  then show "?t + 4 * page_index_in_table a \<noteq> table_of lay s ?d + 4 * page_index_in_table ?d"
    using m entry_inj [OF t page_index_less, of "table_of lay s ?d" "page_index_in_table ?d" a]
    by (auto simp: mappable_def Let_def)
qed

lemma map_page_effect:
  assumes w: "window_ready lay s" and m: "mappable lay s a" and f: "page_aligned f"
  shows "map_page lay (kernel_page_directory lay) a f pt_flags pd_flags s =
    Some (True, s\<lparr> pmem := set_entry lay 512 (table_of lay s a) (page_index_in_table a) (f OR pt_flags) (pmem s) \<rparr>)"
proof -
  have 512: "unat (512 :: u32) < 1024" by simp
  obtain s1 s2 where
    map: "map_window lay (table_of lay s a) 512 s = (ARBITRARY_MAPPING_REGION_START + 512 * PAGE_SIZE, s1)" and
    store: "vwrite32 s1 (ARBITRARY_MAPPING_REGION_START + 512 * PAGE_SIZE + 4 * page_index_in_table a) (f OR pt_flags) = Some s2" and
    unmap: "unmap_window lay 512 s2 = (True, s\<lparr> pmem := set_entry lay 512 (table_of lay s a)
      (page_index_in_table a) (f OR pt_flags) (pmem s) \<rparr>)"
    using mappable_store [OF w m 512, of "f OR pt_flags"] by blast
  have load: "vread32 s (kernel_page_directory lay + 4 * table_index a) =
      Some (rd32 (pmem s) (kdir lay + 4 * table_index a))"
    by (rule directory_load [OF w]) simp
  have "page_aligned a" and present: "rd32 (pmem s) (kdir lay + 4 * table_index a) AND PD_PRESENT \<noteq> 0"
    using m by (simp_all add: mappable_def)
  moreover have "load_page_directory (kdir lay) (s\<lparr> pmem := x \<rparr>) = s\<lparr> pmem := x \<rparr>" for x
    using w return_page_address_id by (simp add: load_page_directory_def window_ready_def)
  ultimately show ?thesis
    using f map store unmap load present
    by (simp add: map_page_def page_aligned_mod present_bit table_of_def [symmetric])
qed

lemma unmap_page_effect:
  assumes w: "window_ready lay s" and m: "mappable lay s a"
  shows "unmap_page lay (kernel_page_directory lay) a s =
    Some (return_page_address (rd32 (pmem s) (table_of lay s a + 4 * page_index_in_table a)),
      s\<lparr> pmem := set_entry lay 512 (table_of lay s a) (page_index_in_table a) 0 (pmem s) \<rparr>)"
proof -
  have 512: "unat (512 :: u32) < 1024" by simp
  obtain s1 s2 where
    map: "map_window lay (table_of lay s a) 512 s = (ARBITRARY_MAPPING_REGION_START + 512 * PAGE_SIZE, s1)" and
    load1: "vread32 s1 (ARBITRARY_MAPPING_REGION_START + 512 * PAGE_SIZE + 4 * page_index_in_table a) =
      Some (rd32 (pmem s) (table_of lay s a + 4 * page_index_in_table a))" and
    store: "vwrite32 s1 (ARBITRARY_MAPPING_REGION_START + 512 * PAGE_SIZE + 4 * page_index_in_table a) 0 = Some s2" and
    unmap: "unmap_window lay 512 s2 = (True, s\<lparr> pmem := set_entry lay 512 (table_of lay s a)
      (page_index_in_table a) 0 (pmem s) \<rparr>)"
    using mappable_store [OF w m 512, of 0] by blast
  have load: "vread32 s (kernel_page_directory lay + 4 * table_index a) =
      Some (rd32 (pmem s) (kdir lay + 4 * table_index a))"
    by (rule directory_load [OF w]) simp
  have "page_aligned a" using m by (simp add: mappable_def)
  moreover have "load_page_directory (kdir lay) (s\<lparr> pmem := x \<rparr>) = s\<lparr> pmem := x \<rparr>" for x
    using w return_page_address_id by (simp add: load_page_directory_def window_ready_def)
  ultimately show ?thesis
    using map load1 store unmap load
    by (simp add: unmap_page_def page_aligned_mod table_of_def [symmetric])
qed


text \<open>What a store to a table entry changes in the translation.\<close>

definition entry_target :: "u32 \<Rightarrow> u32 \<Rightarrow> u32 option" where
  "entry_target pte a =
     (if pte AND PT_PRESENT = 0 then None else Some (return_page_address pte OR return_page_offset a))"

lemma translate_entry:
  assumes "window_ready lay s"
  shows "translate s b =
    (if rd32 (pmem s) (kdir lay + 4 * table_index b) AND PD_PRESENT = 0 then None
     else entry_target (rd32 (pmem s) (table_of lay s b + 4 * page_index_in_table b)) b)"
  using assms
  by (simp add: translate_def page_walk_def window_ready_def table_of_def entry_target_def Let_def)

lemma translate_set_entry:
  assumes w: "window_ready lay s" and m: "mappable lay s a" and i: "unat i < 1024"
    and w': "window_ready lay (s\<lparr> pmem := set_entry lay i (table_of lay s a) (page_index_in_table a) v (pmem s) \<rparr>)"
    and b: "table_of lay s b \<noteq> kmap lay"
  shows "translate (s\<lparr> pmem := set_entry lay i (table_of lay s a) (page_index_in_table a) v (pmem s) \<rparr>) b =
    (if table_of lay s b = table_of lay s a \<and> page_index_in_table b = page_index_in_table a \<and>
        rd32 (pmem s) (kdir lay + 4 * table_index b) AND PD_PRESENT \<noteq> 0
     then entry_target v b else translate s b)"
proof -
  let ?t = "table_of lay s a" and ?i = "page_index_in_table a"
  let ?s = "s\<lparr> pmem := set_entry lay i ?t ?i v (pmem s) \<rparr>"
  have al: "page_aligned (kdir lay)" "page_aligned (kmap lay)" "kmap lay \<noteq> kdir lay"
    using w by (auto simp: window_ready_def)
  have t: "page_aligned ?t" "?t \<noteq> kmap lay" "?t \<noteq> kdir lay"
    using m by (simp_all add: mappable_def table_of_def return_page_address_aligned)
  note load = set_entry_load [OF al(2) t(1,2) i page_index_less, of _ a v "pmem s"]
  have dir: "rd32 (pmem ?s) (kdir lay + 4 * table_index b) = rd32 (pmem s) (kdir lay + 4 * table_index b)"
    using load [OF entry_aligned [OF al(1) table_index_less]] al t
      entry_inj [OF al(1) table_index_less al(2) i] entry_inj [OF al(1) table_index_less t(1) page_index_less]
    by simp
  then have tab: "table_of lay ?s b = table_of lay s b" by (simp add: table_of_def)
  have tb: "page_aligned (table_of lay s b)" by (simp add: table_of_def return_page_address_aligned)
  have "rd32 (pmem ?s) (table_of lay s b + 4 * page_index_in_table b) =
      (if table_of lay s b = ?t \<and> page_index_in_table b = ?i then v
       else rd32 (pmem s) (table_of lay s b + 4 * page_index_in_table b))"
    using load [OF entry_aligned [OF tb page_index_less]] b
      entry_inj [OF tb page_index_less al(2) i] entry_inj [OF tb page_index_less t(1) page_index_less]
    by simp
  then show ?thesis
    using translate_entry [OF w', of b] translate_entry [OF w, of b] dir tab by auto
qed

lemma mappable_set_entry:
  assumes w: "window_ready lay s" and m: "mappable lay s a" and i: "unat i < 1024"
  shows "mappable lay (s\<lparr> pmem := set_entry lay i (table_of lay s a) (page_index_in_table a) v (pmem s) \<rparr>) b
    = mappable lay s b"
    "table_of lay (s\<lparr> pmem := set_entry lay i (table_of lay s a) (page_index_in_table a) v (pmem s) \<rparr>) b
    = table_of lay s b"
proof -
  let ?t = "table_of lay s a" and ?i = "page_index_in_table a"
  let ?s = "s\<lparr> pmem := set_entry lay i ?t ?i v (pmem s) \<rparr>"
  have al: "page_aligned (kdir lay)" "page_aligned (kmap lay)" "kmap lay \<noteq> kdir lay"
    using w by (auto simp: window_ready_def)
  have t: "page_aligned ?t" "?t \<noteq> kmap lay" "?t \<noteq> kdir lay"
    using m by (simp_all add: mappable_def table_of_def return_page_address_aligned)
  have dir: "rd32 (pmem ?s) (kdir lay + 4 * table_index c) = rd32 (pmem s) (kdir lay + 4 * table_index c)" for c
    using set_entry_load [OF al(2) t(1,2) i page_index_less entry_aligned [OF al(1) table_index_less], of a v "pmem s" c]
      entry_inj [OF al(1) table_index_less al(2) i] al t
      entry_inj [OF al(1) table_index_less t(1) page_index_less] by simp
  then have tab: "table_of lay ?s c = table_of lay s c" for c by (simp add: table_of_def)
  from tab show "table_of lay ?s b = table_of lay s b" .
  show "mappable lay ?s b = mappable lay s b" by (simp only: mappable_def tab dir)
qed

lemma entry_target_flags:
  assumes "page_aligned f" "unat fl < 4096" "fl AND PT_PRESENT \<noteq> 0" "return_page_offset b = d"
  shows "entry_target (f OR fl) b = Some (f + d)"
proof -
  have "(f OR fl) AND PT_PRESENT \<noteq> 0"
    using assms(3) by (simp add: bit.conj_disj_distrib2 or_eq_0_iff)
  moreover have "unat d < 4096" using assms(4) by (auto simp: return_page_offset_unat)
  ultimately show ?thesis
    using assms entry_frame [OF assms(1,2)] frame_offset [OF assms(1)] by (simp add: entry_target_def)
qed

definition same_entry :: "paging_layout \<Rightarrow> machine \<Rightarrow> u32 \<Rightarrow> u32 \<Rightarrow> bool" where
  "same_entry lay s a b \<longleftrightarrow>
     table_of lay s b = table_of lay s a \<and> page_index_in_table b = page_index_in_table a"

text \<open>C7. Mapping a page of the kernel address space whose page table exists: \<open>map_page\<close> returns
  true without a fault, and afterwards the processor translates every address of the page to the
  same offset in the given frame, while the translation of every address that goes through another
  entry (and outside the window for short-term mappings) is unchanged.\<close>

theorem map_page_translates:
  assumes "window_ready lay s" "mappable lay s a" "page_aligned f"
    and "unat pt_flags < 4096" "pt_flags AND PT_PRESENT \<noteq> 0"
  shows "\<exists>s'. map_page lay (kernel_page_directory lay) a f pt_flags pd_flags s = Some (True, s') \<and>
    window_ready lay s' \<and>
    (\<forall>d. unat d < 4096 \<longrightarrow> translate s' (a + d) = Some (f + d)) \<and>
    (\<forall>b. table_of lay s b \<noteq> kmap lay \<longrightarrow> \<not> same_entry lay s a b \<longrightarrow> translate s' b = translate s b)"
proof -
  have 512: "unat (512 :: u32) < 1024" by simp
  let ?s = "s\<lparr> pmem := set_entry lay 512 (table_of lay s a) (page_index_in_table a) (f OR pt_flags) (pmem s) \<rparr>"
  have w': "window_ready lay ?s"
    using mappable_store [OF assms(1,2) 512, of "f OR pt_flags"] by blast
  note tr = translate_set_entry [OF assms(1,2) 512 w']
  have a: "page_aligned a" "table_of lay s a \<noteq> kmap lay"
    "rd32 (pmem s) (kdir lay + 4 * table_index a) AND PD_PRESENT \<noteq> 0"
    using assms(2) by (simp_all add: mappable_def)
  have "translate ?s (a + d) = Some (f + d)" if "unat d < 4096" for d
    using tr [of "a + d"] page_offset_indices [OF a(1) that] a entry_target_flags [OF assms(3,4,5)]
    by (simp add: table_of_def)
  then show ?thesis
    using map_page_effect [OF assms(1,2,3), of pt_flags pd_flags] w' tr by (auto simp: same_entry_def)
qed

text \<open>C10. Mapping a page and unmapping it again: \<open>unmap_page\<close> returns the frame \<open>map_page\<close> was
  given, the processor no longer translates any address of the page, and the translation of
  every other address is what it was before both calls.\<close>

theorem map_unmap_roundtrip:
  assumes "window_ready lay s" "mappable lay s a" "page_aligned f"
    and "unat pt_flags < 4096" "pt_flags AND PT_PRESENT \<noteq> 0"
  shows "\<exists>s1 s2. map_page lay (kernel_page_directory lay) a f pt_flags pd_flags s = Some (True, s1) \<and>
    unmap_page lay (kernel_page_directory lay) a s1 = Some (f, s2) \<and>
    (\<forall>d. unat d < 4096 \<longrightarrow> translate s2 (a + d) = None) \<and>
    (\<forall>b. table_of lay s b \<noteq> kmap lay \<longrightarrow> \<not> same_entry lay s a b \<longrightarrow> translate s2 b = translate s b)"
proof -
  have 512: "unat (512 :: u32) < 1024" by simp
  let ?s1 = "s\<lparr> pmem := set_entry lay 512 (table_of lay s a) (page_index_in_table a) (f OR pt_flags) (pmem s) \<rparr>"
  have w1: "window_ready lay ?s1"
    using mappable_store [OF assms(1,2) 512, of "f OR pt_flags"] by blast
  have m1: "mappable lay ?s1 c = mappable lay s c" "table_of lay ?s1 c = table_of lay s c" for c
    using mappable_set_entry [OF assms(1,2) 512] by simp_all
  have ma: "mappable lay ?s1 a" using m1(1) assms(2) by simp
  let ?s2 = "?s1\<lparr> pmem := set_entry lay 512 (table_of lay ?s1 a) (page_index_in_table a) 0 (pmem ?s1) \<rparr>"
  have w2: "window_ready lay ?s2" using mappable_store [OF w1 ma 512, of 0] by blast
  have a: "page_aligned a" "table_of lay s a \<noteq> kmap lay" "page_aligned (table_of lay s a)"
    using assms(2) by (simp_all add: mappable_def table_of_def return_page_address_aligned)
  have al: "page_aligned (kmap lay)" using assms(1) by (simp add: window_ready_def)
  have "rd32 (pmem ?s1) (table_of lay ?s1 a + 4 * page_index_in_table a) = (f OR pt_flags)"
    using set_entry_load [OF al a(3,2) 512 page_index_less entry_aligned [OF a(3) page_index_less], of a]
      entry_inj [OF a(3) page_index_less al 512] a(2) m1(2) by simp
  then have ret: "return_page_address (rd32 (pmem ?s1) (table_of lay ?s1 a + 4 * page_index_in_table a)) = f"
    using entry_frame [OF assms(3,4)] by simp
  note tr = translate_set_entry [OF assms(1,2) 512 w1] translate_set_entry [OF w1 ma 512 w2]
  have pa: "rd32 (pmem ?s1) (kdir lay + 4 * table_index a) AND PD_PRESENT \<noteq> 0"
    using ma by (simp add: mappable_def)
  have "translate ?s2 (a + d) = None" if "unat d < 4096" for d
    using tr(2) [of "a + d"] page_offset_indices [OF a(1) that] a m1(2) pa
    by (simp add: table_of_def entry_target_def)
  moreover have "translate ?s2 b = translate s b"
    if "table_of lay s b \<noteq> kmap lay" "\<not> same_entry lay s a b" for b
    using tr(1) [of b] tr(2) [of b] that m1(2) by (auto simp: same_entry_def)
  ultimately show ?thesis
    using map_page_effect [OF assms(1,2,3), of pt_flags pd_flags] unmap_page_effect [OF w1 ma] ret by auto
qed


text \<open>Reading a table through the window leaves the rest of the memory.\<close>

lemma window_load:
  assumes w: "window_ready lay s" and i: "unat i < 1024" and j: "unat j < 1024"
    and t: "page_aligned t" "t \<noteq> kmap lay"
  shows "\<exists>s1 s2. map_window lay t i s = (ARBITRARY_MAPPING_REGION_START + i * PAGE_SIZE, s1) \<and>
    vread32 s1 (ARBITRARY_MAPPING_REGION_START + i * PAGE_SIZE + 4 * j) = Some (rd32 (pmem s) (t + 4 * j)) \<and>
    unmap_window lay i s1 = (True, s2) \<and> window_ready lay s2 \<and>
    (\<forall>e. aligned4 e \<longrightarrow> e \<noteq> kmap lay + 4 * i \<longrightarrow> rd32 (pmem s2) e = rd32 (pmem s) e)"
proof -
  let ?e = "kmap lay + 4 * i"
  let ?s1 = "s\<lparr> pmem := wr32 (pmem s) ?e (t OR PT_PRESENT OR PT_RW) \<rparr>"
  let ?s2 = "?s1\<lparr> pmem := wr32 (pmem ?s1) ?e 0 \<rparr>"
  have al: "page_aligned (kmap lay)" using w by (simp add: window_ready_def)
  have w1: "window_ready lay ?s1" by (rule window_entry [OF w i])
  have "rd32 (pmem ?s1) ?e = (t OR PT_PRESENT OR PT_RW)" by simp
  note ptr = window_pointer [OF w1 i j t(1) this]
  have e: "aligned4 ?e" "aligned4 (t + 4 * j)" "?e \<noteq> t + 4 * j"
    using entry_aligned [OF al i] entry_aligned [OF t(1) j] entry_inj [OF al i t(1) j] t(2) by auto
  have "vread32 ?s1 (ARBITRARY_MAPPING_REGION_START + i * PAGE_SIZE + 4 * j) = Some (rd32 (pmem s) (t + 4 * j))"
    using ptr(1) e by (simp add: vread32_def)
  moreover have "\<forall>a. aligned4 a \<longrightarrow> a \<noteq> ?e \<longrightarrow> rd32 (pmem ?s2) a = rd32 (pmem s) a"
    using e(1) by simp
  ultimately show ?thesis
    using window_map [OF w i t(1)] window_unmap [OF w1 i] window_entry [OF w1 i] by blast
qed

text \<open>The state up to the contents of the mapping table.\<close>

definition same_tables :: "paging_layout \<Rightarrow> machine \<Rightarrow> machine \<Rightarrow> bool" where
  "same_tables lay s s' \<longleftrightarrow> window_ready lay s' \<and>
     (\<forall>t j. page_aligned t \<longrightarrow> t \<noteq> kmap lay \<longrightarrow> unat j < 1024 \<longrightarrow>
        rd32 (pmem s') (t + 4 * j) = rd32 (pmem s) (t + 4 * j))"

lemma same_tables_trans: "same_tables lay r s \<Longrightarrow> same_tables lay s t \<Longrightarrow> same_tables lay r t"
  by (simp add: same_tables_def)

lemma same_tables_table_of:
  "\<lbrakk> window_ready lay s; same_tables lay s s' \<rbrakk> \<Longrightarrow> table_of lay s' b = table_of lay s b"
  by (simp add: same_tables_def table_of_def window_ready_def)

lemma same_tables_translate:
  assumes "window_ready lay s" "same_tables lay s s'" "table_of lay s b \<noteq> kmap lay"
  shows "translate s' b = translate s b"
proof -
  have "page_aligned (table_of lay s b)" by (simp add: table_of_def return_page_address_aligned)
  then show ?thesis
    using translate_entry [OF assms(1), of b] translate_entry [of lay s' b] assms
      same_tables_table_of [OF assms(1,2)]
    by (auto simp: same_tables_def window_ready_def)
qed

lemma window_load_tables:
  assumes w: "window_ready lay s" and i: "unat i < 1024" and j: "unat j < 1024"
    and t: "page_aligned t" "t \<noteq> kmap lay"
  obtains s1 s2 where "map_window lay t i s = (ARBITRARY_MAPPING_REGION_START + i * PAGE_SIZE, s1)"
    "vread32 s1 (ARBITRARY_MAPPING_REGION_START + i * PAGE_SIZE + 4 * j) = Some (rd32 (pmem s) (t + 4 * j))"
    "unmap_window lay i s1 = (True, s2)" "same_tables lay s s2"
proof -
  have al: "page_aligned (kmap lay)" using w by (simp add: window_ready_def)
  obtain s1 s2 where s: "map_window lay t i s = (ARBITRARY_MAPPING_REGION_START + i * PAGE_SIZE, s1)"
    "vread32 s1 (ARBITRARY_MAPPING_REGION_START + i * PAGE_SIZE + 4 * j) = Some (rd32 (pmem s) (t + 4 * j))"
    "unmap_window lay i s1 = (True, s2)" "window_ready lay s2"
    and fr: "\<forall>e. aligned4 e \<longrightarrow> e \<noteq> kmap lay + 4 * i \<longrightarrow> rd32 (pmem s2) e = rd32 (pmem s) e"
    using window_load [OF w i j t] by blast
  have "same_tables lay s s2"
    using s(4) fr entry_aligned entry_inj [OF _ _ al i] by (auto simp: same_tables_def)
  then show ?thesis using that s by blast
qed

lemma is_readable_effect:
  assumes w: "window_ready lay s" and a: "page_aligned a" "table_of lay s a \<noteq> kmap lay"
  shows "\<exists>s'. is_readable lay (kernel_page_directory lay) a s = Some (translate s a \<noteq> None, s') \<and>
    same_tables lay s s'"
proof -
  let ?t = "table_of lay s a" and ?pde = "rd32 (pmem s) (kdir lay + 4 * table_index a)"
  have t: "page_aligned ?t" by (simp add: table_of_def return_page_address_aligned)
  have "unat (513 :: u32) < 1024" by simp
  from window_load_tables [OF w this page_index_less [of a] t a(2)] obtain s1 s2 where s:
    "map_window lay ?t 513 s = (ARBITRARY_MAPPING_REGION_START + 513 * PAGE_SIZE, s1)"
    "vread32 s1 (ARBITRARY_MAPPING_REGION_START + 513 * PAGE_SIZE + 4 * page_index_in_table a) =
      Some (rd32 (pmem s) (?t + 4 * page_index_in_table a))"
    "unmap_window lay 513 s1 = (True, s2)" "same_tables lay s s2" .
  have pd: "vread32 s (kernel_page_directory lay + 4 * table_index a) = Some ?pde"
    by (rule directory_load [OF w]) simp
  have self: "same_tables lay s s" using w by (simp add: same_tables_def)
  show ?thesis
  proof (cases "?pde AND PD_PRESENT = 0")
    case True
    then show ?thesis
      using a(1) pd self translate_entry [OF w, of a]
      by (simp add: is_readable_def page_aligned_mod present_bit)
  next
    case False
    then show ?thesis
      using a(1) pd s translate_entry [OF w, of a] present_bit(2)
      by (auto simp: is_readable_def page_aligned_mod present_bit(1) table_of_def [symmetric] entry_target_def)
  qed
qed

text \<open>C11. The software walk agrees with the processor: \<open>get_physical_address\<close> on the kernel page
  directory returns without a fault the frame the processor translates a page to, or 0 when
  the page is not mapped, and changes no translation outside the window.\<close>

theorem get_physical_address_translates:
  assumes w: "window_ready lay s" and a: "page_aligned a" "table_of lay s a \<noteq> kmap lay"
  shows "\<exists>s'. get_physical_address lay (kernel_page_directory lay) a s =
      Some (case translate s a of None \<Rightarrow> 0 | Some p \<Rightarrow> p, s') \<and>
    window_ready lay s' \<and> (\<forall>b. table_of lay s b \<noteq> kmap lay \<longrightarrow> translate s' b = translate s b)"
proof -
  let ?t = "table_of lay s a" and ?pde = "rd32 (pmem s) (kdir lay + 4 * table_index a)"
    and ?pte = "rd32 (pmem s) (table_of lay s a + 4 * page_index_in_table a)"
  have t: "page_aligned ?t" by (simp add: table_of_def return_page_address_aligned)
  obtain s1 where r: "is_readable lay (kernel_page_directory lay) a s = Some (translate s a \<noteq> None, s1)"
    and st: "same_tables lay s s1"
    using is_readable_effect [OF assms] by blast
  have w1: "window_ready lay s1" using st by (simp add: same_tables_def)
  have fin: "window_ready lay s' \<and> (\<forall>b. table_of lay s b \<noteq> kmap lay \<longrightarrow> translate s' b = translate s b)"
    if "same_tables lay s s'" for s'
    using that same_tables_translate [OF w that] by (simp add: same_tables_def)
  show ?thesis
  proof (cases "translate s a")
    case None
    then show ?thesis using r fin [OF st] by (auto simp: get_physical_address_def)
  next
    case (Some p)
    have a0: "return_page_offset a = 0"
      using a(1) by (simp add: word_unat_eq_iff return_page_offset_unat mod_eq_0_iff_dvd)
    have p: "p = return_page_address ?pte"
      using Some translate_entry [OF w, of a] a0 by (auto simp: entry_target_def split: if_splits)
    have al: "page_aligned (kdir lay)" "kdir lay \<noteq> kmap lay" using w by (simp_all add: window_ready_def)
    have pd: "vread32 s1 (kernel_page_directory lay + 4 * table_index a) = Some ?pde"
      using directory_load [OF w1, of "table_index a"] st al by (simp add: same_tables_def)
    have "unat (514 :: u32) < 1024" by simp
    from window_load_tables [OF w1 this page_index_less [of a] t a(2)] obtain s2 s3 where s:
      "map_window lay ?t 514 s1 = (ARBITRARY_MAPPING_REGION_START + 514 * PAGE_SIZE, s2)"
      "vread32 s2 (ARBITRARY_MAPPING_REGION_START + 514 * PAGE_SIZE + 4 * page_index_in_table a) =
        Some (rd32 (pmem s1) (?t + 4 * page_index_in_table a))"
      "unmap_window lay 514 s2 = (True, s3)" "same_tables lay s1 s3" .
    have "rd32 (pmem s1) (?t + 4 * page_index_in_table a) = ?pte"
      using st t a(2) by (simp add: same_tables_def)
    then show ?thesis
      using r Some pd s p fin [OF same_tables_trans [OF st s(4)]]
      by (simp add: get_physical_address_def table_of_def [symmetric])
  qed
qed

section \<open>The mappings of \<open>paging_init\<close>\<close>

lemma page_of_entry:
  assumes "page_aligned p" "page_aligned q" "unat d < 4096"
  shows "(q + d) - p < 4096 \<longleftrightarrow> q = p"
proof
  assume less: "(q + d) - p < 4096"
  show "q = p"
  proof (rule ccontr)
    assume "q \<noteq> p"
    have al: "page_aligned (q - p)"
      using assms(1,2) unat_less_u32 [of p]
      by (auto simp: unat_sub_if' elim!: dvdE intro!: dvd_diff_nat)
    then have "unat (q - p + d) = unat (q - p) + unat d" by (rule frame_offset_unat) (rule assms(3))
    moreover have "0 < unat (q - p)" using \<open>q \<noteq> p\<close> by (simp add: unat_gt_0)
    then have "4096 \<le> unat (q - p)" using al by (simp add: dvd_imp_le)
    moreover have "unat (q + d - p) < unat (4096 :: u32)" using less by (simp only: word_less_nat_alt)
    moreover have "q - p + d = q + d - p" by simp
    ultimately show False by simp
  qed
qed (use assms(3) in \<open>simp add: word_less_nat_alt\<close>)

lemma clear_page_load:
  assumes "page_aligned p" "p \<noteq> 0" "page_aligned q" "unat j < 1024"
  shows "rd32 (snd (kmemset m p 0 4096)) (q + 4 * j) = (if q = p then 0 else rd32 m (q + 4 * j))"
proof -
  have "unat (4 * j) = 4 * unat j" using assms(4) by (simp add: unat_word_ariths)
  then have "unat (4 * j + k) < 4096" if "unat k < 4" for k
    using that assms(4) unat_add_small [of "4 * j" k] by simp
  from page_of_entry [OF assms(1,3) this]
  have "(q + 4 * j + k) - p < 4096 \<longleftrightarrow> q = p" if "unat k < 4" for k
    using that by (simp add: add.assoc)
  from this [of 0] this [of 1] this [of 2] this [of 3]
  show ?thesis using assms(2) by (simp add: kmemset_def fill_loop rd32_def)
qed

lemma map_image_load:
  assumes pt: "page_aligned pt" and st: "page_aligned (V2P start)"
    and n: "unat (V2P start) div 4096 + unat n \<le> 1024"
    and q: "page_aligned q" "unat j < 1024"
  shows "rd32 (map_image pt start n fl m) (q + 4 * j) =
    (if q = pt \<and> unat (V2P start) div 4096 \<le> unat j \<and> unat j < unat (V2P start) div 4096 + unat n
     then j * PAGE_SIZE OR fl else rd32 m (q + 4 * j))"
proof -
  let ?f = "V2P start div PAGE_SIZE"
  have f: "unat ?f = unat (V2P start) div 4096" by (simp add: PAGE_SIZE_def unat_div_distrib)
  have fs: "?f * PAGE_SIZE = V2P start"
  proof -
    obtain k where k: "unat (V2P start) = 4096 * k" using st by (rule dvdE)
    then have "4096 * k < 4294967296" using unat_less_u32 [of "V2P start"] by simp
    then show ?thesis
      using k by (simp add: PAGE_SIZE_def word_unat_eq_iff unat_word_ariths unat_div_distrib)
  qed
  let ?P = "\<lambda>k t. rd32 t (q + 4 * j) = (if q = pt \<and> unat ?f \<le> unat j \<and> unat j < unat ?f + unat k
     then j * PAGE_SIZE OR fl else rd32 m (q + 4 * j))"
  have "?P n (map_image pt start n fl m)"
    unfolding map_image_def
  proof (rule for_up_invariant [where P = ?P])
    fix k t
    assume k: "k < n" and t: "?P k t"
    have kn: "unat (k + 1) = Suc (unat k)" using k by (rule unat_Suc_less)
    have "unat k < unat n" using k by (simp add: word_less_nat_alt)
    then have kf: "unat (k + ?f) = unat k + unat ?f" "unat (k + ?f) < 1024"
      using n f unat_add_small [of k ?f] by simp_all
    have "V2P start + k * PAGE_SIZE = (k + ?f) * PAGE_SIZE"
      using fs by (simp add: distrib_right add.commute)
    moreover have "q + 4 * j = pt + 4 * (k + ?f) \<longleftrightarrow> q = pt \<and> j = k + ?f"
      by (rule entry_inj [OF q pt kf(2)])
    moreover have "j = k + ?f \<longleftrightarrow> unat j = unat k + unat ?f" by (simp add: word_unat_eq_iff kf(1))
    ultimately show "?P (k + 1) (wr32 t (pt + 4 * (k + ?f)) (V2P start + k * PAGE_SIZE OR fl))"
      using t kn entry_aligned [OF q] entry_aligned [OF pt kf(2)] by auto
  qed (auto simp: word_zero_le)
  then show ?thesis by (simp only: f)
qed

text \<open>What the linker script provides: the image from 1 MiB above \<open>KERNEL_OFFSET\<close>, its read-only
  part first, and the three tables on pages of the writable part.\<close>

definition linked :: "paging_layout \<Rightarrow> bool" where
  "linked lay \<longleftrightarrow>
     immutable_data_start lay = KERNEL_OFFSET + KERNEL_START \<and>
     page_aligned (mutable_data_start lay) \<and>
     immutable_data_start lay \<le> mutable_data_start lay \<and>
     mutable_data_start lay \<le> mutable_data_end lay \<and>
     mutable_data_end lay = endkernel (allocators lay) \<and>
     (\<forall>t \<in> {kernel_page_directory lay, kernel_page_table lay, mapping_page_table lay}.
        page_aligned t \<and> mutable_data_start lay \<le> t \<and> t < endkernel (allocators lay)) \<and>
     distinct [kernel_page_directory lay, kernel_page_table lay, mapping_page_table lay]"

lemma V2P_unat: "KERNEL_OFFSET \<le> a \<Longrightarrow> unat (V2P a) = unat a - 3221225472"
  by (simp add: V2P_def KERNEL_OFFSET_def unat_sub word_le_nat_alt)

lemma page_count_unat:
  "unat (x div PAGE_SIZE + (if y mod PAGE_SIZE > 0 then 1 else 0)) =
   unat x div 4096 + (if unat y mod 4096 > 0 then 1 else 0)"
proof -
  have "unat (x div PAGE_SIZE) = unat x div 4096" by (simp add: PAGE_SIZE_def unat_div_distrib)
  moreover have "y mod PAGE_SIZE > 0 \<longleftrightarrow> unat y mod 4096 > 0"
    by (simp add: PAGE_SIZE_def word_less_nat_alt unat_mod_distrib)
  moreover have "unat x div 4096 + 1 < 4294967296" using unat_less_u32 [of x] by simp
  ultimately show ?thesis by (simp add: unat_add_small)
qed

text \<open>The sizes \<open>paging_init\<close> computes, for a linked image of at most 4 MiB.\<close>

lemma linked_sizes:
  assumes l: "linked lay" and e4: "endkernel (allocators lay) \<le> 0xC0400000"
  defines "mu \<equiv> unat (V2P (mutable_data_start lay))" and "e \<equiv> unat (V2P (endkernel (allocators lay)))"
  shows "1048576 \<le> mu" "mu \<le> e" "e \<le> 4194304" "mu mod 4096 = 0"
    "unat (mutable_data_start lay - immutable_data_start lay) = mu - 1048576"
    "unat (endkernel (allocators lay) - immutable_data_start lay) = e - 1048576"
    "unat (endkernel (allocators lay) - mutable_data_start lay) = e - mu"
    "unat (endkernel (allocators lay)) = e + 3221225472"
    "unat (V2P (immutable_data_start lay)) = 1048576"
proof -
  let ?mu = "unat (mutable_data_start lay)" and ?e = "unat (endkernel (allocators lay))"
  have i: "immutable_data_start lay = 0xC0100000"
    using l by (simp add: linked_def KERNEL_OFFSET_def KERNEL_START_def)
  have o: "3222274048 \<le> ?mu" "?mu \<le> ?e" "?e \<le> 3225419776" "?mu mod 4096 = 0"
    using l e4 i by (auto simp: linked_def word_le_nat_alt)
  then have "mu = ?mu - 3221225472" "e = ?e - 3221225472"
    unfolding mu_def e_def by (auto intro!: V2P_unat simp: KERNEL_OFFSET_def word_le_nat_alt)
  note n = this
  show "1048576 \<le> mu" "mu \<le> e" "e \<le> 4194304" "?e = e + 3221225472" using o n by simp_all
  have "4096 dvd ?mu" using o(4) by (rule mod_0_imp_dvd)
  then have "4096 dvd ?mu - 3221225472" by (rule dvd_diff_nat) simp
  then show "mu mod 4096 = 0" unfolding n(1) by (rule dvd_imp_mod_0)
  show "unat (mutable_data_start lay - immutable_data_start lay) = mu - 1048576"
    "unat (endkernel (allocators lay) - immutable_data_start lay) = e - 1048576"
    "unat (endkernel (allocators lay) - mutable_data_start lay) = e - mu"
    using o n by (simp_all add: i unat_sub word_le_nat_alt)
  show "unat (V2P (immutable_data_start lay)) = 1048576" by (simp add: i V2P_def KERNEL_OFFSET_def)
qed


definition kernel_page_entry :: "paging_layout \<Rightarrow> u32 \<Rightarrow> u32" where
  "kernel_page_entry lay j =
     (let f = unat j * 4096
      in if f < 1048576 \<or> unat (V2P (endkernel (allocators lay))) \<le> f then 0
         else if f < unat (V2P (mutable_data_start lay)) then j * PAGE_SIZE OR PT_PRESENT
         else j * PAGE_SIZE OR (PT_PRESENT OR PT_RW))"

text \<open>The state that \<open>paging_init\<close> leaves: the registers, the page directory and the kernel's page table.\<close>

definition initial_tables :: "paging_layout \<Rightarrow> machine \<Rightarrow> bool" where
  "initial_tables lay s' \<longleftrightarrow> loaded_cr3 s' = return_page_address (kdir lay) \<and> write_protect s' \<and>
    kernel_page_directory_ptr s' = kernel_page_directory lay \<and>
    current_page_directory s' = kernel_page_directory lay \<and>
    (\<forall>j. unat j < 1024 \<longrightarrow>
      rd32 (pmem s') (kdir lay + 4 * j) =
        (if j = 1023 then kmap lay OR PD_PRESENT OR PD_RW
         else if j = 768 then V2P (kernel_page_table lay) OR PD_PRESENT OR PD_RW else 0) \<and>
      rd32 (pmem s') (V2P (kernel_page_table lay) + 4 * j) = kernel_page_entry lay j)"

text \<open>The numbers of pages that \<open>paging_init\<close> computes: of the read-only part, the writable part and both.\<close>

definition pages_counted :: "paging_layout \<Rightarrow> u32 \<Rightarrow> u32 \<Rightarrow> u32 \<Rightarrow> bool" where
  "pages_counted lay ni nm np \<longleftrightarrow>
     ni = (mutable_data_start lay - immutable_data_start lay) div PAGE_SIZE
       + (if (mutable_data_start lay - immutable_data_start lay) mod PAGE_SIZE > 0 then 1 else 0) \<and>
     nm = (endkernel (allocators lay) - mutable_data_start lay) div PAGE_SIZE
       + (if (mutable_data_end lay - mutable_data_start lay) mod PAGE_SIZE > 0 then 1 else 0) \<and>
     np = (endkernel (allocators lay) - immutable_data_start lay) div PAGE_SIZE
       + (if endkernel (allocators lay) mod PAGE_SIZE > 0 then 1 else 0)"

lemma minus_pages:
  fixes e c :: nat
  assumes "4096 * c \<le> e"
  shows "(e - 4096 * c) div 4096 = e div 4096 - c" "(e - 4096 * c) mod 4096 = e mod 4096" "c \<le> e div 4096"
proof -
  obtain d where "e = 4096 * c + d" using assms by (rule less_eqE)
  then show "(e - 4096 * c) div 4096 = e div 4096 - c" "(e - 4096 * c) mod 4096 = e mod 4096" "c \<le> e div 4096" by simp_all
qed

lemma whole_pages: "e \<le> 4096 * x \<longleftrightarrow> e div 4096 + (if e mod 4096 > 0 then 1 else 0) \<le> (x :: nat)"
proof -
  have "e < 4096 * x \<longleftrightarrow> e div 4096 < x"
    using div_less_iff_less_mult [of 4096 e x] by (simp add: mult.commute)
  moreover have "e = 4096 * x \<longleftrightarrow> e mod 4096 = 0 \<and> e div 4096 = x" by (auto simp: mod_eq_0_iff_dvd)
  ultimately show ?thesis
    using le_less [of e "4096 * x"] le_less [of "e div 4096" x] by (cases "e mod 4096 = 0") (simp_all add: Suc_le_eq)
qed

lemma linked_pages:
  assumes l: "linked lay" "endkernel (allocators lay) \<le> 0xC0400000" and n: "pages_counted lay ni nm np"
  obtains k where "unat (V2P (mutable_data_start lay)) = 4096 * k" "256 + unat ni = k" "k + unat nm \<le> 1024"
    "ni + nm = np" "np + KERNEL_START div PAGE_SIZE \<le> 1024"
    "\<And>x. unat (V2P (endkernel (allocators lay))) \<le> 4096 * x \<longleftrightarrow> k + unat nm \<le> x"
proof -
  let ?mu = "unat (V2P (mutable_data_start lay))" and ?e = "unat (V2P (endkernel (allocators lay)))"
  let ?up = "if ?e mod 4096 > 0 then 1 else 0 :: nat"
  note z = linked_sizes [OF l]
  obtain k where k: "?mu = 4096 * k" using z(4) by (auto elim: dvdE)
  have k256: "256 \<le> k" "4096 * k \<le> ?e" using k z(1,2) by simp_all
  note at_k = minus_pages [OF k256(2)] and at_256 = minus_pages [of 256 ?e]
  have "mutable_data_end lay = endkernel (allocators lay)" using l(1) by (simp add: linked_def)
  then have "unat nm = (?e - ?mu) div 4096 + (if (?e - ?mu) mod 4096 > 0 then 1 else 0)"
    using n by (simp add: pages_counted_def page_count_unat z(7))
  then have nm: "unat nm = ?e div 4096 - k + ?up" unfolding k at_k(1,2) .
  have ni: "unat ni = k - 256" using n k z(1) by (simp add: pages_counted_def page_count_unat z(5))
  have "(?e + 3221225472) mod 4096 = ?e mod 4096" using mod_mult_self1 [of ?e 786432 4096] by simp
  then have np: "unat np = ?e div 4096 - 256 + ?up"
    using n at_256 z(1,2) unfolding pages_counted_def by (simp add: page_count_unat z(6,8))
  have np_eq: "unat np = unat ni + unat nm" unfolding ni nm np using at_k(3) k256(1) by simp
  have "?e div 4096 + ?up \<le> 1024" using whole_pages [of ?e 1024] z(3) by simp
  moreover have "256 \<le> ?e div 4096" using at_256(3) z(1,2) by simp
  ultimately have np_le: "unat np \<le> 768" unfolding np by linarith
  then have "unat (np + 256) = unat np + 256" by (simp add: unat_word_ariths)
  then have pages: "np + KERNEL_START div PAGE_SIZE \<le> 1024"
    using np_le by (simp add: KERNEL_START_def PAGE_SIZE_def word_le_nat_alt)
  have sum: "ni + nm = np" using np_eq np_le by (simp add: word_unat_eq_iff unat_add_small)
  have k_nm: "k + unat nm = ?e div 4096 + ?up" unfolding nm using at_k(3) by simp
  have "256 + unat ni = k" "k + unat nm \<le> 1024" using ni np_eq np_le k256(1) by linarith+
  moreover have "?e \<le> 4096 * x \<longleftrightarrow> k + unat nm \<le> x" for x unfolding k_nm by (rule whole_pages)
  ultimately show ?thesis using that k sum pages by blast
qed

text \<open>The kernel's page table after the two loops over the image.\<close>

lemma image_entries:
  assumes l: "linked lay" "endkernel (allocators lay) \<le> 0xC0400000" and n: "pages_counted lay ni nm np" and j: "unat j < 1024"
    and clear: "rd32 m (kernel_page_table lay + 4 * j) = 0"
  shows "rd32 (map_image (kernel_page_table lay) (mutable_data_start lay) nm (PT_PRESENT OR PT_RW)
      (map_image (kernel_page_table lay) (immutable_data_start lay) ni PT_PRESENT m)) (kernel_page_table lay + 4 * j) =
    kernel_page_entry lay j"
proof -
  let ?mu = "unat (V2P (mutable_data_start lay))" and ?e = "unat (V2P (endkernel (allocators lay)))"
    and ?im = "V2P (immutable_data_start lay)"
  obtain k where k: "?mu = 4096 * k" "256 + unat ni = k" "k + unat nm \<le> 1024" "\<And>x. ?e \<le> 4096 * x \<longleftrightarrow> k + unat nm \<le> x"
    by (rule linked_pages [OF l n]) blast
  note z = linked_sizes [OF l]
  have f: "unat ?im div 4096 = 256" "?mu div 4096 = k" using z(9) k(1) by simp_all
  have st: "page_aligned ?im" "page_aligned (V2P (mutable_data_start lay))" using z(9) k(1) by simp_all
  have kt: "page_aligned (kernel_page_table lay)" using l(1) by (simp add: linked_def)
  have bounds: "?e \<le> unat j * 4096 \<longleftrightarrow> k + unat nm \<le> unat j" "unat j * 4096 < ?mu \<longleftrightarrow> unat j < k"
    "unat j * 4096 < 1048576 \<longleftrightarrow> unat j < 256"
    using k(1,4) by (auto simp: mult.commute)
  have b1: "unat ?im div 4096 + unat ni \<le> 1024" and b2: "?mu div 4096 + unat nm \<le> 1024" using f k(2,3) by simp_all
  show ?thesis
    using map_image_load [OF kt st(2) b2 kt j] map_image_load [OF kt st(1) b1 kt j] clear f k(2)
    by (auto simp: kernel_page_entry_def bounds Let_def)
qed

text \<open>The directory, and the kernel's table behind the stores to the other two tables.\<close>

lemma directory_entries:
  fixes m3 :: mem and x y :: u32
  assumes al: "page_aligned kd" "page_aligned kt" "page_aligned km" "kd \<noteq> kt" "kd \<noteq> km" "kt \<noteq> km" "kd \<noteq> 0" "km \<noteq> 0"
    and j: "unat j < 1024"
  defines "m5 \<equiv> wr32 (snd (kmemset m3 kd 0 4096)) (kd + 4 * 768) x"
  defines "m7 \<equiv> wr32 (snd (kmemset m5 km 0 4096)) (kd + 4 * 1023) y"
  shows "rd32 m7 (kd + 4 * j) = (if j = 1023 then y else if j = 768 then x else 0)" "rd32 m7 (kt + 4 * j) = rd32 m3 (kt + 4 * j)"
proof -
  note st = entry_store_load [OF al(1) _ _ j] clear_page_load [OF _ _ _ j]
  let ?m4 = "snd (kmemset m3 kd 0 4096)" and ?m6 = "snd (kmemset m5 km 0 4096)"
  have "rd32 m7 (kd + 4 * j) = (if j = 1023 then y else rd32 ?m6 (kd + 4 * j))"
    "rd32 m5 (kd + 4 * j) = (if j = 768 then x else rd32 ?m4 (kd + 4 * j))"
    unfolding m7_def m5_def by (subst st(1); simp add: al)+
  moreover have "rd32 ?m6 (kd + 4 * j) = rd32 m5 (kd + 4 * j)" "rd32 ?m4 (kd + 4 * j) = 0"
    by (simp_all add: st(2) al)
  ultimately show "rd32 m7 (kd + 4 * j) = (if j = 1023 then y else if j = 768 then x else 0)" by simp
  have "rd32 m7 (kt + 4 * j) = rd32 ?m6 (kt + 4 * j)" "rd32 m5 (kt + 4 * j) = rd32 ?m4 (kt + 4 * j)"
    unfolding m7_def m5_def using al by (subst st(1); simp)+
  moreover have "rd32 ?m6 (kt + 4 * j) = rd32 m5 (kt + 4 * j)" "rd32 ?m4 (kt + 4 * j) = rd32 m3 (kt + 4 * j)"
    using al by (simp_all add: st(2))
  ultimately show "rd32 m7 (kt + 4 * j) = rd32 m3 (kt + 4 * j)" by simp
qed

lemma paging_init_tables:
  assumes l: "linked lay" and e4: "endkernel (allocators lay) \<le> 0xC0400000"
  shows "\<exists>s'. paging_init lay s = (True, s') \<and> initial_tables lay s'"
proof -
  let ?kd = "kernel_page_directory lay" and ?kt = "kernel_page_table lay" and ?km = "mapping_page_table lay"
  obtain ni nm np where n: "pages_counted lay ni nm np" by (auto simp: pages_counted_def)
  obtain k where pages: "np + KERNEL_START div PAGE_SIZE \<le> 1024" "ni + nm = np" by (rule linked_pages [OF l e4 n]) blast
  define s1 where "s1 = s\<lparr> kernel_page_directory_ptr := ?kd, current_page_directory := ?kd \<rparr>"
  define m1 where "m1 = snd (kmemset (kernel_view s1) ?kt 0 4096)"
  define m3 where "m3 = map_image ?kt (mutable_data_start lay) nm (PT_PRESENT OR PT_RW)
    (map_image ?kt (immutable_data_start lay) ni PT_PRESENT m1)"
  define m7 where "m7 = wr32 (snd (kmemset (wr32 (snd (kmemset m3 ?kd 0 4096)) (?kd + 4 * 768) (V2P ?kt OR PD_PRESENT OR PD_RW))
    ?km 0 4096)) (?kd + 4 * 1023) (kmap lay OR PD_PRESENT OR PD_RW)"
  have ret: "paging_init lay s = (True, load_and_turn_on_paging lay (set_kernel_view m7 s1))"
    using pages n unfolding pages_counted_def m7_def m3_def m1_def s1_def
    by (simp add: paging_init_def Let_def split_beta)
  have al: "page_aligned ?kd" "page_aligned ?kt" "page_aligned ?km" "?kd \<noteq> ?kt" "?kd \<noteq> ?km" "?kt \<noteq> ?km"
    "?kd \<noteq> 0" "?km \<noteq> 0" "?kt \<noteq> 0"
    using l by (auto simp: linked_def KERNEL_OFFSET_def KERNEL_START_def word_le_nat_alt)
  note fin = directory_entries [OF al(1-8), of _ m3 "V2P ?kt OR PD_PRESENT OR PD_RW" "kmap lay OR PD_PRESENT OR PD_RW", folded m7_def]
  have m3: "rd32 m3 (?kt + 4 * j) = kernel_page_entry lay j" if j: "unat j < 1024" for j
    unfolding m3_def
    by (rule image_entries [OF l e4 n j]) (use clear_page_load [OF al(2,9,2) j] in \<open>simp add: m1_def\<close>)
  have v2p: "V2P (a + x) = V2P a + x" for a x by (simp add: V2P_def)
  have mem: "rd32 (\<lambda>a. m7 (P2V a)) (V2P a) = rd32 m7 a" for a
    using kernel_view_load [of "set_kernel_view m7 s1" a] by (simp add: set_kernel_view_def kernel_view_def)
  show ?thesis
    unfolding ret using fin m3 mem v2p
    by (simp add: initial_tables_def load_and_turn_on_paging_def enable_ring0_write_protect_def load_page_directory_def
        set_kernel_view_def s1_def flip: v2p)
qed


lemma image_start: "linked lay \<Longrightarrow> unat (immutable_data_start lay) = 3222274048"
  by (simp add: linked_def KERNEL_OFFSET_def KERNEL_START_def)

lemma image_address:
  assumes l: "linked lay" and e4: "endkernel (allocators lay) \<le> 0xC0400000"
    and a: "immutable_data_start lay \<le> a" "a < endkernel (allocators lay)"
  shows "KERNEL_OFFSET \<le> a" "unat (V2P a) = unat a - 3221225472" "1048576 \<le> unat (V2P a)"
    "unat (V2P a) < unat (V2P (endkernel (allocators lay)))" "unat (V2P a) < 4194304"
    "table_index a = 768" "unat (page_index_in_table a) = unat (V2P a) div 4096"
    "return_page_offset a = return_page_offset (V2P a)"
proof -
  note z = linked_sizes [OF l e4] and im = image_start [OF l]
  have u: "3222274048 \<le> unat a" "unat a < unat (V2P (endkernel (allocators lay))) + 3221225472"
    using a im z(8) by (simp_all add: word_le_nat_alt word_less_nat_alt)
  show o: "KERNEL_OFFSET \<le> a" using u by (simp add: KERNEL_OFFSET_def word_le_nat_alt)
  then show v: "unat (V2P a) = unat a - 3221225472" by (rule V2P_unat)
  show "1048576 \<le> unat (V2P a)" "unat (V2P a) < unat (V2P (endkernel (allocators lay)))" and less: "unat (V2P a) < 4194304"
    using u v z(3) by simp_all
  have ua: "unat a = 4194304 * 768 + unat (V2P a)" using u v by simp
  then have "unat a div 4194304 = 768" using less by simp
  then show "table_index a = 768" by (simp add: word_unat_eq_iff table_index_unat)
  have "unat a = 4096 * 786432 + unat (V2P a)" using ua by simp
  then have d: "unat a div 4096 = 786432 + unat (V2P a) div 4096" "unat a mod 4096 = unat (V2P a) mod 4096"
    by (simp_all only: div_mult_self4 mod_mult_self4)
  have "unat (V2P a) div 4096 < 1024" using less by (simp add: div_less_iff_less_mult)
  then have "(1024 * 768 + unat (V2P a) div 4096) mod 1024 = unat (V2P a) div 4096"
    by (subst mod_mult_self4) simp
  then show "unat (page_index_in_table a) = unat (V2P a) div 4096" by (simp add: page_index_unat d(1))
  show "return_page_offset a = return_page_offset (V2P a)"
    using d(2) by (simp add: word_unat_eq_iff return_page_offset_unat)
qed

lemma image_entry:
  assumes l: "linked lay" and e4: "endkernel (allocators lay) \<le> 0xC0400000"
    and a: "immutable_data_start lay \<le> a" "a < endkernel (allocators lay)"
  shows "kernel_page_entry lay (page_index_in_table a) =
    (return_page_address (V2P a) OR (if a < mutable_data_start lay then PT_PRESENT else PT_PRESENT OR PT_RW))"
proof -
  note z = linked_sizes [OF l e4] and im = image_start [OF l] and ix = image_address [OF l e4 a]
  let ?j = "page_index_in_table a" and ?b = "unat (V2P a)" and ?m = "unat (V2P (mutable_data_start lay))"
  have "unat (return_page_address (V2P a)) = unat ?j * 4096"
    by (simp add: return_page_address_unat ix(7))
  then have j: "?j * PAGE_SIZE = return_page_address (V2P a)"
    using ix(5,7) by (simp add: word_unat_eq_iff PAGE_SIZE_def unat_word_ariths)
  obtain k where k: "?m = 4096 * k" using z(4) by (auto elim: dvdE)
  have "unat ?j * 4096 < 1048576 \<longleftrightarrow> ?b < 1048576"
    using div_less_iff_less_mult [of 4096 ?b 256] by (simp add: ix(7))
  moreover have "unat ?j * 4096 \<le> ?b" by (simp add: ix(7))
  moreover have "unat ?j * 4096 < ?m \<longleftrightarrow> ?b < ?m"
    using div_less_iff_less_mult [of 4096 ?b k] k by (simp add: ix(7) mult.commute)
  moreover have "?b < ?m \<longleftrightarrow> a < mutable_data_start lay"
  proof -
    have "KERNEL_OFFSET \<le> mutable_data_start lay"
      using l im by (simp add: linked_def KERNEL_OFFSET_def word_le_nat_alt)
    then have "unat (mutable_data_start lay) = ?m + 3221225472"
      using V2P_unat [of "mutable_data_start lay"] by (simp add: KERNEL_OFFSET_def word_le_nat_alt)
    moreover have "unat a = ?b + 3221225472" using ix(2,3) by simp
    ultimately show ?thesis by (simp add: word_less_nat_alt)
  qed
  ultimately show ?thesis
    using ix(3,4) j by (simp add: kernel_page_entry_def Let_def)
qed

lemma image_page_aligned:
  assumes l: "linked lay" and e4: "endkernel (allocators lay) \<le> 0xC0400000"
    and a: "immutable_data_start lay \<le> a" "a < endkernel (allocators lay)" and al: "page_aligned a"
  shows "page_aligned (V2P a)"
proof -
  have "unat a = 3221225472 + unat (V2P a)" using image_address(2,3) [OF l e4 a] by simp
  then show ?thesis using al dvd_add_right_iff [of 4096 3221225472 "unat (V2P a)"] by simp
qed

text \<open>The pages of the paging structures.\<close>

lemma structure_pages:
  assumes l: "linked lay" and e4: "endkernel (allocators lay) \<le> 0xC0400000"
  shows "page_aligned (kdir lay)" "page_aligned (V2P (kernel_page_table lay))" "page_aligned (kmap lay)"
    "kdir lay \<noteq> kmap lay" "V2P (kernel_page_table lay) \<noteq> kdir lay" "V2P (kernel_page_table lay) \<noteq> kmap lay"
    "immutable_data_start lay \<le> kernel_page_directory lay" "kernel_page_directory lay < endkernel (allocators lay)"
    "mutable_data_start lay \<le> kernel_page_directory lay"
proof -
  have al: "page_aligned (kernel_page_directory lay)" "page_aligned (kernel_page_table lay)" "page_aligned (mapping_page_table lay)"
    "kernel_page_directory lay \<noteq> kernel_page_table lay" "kernel_page_directory lay \<noteq> mapping_page_table lay"
    "kernel_page_table lay \<noteq> mapping_page_table lay"
    and range: "immutable_data_start lay \<le> kernel_page_directory lay" "kernel_page_directory lay < endkernel (allocators lay)"
      "immutable_data_start lay \<le> kernel_page_table lay" "kernel_page_table lay < endkernel (allocators lay)"
      "immutable_data_start lay \<le> mapping_page_table lay" "mapping_page_table lay < endkernel (allocators lay)"
      "mutable_data_start lay \<le> kernel_page_directory lay"
    using l by (auto simp: linked_def)
  show "page_aligned (kdir lay)" "page_aligned (V2P (kernel_page_table lay))" "page_aligned (kmap lay)"
    using image_page_aligned [OF l e4] al range by auto
  show "kdir lay \<noteq> kmap lay" "V2P (kernel_page_table lay) \<noteq> kdir lay" "V2P (kernel_page_table lay) \<noteq> kmap lay"
    using al by (auto simp: V2P_def)
qed (use l in \<open>auto simp: linked_def\<close>)

lemma initial_table_entries:
  assumes t: "initial_tables lay s'"
  shows "rd32 (pmem s') (kdir lay + 4 * 768) = (V2P (kernel_page_table lay) OR PD_PRESENT OR PD_RW)"
    "rd32 (pmem s') (kdir lay + 4 * 1023) = (kmap lay OR PD_PRESENT OR PD_RW)"
    "unat j < 1024 \<Longrightarrow> rd32 (pmem s') (V2P (kernel_page_table lay) + 4 * j) = kernel_page_entry lay j"
proof -
  have dir: "unat j < 1024 \<Longrightarrow> rd32 (pmem s') (kdir lay + 4 * j) =
      (if j = 1023 then kmap lay OR PD_PRESENT OR PD_RW
       else if j = 768 then V2P (kernel_page_table lay) OR PD_PRESENT OR PD_RW else 0)" for j
    using t by (simp add: initial_tables_def)
  show "rd32 (pmem s') (kdir lay + 4 * 768) = (V2P (kernel_page_table lay) OR PD_PRESENT OR PD_RW)"
    "rd32 (pmem s') (kdir lay + 4 * 1023) = (kmap lay OR PD_PRESENT OR PD_RW)"
    using dir [of 768] dir [of 1023] by simp_all
qed (use t in \<open>simp add: initial_tables_def\<close>)

lemma initial_window:
  assumes l: "linked lay" and e4: "endkernel (allocators lay) \<le> 0xC0400000" and t: "initial_tables lay s'"
  shows "window_ready lay s'"
proof -
  let ?kd = "kernel_page_directory lay" and ?kt = "kernel_page_table lay"
  note pg = structure_pages [OF l e4] and e = initial_table_entries [OF t]
  note ix = image_address [OF l e4 pg(7,8)]
  have tabs: "table_of lay s' a = V2P ?kt" if "table_index a = 768" for a
    using rw_entry(1) [OF pg(2)] e(1) that by (simp add: table_of_def)
  have "(V2P ?kt OR PD_PRESENT OR PD_RW) AND 3 = 3"
    using page_aligned_and [OF pg(2), of 3] by (simp add: paging_flags or.assoc bit.conj_disj_distrib2)
  moreover have "rd32 (pmem s') (V2P ?kt + 4 * page_index_in_table ?kd) = (kdir lay OR PT_PRESENT OR PT_RW)"
    using e(3) [of "page_index_in_table ?kd"] image_entry [OF l e4 pg(7,8)] return_page_address_id [OF pg(1)] pg(9)
    by (auto simp: not_less [symmetric] or.assoc)
  ultimately show ?thesis
    using t pg(1-6) e(1,2) tabs [OF ix(6)] ix(6) return_page_address_id [OF pg(1)]
    by (simp add: window_ready_def initial_tables_def Let_def)
qed

lemma initial_translation:
  assumes l: "linked lay" and e4: "endkernel (allocators lay) \<le> 0xC0400000" and t: "initial_tables lay s'"
    and a: "immutable_data_start lay \<le> a" "a < endkernel (allocators lay)"
  shows "translate s' a = Some (V2P a) \<and>
    translate_write s' a = (if a < mutable_data_start lay then None else Some (V2P a))"
proof -
  let ?kt = "kernel_page_table lay" and ?pte = "kernel_page_entry lay (page_index_in_table a)"
  let ?fl = "if a < mutable_data_start lay then PT_PRESENT else PT_PRESENT OR PT_RW"
  note pg = structure_pages [OF l e4] and e = initial_table_entries [OF t] and ix = image_address [OF l e4 a]
  have c: "loaded_cr3 s' = return_page_address (kdir lay)" "write_protect s'" using t by (simp_all add: initial_tables_def)
  have p: "page_aligned (return_page_address x)" for x by (rule return_page_address_aligned)
  have pte: "?pte = (return_page_address (V2P a) OR ?fl)" by (rule image_entry [OF l e4 a])
  have walk: "page_walk (pmem s') (loaded_cr3 s') a = Some (V2P ?kt OR PD_PRESENT OR PD_RW, ?pte)"
  proof (rule page_walk_Some)
    show "rd32 (pmem s') (loaded_cr3 s' + 4 * table_index a) = (V2P ?kt OR PD_PRESENT OR PD_RW)"
      using e(1) c(1) ix(6) return_page_address_id [OF pg(1)] by simp
    show "rd32 (pmem s') (return_page_address (V2P ?kt OR PD_PRESENT OR PD_RW) + 4 * page_index_in_table a) = ?pte"
      using e(3) [of "page_index_in_table a"] rw_entry(1) [OF pg(2)] by simp
    show "?pte AND PT_PRESENT \<noteq> 0" unfolding pte
      by (simp add: paging_flags bit.conj_disj_distrib2 or_eq_0_iff)
  qed (rule rw_entry(2) [OF pg(2)])
  have fl: "unat ?fl < 4096" "?fl AND PT_RW = 0 \<longleftrightarrow> a < mutable_data_start lay" by (simp_all add: paging_flags)
  have "return_page_address (V2P a) AND PT_RW = 0"
    by (rule page_aligned_and [OF p]) (simp add: paging_flags)
  then have rw: "?pte AND PT_RW = 0 \<longleftrightarrow> a < mutable_data_start lay"
    unfolding pte using fl(2) by (simp only: bit.conj_disj_distrib2 or_eq_0_iff) simp
  have "return_page_address (V2P a) OR return_page_offset a = V2P a"
    unfolding ix(8) by (rule page_split)
  then show ?thesis
    using walk c(2) rw rw_entry(3) [OF pg(2)] entry_frame [OF p fl(1), of "V2P a"]
    by (cases "a < mutable_data_start lay") (simp_all add: translate_def translate_write_def pte or.assoc)
qed

text \<open>C9. \<open>paging_init\<close> on an image linked below 4 MiB returns true and leaves the kernel page
  directory loaded, with write protection on and the window for short-term mappings ready;
  every address of the image translates to its physical address, the read-only part cannot be
  written, the rest can.\<close>

theorem paging_init_maps_image:
  assumes l: "linked lay" and e4: "endkernel (allocators lay) \<le> 0xC0400000"
  shows "\<exists>s'. paging_init lay s = (True, s') \<and> window_ready lay s' \<and> write_protect s' \<and>
    (\<forall>a. immutable_data_start lay \<le> a \<longrightarrow> a < endkernel (allocators lay) \<longrightarrow>
       translate s' a = Some (V2P a) \<and>
       translate_write s' a = (if a < mutable_data_start lay then None else Some (V2P a)))"
proof -
  obtain s' where s': "paging_init lay s = (True, s')" "initial_tables lay s'"
    using paging_init_tables [OF assms, of s] by blast
  then show ?thesis
    using initial_window [OF assms] initial_translation [OF assms] by (auto simp: initial_tables_def)
qed

section \<open>A sample machine\<close>

text \<open>The kernel image from 1 MiB, its page directory, page table and mapping table on three pages
  of it, with the page of the directory mapped; the sample address is the first heap page.\<close>

definition sample_paging_layout :: paging_layout where
  "sample_paging_layout =
     \<lparr> allocators = \<lparr> global_phys_allocator = 0xC0120000, kernel_virt_allocator = 0xC0160000,
         osi_buddy_memory_allocator = 0xC0170000, endkernel = 0xC0171000 \<rparr>,
       kernel_page_directory = 0xC0110000, kernel_page_table = 0xC0111000,
       mapping_page_table = 0xC0112000, boot_page_directory = 0xC0113000,
       immutable_data_start = 0xC0100000, mutable_data_start = 0xC0110000,
       mutable_data_end = 0xC0171000 \<rparr>"

definition sample_machine :: machine where
  "sample_machine =
     \<lparr> pmem = wr32 (wr32 (wr32 (\<lambda>_. 0) 0x110C00 0x111003) 0x110FFC 0x112003) 0x111440 0x110003,
       loaded_cr3 = 0x110000, write_protect = True,
       kernel_page_directory_ptr = 0xC0110000, current_page_directory = 0xC0110000 \<rparr>"

lemma sample_zero: "rd32 (\<lambda>_. 0) a = 0"
  by (simp add: rd32_def)

lemma sample_ready: "window_ready sample_paging_layout sample_machine"
  "mappable sample_paging_layout sample_machine 0xC0030000"
  by (simp_all add: window_ready_def mappable_def sample_paging_layout_def sample_machine_def
      table_of_def table_index_def page_index_in_table_def return_page_address_def mem_constants
      paging_flags sample_zero Let_def)

theorem map_page_translates_witness:
  "\<exists>s'. map_page sample_paging_layout 0xC0110000 0xC0030000 0x200000 3 3 sample_machine = Some (True, s') \<and>
    window_ready sample_paging_layout s' \<and> translate s' 0xC0030ABC = Some 0x200ABC"
proof -
  have k: "kernel_page_directory sample_paging_layout = 0xC0110000" by (simp add: sample_paging_layout_def)
  obtain s' where s': "map_page sample_paging_layout 0xC0110000 0xC0030000 0x200000 3 3 sample_machine = Some (True, s')"
    "window_ready sample_paging_layout s'"
    and t: "\<forall>d. unat d < 4096 \<longrightarrow> translate s' (0xC0030000 + d) = Some (0x200000 + d)"
    using map_page_translates [OF sample_ready, where f = "0x200000" and pt_flags = 3 and pd_flags = 3] by (auto simp: paging_flags k)
  have "translate s' 0xC0030ABC = Some 0x200ABC" using t [rule_format, of "0xABC"] by simp
  then show ?thesis using s' by blast
qed

theorem map_unmap_roundtrip_witness:
  "\<exists>s1 s2. map_page sample_paging_layout 0xC0110000 0xC0030000 0x200000 3 3 sample_machine = Some (True, s1) \<and>
    unmap_page sample_paging_layout 0xC0110000 0xC0030000 s1 = Some (0x200000, s2) \<and>
    translate s2 0xC0030ABC = None"
proof -
  have k: "kernel_page_directory sample_paging_layout = 0xC0110000" by (simp add: sample_paging_layout_def)
  obtain s1 s2 where s': "map_page sample_paging_layout 0xC0110000 0xC0030000 0x200000 3 3 sample_machine = Some (True, s1)"
    "unmap_page sample_paging_layout 0xC0110000 0xC0030000 s1 = Some (0x200000, s2)"
    and t: "\<forall>d. unat d < 4096 \<longrightarrow> translate s2 (0xC0030000 + d) = None"
    using map_unmap_roundtrip [OF sample_ready, where f = "0x200000" and pt_flags = 3 and pd_flags = 3] by (auto simp: paging_flags k)
  have "translate s2 0xC0030ABC = None" using t [rule_format, of "0xABC"] by simp
  then show ?thesis using s' by blast
qed


theorem get_physical_address_translates_witness:
  "\<exists>s'. get_physical_address sample_paging_layout 0xC0110000 0xC0110000 sample_machine = Some (0x110000, s')"
proof -
  have k: "kernel_page_directory sample_paging_layout = 0xC0110000" by (simp add: sample_paging_layout_def)
  have "table_of sample_paging_layout sample_machine 0xC0110000 \<noteq> kmap sample_paging_layout"
    by (simp add: sample_paging_layout_def sample_machine_def table_of_def table_index_def
        return_page_address_def mem_constants)
  moreover have "translate sample_machine 0xC0110000 = Some 0x110000"
    by (simp add: translate_def page_walk_def sample_machine_def table_index_def page_index_in_table_def
        return_page_address_def return_page_offset_def mem_constants paging_flags Let_def)
  ultimately show ?thesis
    using get_physical_address_translates [OF sample_ready(1), of "0xC0110000"] k by auto
qed


theorem paging_init_maps_image_witness:
  "\<forall>s. \<exists>s'. paging_init sample_paging_layout s = (True, s') \<and> translate s' 0xC0101234 = Some 0x101234 \<and>
    translate_write s' 0xC0101234 = None \<and> translate_write s' 0xC0111234 = Some 0x111234"
proof
  fix s
  have "linked sample_paging_layout"
    by (simp add: linked_def sample_paging_layout_def KERNEL_OFFSET_def KERNEL_START_def)
  moreover have "endkernel (allocators sample_paging_layout) \<le> 0xC0400000"
    by (simp add: sample_paging_layout_def)
  ultimately obtain s' where s': "paging_init sample_paging_layout s = (True, s')"
    and t: "\<forall>a. immutable_data_start sample_paging_layout \<le> a \<longrightarrow> a < endkernel (allocators sample_paging_layout) \<longrightarrow>
       translate s' a = Some (V2P a) \<and>
       translate_write s' a = (if a < mutable_data_start sample_paging_layout then None else Some (V2P a))"
    using paging_init_maps_image [of sample_paging_layout s] by blast
  have "translate s' 0xC0101234 = Some 0x101234 \<and>
    translate_write s' 0xC0101234 = None \<and> translate_write s' 0xC0111234 = Some 0x111234"
    using t [rule_format, of "0xC0101234"] t [rule_format, of "0xC0111234"]
    by (simp add: sample_paging_layout_def V2P_def KERNEL_OFFSET_def)
  then show "\<exists>s'. paging_init sample_paging_layout s = (True, s') \<and> translate s' 0xC0101234 = Some 0x101234 \<and>
    translate_write s' 0xC0101234 = None \<and> translate_write s' 0xC0111234 = Some 0x111234"
    using s' by blast
qed

end
