(* ===== verification/Hashmap.thy ===== *)
theory Hashmap
  imports KString "HOL-Library.Monad_Syntax"
begin

text \<open>
  The chained hash map that the macros of
  kernel/kernel/utils/data_structures/hashmap/hashmap.h generate for a key and a data type, and
  the string hash of default\_hashmap\_functions.c.  The entries are an explicit store from
  addresses to records; \<open>None\<close> is the access to an address that holds no entry (NULL or freed).
  The address of a new entry, which \<open>zeroed_out_kmalloc\<close> returns, is an argument of
  \<open>hashmap_add\<close>; the arrays of buckets are functions, and their allocation succeeds.
\<close>

unbundle bit_operations_syntax

section \<open>Data\<close>

definition HASHMAP_RESIZE_FACTOR :: u32 where "HASHMAP_RESIZE_FACTOR = 2"
definition HASHMAP_LOAD_FACTOR :: u32 where "HASHMAP_LOAD_FACTOR = 2"
definition HASHMAP_STARTING_NUM_OF_BUCKETS :: u32 where "HASHMAP_STARTING_NUM_OF_BUCKETS = 256"

record ('k, 'd) entry =
  e_key :: 'k
  e_data :: 'd
  e_prev :: u32
  e_next :: u32

record ('k, 'd) hashmap =
  list_of_buckets :: "u32 \<Rightarrow> u32"
  num_of_buckets :: u32
  num_of_entries :: u32
  hash_function :: "'k \<Rightarrow> u32"
  entries :: "u32 \<Rightarrow> ('k, 'd) entry option"

section \<open>Operations\<close>

definition hashmap_init :: "('k \<Rightarrow> u32) \<Rightarrow> (u32 \<Rightarrow> ('k, 'd) entry option) \<Rightarrow> ('k, 'd) hashmap" where
  "hashmap_init h es =
     \<lparr> list_of_buckets = (\<lambda>_. 0), num_of_buckets = HASHMAP_STARTING_NUM_OF_BUCKETS,
       num_of_entries = 0, hash_function = h, entries = es \<rparr>"

definition get_hash :: "('k, 'd) hashmap \<Rightarrow> 'k \<Rightarrow> u32" where
  "get_hash hm key = hash_function hm key AND (num_of_buckets hm - 1)"

text \<open>Stores to the fields of an entry.\<close>

definition set_entry_links ::
  "u32 \<Rightarrow> (('k, 'd) entry \<Rightarrow> ('k, 'd) entry) \<Rightarrow> ('k, 'd) hashmap \<Rightarrow> ('k, 'd) hashmap option" where
  "set_entry_links p f hm =
     do { e \<leftarrow> entries hm p; Some (hm\<lparr> entries := (entries hm)(p \<mapsto> f e) \<rparr>) }"

partial_function (option) last_entry :: "('k, 'd) hashmap \<Rightarrow> u32 \<Rightarrow> u32 option" where
  "last_entry hm p =
     do { e \<leftarrow> entries hm p; if e_next e \<noteq> 0 then last_entry hm (e_next e) else Some p }"

definition transfer_entry :: "u32 \<Rightarrow> ('k, 'd) hashmap \<Rightarrow> (u32 \<times> ('k, 'd) hashmap) option" where
  "transfer_entry p new_hm =
     do {
       e \<leftarrow> entries new_hm p;
       hm1 \<leftarrow> (if e_next e \<noteq> 0 then set_entry_links (e_next e) (\<lambda>x. x\<lparr> e_prev := 0 \<rparr>) new_hm
               else Some new_hm);
       let new_hash = get_hash hm1 (e_key e);
       hm2 \<leftarrow> (if list_of_buckets hm1 new_hash = 0
               then set_entry_links p (\<lambda>x. x\<lparr> e_next := 0, e_prev := 0 \<rparr>)
                      (hm1\<lparr> list_of_buckets := (list_of_buckets hm1)(new_hash := p) \<rparr>)
               else do {
                 current_entry \<leftarrow> last_entry hm1 (list_of_buckets hm1 new_hash);
                 hm' \<leftarrow> set_entry_links current_entry (\<lambda>x. x\<lparr> e_next := p \<rparr>) hm1;
                 set_entry_links p (\<lambda>x. x\<lparr> e_prev := current_entry, e_next := 0 \<rparr>) hm'
               });
       Some (e_next e, hm2)
     }"

partial_function (option) transfer_bucket ::
  "u32 \<Rightarrow> ('k, 'd) hashmap \<Rightarrow> u32 \<Rightarrow> (('k, 'd) hashmap \<times> u32) option" where
  "transfer_bucket first new_hm transferred =
     (if first = 0 then Some (new_hm, transferred)
      else do {
        (next, new_hm') \<leftarrow> transfer_entry first new_hm;
        transfer_bucket next new_hm' (transferred + 1)
      })"

partial_function (option) transfer_buckets ::
  "u32 \<Rightarrow> (u32 \<Rightarrow> u32) \<Rightarrow> u32 \<Rightarrow> ('k, 'd) hashmap \<Rightarrow> u32 \<Rightarrow> (('k, 'd) hashmap \<times> u32) option" where
  "transfer_buckets i old n new_hm transferred =
     (if i < n
      then do {
        (new_hm', transferred') \<leftarrow> transfer_bucket (old i) new_hm transferred;
        transfer_buckets (i + 1) old n new_hm' transferred'
      }
      else Some (new_hm, transferred))"

text \<open>When the count of the entries is wrong the old hash map stays, with its buckets emptied.\<close>

definition resize_hashmap :: "('k, 'd) hashmap \<Rightarrow> ('k, 'd) hashmap option" where
  "resize_hashmap hm =
     do {
       let new_hashmap = hm\<lparr> num_of_buckets := num_of_buckets hm * HASHMAP_RESIZE_FACTOR,
                            list_of_buckets := (\<lambda>_. 0) \<rparr>;
       (new_hm, transferred) \<leftarrow> transfer_buckets 0 (list_of_buckets hm) (num_of_buckets hm) new_hashmap 0;
       if \<not> (transferred = num_of_entries hm \<and> transferred = num_of_entries new_hm)
       then Some (hm\<lparr> list_of_buckets := (\<lambda>i. if i < num_of_buckets hm then 0 else list_of_buckets hm i),
                      entries := entries new_hm \<rparr>)
       else Some new_hm
     }"

partial_function (option) find_in_chain ::
  "('k \<Rightarrow> 'k \<Rightarrow> bool) \<Rightarrow> ('k, 'd) hashmap \<Rightarrow> 'k \<Rightarrow> u32 \<Rightarrow> u32 option" where
  "find_in_chain same_key hm key p =
     (if p = 0 then Some 0
      else do {
        e \<leftarrow> entries hm p;
        if same_key (e_key e) key then Some p else find_in_chain same_key hm key (e_next e)
      })"

definition hashmap_find_entry ::
  "('k \<Rightarrow> 'k \<Rightarrow> bool) \<Rightarrow> ('k, 'd) hashmap \<Rightarrow> 'k \<Rightarrow> u32 option" where
  "hashmap_find_entry same_key hm key =
     (let first = list_of_buckets hm (get_hash hm key)
      in if first = 0 then Some 0
         else do {
           e \<leftarrow> entries hm first;
           if e_next e = 0
           then (if same_key (e_key e) key then Some first else Some 0)
           else find_in_chain same_key hm key first
         })"

text \<open>The data of the entry, or \<open>Some None\<close> for NULL.\<close>

definition hashmap_find ::
  "('k \<Rightarrow> 'k \<Rightarrow> bool) \<Rightarrow> ('k, 'd) hashmap \<Rightarrow> 'k \<Rightarrow> 'd option option" where
  "hashmap_find same_key hm key =
     do {
       entry \<leftarrow> hashmap_find_entry same_key hm key;
       if entry = 0 then Some None else do { e \<leftarrow> entries hm entry; Some (Some (e_data e)) }
     }"

definition hashmap_remove ::
  "('k \<Rightarrow> 'k \<Rightarrow> bool) \<Rightarrow> ('k, 'd) hashmap \<Rightarrow> 'k \<Rightarrow> ('d option \<times> ('k, 'd) hashmap) option" where
  "hashmap_remove same_key hm key =
     do {
       entry \<leftarrow> hashmap_find_entry same_key hm key;
       if entry = 0 then Some (None, hm)
       else do {
         e \<leftarrow> entries hm entry;
         hm1 \<leftarrow> (if e_prev e \<noteq> 0 then set_entry_links entry (\<lambda>x. x\<lparr> e_prev := e_next x \<rparr>) hm
                 else Some (hm\<lparr> list_of_buckets := (list_of_buckets hm)(get_hash hm key := e_next e) \<rparr>));
         e1 \<leftarrow> entries hm1 entry;
         hm2 \<leftarrow> (if e_next e1 \<noteq> 0 then set_entry_links (e_next e1) (\<lambda>x. x\<lparr> e_prev := e_prev e1 \<rparr>) hm1
                 else Some hm1);
         Some (Some (e_data e), hm2\<lparr> entries := (entries hm2)(entry := None),
                                     num_of_entries := num_of_entries hm2 - 1 \<rparr>)
       }
     }"

definition hashmap_add :: "u32 \<Rightarrow> ('k, 'd) hashmap \<Rightarrow> 'k \<Rightarrow> 'd \<Rightarrow> ('k, 'd) hashmap option" where
  "hashmap_add new_entry hm0 key data =
     do {
       hm \<leftarrow> (if num_of_entries hm0 div num_of_buckets hm0 \<ge> HASHMAP_LOAD_FACTOR
              then resize_hashmap hm0 else Some hm0);
       let hash = get_hash hm key;
       let first = list_of_buckets hm hash;
       if new_entry = 0 then None
       else do {
         let hm1 = hm\<lparr> entries := (entries hm)(new_entry \<mapsto>
                     \<lparr> e_key = key, e_data = data, e_prev = 0, e_next = 0 \<rparr>) \<rparr>;
         hm2 \<leftarrow> (if first = 0
                 then Some (hm1\<lparr> list_of_buckets := (list_of_buckets hm1)(hash := new_entry) \<rparr>)
                 else do {
                   current_entry \<leftarrow> last_entry hm1 first;
                   hm' \<leftarrow> set_entry_links current_entry (\<lambda>x. x\<lparr> e_next := new_entry \<rparr>) hm1;
                   set_entry_links new_entry (\<lambda>x. x\<lparr> e_prev := current_entry \<rparr>) hm'
                 });
         Some (hm2\<lparr> num_of_entries := num_of_entries hm2 + 1 \<rparr>)
       }
     }"

partial_function (option) destroy_chain ::
  "u32 \<Rightarrow> (u32 \<Rightarrow> ('k, 'd) entry option) \<Rightarrow> (u32 \<Rightarrow> ('k, 'd) entry option) option" where
  "destroy_chain p es =
     (if p = 0 then Some es
      else do { e \<leftarrow> es p; destroy_chain (e_next e) (es(p := None)) })"

partial_function (option) destroy_buckets ::
  "u32 \<Rightarrow> ('k, 'd) hashmap \<Rightarrow> (u32 \<Rightarrow> ('k, 'd) entry option) \<Rightarrow> (u32 \<Rightarrow> ('k, 'd) entry option) option" where
  "destroy_buckets i hm es =
     (if i < num_of_buckets hm
      then do { es' \<leftarrow> destroy_chain (list_of_buckets hm i) es; destroy_buckets (i + 1) hm es' }
      else Some es)"

definition hashmap_destroy :: "('k, 'd) hashmap \<Rightarrow> ('k, 'd) hashmap option" where
  "hashmap_destroy hm =
     do { es \<leftarrow> destroy_buckets 0 hm (entries hm); Some (hm\<lparr> entries := es \<rparr>) }"

section \<open>Strings as keys\<close>

definition str_hash_function :: "mem \<Rightarrow> u32 \<Rightarrow> u32 option" where
  "str_hash_function m str_to_hash =
     do {
       str_len \<leftarrow> kstrlen m str_to_hash;
       Some (for_up 0 str_len (\<lambda>i hash. hash XOR scast (m (str_to_hash + i))) 0)
     }"

definition str_comp :: "mem \<Rightarrow> u32 \<Rightarrow> u32 \<Rightarrow> bool option" where
  "str_comp m str1 str2 = map_option (\<lambda>r. r = 0) (kstrcmp m str1 str2)"

end
