(* ===== verification/PortIO.thy ===== *)
theory PortIO
  imports Prelude "HOL-Library.Monad_Syntax"
begin

text \<open>
  Port-mapped input and output (arch/i686/drivers/port\_mapped\_io).  A driver run is a trace of
  accesses, the newest first; the hardware answers a read as a function of the trace so far and of
  the port.  The hardware is not code of the kernel: it is the argument \<open>hw\<close> of every driver that
  reads.
\<close>

datatype access =
  Out8 u16 u8 | Out16 u16 u16 | Out32 u16 u32 | In8 u16 | In16 u16 | In32 u16 | Waited

type_synonym trace = "access list"

record hardware =
  answer8 :: "trace \<Rightarrow> u16 \<Rightarrow> u8"
  answer16 :: "trace \<Rightarrow> u16 \<Rightarrow> u16"
  answer32 :: "trace \<Rightarrow> u16 \<Rightarrow> u32"

definition outb :: "u16 \<Rightarrow> u8 \<Rightarrow> trace \<Rightarrow> trace" where "outb port v tr = Out8 port v # tr"
definition outw :: "u16 \<Rightarrow> u16 \<Rightarrow> trace \<Rightarrow> trace" where "outw port v tr = Out16 port v # tr"
definition outl :: "u16 \<Rightarrow> u32 \<Rightarrow> trace \<Rightarrow> trace" where "outl port v tr = Out32 port v # tr"
definition io_wait :: "trace \<Rightarrow> trace" where "io_wait tr = Waited # tr"

definition inb :: "hardware \<Rightarrow> u16 \<Rightarrow> trace \<Rightarrow> u8 \<times> trace" where
  "inb hw port tr = (answer8 hw tr port, In8 port # tr)"
definition inw :: "hardware \<Rightarrow> u16 \<Rightarrow> trace \<Rightarrow> u16 \<times> trace" where
  "inw hw port tr = (answer16 hw tr port, In16 port # tr)"
definition inl :: "hardware \<Rightarrow> u16 \<Rightarrow> trace \<Rightarrow> u32 \<times> trace" where
  "inl hw port tr = (answer32 hw tr port, In32 port # tr)"

lemmas port_io = outb_def outw_def outl_def inb_def inw_def inl_def io_wait_def

end
