(* ===== verification/Vga.thy ===== *)
theory Vga
  imports KString PortIO
begin

text \<open>
  The text screen, arch/i686/drivers/vga\_driver/vga\_driver.c, with the locked interface of
  default\_vga\_driver.c.  The cells of the screen (\<open>terminal_buffer\<close>) and the two scroll-back
  histories are functions from indices; \<open>ports\<close> is the trace of the bytes written to the
  controller.  A scroll calls back into the terminal (\<open>default_terminal_context_shift\<close>), so the
  bounds of the command line that \<open>default_terminal_shift\<close> moves are part of the state; the
  function pointers of the terminal driver have the values \<open>set_default_functions\<close> gives them.
  A text is the list of its bytes.
\<close>

unbundle bit_operations_syntax

section \<open>State\<close>

definition VGA_WIDTH :: u32 where "VGA_WIDTH = 80"
definition VGA_HEIGHT :: u32 where "VGA_HEIGHT = 25"

lemmas vga_constants = VGA_WIDTH_def VGA_HEIGHT_def

datatype vga_color =
  VGA_COLOR_BLACK | VGA_COLOR_BLUE | VGA_COLOR_GREEN | VGA_COLOR_CYAN | VGA_COLOR_RED
| VGA_COLOR_MAGENTA | VGA_COLOR_BROWN | VGA_COLOR_LIGHT_GREY | VGA_COLOR_DARK_GREY
| VGA_COLOR_LIGHT_BLUE | VGA_COLOR_LIGHT_GREEN | VGA_COLOR_LIGHT_CYAN | VGA_COLOR_LIGHT_RED
| VGA_COLOR_LIGHT_MAGENTA | VGA_COLOR_LIGHT_BROWN | VGA_COLOR_WHITE

text \<open>The values of the enumeration; a variable of the type holds any number, such as a foreground
  and background pair.\<close>

fun color_number :: "vga_color \<Rightarrow> u32" where
  "color_number VGA_COLOR_BLACK = 0"
| "color_number VGA_COLOR_BLUE = 1"
| "color_number VGA_COLOR_GREEN = 2"
| "color_number VGA_COLOR_CYAN = 3"
| "color_number VGA_COLOR_RED = 4"
| "color_number VGA_COLOR_MAGENTA = 5"
| "color_number VGA_COLOR_BROWN = 6"
| "color_number VGA_COLOR_LIGHT_GREY = 7"
| "color_number VGA_COLOR_DARK_GREY = 8"
| "color_number VGA_COLOR_LIGHT_BLUE = 9"
| "color_number VGA_COLOR_LIGHT_GREEN = 10"
| "color_number VGA_COLOR_LIGHT_CYAN = 11"
| "color_number VGA_COLOR_LIGHT_RED = 12"
| "color_number VGA_COLOR_LIGHT_MAGENTA = 13"
| "color_number VGA_COLOR_LIGHT_BROWN = 14"
| "color_number VGA_COLOR_WHITE = 15"

record vga =
  terminal_row :: u32
  terminal_column :: u32
  terminal_color :: u32
  terminal_buffer :: "u32 \<Rightarrow> u16"
  terminal_on :: bool
  terminal_upward_history :: "u32 \<Rightarrow> u16"
  terminal_downward_history :: "u32 \<Rightarrow> u16"
  terminal_upward_history_size :: u32
  terminal_downward_history_size :: u32
  start_of_command :: u32
  end_of_command :: u32
  ports :: trace

definition vga_outb :: "u16 \<Rightarrow> u8 \<Rightarrow> vga \<Rightarrow> vga" where
  "vga_outb port b c = c\<lparr> ports := outb port b (ports c) \<rparr>"

definition vga_entry_color :: "u32 \<Rightarrow> u32 \<Rightarrow> u8" where
  "vga_entry_color fg bg = ucast (fg OR push_bit 4 bg)"

text \<open>A \<open>char\<close> is signed, so its sign reaches the byte of the colour.\<close>

definition vga_entry :: "u8 \<Rightarrow> u32 \<Rightarrow> u16" where
  "vga_entry uc color = scast uc OR push_bit 8 (ucast color)"

section \<open>Cells\<close>

definition put_cell :: "u32 \<Rightarrow> u16 \<Rightarrow> vga \<Rightarrow> vga" where
  "put_cell i v c = c\<lparr> terminal_buffer := (terminal_buffer c)(i := v) \<rparr>"

definition terminal_clear :: "vga \<Rightarrow> vga" where
  "terminal_clear c =
     (let c1 = c\<lparr> terminal_row := 0, terminal_column := 0 \<rparr>;
          c2 = for_up 0 VGA_HEIGHT (\<lambda>y t. for_up 0 VGA_WIDTH
                 (\<lambda>x u. put_cell (y * VGA_WIDTH + x) (vga_entry 32 (terminal_color u)) u) t) c1
      in c2\<lparr> terminal_upward_history_size := 0, terminal_downward_history_size := 0 \<rparr>)"

definition terminal_setcolor :: "u32 \<Rightarrow> vga \<Rightarrow> vga" where
  "terminal_setcolor color c = c\<lparr> terminal_color := color \<rparr>"

definition terminal_resetcolor :: "vga \<Rightarrow> vga" where
  "terminal_resetcolor c =
     terminal_setcolor (ucast (vga_entry_color (color_number VGA_COLOR_LIGHT_GREY)
                                               (color_number VGA_COLOR_BLACK))) c"

text \<open>The page of the screen memory is mapped by \<open>map_page_in_kernel_addr\<close> (Paging).\<close>

definition terminal_initialize :: "vga \<Rightarrow> vga" where
  "terminal_initialize c =
     terminal_clear ((terminal_resetcolor c)\<lparr> terminal_upward_history_size := 0,
                                              terminal_downward_history_size := 0 \<rparr>)"

definition terminal_putentryat :: "u8 \<Rightarrow> u32 \<Rightarrow> u32 \<Rightarrow> u32 \<Rightarrow> vga \<Rightarrow> vga" where
  "terminal_putentryat ch color x y c = put_cell (y * VGA_WIDTH + x) (vga_entry ch color) c"

definition terminal_updatecursor :: "vga \<Rightarrow> vga" where
  "terminal_updatecursor c =
     (let pos = terminal_row c * VGA_WIDTH + terminal_column c
      in vga_outb 0x3D5 (ucast pos) (vga_outb 0x3D4 15
           (vga_outb 0x3D5 (ucast (drop_bit 8 pos)) (vga_outb 0x3D4 14 c))))"

section \<open>Scrolling\<close>

definition default_terminal_shift :: "vga \<Rightarrow> vga" where
  "default_terminal_shift c =
     c\<lparr> start_of_command := start_of_command c - 80, end_of_command := end_of_command c - 80,
        terminal_on := False \<rparr>"

definition push_upward :: "u32 \<Rightarrow> vga \<Rightarrow> vga" where
  "push_upward x c =
     (let n = (if terminal_upward_history_size c \<ge> VGA_WIDTH * VGA_HEIGHT then 0
               else terminal_upward_history_size c)
      in c\<lparr> terminal_upward_history := (terminal_upward_history c)(n := terminal_buffer c x),
            terminal_upward_history_size := n + 1 \<rparr>)"

definition push_downward :: "u32 \<Rightarrow> vga \<Rightarrow> vga" where
  "push_downward x c =
     (let n = (if terminal_downward_history_size c \<ge> VGA_WIDTH * VGA_HEIGHT then 0
               else terminal_downward_history_size c)
      in c\<lparr> terminal_downward_history :=
              (terminal_downward_history c)(n := terminal_buffer c ((VGA_HEIGHT - 1) * VGA_WIDTH + x)),
            terminal_downward_history_size := n + 1 \<rparr>)"

definition pop_downward :: "u32 \<Rightarrow> vga \<Rightarrow> vga" where
  "pop_downward x c =
     (let n = terminal_downward_history_size c - 1
      in put_cell ((VGA_HEIGHT - 1) * VGA_WIDTH + x - 1) (terminal_downward_history c n)
           (c\<lparr> terminal_downward_history_size := n \<rparr>))"

definition pop_upward :: "u32 \<Rightarrow> vga \<Rightarrow> vga" where
  "pop_upward x c =
     (let n = terminal_upward_history_size c - 1
      in put_cell (VGA_WIDTH - x) (terminal_upward_history c n)
           (c\<lparr> terminal_upward_history_size := n \<rparr>))"

definition rows_up :: "vga \<Rightarrow> vga" where
  "rows_up c =
     for_up 0 (VGA_HEIGHT - 1) (\<lambda>y t. for_up 0 VGA_WIDTH
       (\<lambda>x u. put_cell (y * VGA_WIDTH + x) (terminal_buffer u ((y + 1) * VGA_WIDTH + x)) u) t) c"

definition rows_down :: "vga \<Rightarrow> vga" where
  "rows_down c =
     for_down (VGA_HEIGHT - 1) 0 (\<lambda>y t. for_up 0 VGA_WIDTH
       (\<lambda>x u. put_cell (y * VGA_WIDTH + x) (terminal_buffer u ((y - 1) * VGA_WIDTH + x)) u) t) c"

definition terminal_scroll_down :: "vga \<Rightarrow> vga" where
  "terminal_scroll_down c =
     (let c1 = for_up 0 VGA_WIDTH push_upward c;
          c2 = rows_up c1;
          c3 = (if terminal_downward_history_size c2 = 0
                then for_up 0 VGA_WIDTH
                       (\<lambda>x. terminal_putentryat 32 (color_number VGA_COLOR_WHITE) x (VGA_HEIGHT - 1)) c2
                else for_down VGA_WIDTH 0 pop_downward c2)
      in default_terminal_shift (c3\<lparr> terminal_row := VGA_HEIGHT - 1, terminal_column := 0 \<rparr>))"

definition terminal_scroll_up :: "vga \<Rightarrow> vga" where
  "terminal_scroll_up c =
     (if terminal_upward_history_size c = 0 then c
      else let c1 = for_up 0 VGA_WIDTH push_downward c;
               c2 = rows_down c1;
               c3 = for_up 1 (VGA_WIDTH + 1) pop_upward c2
           in c3\<lparr> terminal_row := 0, terminal_column := 0 \<rparr>)"

section \<open>Characters and texts\<close>

definition new_row :: "vga \<Rightarrow> vga" where
  "new_row c =
     (let c1 = c\<lparr> terminal_row := terminal_row c + 1 \<rparr>
      in if terminal_row c1 = VGA_HEIGHT then terminal_scroll_down c1 else c1)"

text \<open>\<open>terminal_putchar\<close> on a character other than a tab, which it writes as four spaces.\<close>

definition put_plain :: "u8 \<Rightarrow> vga \<Rightarrow> vga" where
  "put_plain ch c =
     (if ch = 10
      then terminal_updatecursor ((new_row c)\<lparr> terminal_column := 0 \<rparr>)
      else let c1 = terminal_putentryat ch (terminal_color c) (terminal_column c) (terminal_row c) c;
               c2 = c1\<lparr> terminal_column := terminal_column c1 + 1 \<rparr>;
               c3 = (if terminal_column c2 = VGA_WIDTH then new_row (c2\<lparr> terminal_column := 0 \<rparr>) else c2)
           in terminal_updatecursor c3)"

definition terminal_putchar :: "u8 \<Rightarrow> vga \<Rightarrow> vga" where
  "terminal_putchar ch c =
     (if ch = 9 then fold put_plain [32, 32, 32, 32] c else put_plain ch c)"

definition terminal_write :: "u8 list \<Rightarrow> vga \<Rightarrow> vga" where
  "terminal_write txt c = fold terminal_putchar txt c"

definition terminal_writestring :: "u8 list \<Rightarrow> vga \<Rightarrow> vga" where
  "terminal_writestring txt c = terminal_write txt c"

definition with_color :: "u32 \<Rightarrow> (vga \<Rightarrow> vga) \<Rightarrow> vga \<Rightarrow> vga" where
  "with_color color f c = terminal_setcolor (terminal_color c) (f (terminal_setcolor color c))"

definition terminal_putchar_color :: "u8 \<Rightarrow> u32 \<Rightarrow> vga \<Rightarrow> vga" where
  "terminal_putchar_color ch color = with_color color (terminal_putchar ch)"

definition terminal_swapchar :: "u8 \<Rightarrow> vga \<Rightarrow> vga" where
  "terminal_swapchar ch c = terminal_putentryat ch (terminal_color c) (terminal_column c) (terminal_row c) c"

definition terminal_swapchar_color :: "u8 \<Rightarrow> u32 \<Rightarrow> vga \<Rightarrow> vga" where
  "terminal_swapchar_color ch color = with_color color (terminal_swapchar ch)"

definition terminal_write_color :: "u8 list \<Rightarrow> u32 \<Rightarrow> vga \<Rightarrow> vga" where
  "terminal_write_color txt color = with_color color (terminal_write txt)"

definition terminal_writestring_color :: "u8 list \<Rightarrow> u32 \<Rightarrow> vga \<Rightarrow> vga" where
  "terminal_writestring_color txt color = terminal_write_color txt color"

definition terminal_scroll_clear :: "vga \<Rightarrow> vga" where
  "terminal_scroll_clear c =
     (for_up (0 :: u32) 25 (\<lambda>_. terminal_writestring [10]) c)\<lparr> terminal_row := 0, terminal_column := 0 \<rparr>"

section \<open>The cursor\<close>

definition terminal_cursor_up :: "vga \<Rightarrow> vga" where
  "terminal_cursor_up c =
     (let c1 = c\<lparr> terminal_row := terminal_row c - 1 \<rparr>
      in terminal_updatecursor
           (if terminal_row c = 0 then (terminal_scroll_up c1)\<lparr> terminal_row := 0 \<rparr> else c1))"

definition terminal_cursor_left :: "vga \<Rightarrow> vga" where
  "terminal_cursor_left c =
     terminal_updatecursor
       (c\<lparr> terminal_column := (if terminal_column c = 0 then 0 else terminal_column c - 1) \<rparr>)"

definition terminal_cursor_right :: "vga \<Rightarrow> vga" where
  "terminal_cursor_right c =
     terminal_updatecursor
       (c\<lparr> terminal_column := (if terminal_column c + 1 > 79 then 79 else terminal_column c + 1) \<rparr>)"

definition terminal_cursor_down :: "vga \<Rightarrow> vga" where
  "terminal_cursor_down c =
     (let c1 = c\<lparr> terminal_row := terminal_row c + 1 \<rparr>;
          c2 = (if terminal_row c1 > 24
                then (if terminal_downward_history_size c1 > 0 then terminal_scroll_down c1 else c1)
                       \<lparr> terminal_row := 24 \<rparr>
                else c1)
      in terminal_updatecursor c2)"

definition terminal_backspace :: "vga \<Rightarrow> vga" where
  "terminal_backspace c =
     (let c1 = c\<lparr> terminal_column := terminal_column c - 1 \<rparr>
      in terminal_updatecursor
           (if terminal_column c = 0 then c1\<lparr> terminal_column := 0 \<rparr> else terminal_swapchar 32 c1))"

section \<open>The locked interface\<close>

text \<open>A spin lock on one processor: acquiring a lock that is held spins for ever (\<open>None\<close>).\<close>

definition acquire_spinlock :: "bool \<Rightarrow> bool option" where
  "acquire_spinlock held = (if held then None else Some True)"

definition release_spinlock :: "bool \<Rightarrow> bool" where
  "release_spinlock held = False"

definition with_vga_lock :: "(vga \<Rightarrow> vga) \<Rightarrow> bool \<times> vga \<Rightarrow> (bool \<times> vga) option" where
  "with_vga_lock f s =
     map_option (\<lambda>held. (release_spinlock held, f (snd s))) (acquire_spinlock (fst s))"

definition terminal_context_initialize :: "bool \<times> vga \<Rightarrow> (bool \<times> vga) option" where
  "terminal_context_initialize = with_vga_lock terminal_initialize"
definition terminal_context_clear :: "bool \<times> vga \<Rightarrow> (bool \<times> vga) option" where
  "terminal_context_clear = with_vga_lock terminal_clear"
definition terminal_context_scroll_clear :: "bool \<times> vga \<Rightarrow> (bool \<times> vga) option" where
  "terminal_context_scroll_clear = with_vga_lock terminal_scroll_clear"
definition terminal_context_setcolor :: "u8 \<Rightarrow> bool \<times> vga \<Rightarrow> (bool \<times> vga) option" where
  "terminal_context_setcolor color = with_vga_lock (terminal_setcolor (ucast color))"
definition terminal_context_resetcolor :: "bool \<times> vga \<Rightarrow> (bool \<times> vga) option" where
  "terminal_context_resetcolor = with_vga_lock terminal_resetcolor"
definition terminal_context_putentryat :: "u8 \<Rightarrow> u8 \<Rightarrow> u32 \<Rightarrow> u32 \<Rightarrow> bool \<times> vga \<Rightarrow> (bool \<times> vga) option" where
  "terminal_context_putentryat ch color x y = with_vga_lock (terminal_putentryat ch (ucast color) x y)"
definition terminal_context_putchar :: "u8 \<Rightarrow> bool \<times> vga \<Rightarrow> (bool \<times> vga) option" where
  "terminal_context_putchar ch = with_vga_lock (terminal_putchar ch)"
definition terminal_context_putchar_color :: "u8 \<Rightarrow> u8 \<Rightarrow> bool \<times> vga \<Rightarrow> (bool \<times> vga) option" where
  "terminal_context_putchar_color ch color = with_vga_lock (terminal_putchar_color ch (ucast color))"
definition terminal_context_swapchar :: "u8 \<Rightarrow> bool \<times> vga \<Rightarrow> (bool \<times> vga) option" where
  "terminal_context_swapchar ch = with_vga_lock (terminal_swapchar ch)"
definition terminal_context_swapchar_color :: "u8 \<Rightarrow> u8 \<Rightarrow> bool \<times> vga \<Rightarrow> (bool \<times> vga) option" where
  "terminal_context_swapchar_color ch color = with_vga_lock (terminal_swapchar_color ch (ucast color))"
definition terminal_context_write :: "u8 list \<Rightarrow> bool \<times> vga \<Rightarrow> (bool \<times> vga) option" where
  "terminal_context_write txt = with_vga_lock (terminal_write txt)"
definition terminal_context_writestring :: "u8 list \<Rightarrow> bool \<times> vga \<Rightarrow> (bool \<times> vga) option" where
  "terminal_context_writestring txt = with_vga_lock (terminal_writestring txt)"
definition terminal_context_write_color :: "u8 list \<Rightarrow> u8 \<Rightarrow> bool \<times> vga \<Rightarrow> (bool \<times> vga) option" where
  "terminal_context_write_color txt color = with_vga_lock (terminal_write_color txt (ucast color))"
definition terminal_context_writestring_color :: "u8 list \<Rightarrow> u8 \<Rightarrow> bool \<times> vga \<Rightarrow> (bool \<times> vga) option" where
  "terminal_context_writestring_color txt color = with_vga_lock (terminal_writestring_color txt (ucast color))"
definition terminal_context_scroll_down :: "bool \<times> vga \<Rightarrow> (bool \<times> vga) option" where
  "terminal_context_scroll_down = with_vga_lock terminal_scroll_down"
definition terminal_context_scroll_up :: "bool \<times> vga \<Rightarrow> (bool \<times> vga) option" where
  "terminal_context_scroll_up = with_vga_lock terminal_scroll_up"
definition terminal_context_cursor_up :: "bool \<times> vga \<Rightarrow> (bool \<times> vga) option" where
  "terminal_context_cursor_up = with_vga_lock terminal_cursor_up"
definition terminal_context_cursor_left :: "bool \<times> vga \<Rightarrow> (bool \<times> vga) option" where
  "terminal_context_cursor_left = with_vga_lock terminal_cursor_left"
definition terminal_context_cursor_right :: "bool \<times> vga \<Rightarrow> (bool \<times> vga) option" where
  "terminal_context_cursor_right = with_vga_lock terminal_cursor_right"
definition terminal_context_cursor_down :: "bool \<times> vga \<Rightarrow> (bool \<times> vga) option" where
  "terminal_context_cursor_down = with_vga_lock terminal_cursor_down"
definition terminal_context_backspace :: "bool \<times> vga \<Rightarrow> (bool \<times> vga) option" where
  "terminal_context_backspace = with_vga_lock terminal_backspace"
definition terminal_context_updatecursor :: "bool \<times> vga \<Rightarrow> (bool \<times> vga) option" where
  "terminal_context_updatecursor = with_vga_lock terminal_updatecursor"

end
