(* ===== verification/KStdio.thy ===== *)
theory KStdio
  imports Vga
begin

text \<open>
  Formatted output, libk/kstdio.c.  Without a colour prefix text goes to the serial port
  (\<open>serial_out\<close>, in the order of the bytes), with one to the screen.  The arguments of a call are a
  list of words; taking one from an empty list is undefined (\<open>None\<close>).  \<open>frame\<close> is the address of the
  local buffer \<open>str\<close> of \<open>conversion_specifier\<close>.  The wait for the serial line to be empty ends.
\<close>

unbundle bit_operations_syntax

section \<open>State and output\<close>

record stdio =
  smem :: mem
  color_setting :: int
  serial_out :: "u8 list"
  screen :: "bool \<times> vga"

definition string_at :: "mem \<Rightarrow> u32 \<Rightarrow> u8 list option" where
  "string_at m p = map_option (\<lambda>n. map (\<lambda>i. m (p + of_nat i)) [0..<unat n]) (kstrlen m p)"

definition print_char :: "u8 \<Rightarrow> stdio \<Rightarrow> stdio" where
  "print_char c s = s\<lparr> serial_out := serial_out s @ [c] \<rparr>"

definition print_char_color :: "u8 \<Rightarrow> int \<Rightarrow> stdio \<Rightarrow> stdio option" where
  "print_char_color c color s =
     map_option (\<lambda>v. s\<lparr> screen := v \<rparr>) (terminal_context_putchar_color c (word_of_int color) (screen s))"

definition print_string :: "u32 \<Rightarrow> stdio \<Rightarrow> stdio option" where
  "print_string p s = map_option (\<lambda>t. s\<lparr> serial_out := serial_out s @ t \<rparr>) (string_at (smem s) p)"

definition print_string_color :: "u32 \<Rightarrow> int \<Rightarrow> stdio \<Rightarrow> stdio option" where
  "print_string_color p color s =
     do {
       t \<leftarrow> string_at (smem s) p;
       v \<leftarrow> terminal_context_writestring_color t (word_of_int color) (screen s);
       Some (s\<lparr> screen := v \<rparr>)
     }"

section \<open>Conversions\<close>

definition has_color :: "mem \<Rightarrow> u32 \<Rightarrow> u32 \<Rightarrow> int" where
  "has_color m format format_size =
     (if format_size < 2 then - 1
      else if m format = 37
      then let c = m (format + 1)
           in if 48 \<le> c \<and> c \<le> 57 then uint (c - 48)
              else if 65 \<le> c \<and> c \<le> 70 then uint (c - 55)
              else - 1
      else - 1)"

definition emit_char :: "u8 \<Rightarrow> stdio \<Rightarrow> stdio option" where
  "emit_char c s =
     (if color_setting s = - 1 then Some (print_char c s) else print_char_color c (color_setting s) s)"

definition emit_string :: "u32 \<Rightarrow> stdio \<Rightarrow> stdio option" where
  "emit_string p s =
     (if color_setting s = - 1 then print_string p s else print_string_color p (color_setting s) s)"

definition emit_number :: "u32 \<Rightarrow> u64 \<Rightarrow> u32 \<Rightarrow> bool \<Rightarrow> stdio \<Rightarrow> stdio option" where
  "emit_number frame number base lowercase s =
     do {
       (_, m) \<leftarrow> kint_to_string (smem s) number frame 128 base lowercase;
       emit_string frame (s\<lparr> smem := m \<rparr>)
     }"

definition va_arg :: "u32 list \<Rightarrow> (u32 \<times> u32 list) option" where
  "va_arg args = (case args of [] \<Rightarrow> None | a # rest \<Rightarrow> Some (a, rest))"

text \<open>The switch on the character after the percent sign: the result, the next index, the
  remaining arguments and the state.  The floating-point conversions and \<open>n\<close> only return.\<close>

definition convert_argument ::
  "u32 \<Rightarrow> u8 \<Rightarrow> u32 \<Rightarrow> u32 list \<Rightarrow> stdio \<Rightarrow> (int \<times> u32 \<times> u32 list \<times> stdio) option" where
  "convert_argument frame c index args s =
     (let numeric = (\<lambda>r base lowercase. do {
            (a, rest) \<leftarrow> va_arg args;
            s1 \<leftarrow> emit_number frame (ucast a) base lowercase s;
            Some (r, index + 1, rest, s1) })
      in if c = 99 then do {
           (a, rest) \<leftarrow> va_arg args; s1 \<leftarrow> emit_char (ucast a) s; Some (1, index + 1, rest, s1) }
         else if c = 115 then do {
           (a, rest) \<leftarrow> va_arg args; s1 \<leftarrow> emit_string a s; Some (2, index + 1, rest, s1) }
         else if c = 100 \<or> c = 105 then do {
           (a, rest) \<leftarrow> va_arg args;
           s1 \<leftarrow> emit_number frame (scast a) 10 False s;
           Some (3, index + 1, rest, s1) }
         else if c = 111 then numeric 4 8 False
         else if c = 120 then numeric 5 16 True
         else if c = 88 then numeric 6 16 False
         else if c = 117 then numeric 7 10 False
         else if c = 102 \<or> c = 70 then Some (8, index, args, s)
         else if c = 101 \<or> c = 69 then Some (9, index, args, s)
         else if c = 97 \<or> c = 65 then Some (10, index, args, s)
         else if c = 103 \<or> c = 71 then Some (11, index, args, s)
         else if c = 110 then Some (12, index, args, s)
         else if c = 112 then numeric 13 16 False
         else if c = 98 \<or> c = 66 then numeric 14 2 False
         else Some (0, index, args, s))"

definition conversion_specifier ::
  "u32 \<Rightarrow> u32 \<Rightarrow> u32 \<Rightarrow> u32 \<Rightarrow> u32 list \<Rightarrow> stdio \<Rightarrow> (int \<times> u32 \<times> u32 list \<times> stdio) option" where
  "conversion_specifier frame format format_size index args s =
     (if \<not> index < format_size then Some (- 1, index, args, s)
      else let s1 = (if color_setting s = - 1
                     then s\<lparr> color_setting := has_color (smem s) format format_size \<rparr> else s);
               index1 = (if color_setting s = - 1 \<and> color_setting s1 \<noteq> - 1 then index + 2 else index);
               c = smem s1 (format + index1)
           in if c = 37
              then (if index1 + 1 < format_size
                    then convert_argument frame (smem s1 (format + (index1 + 1))) index1 args s1
                    else Some (0, index1, args, s1))
              else map_option (\<lambda>s2. (0, index1, args, s2)) (emit_char c s1))"

partial_function (option) kprintf_loop ::
  "u32 \<Rightarrow> u32 \<Rightarrow> u32 \<Rightarrow> u32 \<Rightarrow> u32 list \<Rightarrow> stdio \<Rightarrow> stdio option" where
  "kprintf_loop frame format format_len i args s =
     (if i < format_len
      then do {
        (_, i1, rest, s1) \<leftarrow> conversion_specifier frame format format_len i args s;
        kprintf_loop frame format format_len (i1 + 1) rest s1
      }
      else Some s)"

definition kprintf_implementation :: "u32 \<Rightarrow> u32 \<Rightarrow> u32 list \<Rightarrow> stdio \<Rightarrow> (int \<times> stdio) option" where
  "kprintf_implementation frame format args s =
     do {
       format_len \<leftarrow> kstrlen (smem s) format;
       s1 \<leftarrow> kprintf_loop frame format format_len 0 args s;
       Some (0, s1\<lparr> color_setting := - 1 \<rparr>)
     }"

definition kprintf :: "u32 \<Rightarrow> u32 \<Rightarrow> u32 list \<Rightarrow> stdio \<Rightarrow> (int \<times> stdio) option" where
  "kprintf frame format args s = map_option (\<lambda>(_, t). (0, t)) (kprintf_implementation frame format args s)"

definition kputs :: "u32 \<Rightarrow> stdio \<Rightarrow> (u32 \<times> stdio) option" where
  "kputs str s =
     do {
       s1 \<leftarrow> print_string str s;
       n \<leftarrow> kstrlen (smem s) str;
       Some (n, print_char 10 s1)
     }"

end
