(* ===== verification/Keyboard.thy ===== *)
theory Keyboard
  imports Observer
begin

text \<open>
  The keyboard, arch/i686/drivers/keyboard/default\_keyboard\_logic.c and keyboard\_driver.c: the
  state of the modifier keys, the translation of a scan code to an event, and the notification
  of the observers.  \<open>translate_key\<close> yields the event a scan code assigns to the variable
  \<open>event\<close>, or \<open>None\<close> where the code leaves the variable uninitialised; \<open>process_keystroke\<close> then
  passes on what the stack held, its argument \<open>garbage\<close>.
\<close>

unbundle bit_operations_syntax

section \<open>Data\<close>

datatype type_of_key =
  CONTROL | LEFT_SHIFT | RIGHT_SHIFT | ALT | CAPS_LOCK | F1 | F2 | F3 | F4 | F5 | F6 |
  F7 | F8 | F9 | F10 | NUMS_LOCK | SCROLL_LOCK | HOME_KEY | UP_ARROW | PAGE_UP |
  LEFT_ARROW | RIGHT_ARROW | END_KEY | DOWN_ARROW | PAGE_DOWN | INSERT_KEY | DELETE_KEY
  | F11 | F12 | NORMAL_KEY | INVALID_KEY

fun key_number :: "type_of_key \<Rightarrow> u32" where
  "key_number CONTROL = 0"
| "key_number LEFT_SHIFT = 1"
| "key_number RIGHT_SHIFT = 2"
| "key_number ALT = 3"
| "key_number CAPS_LOCK = 4"
| "key_number F1 = 5"
| "key_number F2 = 6"
| "key_number F3 = 7"
| "key_number F4 = 8"
| "key_number F5 = 9"
| "key_number F6 = 10"
| "key_number F7 = 11"
| "key_number F8 = 12"
| "key_number F9 = 13"
| "key_number F10 = 14"
| "key_number NUMS_LOCK = 15"
| "key_number SCROLL_LOCK = 16"
| "key_number HOME_KEY = 17"
| "key_number UP_ARROW = 18"
| "key_number PAGE_UP = 19"
| "key_number LEFT_ARROW = 20"
| "key_number RIGHT_ARROW = 21"
| "key_number END_KEY = 22"
| "key_number DOWN_ARROW = 23"
| "key_number PAGE_DOWN = 24"
| "key_number INSERT_KEY = 25"
| "key_number DELETE_KEY = 26"
| "key_number F11 = 27"
| "key_number F12 = 28"
| "key_number NORMAL_KEY = 29"
| "key_number INVALID_KEY = 30"

definition KEYBOARD_EVENT :: u32 where "KEYBOARD_EVENT = 0"

record key_message =
  keycode :: u8
  key_type :: u32

record key_event =
  event_type :: u32
  event_data :: key_message

record keyboard =
  rshift :: bool
  lshift :: bool
  caps_lock :: bool
  keyboard_map :: "u8 list"
  kb_subject :: subject

definition default_keyboard_map :: "u8 list" where
  "default_keyboard_map =
     [0, 27, 49, 50, 51, 52, 53, 54, 55, 56, 57, 48, 45, 61, 8, 9, 113, 119, 101, 114,
      116, 121, 117, 105, 111, 112, 91, 93, 10, 0, 97, 115, 100, 102, 103, 104, 106,
      107, 108, 59, 39, 96, 0, 92, 122, 120, 99, 118, 98, 110, 109, 44, 46, 47, 0, 42,
      0, 32, 0, 0, 0, 0, 0, 0, 0, 0, 0, 0, 0, 0, 0, 0, 0, 0, 45, 0, 0, 0, 43, 0, 0, 0,
      0, 0, 0, 0, 0, 0, 0, 0, 0, 0, 0, 0, 0, 0, 0, 0, 0, 0, 0, 0, 0, 0, 0, 0, 0, 0, 0,
      0, 0, 0, 0, 0, 0, 0, 0, 0, 0, 0, 0, 0, 0, 0, 0, 0, 0, 0]"

section \<open>Translation\<close>

definition key_event_of :: "u8 \<Rightarrow> type_of_key \<Rightarrow> key_event" where
  "key_event_of c t =
     \<lparr> event_type = KEYBOARD_EVENT, event_data = \<lparr> keycode = c, key_type = key_number t \<rparr> \<rparr>"

definition is_lower_letter :: "u8 \<Rightarrow> bool" where
  "is_lower_letter c \<longleftrightarrow> sint c \<ge> 97 \<and> sint c \<le> 122"

text \<open>The symbol on a key with shift held.\<close>

definition shifted_symbol :: "u8 \<Rightarrow> u8" where
  "shifted_symbol c =
     (if c = 96 then 126
      else if c = 49 then 33
      else if c = 50 then 64
      else if c = 51 then 35
      else if c = 52 then 36
      else if c = 53 then 37
      else if c = 54 then 94
      else if c = 55 then 38
      else if c = 56 then 42
      else if c = 57 then 40
      else if c = 48 then 41
      else if c = 45 then 95
      else if c = 61 then 43
      else if c = 91 then 123
      else if c = 93 then 125
      else if c = 92 then 124
      else if c = 59 then 58
      else if c = 39 then 34
      else if c = 44 then 60
      else if c = 46 then 62
      else if c = 47 then 63
      else c)"

definition final_char :: "keyboard \<Rightarrow> u8 \<Rightarrow> u8" where
  "final_char k code =
     (let c = keyboard_map k ! unat code
      in if caps_lock k \<and> is_lower_letter c \<and> \<not> lshift k \<and> \<not> rshift k then c - 32
         else if lshift k \<or> rshift k
         then (if is_lower_letter c \<and> \<not> caps_lock k then c - 32 else shifted_symbol c)
         else c)"

definition translate_key :: "u8 \<Rightarrow> keyboard \<Rightarrow> key_event option \<times> keyboard" where
  "translate_key code k =
     (if code = 14 then (Some (key_event_of 8 NORMAL_KEY), k)
      else if code = 15 then (Some (key_event_of 9 NORMAL_KEY), k)
      else if code = 42 then (None, k\<lparr> lshift := True \<rparr>)
      else if code = 54 then (None, k\<lparr> rshift := True \<rparr>)
      else if code = 58 then (None, k\<lparr> caps_lock := \<not> caps_lock k \<rparr>)
      else if code = 72 then (Some (key_event_of 0 UP_ARROW), k)
      else if code = 75 then (Some (key_event_of 0 LEFT_ARROW), k)
      else if code = 77 then (Some (key_event_of 0 RIGHT_ARROW), k)
      else if code = 80 then (Some (key_event_of 0 DOWN_ARROW), k)
      else let final = final_char k code
           in (if sint final > 0 then Some (key_event_of final NORMAL_KEY) else None, k))"

definition release_key :: "u8 \<Rightarrow> keyboard \<Rightarrow> keyboard" where
  "release_key code k =
     (let k1 = (if code = 170 then k\<lparr> lshift := False \<rparr> else k)
      in if code = 182 then k1\<lparr> rshift := False \<rparr> else k1)"

text \<open>What an observer does when it is notified may change the subject and the world \<open>'w\<close>.\<close>

definition process_keystroke ::
  "(u32 \<Rightarrow> key_event \<Rightarrow> subject \<times> 'w \<Rightarrow> subject \<times> 'w) \<Rightarrow> key_event \<Rightarrow> u8 \<Rightarrow> keyboard \<times> 'w \<Rightarrow> (keyboard \<times> 'w) option"
where
  "process_keystroke on_notify garbage code s =
     (if code AND 128 \<noteq> 0 then Some (release_key code (fst s), snd s)
      else let (event, k) = translate_key code (fst s)
           in map_option (\<lambda>(subj, w). (k\<lparr> kb_subject := subj \<rparr>, w))
                (notify on_notify (kb_subject k, snd s) (case event of Some e \<Rightarrow> e | None \<Rightarrow> garbage)))"

definition default_keyboard_map_state_init :: "keyboard \<Rightarrow> keyboard" where
  "default_keyboard_map_state_init k =
     k\<lparr> rshift := False, lshift := False, caps_lock := False, keyboard_map := default_keyboard_map,
        kb_subject := (kb_subject k)\<lparr> num_of_active_observers := 0 \<rparr> \<rparr>"

text \<open>The interrupt handler reads the scan code from port 0x60 and acknowledges interrupt 1; the
  list is what it writes to the ports.\<close>

definition keyboard_irq ::
  "(u32 \<Rightarrow> key_event \<Rightarrow> subject \<times> 'w \<Rightarrow> subject \<times> 'w) \<Rightarrow> key_event \<Rightarrow> (u16 \<Rightarrow> u8) \<Rightarrow> keyboard \<times> 'w
     \<Rightarrow> ((keyboard \<times> 'w) \<times> (u16 \<times> u8) list) option"
where
  "keyboard_irq on_notify garbage inb s =
     map_option (\<lambda>t. (t, [(0x20, 0x20)])) (process_keystroke on_notify garbage (inb 0x60) s)"

end
