(* ===== verification/Pit.thy ===== *)
theory Pit
  imports PortIO
begin

text \<open>
  The programmable interval timer, arch/i686/drivers/pit/pit.c: the reload value of a requested
  frequency, the bytes written to the controller, the sound gate, and the software counters.
  The busy wait of \<open>pit_wait_ticks\<close> depends on the interrupt that counts; its bound is
  \<open>wait_ticks\<close>.
\<close>

unbundle bit_operations_syntax

section \<open>Constants and state\<close>

definition LOWEST_HZ :: u32 where "LOWEST_HZ = 18"
definition HIGHEST_HZ :: u32 where "HIGHEST_HZ = 1193180"
definition HIGHEST_DIVISOR :: u32 where "HIGHEST_DIVISOR = 65535"
definition LOWEST_DIVISOR :: u32 where "LOWEST_DIVISOR = 1"
definition PIT_CHANNEL_0_REG :: u16 where "PIT_CHANNEL_0_REG = 0x40"
definition PIT_COMMAND_REG :: u16 where "PIT_COMMAND_REG = 0x43"

lemmas pit_constants = LOWEST_HZ_def HIGHEST_HZ_def HIGHEST_DIVISOR_def LOWEST_DIVISOR_def
  PIT_CHANNEL_0_REG_def PIT_COMMAND_REG_def

datatype PIT_CHANNEL = PIT_CHANNEL_0 | PIT_CHANNEL_2 | PIT_READ_BACK_COMMAND

fun channel_number :: "PIT_CHANNEL \<Rightarrow> u32" where
  "channel_number PIT_CHANNEL_0 = 0"
| "channel_number PIT_CHANNEL_2 = 2"
| "channel_number PIT_READ_BACK_COMMAND = 3"

datatype ACCESS_MODE =
  ACCESS_MODE_LATCH_COUNT | ACCESS_MODE_LOBYTE_ONLY | ACCESS_MODE_HIBYTE_ONLY | ACCESS_MODE_LOBYTE_HIBYTE

fun access_number :: "ACCESS_MODE \<Rightarrow> u32" where
  "access_number ACCESS_MODE_LATCH_COUNT = 0"
| "access_number ACCESS_MODE_LOBYTE_ONLY = 1"
| "access_number ACCESS_MODE_HIBYTE_ONLY = 2"
| "access_number ACCESS_MODE_LOBYTE_HIBYTE = 3"

datatype PIT_MODE =
  PIT_MODE_INTERRUPT_ON_TERMINAL_COUNT | PIT_MODE_HARDWARE_RETRIGGERABLE_ONE_SHOT
| PIT_MODE_RATE_GENERATOR | PIT_MODE_SQUARE_WAVE_GENERATOR
| PIT_MODE_SOFTWARE_TRIGGERED_STROBE | PIT_MODE_HARDWARE_TRIGGERED_STROBE

fun mode_number :: "PIT_MODE \<Rightarrow> u32" where
  "mode_number PIT_MODE_INTERRUPT_ON_TERMINAL_COUNT = 0"
| "mode_number PIT_MODE_HARDWARE_RETRIGGERABLE_ONE_SHOT = 1"
| "mode_number PIT_MODE_RATE_GENERATOR = 2"
| "mode_number PIT_MODE_SQUARE_WAVE_GENERATOR = 3"
| "mode_number PIT_MODE_SOFTWARE_TRIGGERED_STROBE = 4"
| "mode_number PIT_MODE_HARDWARE_TRIGGERED_STROBE = 5"

record pit =
  current_command_bitset :: u8
  current_frequency :: u32
  current_reload_value :: u32
  seconds :: u64
  microseconds :: u64
  current_ticks :: u32
  pit_trace :: trace

definition pit_outb :: "u16 \<Rightarrow> u32 \<Rightarrow> pit \<Rightarrow> pit" where
  "pit_outb port v s = s\<lparr> pit_trace := outb port (ucast v) (pit_trace s) \<rparr>"

section \<open>Programming the timer\<close>

definition reload_value :: "u32 \<Rightarrow> u32" where
  "reload_value requested_frequency =
     (if requested_frequency \<le> LOWEST_HZ then HIGHEST_DIVISOR
      else if requested_frequency \<ge> HIGHEST_HZ then LOWEST_DIVISOR
      else HIGHEST_HZ div requested_frequency)"

definition init_pit :: "u32 \<Rightarrow> PIT_CHANNEL \<Rightarrow> ACCESS_MODE \<Rightarrow> PIT_MODE \<Rightarrow> pit \<Rightarrow> pit" where
  "init_pit requested_frequency channel access_mode mode s =
     (let command_bitset = ucast (push_bit 6 (channel_number channel) OR push_bit 4 (access_number access_mode)
                                  OR push_bit 1 (mode_number mode)) :: u8;
          s1 = s\<lparr> current_command_bitset := command_bitset \<rparr>;
          s2 = pit_outb PIT_COMMAND_REG (ucast command_bitset) s1;
          reload = reload_value requested_frequency;
          s3 = s2\<lparr> current_frequency := HIGHEST_HZ div reload, current_reload_value := reload \<rparr>
      in case access_mode of
           ACCESS_MODE_LOBYTE_ONLY \<Rightarrow> pit_outb PIT_CHANNEL_0_REG (reload AND 0xFF) s3
         | ACCESS_MODE_HIBYTE_ONLY \<Rightarrow> pit_outb PIT_CHANNEL_0_REG (drop_bit 8 reload AND 0xFF) s3
         | ACCESS_MODE_LOBYTE_HIBYTE \<Rightarrow>
             pit_outb PIT_CHANNEL_0_REG (drop_bit 8 reload AND 0xFF)
               (pit_outb PIT_CHANNEL_0_REG (reload AND 0xFF) s3)
         | ACCESS_MODE_LATCH_COUNT \<Rightarrow> s3)"

definition play_sound :: "hardware \<Rightarrow> u32 \<Rightarrow> pit \<Rightarrow> pit" where
  "play_sound hw requested_frequency s =
     (let s1 = init_pit requested_frequency PIT_CHANNEL_2 ACCESS_MODE_LOBYTE_HIBYTE
                 PIT_MODE_SQUARE_WAVE_GENERATOR s;
          (tmp, tr) = inb hw 0x61 (pit_trace s1);
          s2 = s1\<lparr> pit_trace := tr \<rparr>
      in if tmp \<noteq> (tmp OR 3) then pit_outb 0x61 (ucast (tmp OR 3)) s2 else s2)"

definition no_sound :: "hardware \<Rightarrow> pit \<Rightarrow> pit" where
  "no_sound hw s =
     (let (b, tr) = inb hw 0x61 (pit_trace s)
      in pit_outb 0x61 (ucast (b AND 0xFC)) (s\<lparr> pit_trace := tr \<rparr>))"

definition on_sound :: "hardware \<Rightarrow> pit \<Rightarrow> pit" where
  "on_sound hw s = play_sound hw (current_frequency s) s"

definition restore_timer :: "pit \<Rightarrow> pit" where
  "restore_timer s =
     (let s1 = pit_outb PIT_COMMAND_REG (ucast (current_command_bitset s)) s;
          mode = ucast (current_command_bitset s AND 0x30) :: u32;
          reload = current_reload_value s
      in if mode = access_number ACCESS_MODE_LOBYTE_ONLY
         then pit_outb PIT_CHANNEL_0_REG (reload AND 0xFF) s1
         else if mode = access_number ACCESS_MODE_HIBYTE_ONLY
         then pit_outb PIT_CHANNEL_0_REG (drop_bit 8 reload AND 0xFF) s1
         else if mode = access_number ACCESS_MODE_LOBYTE_HIBYTE
         then pit_outb PIT_CHANNEL_0_REG (drop_bit 8 reload AND 0xFF)
                (pit_outb PIT_CHANNEL_0_REG (reload AND 0xFF) s1)
         else s1)"

section \<open>Counters\<close>

definition US_IN_SEC :: u64 where "US_IN_SEC = 1000000"

definition reset_seconds :: "pit \<Rightarrow> pit" where "reset_seconds s = s\<lparr> seconds := 0 \<rparr>"
definition reset_us :: "pit \<Rightarrow> pit" where "reset_us s = s\<lparr> microseconds := 0 \<rparr>"
definition reset_timer :: "pit \<Rightarrow> pit" where "reset_timer s = reset_us (reset_seconds s)"

definition increment_timer :: "pit \<Rightarrow> pit" where
  "increment_timer s =
     (if microseconds s + 1 = US_IN_SEC then s\<lparr> microseconds := 0, seconds := seconds s + 1 \<rparr>
      else s\<lparr> microseconds := microseconds s + 1 \<rparr>)"

definition get_seconds :: "pit \<Rightarrow> u64" where "get_seconds s = seconds s"
definition get_us :: "pit \<Rightarrow> u64" where "get_us s = microseconds s"
definition reset_ticks :: "pit \<Rightarrow> pit" where "reset_ticks s = s\<lparr> current_ticks := 0 \<rparr>"
definition increment_ticks :: "pit \<Rightarrow> pit" where "increment_ticks s = s\<lparr> current_ticks := current_ticks s + 1 \<rparr>"

text \<open>The wait: the counter restarts and the loop ends at the first tick at which it has reached
  \<open>ticks\<close>; \<open>fuel\<close> bounds the ticks that happen, and \<open>None\<close> is a loop still running.\<close>

fun wait_loop :: "nat \<Rightarrow> u32 \<Rightarrow> pit \<Rightarrow> pit option" where
  "wait_loop 0 ticks s = (if \<not> current_ticks s < ticks then Some s else None)"
| "wait_loop (Suc n) ticks s =
     (if \<not> current_ticks s < ticks then Some s else wait_loop n ticks (increment_ticks s))"

definition pit_wait_ticks :: "nat \<Rightarrow> u32 \<Rightarrow> pit \<Rightarrow> pit option" where
  "pit_wait_ticks fuel ticks s = wait_loop fuel ticks (reset_ticks s)"

definition wait_ticks :: "u32 \<Rightarrow> pit \<Rightarrow> u32" where
  "wait_ticks desired_us s =
     (current_frequency s * desired_us) div 1000000
     + (if (current_frequency s * desired_us) mod 1000000 > 0 then 1 else 0)"

definition pit_wait_us :: "nat \<Rightarrow> u32 \<Rightarrow> pit \<Rightarrow> pit option" where
  "pit_wait_us fuel desired_us s =
     (if \<not> (current_frequency s \<noteq> 0 \<and> current_reload_value s \<noteq> 0) then Some s
      else pit_wait_ticks fuel (wait_ticks desired_us s) s)"

end
