(* ===== verification/Terminal.thy ===== *)
theory Terminal
  imports KStdio Keyboard Pit KMath
begin

text \<open>
  The terminal (kernel/subsystems/terminal): the function pointers of terminal\_driver.c, the
  command line of default\_terminal\_functions.c with its string helpers, and the observer of the
  keyboard, keyboard\_callbacks.c.  The bounds of the command line are fields of the screen
  (theory \<open>Vga\<close>), which a scroll moves.  The command is collected in the local arrays of
  \<open>default_terminal_process_command\<close> and \<open>default_get_command\<close>; their addresses and those of the
  literals that the code passes to string functions are the record \<open>terminal_frame\<close>.  The serial
  output is left out.
\<close>

unbundle bit_operations_syntax

section \<open>Function pointers\<close>

record 'c terminal_driver =
  terminal_start :: "('c \<Rightarrow> 'c option) option"
  terminal_end :: "('c \<Rightarrow> 'c option) option"
  terminal_process_command :: "('c \<Rightarrow> 'c option) option"
  terminal_shift :: "('c \<Rightarrow> 'c option) option"

definition set_terminal_start :: "('c \<Rightarrow> 'c option) \<Rightarrow> 'c terminal_driver \<Rightarrow> 'c terminal_driver" where
  "set_terminal_start f d = d\<lparr> terminal_start := Some f \<rparr>"
definition set_terminal_end :: "('c \<Rightarrow> 'c option) \<Rightarrow> 'c terminal_driver \<Rightarrow> 'c terminal_driver" where
  "set_terminal_end f d = d\<lparr> terminal_end := Some f \<rparr>"
definition set_terminal_process_command :: "('c \<Rightarrow> 'c option) \<Rightarrow> 'c terminal_driver \<Rightarrow> 'c terminal_driver" where
  "set_terminal_process_command f d = d\<lparr> terminal_process_command := Some f \<rparr>"
definition set_terminal_shift :: "('c \<Rightarrow> 'c option) \<Rightarrow> 'c terminal_driver \<Rightarrow> 'c terminal_driver" where
  "set_terminal_shift f d = d\<lparr> terminal_shift := Some f \<rparr>"

text \<open>A call of a pointer that was never set has no result.\<close>

definition run_terminal_start :: "'c terminal_driver \<Rightarrow> 'c \<Rightarrow> 'c option" where
  "run_terminal_start d c = Option.bind (terminal_start d) (\<lambda>f. f c)"
definition run_terminal_end :: "'c terminal_driver \<Rightarrow> 'c \<Rightarrow> 'c option" where
  "run_terminal_end d c = Option.bind (terminal_end d) (\<lambda>f. f c)"
definition run_terminal_process_command :: "'c terminal_driver \<Rightarrow> 'c \<Rightarrow> 'c option" where
  "run_terminal_process_command d c = Option.bind (terminal_process_command d) (\<lambda>f. f c)"
definition run_terminal_shift :: "'c terminal_driver \<Rightarrow> 'c \<Rightarrow> 'c option" where
  "run_terminal_shift d c = Option.bind (terminal_shift d) (\<lambda>f. f c)"

section \<open>The default terminal\<close>

definition chars :: "string \<Rightarrow> u8 list" where
  "chars s = map of_char s"

definition DEFAULT_PROMPT :: "u8 list" where
  "DEFAULT_PROMPT = chars ''> ''"

record terminal =
  tvga :: vga
  prompt_symbol :: "u8 list"
  tmem :: mem
  tpit :: pit
  is_turned_on :: bool

record terminal_frame =
  command_string :: u32
  temp :: u32
  echo_literal :: u32
  help_literal :: u32
  newline_literal :: u32

definition on_screen :: "(vga \<Rightarrow> vga) \<Rightarrow> terminal \<Rightarrow> terminal" where
  "on_screen f t = t\<lparr> tvga := f (tvga t) \<rparr>"

definition cursor_index :: "terminal \<Rightarrow> u32" where
  "cursor_index t = terminal_row (tvga t) * 80 + terminal_column (tvga t)"

definition default_init_context :: "terminal \<Rightarrow> terminal" where
  "default_init_context t =
     (let i = cursor_index t
      in (on_screen (\<lambda>v. v\<lparr> start_of_command := i, end_of_command := i \<rparr>) t)
           \<lparr> prompt_symbol := DEFAULT_PROMPT \<rparr>)"

definition default_terminal_start :: "terminal \<Rightarrow> terminal" where
  "default_terminal_start t = default_init_context t"

definition default_terminal_end :: "terminal \<Rightarrow> terminal" where
  "default_terminal_end t = on_screen (\<lambda>v. v\<lparr> end_of_command := cursor_index t \<rparr>) t"

definition default_get_command :: "u32 \<Rightarrow> u32 \<Rightarrow> u32 \<Rightarrow> terminal \<Rightarrow> terminal option" where
  "default_get_command tmp final number_of_elements t =
     (let v = tvga t;
          cell = (\<lambda>i. ucast (terminal_buffer v i) :: u8);
          m0 = (tmem t)(final := cell (start_of_command v), final + 1 := 0);
          m1 = for_up (start_of_command v + 1) (end_of_command v)
                 (\<lambda>i m. Option.bind m (\<lambda>m. map_option snd
                    (kstrncat (m(tmp := cell i, tmp + 1 := 0)) final tmp number_of_elements)))
                 (Some m0)
      in map_option (\<lambda>m. t\<lparr> tmem := m \<rparr>) m1)"

definition default_parse_command_args :: "mem \<Rightarrow> u32 \<Rightarrow> bool option" where
  "default_parse_command_args m args =
     map_option (\<lambda>n. for_up 0 n (\<lambda>i found_space. if m (args + i) = 32 then True else found_space) False)
       (kstrlen m args)"

definition run_echo :: "terminal_frame \<Rightarrow> u32 \<Rightarrow> bool \<Rightarrow> terminal \<Rightarrow> terminal option" where
  "run_echo fr command has_space t =
     (if \<not> has_space
      then Some (on_screen (terminal_writestring_color
             (chars ''missing space between '' @ [39] @ chars ''echo'' @ [39] @ chars '' and argument'' @ [10])
             (color_number VGA_COLOR_RED)) t)
      else do {
        n \<leftarrow> kstrlen (tmem t) command;
        if n > 5
        then do {
          (p, m) \<leftarrow> kstrcat (tmem t) (command + 5) (newline_literal fr);
          txt \<leftarrow> string_at m p;
          Some (on_screen (terminal_writestring txt) (t\<lparr> tmem := m \<rparr>))
        }
        else Some (on_screen (terminal_writestring_color
               ([39] @ chars ''echo'' @ [39] @ chars '' requires one argument!'' @ [10])
               (color_number VGA_COLOR_RED)) t)
      })"

definition default_run_command :: "terminal_frame \<Rightarrow> u32 \<Rightarrow> terminal \<Rightarrow> terminal option" where
  "default_run_command fr command t =
     do {
       has_space \<leftarrow> default_parse_command_args (tmem t) command;
       t1 \<leftarrow> (if kstrncmp (tmem t) command (echo_literal fr) 4 = 0
              then run_echo fr command has_space t
              else if kstrncmp (tmem t) command (help_literal fr) 4 = 0
              then Some (on_screen (terminal_writestring (chars ''help'' @ [10])
                     \<circ> terminal_writestring (chars ''echo'' @ [10])
                     \<circ> terminal_writestring (chars ''List of available commands:'' @ [10])) t)
              else Some (on_screen (terminal_writestring_color
                     (chars ''Invalid command! Try '' @ [39] @ chars ''help'' @ [39, 10])
                     (color_number VGA_COLOR_RED)) t));
       Some (on_screen (\<lambda>v. terminal_writestring (prompt_symbol t1) (v\<lparr> terminal_on := True \<rparr>)) t1)
     }"

text \<open>The difference of the bounds is unsigned, so it is at most 0 only when they are equal.
  \<open>start\<close> is what \<open>run_terminal_start\<close> calls.\<close>

definition default_terminal_process_command ::
  "(terminal \<Rightarrow> terminal option) \<Rightarrow> terminal_frame \<Rightarrow> terminal \<Rightarrow> terminal option" where
  "default_terminal_process_command start fr t =
     (let v = tvga t; len = end_of_command v - start_of_command v
      in if len \<le> 0
         then map_option (on_screen (\<lambda>v. v\<lparr> terminal_on := True \<rparr>))
                (start (on_screen (terminal_writestring (prompt_symbol t)) t))
         else do {
           let t1 = (if len > 79 then on_screen (\<lambda>v. v\<lparr> end_of_command := start_of_command v + 79 \<rparr>) t else t);
           t2 \<leftarrow> default_get_command (temp fr) (command_string fr) 80 t1;
           t3 \<leftarrow> default_run_command fr (command_string fr) t2;
           start t3
         })"

definition set_default_functions :: "terminal_frame \<Rightarrow> terminal terminal_driver \<Rightarrow> terminal terminal_driver" where
  "set_default_functions fr d =
     (let d1 = set_terminal_start (\<lambda>t. Some (default_terminal_start t)) d;
          d2 = set_terminal_end (\<lambda>t. Some (default_terminal_end t)) d1;
          d3 = set_terminal_process_command
                 (default_terminal_process_command (run_terminal_start d2) fr) d2
      in set_terminal_shift (\<lambda>t. Some (on_screen default_terminal_shift t)) d3)"

section \<open>String helpers\<close>

definition get_char_location :: "mem \<Rightarrow> u32 \<Rightarrow> u8 \<Rightarrow> u32 \<Rightarrow> u32 \<Rightarrow> u32 option" where
  "get_char_location m src c start stop =
     map_option (\<lambda>n. case for_ret start (ucast (kmin (ucast stop) (ucast n)))
                            (\<lambda>i s. if m (src + i) = c then Inl i else Inr s) () of
                       Inl i \<Rightarrow> i
                     | Inr _ \<Rightarrow> - 1)
       (kstrlen m src)"

definition get_string_slice :: "mem \<Rightarrow> u32 \<Rightarrow> u32 \<Rightarrow> u32 \<Rightarrow> u32 \<Rightarrow> mem" where
  "get_string_slice m src dest start stop =
     (snd (kmemcpy m dest (src + start) (stop - start)))(dest + (stop - start) := 0)"

definition get_string_between_chars :: "mem \<Rightarrow> u32 \<Rightarrow> u32 \<Rightarrow> u8 \<Rightarrow> u8 \<Rightarrow> mem option" where
  "get_string_between_chars m src dest opening closing =
     do {
       src_len \<leftarrow> kstrlen m src;
       start \<leftarrow> get_char_location m src opening 0 (src_len - 1);
       if start = - 1 then Some m
       else do {
         stop \<leftarrow> get_char_location m src closing (start + 1) (src_len - 1);
         if stop = - 1 then Some m
         else Some (get_string_slice m src dest (start + 1) stop)
       }
     }"

definition get_string_section_after :: "mem \<Rightarrow> u32 \<Rightarrow> u32 \<Rightarrow> u32 \<Rightarrow> (u8 \<times> mem) option" where
  "get_string_section_after m src dest search_term =
     do {
       src_len \<leftarrow> kstrlen m src;
       search_term_len \<leftarrow> kstrlen m search_term;
       Some (case for_ret 0 src_len
               (\<lambda>i m. if m (src + i) = m search_term \<and> kstrncmp m (src + i) search_term search_term_len = 0
                      then Inl ((for_up 0 (src_len - i)
                             (\<lambda>j m. m(dest + j := m (src + (i + j + search_term_len)))) m)(dest + src_len := 0))
                      else Inr m) m of
               Inl m' \<Rightarrow> (0, m')
             | Inr m' \<Rightarrow> (- 1, m'))
     }"

section \<open>Keys\<close>

definition type_key :: "terminal terminal_driver \<Rightarrow> u8 \<Rightarrow> terminal \<Rightarrow> terminal option" where
  "type_key d key t =
     (let t1 = (if terminal_column (tvga t) = 0
                then let t2 = default_init_context t;
                         t3 = on_screen (terminal_writestring (prompt_symbol t2)) t2
                     in on_screen (\<lambda>v. v\<lparr> start_of_command := start_of_command v
                                                              + of_nat (length (prompt_symbol t3)) \<rparr>) t3
                else t)
      in if key = 9 \<and> cursor_index t1 \<ge> start_of_command (tvga t1)
         then run_terminal_end d (on_screen (terminal_writestring [32, 32, 32, 32]) t1)
         else if key = 10
         then do {
           t2 \<leftarrow> run_terminal_end d t1;
           t3 \<leftarrow> run_terminal_process_command d (on_screen (terminal_putchar key) t2);
           run_terminal_end d t3
         }
         else if sint key > 0 \<and> cursor_index t1 \<ge> start_of_command (tvga t1)
         then run_terminal_end d (on_screen (terminal_putchar key) t1)
         else Some t1)"

definition timer_key :: "hardware \<Rightarrow> u8 \<Rightarrow> terminal \<Rightarrow> terminal" where
  "timer_key hw key t =
     (if key = 49 then t\<lparr> tpit := init_pit 1000 PIT_CHANNEL_0 ACCESS_MODE_LOBYTE_HIBYTE
                                   PIT_MODE_SQUARE_WAVE_GENERATOR (tpit t) \<rparr>
      else if key = 50 then t\<lparr> tpit := init_pit 18 PIT_CHANNEL_0 ACCESS_MODE_LOBYTE_HIBYTE
                                        PIT_MODE_SQUARE_WAVE_GENERATOR (tpit t) \<rparr>
      else if key = 51 then t\<lparr> is_turned_on := True, tpit := play_sound hw 1000 (tpit t) \<rparr>
      else if key = 52 then t\<lparr> is_turned_on := True, tpit := play_sound hw 18 (tpit t) \<rparr>
      else if key = 53 then t\<lparr> is_turned_on := True, tpit := play_sound hw 500 (tpit t) \<rparr>
      else if key = 54 then t\<lparr> is_turned_on := False, tpit := restore_timer (no_sound hw (tpit t)) \<rparr>
      else t)"

definition catch_keycode :: "hardware \<Rightarrow> terminal terminal_driver \<Rightarrow> key_event \<Rightarrow> terminal \<Rightarrow> terminal option" where
  "catch_keycode hw d event t =
     (let key = keycode (event_data event); type = key_type (event_data event)
      in if event_type event \<noteq> KEYBOARD_EVENT then Some t
         else if type = key_number NORMAL_KEY \<and> key = 8 then Some (on_screen terminal_backspace t)
         else map_option (timer_key hw key)
           (if type = key_number NORMAL_KEY then type_key d key t
            else if type = key_number UP_ARROW then Some (on_screen terminal_cursor_up t)
            else if type = key_number LEFT_ARROW then Some (on_screen terminal_cursor_left t)
            else if type = key_number RIGHT_ARROW then Some (on_screen terminal_cursor_right t)
            else if type = key_number DOWN_ARROW then Some (on_screen terminal_cursor_down t)
            else Some t))"

end
