(* ===== verification/Interrupts.thy ===== *)
theory Interrupts
  imports PortIO KString
begin

text \<open>
  Interrupt controllers, interrupt descriptor table and system calls
  (arch/i686/interrupts/interrupts.c), and the segment descriptors and task state segment
  (arch/i686/usermode/gdt.c).  The addresses of handlers and of the tables, which the linker
  chooses, are arguments.
\<close>

unbundle bit_operations_syntax

section \<open>Interrupt controllers\<close>

definition PIC1_COMMAND :: u16 where "PIC1_COMMAND = 0x20"
definition PIC1_DATA :: u16 where "PIC1_DATA = 0x21"
definition PIC2_COMMAND :: u16 where "PIC2_COMMAND = 0xA0"
definition PIC2_DATA :: u16 where "PIC2_DATA = 0xA1"
definition PIC_EOI :: u8 where "PIC_EOI = 0x20"

lemmas pic_constants = PIC1_COMMAND_def PIC1_DATA_def PIC2_COMMAND_def PIC2_DATA_def PIC_EOI_def

record IDT_entry =
  offset_lowerbits :: u16
  selector :: u16
  zero_byte :: u8
  type_attr :: u8
  offset_higherbits :: u16

record interrupts =
  pic1_mask :: u8
  pic2_mask :: u8
  idt :: "u8 \<Rightarrow> IDT_entry"
  idt_address :: u32
  idt_ptr :: "u32 \<times> u32"
  int_trace :: trace

definition int_outb :: "u16 \<Rightarrow> u8 \<Rightarrow> interrupts \<Rightarrow> interrupts" where
  "int_outb port v s = s\<lparr> int_trace := outb port v (int_trace s) \<rparr>"

definition pic_irq_enable :: "u8 \<Rightarrow> interrupts \<Rightarrow> interrupts" where
  "pic_irq_enable no s =
     (if no \<ge> 8
      then let s1 = s\<lparr> pic2_mask := pic2_mask s AND ucast (NOT (push_bit (unat (no - 8)) 1 :: u32)) \<rparr>
           in int_outb PIC2_DATA (pic2_mask s1) s1
      else let s1 = s\<lparr> pic1_mask := pic1_mask s AND ucast (NOT (push_bit (unat no) 1 :: u32)) \<rparr>
           in int_outb PIC1_DATA (pic1_mask s1) s1)"

definition pic_init :: "interrupts \<Rightarrow> interrupts" where
  "pic_init s =
     (let s1 = fold (\<lambda>(port, v) t. (int_outb port v t)\<lparr> int_trace := io_wait (int_trace (int_outb port v t)) \<rparr>)
                 [(PIC1_COMMAND, 0x11), (PIC2_COMMAND, 0x11), (PIC1_DATA, 0x20), (PIC2_DATA, 0x28),
                  (PIC1_DATA, 4), (PIC2_DATA, 2), (PIC1_DATA, 1), (PIC2_DATA, 1)] s;
          s2 = int_outb PIC1_DATA (pic1_mask s1) s1;
          s3 = int_outb PIC2_DATA (pic2_mask s2) s2
      in pic_irq_enable 2 s3)"

definition pic_send_eoi :: "u8 \<Rightarrow> interrupts \<Rightarrow> interrupts" where
  "pic_send_eoi no s =
     int_outb PIC1_COMMAND PIC_EOI (if no \<ge> 8 then int_outb PIC2_COMMAND PIC_EOI s else s)"

section \<open>Interrupt descriptors\<close>

definition KERNEL_CODE_SEGMENT_OFFSET :: u16 where "KERNEL_CODE_SEGMENT_OFFSET = 0x08"
definition INTERRUPT_GATE :: u8 where "INTERRUPT_GATE = 0x8e"
definition IDT_PRESENT :: u8 where "IDT_PRESENT = push_bit 7 1"
definition IDT_RING_3 :: u8 where "IDT_RING_3 = push_bit 5 3"

lemmas idt_constants = KERNEL_CODE_SEGMENT_OFFSET_def INTERRUPT_GATE_def IDT_PRESENT_def IDT_RING_3_def

definition idt_register_handler :: "u8 \<Rightarrow> u32 \<Rightarrow> interrupts \<Rightarrow> interrupts" where
  "idt_register_handler interrupt address s =
     s\<lparr> idt := (idt s)(interrupt :=
         \<lparr> offset_lowerbits = ucast (address AND 0xffff), selector = KERNEL_CODE_SEGMENT_OFFSET,
           zero_byte = 0, type_attr = IDT_PRESENT OR INTERRUPT_GATE,
           offset_higherbits = ucast (drop_bit 16 (address AND 0xffff0000)) \<rparr>) \<rparr>"

text \<open>The limit is the size of the table, 8 bytes for each of the 256 entries.\<close>

definition idt_init :: "u32 \<Rightarrow> interrupts \<Rightarrow> interrupts" where
  "idt_init address s =
     s\<lparr> idt_address := address,
        idt_ptr := (8 * 256 + push_bit 16 (address AND 0xffff), drop_bit 16 address) \<rparr>"

text \<open>The handlers: \<open>isr n\<close> of the exceptions 0 to 18, the one of the reserved vectors, the common
  handler of system calls and the handler of the timer; \<open>timer_install\<close> is an argument.\<close>

definition isr_install ::
  "(u8 \<Rightarrow> u32) \<Rightarrow> u32 \<Rightarrow> u32 \<Rightarrow> u32 \<Rightarrow> (interrupts \<Rightarrow> interrupts) \<Rightarrow> interrupts \<Rightarrow> interrupts" where
  "isr_install isr isr_reserved irq_common_handler table timer_install s =
     (let s1 = for_up 0 19 (\<lambda>n. idt_register_handler n (isr n)) s;
          s2 = for_up 19 32 (\<lambda>n. idt_register_handler n isr_reserved) s1;
          s3 = idt_register_handler 128 irq_common_handler s2;
          s4 = s3\<lparr> idt := (idt s3)(128 := (idt s3 128)
                     \<lparr> type_attr := IDT_PRESENT OR IDT_RING_3 OR INTERRUPT_GATE \<rparr>) \<rparr>
      in idt_init table (timer_install s4))"

text \<open>What the processor reads from a descriptor.\<close>

definition gate_offset :: "IDT_entry \<Rightarrow> u32" where
  "gate_offset e = ucast (offset_lowerbits e) OR push_bit 16 (ucast (offset_higherbits e))"

definition gate_present :: "IDT_entry \<Rightarrow> bool" where
  "gate_present e \<longleftrightarrow> bit (type_attr e) 7"

definition gate_ring :: "IDT_entry \<Rightarrow> u8" where
  "gate_ring e = drop_bit 5 (type_attr e) AND 3"

section \<open>System calls\<close>

definition system_call :: "mem \<Rightarrow> u32 \<Rightarrow> u32 \<Rightarrow> u32 option" where
  "system_call m code eax =
     (if code = 0 then Some eax else if code = 1 then kstrlen m eax else Some 3)"

section \<open>Segments\<close>

record gdt_entry =
  limit_low :: u16
  base_low_1 :: u16
  base_low_2 :: u8
  settings_flags :: u8
  size_flags :: u8
  base_high :: u8

definition gdt_entries :: "gdt_entry list" where
  "gdt_entries =
     [\<lparr> limit_low = 0, base_low_1 = 0, base_low_2 = 0, settings_flags = 0, size_flags = 0, base_high = 0 \<rparr>,
      \<lparr> limit_low = 0xffff, base_low_1 = 0, base_low_2 = 0, settings_flags = 0b10011010, size_flags = 0b11001111, base_high = 0 \<rparr>,
      \<lparr> limit_low = 0xffff, base_low_1 = 0, base_low_2 = 0, settings_flags = 0b10010010, size_flags = 0b11001111, base_high = 0 \<rparr>,
      \<lparr> limit_low = 0xffff, base_low_1 = 0, base_low_2 = 0, settings_flags = 0b11111010, size_flags = 0b11011111, base_high = 0 \<rparr>,
      \<lparr> limit_low = 0xffff, base_low_1 = 0, base_low_2 = 0, settings_flags = 0b11110010, size_flags = 0b11011111, base_high = 0 \<rparr>,
      \<lparr> limit_low = 0, base_low_1 = 0, base_low_2 = 0, settings_flags = 0, size_flags = 0, base_high = 0 \<rparr>,
      \<lparr> limit_low = 0, base_low_1 = 0, base_low_2 = 0, settings_flags = 0, size_flags = 0, base_high = 0 \<rparr>]"

text \<open>\<open>tss_entry\<close> is the address of the task state segment, 104 bytes.\<close>

definition gdt_init :: "u32 \<Rightarrow> gdt_entry list \<Rightarrow> gdt_entry list" where
  "gdt_init tss_entry gdt =
     (let base = tss_entry;
          limit = 104 :: u32
      in gdt[5 := \<lparr> limit_low = ucast (limit AND 0xFFFF), base_low_1 = ucast (base AND 0xFFFF),
                     base_low_2 = ucast (drop_bit 16 (base AND 0xFF0000)), settings_flags = 0b11101001,
                     size_flags = ucast (limit AND 0xF0000),
                     base_high = ucast (drop_bit 24 (base AND 0xFF000000)) \<rparr>])"

definition segment_base :: "gdt_entry \<Rightarrow> u32" where
  "segment_base e = ucast (base_low_1 e) OR push_bit 16 (ucast (base_low_2 e)) OR push_bit 24 (ucast (base_high e))"

definition segment_limit :: "gdt_entry \<Rightarrow> u32" where
  "segment_limit e = ucast (limit_low e) OR push_bit 16 (ucast (size_flags e AND 0x0F))"

end
