(* ===== verification/Timer.thy ===== *)
theory Timer
  imports Scheduler Interrupts
begin

text \<open>
  The system timer, kernel/scheduler/timer.c: it installs the interval timer, passes every tick to
  the scheduler, and keeps the frequencies of the timer and of the counter.
\<close>

unbundle bit_operations_syntax

definition PIT_FREQUENCY :: u64 where "PIT_FREQUENCY = 1000"

text \<open>\<open>counter_fun\<close> is the installed counter function, \<open>None\<close> for the null pointer it starts with: the
  only function the kernel installs is \<open>pit_counter\<close>, a function of this state.\<close>

record timer =
  timer_freq :: u64
  counter_frequency :: u64
  pit_counter_var :: u32
  tsched :: sched
  tints :: interrupts

type_synonym counter_fun = "timer \<Rightarrow> u64"

definition pit_counter :: counter_fun where
  "pit_counter t = ucast (pit_counter_var t)"

definition timer_tick :: "timer \<Rightarrow> outcome \<times> timer" where
  "timer_tick t = (let (o1, s) = scheduler_tick (tsched t) in (o1, t\<lparr> tsched := s \<rparr>))"

text \<open>When the tick leaves for another process (\<open>Switched\<close>), the rest of the handler, which
  acknowledges the interrupt, runs only when that frame is resumed.\<close>

definition timer_handler :: "timer \<Rightarrow> outcome \<times> timer" where
  "timer_handler t =
     (let (r, t1) = timer_tick (t\<lparr> pit_counter_var := pit_counter_var t + 1 \<rparr>)
      in if r = Returned then (Returned, t1\<lparr> tints := pic_send_eoi 1 (tints t1) \<rparr>) else (r, t1))"

definition timer_get_timer_frequency :: "timer \<Rightarrow> u64" where
  "timer_get_timer_frequency t = timer_freq t"

text \<open>\<open>None\<close> is the division by zero of \<open>scheduler_frequency_updated\<close>.\<close>

definition timer_set_timer_frequency :: "u64 \<Rightarrow> timer \<Rightarrow> timer option" where
  "timer_set_timer_frequency freq t =
     (case scheduler_frequency_updated (timer_freq t) freq (tsched t) of
        None \<Rightarrow> None
      | Some s \<Rightarrow> Some (t\<lparr> timer_freq := freq, tsched := s \<rparr>))"

definition timer_get_counter_frequency :: "timer \<Rightarrow> u64" where
  "timer_get_counter_frequency t = counter_frequency t"

definition timer_set_counter_frequency :: "u64 \<Rightarrow> timer \<Rightarrow> timer" where
  "timer_set_counter_frequency freq t = t\<lparr> counter_frequency := freq \<rparr>"

text \<open>The static variable \<open>_counter_fun\<close> is passed beside the state, which its type mentions.
  A call of the null pointer and a division by zero are \<open>None\<close>.\<close>

definition timer_counter :: "counter_fun option \<Rightarrow> timer \<Rightarrow> u64 option" where
  "timer_counter counter_fun t = map_option (\<lambda>f. f t) counter_fun"

definition timer_seconds :: "counter_fun option \<Rightarrow> timer \<Rightarrow> u64 option" where
  "timer_seconds counter_fun t =
     (case timer_counter counter_fun t of
        None \<Rightarrow> None
      | Some n \<Rightarrow> if timer_get_counter_frequency t = 0 then None
                  else Some (n div timer_get_counter_frequency t))"

definition timer_milliseconds :: "counter_fun option \<Rightarrow> timer \<Rightarrow> u64 option" where
  "timer_milliseconds counter_fun t =
     (case timer_counter counter_fun t of
        None \<Rightarrow> None
      | Some n \<Rightarrow> if timer_get_counter_frequency t div 1000 = 0 then None
                  else Some (n div (timer_get_counter_frequency t div 1000)))"

text \<open>\<open>handler\<close> is the address of \<open>timer_handler\<close>.  The first result is the counter function the
  driver installs.\<close>

definition pit_counter_install :: "u32 \<Rightarrow> timer \<Rightarrow> (counter_fun option \<times> timer) option" where
  "pit_counter_install handler t =
     (let divisor = 1193180 div PIT_FREQUENCY;
          i1 = int_outb 0x40 (ucast (drop_bit 8 divisor)) (int_outb 0x40 (ucast divisor)
                 (int_outb 0x43 0x36 (tints t)))
      in case timer_set_timer_frequency PIT_FREQUENCY (t\<lparr> tints := i1 \<rparr>) of
           None \<Rightarrow> None
         | Some t1 \<Rightarrow>
             (let t2 = t1\<lparr> tints := idt_register_handler 32 handler (pic_irq_enable 0 (tints t1)) \<rparr>
              in Some (Some pit_counter, timer_set_counter_frequency PIT_FREQUENCY t2)))"

definition timer_install :: "u32 \<Rightarrow> timer \<Rightarrow> (counter_fun option \<times> timer) option" where
  "timer_install handler t = pit_counter_install handler t"

end
