(* ===== verification/Ata.thy ===== *)
theory Ata
  imports PortIO
begin

text \<open>
  The ATA disk driver, kernel/ATA/ata\_driver.c: the ports of the four devices, identification, and
  the read of one sector by programmed input.  A register with two names in the source (a union)
  is one field.  The waits for the device are loops over its status, so they are partial.
\<close>

unbundle bit_operations_syntax

section \<open>Devices\<close>

record ata_device =
  ata_data :: u16
  ata_error :: u16
  sector_count :: u16
  sector_num :: u16
  cylinder_low :: u16
  cylinder_high :: u16
  drive :: u16
  ata_status :: u16
  alternate_status :: u16
  device_address :: u16
  slave :: bool
  primary :: bool
  enabled :: bool

record ata_driver =
  primary_master :: ata_device
  primary_slave :: ata_device
  secondary_master :: ata_device
  secondary_slave :: ata_device

definition PRIMARY_IO_BASE_PORT :: u16 where "PRIMARY_IO_BASE_PORT = 0x1F0"
definition SECONDARY_IO_BASE_PORT :: u16 where "SECONDARY_IO_BASE_PORT = 0x170"
definition PRIMARY_CONTROL_BASE_PORT :: u16 where "PRIMARY_CONTROL_BASE_PORT = 0x3F6"
definition SECONDARY_CONTROL_BASE_PORT :: u16 where "SECONDARY_CONTROL_BASE_PORT = 0x376"
definition STATUS_REG_BSY :: u8 where "STATUS_REG_BSY = 0x80"
definition STATUS_REG_DRQ :: u8 where "STATUS_REG_DRQ = 0x08"
definition STATUS_REG_ERR :: u8 where "STATUS_REG_ERR = 0x01"
definition IDENTIFY_COMMAND :: u8 where "IDENTIFY_COMMAND = 0xEC"

lemmas ata_ports = PRIMARY_IO_BASE_PORT_def SECONDARY_IO_BASE_PORT_def PRIMARY_CONTROL_BASE_PORT_def
  SECONDARY_CONTROL_BASE_PORT_def
lemmas ata_bits = STATUS_REG_BSY_def STATUS_REG_DRQ_def STATUS_REG_ERR_def

definition ata_device_init :: "bool \<Rightarrow> bool \<Rightarrow> ata_device" where
  "ata_device_init prim slv =
     (let io_base = (if prim then PRIMARY_IO_BASE_PORT else SECONDARY_IO_BASE_PORT);
          control_base = (if prim then PRIMARY_CONTROL_BASE_PORT else SECONDARY_CONTROL_BASE_PORT)
      in \<lparr> ata_data = io_base, ata_error = io_base + 1, sector_count = io_base + 2,
           sector_num = io_base + 3, cylinder_low = io_base + 4, cylinder_high = io_base + 5,
           drive = io_base + 6, ata_status = io_base + 7, alternate_status = control_base,
           device_address = control_base + 1, slave = slv, primary = prim, enabled = False \<rparr>)"

definition ata_driver_init :: ata_driver where
  "ata_driver_init =
     \<lparr> primary_master = ata_device_init True False, primary_slave = ata_device_init True True,
       secondary_master = ata_device_init False False, secondary_slave = ata_device_init False True \<rparr>"

section \<open>Identification\<close>

definition slave_bit :: "ata_device \<Rightarrow> u8" where
  "slave_bit device = (if slave device then push_bit 4 1 else 0)"

text \<open>The result of the wait: data is ready, or the device reports an error.\<close>

partial_function (option) identity_wait :: "hardware \<Rightarrow> ata_device \<Rightarrow> trace \<Rightarrow> (bool \<times> trace) option" where
  "identity_wait hw device tr =
     (let (status, tr1) = inb hw (ata_status device) tr
      in if status AND STATUS_REG_DRQ \<noteq> 0 then Some (True, tr1)
         else if status AND STATUS_REG_ERR \<noteq> 0 then Some (False, tr1)
         else identity_wait hw device tr1)"

definition ata_identity :: "hardware \<Rightarrow> ata_device \<Rightarrow> trace \<Rightarrow> (bool \<times> ata_device \<times> trace) option" where
  "ata_identity hw device tr =
     (let tr1 = outb (drive device) (0xA0 OR slave_bit device) tr;
          tr2 = outb (cylinder_high device) 0 (outb (cylinder_low device) 0
                  (outb (sector_num device) 0 (outb (sector_count device) 0 tr1)));
          tr3 = outb (ata_status device) IDENTIFY_COMMAND tr2;
          (status, tr4) = inb hw (ata_status device) tr3
      in if status = 0 then Some (False, device, tr4)
         else do {
           (ready, tr5) \<leftarrow> identity_wait hw device tr4;
           if \<not> ready then Some (False, device, tr5)
           else Some (True, device\<lparr> enabled := True \<rparr>,
                      for_up (0 :: u32) 256 (\<lambda>_ t. snd (inw hw (ata_data device) t)) tr5)
         })"

section \<open>Reading a sector\<close>

partial_function (option) sector_wait :: "hardware \<Rightarrow> ata_device \<Rightarrow> trace \<Rightarrow> trace option" where
  "sector_wait hw device tr =
     (let (status, tr1) = inb hw (ata_status device) tr
      in if status AND STATUS_REG_BSY = 0 \<and> status AND STATUS_REG_DRQ \<noteq> 0 then Some tr1
         else sector_wait hw device tr1)"

definition select_sector :: "ata_device \<Rightarrow> u32 \<Rightarrow> trace \<Rightarrow> trace" where
  "select_sector device lba tr =
     (let tr1 = outb (drive device) ((0xE0 OR slave_bit device) OR (ucast (drop_bit 24 lba) AND 0x0F)) tr;
          tr2 = outb (sector_count device) 1 tr1;
          tr3 = outb (sector_num device) (ucast (lba AND 0xFF)) tr2;
          tr4 = outb (cylinder_low device) (ucast (drop_bit 8 lba AND 0xFF)) tr3;
          tr5 = outb (cylinder_high device) (ucast (drop_bit 16 lba AND 0xFF)) tr4
      in outb (ata_status device) 0x20 tr5)"

text \<open>The buffer is the list of the words stored from its start.\<close>

definition read_single_sector :: "hardware \<Rightarrow> ata_device \<Rightarrow> u32 \<Rightarrow> trace \<Rightarrow> (u16 list \<times> trace) option" where
  "read_single_sector hw device lba tr =
     (let (status, tr1) = inb hw (ata_status device) tr;
          tr2 = (if status AND STATUS_REG_BSY \<noteq> 0 \<or> status AND STATUS_REG_DRQ \<noteq> 0
                 then outb (alternate_status device) 0 (outb (alternate_status device) 4 tr1) else tr1)
      in do {
        tr3 \<leftarrow> sector_wait hw device (select_sector device lba tr2);
        let (buffer, tr4) = for_up (0 :: u32) 256
          (\<lambda>_ (ws, t). let (w, t') = inw hw (ata_data device) t in (ws @ [w], t')) ([], tr3);
        Some (buffer, for_up (0 :: u32) 4 (\<lambda>_ t. snd (inb hw (alternate_status device) t)) tr4)
      })"

end
