(* ===== verification/Pci.thy ===== *)
theory Pci
  imports PortIO
begin

text \<open>
  The configuration space of the legacy PCI bus, drivers/pci/legacy\_pci/pci\_bus.c: reads and writes
  of one, two and four bytes through the address and data ports, the identification registers,
  and the enumeration of all buses.
\<close>

unbundle bit_operations_syntax

section \<open>Access to a register\<close>

definition CONFIG_ADDRESS :: u16 where "CONFIG_ADDRESS = 0xCF8"
definition CONFIG_DATA :: u16 where "CONFIG_DATA = 0xCFC"

definition config_address :: "u8 \<Rightarrow> u8 \<Rightarrow> u8 \<Rightarrow> u8 \<Rightarrow> u32" where
  "config_address bus device func offset =
     push_bit 31 1 OR push_bit 16 (ucast bus) OR push_bit 11 (ucast device)
     OR push_bit 8 (ucast func) OR (ucast offset AND 0xFC)"

definition pci_config_read_long :: "hardware \<Rightarrow> u8 \<Rightarrow> u8 \<Rightarrow> u8 \<Rightarrow> u8 \<Rightarrow> trace \<Rightarrow> u32 \<times> trace" where
  "pci_config_read_long hw bus device func offset tr =
     inl hw CONFIG_DATA (outl CONFIG_ADDRESS (config_address bus device func offset) tr)"

text \<open>The shift of a register's byte in its long word.\<close>

definition byte_shift :: "u8 \<Rightarrow> nat" where
  "byte_shift offset = unat (offset AND 3) * 8"

definition pci_config_read_word :: "hardware \<Rightarrow> u8 \<Rightarrow> u8 \<Rightarrow> u8 \<Rightarrow> u8 \<Rightarrow> trace \<Rightarrow> u16 \<times> trace" where
  "pci_config_read_word hw bus device func offset tr =
     (let (v, tr') = pci_config_read_long hw bus device func offset tr
      in (ucast (drop_bit (byte_shift offset) v AND 0xffff), tr'))"

definition pci_config_read_byte :: "hardware \<Rightarrow> u8 \<Rightarrow> u8 \<Rightarrow> u8 \<Rightarrow> u8 \<Rightarrow> trace \<Rightarrow> u8 \<times> trace" where
  "pci_config_read_byte hw bus device func offset tr =
     (let (v, tr') = pci_config_read_long hw bus device func offset tr
      in (ucast (drop_bit (byte_shift offset) v AND 0xff), tr'))"

definition pci_config_write_long :: "u8 \<Rightarrow> u8 \<Rightarrow> u8 \<Rightarrow> u8 \<Rightarrow> u32 \<Rightarrow> trace \<Rightarrow> trace" where
  "pci_config_write_long bus device func offset v tr =
     outl CONFIG_DATA v (outl CONFIG_ADDRESS (config_address bus device func offset) tr)"

definition pci_config_write_word :: "hardware \<Rightarrow> u8 \<Rightarrow> u8 \<Rightarrow> u8 \<Rightarrow> u8 \<Rightarrow> u16 \<Rightarrow> trace \<Rightarrow> trace" where
  "pci_config_write_word hw bus device func offset v tr =
     (let (tmp, tr') = pci_config_read_long hw bus device func offset tr;
          tmp1 = tmp AND NOT (push_bit (byte_shift offset) 0xffff);
          tmp2 = tmp1 OR push_bit (byte_shift offset) (ucast v)
      in pci_config_write_long bus device func offset tmp2 tr')"

definition pci_config_write_byte :: "hardware \<Rightarrow> u8 \<Rightarrow> u8 \<Rightarrow> u8 \<Rightarrow> u8 \<Rightarrow> u8 \<Rightarrow> trace \<Rightarrow> trace" where
  "pci_config_write_byte hw bus device func offset v tr =
     (let (tmp, tr') = pci_config_read_long hw bus device func offset tr;
          tmp1 = tmp AND NOT (push_bit (byte_shift offset) 0xff);
          tmp2 = tmp1 OR push_bit (byte_shift offset) (ucast v)
      in pci_config_write_long bus device func offset tmp2 tr')"

section \<open>Identification registers\<close>

definition get_vendor_id :: "hardware \<Rightarrow> u8 \<Rightarrow> u8 \<Rightarrow> u8 \<Rightarrow> trace \<Rightarrow> u16 \<times> trace" where
  "get_vendor_id hw bus device func tr =
     (let (large, tr') = pci_config_read_long hw bus device func 0 tr in (ucast large, tr'))"

definition get_header_type :: "hardware \<Rightarrow> u8 \<Rightarrow> u8 \<Rightarrow> u8 \<Rightarrow> trace \<Rightarrow> u8 \<times> trace" where
  "get_header_type hw bus device func tr =
     (let (large, tr') = pci_config_read_long hw bus device func 12 tr
      in (ucast (drop_bit 16 large AND 0xFF), tr'))"

definition get_device_id :: "hardware \<Rightarrow> u8 \<Rightarrow> u8 \<Rightarrow> u8 \<Rightarrow> trace \<Rightarrow> u16 \<times> trace" where
  "get_device_id hw bus device func tr =
     (let (large, tr') = pci_config_read_long hw bus device func 0 tr in (ucast (drop_bit 16 large), tr'))"

definition get_class_code :: "hardware \<Rightarrow> u8 \<Rightarrow> u8 \<Rightarrow> u8 \<Rightarrow> trace \<Rightarrow> u8 \<times> trace" where
  "get_class_code hw bus device func tr =
     (let (large, tr') = pci_config_read_long hw bus device func 8 tr
      in (ucast (drop_bit 24 large AND 0xFF), tr'))"

definition get_subclass :: "hardware \<Rightarrow> u8 \<Rightarrow> u8 \<Rightarrow> u8 \<Rightarrow> trace \<Rightarrow> u8 \<times> trace" where
  "get_subclass hw bus device func tr =
     (let (large, tr') = pci_config_read_long hw bus device func 8 tr
      in (ucast (drop_bit 16 large AND 0xFF), tr'))"

section \<open>Enumeration\<close>

text \<open>The state is the number of devices found and the trace.\<close>

definition check_function :: "hardware \<Rightarrow> u8 \<Rightarrow> u8 \<Rightarrow> u8 \<Rightarrow> u8 \<times> trace \<Rightarrow> u8 \<times> trace" where
  "check_function hw bus device func s =
     (let (vendor_id, tr1) = get_vendor_id hw bus device func (snd s)
      in if vendor_id = 0xFFFF then (fst s, tr1)
         else let (_, tr2) = get_device_id hw bus device func tr1;
                  (_, tr3) = get_class_code hw bus device func tr2;
                  (_, tr4) = get_subclass hw bus device func tr3
              in (fst s + 1, tr4))"

definition check_device :: "hardware \<Rightarrow> u8 \<Rightarrow> u8 \<Rightarrow> u8 \<times> trace \<Rightarrow> u8 \<times> trace" where
  "check_device hw bus device s =
     (let s1 = check_function hw bus device 0 s;
          (header_type, tr) = get_header_type hw bus device 0 (snd s1);
          s2 = (fst s1, tr)
      in if header_type AND 0x80 \<noteq> 0
         then for_up 1 8 (\<lambda>func. check_function hw bus device func) s2
         else s2)"

definition brute_force_check_all_buses :: "hardware \<Rightarrow> u8 \<times> trace \<Rightarrow> u8 \<times> trace" where
  "brute_force_check_all_buses hw s =
     for_up (0 :: u16) 256 (\<lambda>bus t. for_up 0 32 (\<lambda>device. check_device hw (ucast bus) device) t) s"

end
