(* ===== verification/Osi.thy ===== *)
theory Osi
  imports Paging Heap Pit Pci
begin

text \<open>
  The services the kernel gives to the ACPI library, arch/i686/osi\_shim/osi.c: mapping of physical
  memory at the shim's virtual pages, tests of mappings, reads and writes of physical memory, of
  ports and of PCI registers, allocation, waits, and the services that do nothing.  The library
  itself is vendored code and is not modelled.  Sizes are the library's 32-bit \<open>ACPI_SIZE\<close>, physical
  addresses its 64-bit \<open>ACPI_PHYSICAL_ADDRESS\<close>; \<open>None\<close> is a page fault.
\<close>

unbundle bit_operations_syntax

section \<open>State and status\<close>

datatype ACPI_STATUS = AE_OK | AE_ERROR | AE_NOT_FOUND | AE_NOT_EXIST | AE_SUPPORT | AE_BAD_PARAMETER

record osi =
  omachine :: machine
  osi_virt_range_start :: u32

definition AcpiOsInitialize :: "paging_layout \<Rightarrow> osi \<Rightarrow> ACPI_STATUS \<times> osi" where
  "AcpiOsInitialize lay st =
     (let (ok, start, m) = osi_virt_mem_allocator_init (allocators lay) (kernel_view (omachine st))
      in (if ok then AE_OK else AE_ERROR,
          \<lparr> omachine = set_kernel_view m (omachine st), osi_virt_range_start = start \<rparr>))"

section \<open>Mapping of physical memory\<close>

text \<open>The pages of the \<open>len\<close> bytes from \<open>address\<close>.\<close>

definition pages_of_range :: "u32 \<Rightarrow> u32 \<Rightarrow> u32" where
  "pages_of_range address len =
     (let offset = address - (address AND NOT (PAGE_SIZE - 1));
          adjusted_length = offset + len
      in adjusted_length div PAGE_SIZE + (if adjusted_length mod PAGE_SIZE > 0 then 1 else 0))"

definition AcpiOsMapMemory :: "paging_layout \<Rightarrow> u64 \<Rightarrow> u32 \<Rightarrow> osi \<Rightarrow> (u32 \<times> osi) option" where
  "AcpiOsMapMemory lay PhysicalAddress len st =
     (let physical_address = ucast PhysicalAddress :: u32
      in if len = 0 then Some (0, st)
         else let physical_page_address = physical_address AND NOT (PAGE_SIZE - 1);
                  physical_page_offset = physical_address - physical_page_address;
                  physical_memory_size = pages_of_range physical_address len;
                  (virtual_range, m) = osi_virt_mem_allocator_allocate_pages (allocators lay)
                     (osi_virt_range_start st) physical_memory_size (kernel_view (omachine st));
                  s1 = set_kernel_view m (omachine st)
              in if virtual_range = 0 then Some (0, st\<lparr> omachine := s1 \<rparr>)
                 else do {
                   (_, s2) \<leftarrow> map_pages_in_kernel_addr lay virtual_range physical_page_address
                                physical_memory_size (PT_PRESENT OR PT_RW) (PD_PRESENT OR PD_RW) s1;
                   Some (virtual_range + physical_page_offset, st\<lparr> omachine := s2 \<rparr>)
                 })"

definition AcpiOsUnmapMemory :: "paging_layout \<Rightarrow> u32 \<Rightarrow> u32 \<Rightarrow> osi \<Rightarrow> osi option" where
  "AcpiOsUnmapMemory lay where_address len st =
     (if where_address = 0 \<or> len = 0 then Some st
      else let virtual_page_address = where_address AND NOT (PAGE_SIZE - 1);
               virtual_memory_size = pages_of_range where_address len
           in do {
             (_, s1) \<leftarrow> unmap_pages_in_kernel_addr lay virtual_page_address virtual_memory_size (omachine st);
             (_, m) \<leftarrow> osi_virt_mem_allocator_free_pages (allocators lay) (osi_virt_range_start st)
                         virtual_page_address virtual_memory_size (kernel_view s1);
             Some (st\<lparr> omachine := set_kernel_view m s1 \<rparr>)
           })"

definition AcpiOsGetPhysicalAddress :: "paging_layout \<Rightarrow> u32 \<Rightarrow> osi \<Rightarrow> (ACPI_STATUS \<times> u64 \<times> osi) option" where
  "AcpiOsGetPhysicalAddress lay LogicalAddress st =
     map_option (\<lambda>(p, s). (AE_OK, ucast p, st\<lparr> omachine := s \<rparr>))
       (get_physical_address_in_kernel_addr lay LogicalAddress (omachine st))"

text \<open>The loop over the pages of a range, with the test of one page.\<close>

definition all_pages ::
  "(u32 \<Rightarrow> machine \<Rightarrow> (bool \<times> machine) option) \<Rightarrow> u32 \<Rightarrow> u32 \<Rightarrow> osi \<Rightarrow> (bool \<times> osi) option" where
  "all_pages test Memory Length st =
     (if Memory = 0 then Some (False, st)
      else let virtual_page_address = Memory AND NOT (PAGE_SIZE - 1)
           in map_option (\<lambda>(b, s). (b, st\<lparr> omachine := s \<rparr>))
                (for_pages (pages_of_range Memory Length)
                  (\<lambda>i. test (virtual_page_address + i * PAGE_SIZE)) (omachine st)))"

definition AcpiOsReadable :: "paging_layout \<Rightarrow> u32 \<Rightarrow> u32 \<Rightarrow> osi \<Rightarrow> (bool \<times> osi) option" where
  "AcpiOsReadable lay = all_pages (is_readable_in_kernel_addr lay)"

definition AcpiOsWritable :: "paging_layout \<Rightarrow> u32 \<Rightarrow> u32 \<Rightarrow> osi \<Rightarrow> (bool \<times> osi) option" where
  "AcpiOsWritable lay = all_pages (is_writable_in_kernel_addr lay)"

section \<open>Access to physical memory\<close>

text \<open>A little-endian access of \<open>n\<close> bytes through a virtual pointer.\<close>

fun load_bytes :: "nat \<Rightarrow> u32 \<Rightarrow> machine \<Rightarrow> u64 option" where
  "load_bytes 0 a s = Some 0"
| "load_bytes (Suc n) a s =
     do {
       p \<leftarrow> translate s a;
       v \<leftarrow> load_bytes n (a + 1) s;
       Some (ucast (pmem s p) OR push_bit 8 v)
     }"

fun store_bytes :: "nat \<Rightarrow> u32 \<Rightarrow> u64 \<Rightarrow> machine \<Rightarrow> machine option" where
  "store_bytes 0 a v s = Some s"
| "store_bytes (Suc n) a v s =
     Option.bind (vwrite8 s a (ucast v)) (store_bytes n (a + 1) (drop_bit 8 v))"

text \<open>The library counts \<open>Width\<close> in bits; the code maps as many bytes.\<close>

definition width_bytes :: "u32 \<Rightarrow> nat option" where
  "width_bytes Width =
     (if Width = 8 then Some 1 else if Width = 16 then Some 2
      else if Width = 32 then Some 4 else if Width = 64 then Some 8 else None)"

text \<open>\<open>old\<close> is what the caller's variable holds, which a failing read leaves.\<close>

definition AcpiOsReadMemory ::
  "paging_layout \<Rightarrow> u64 \<Rightarrow> u64 \<Rightarrow> u32 \<Rightarrow> osi \<Rightarrow> (ACPI_STATUS \<times> u64 \<times> osi) option" where
  "AcpiOsReadMemory lay Address old Width st =
     do {
       (logical_address, o1) \<leftarrow> AcpiOsMapMemory lay Address Width st;
       if logical_address = 0 then Some (AE_NOT_EXIST, old, o1)
       else case width_bytes Width of
              None \<Rightarrow> map_option (\<lambda>o2. (AE_BAD_PARAMETER, old, o2)) (AcpiOsUnmapMemory lay logical_address Width o1)
            | Some n \<Rightarrow> do {
                v \<leftarrow> load_bytes n logical_address (omachine o1);
                o2 \<leftarrow> AcpiOsUnmapMemory lay logical_address Width o1;
                Some (AE_OK, v, o2)
              }
     }"

definition AcpiOsWriteMemory ::
  "paging_layout \<Rightarrow> u64 \<Rightarrow> u64 \<Rightarrow> u32 \<Rightarrow> osi \<Rightarrow> (ACPI_STATUS \<times> osi) option" where
  "AcpiOsWriteMemory lay Address v Width st =
     do {
       (logical_address, o1) \<leftarrow> AcpiOsMapMemory lay Address Width st;
       if logical_address = 0 then Some (AE_NOT_FOUND, o1)
       else case width_bytes Width of
              None \<Rightarrow> map_option (\<lambda>o2. (AE_BAD_PARAMETER, o2)) (AcpiOsUnmapMemory lay logical_address Width o1)
            | Some n \<Rightarrow> do {
                s \<leftarrow> store_bytes n logical_address v (omachine o1);
                o2 \<leftarrow> AcpiOsUnmapMemory lay logical_address Width (o1\<lparr> omachine := s \<rparr>);
                Some (AE_OK, o2)
              }
     }"

section \<open>Registers\<close>

record ACPI_PCI_ID =
  Bus :: u16
  Device :: u16
  Function :: u16

definition valid_pci_id :: "ACPI_PCI_ID \<Rightarrow> bool" where
  "valid_pci_id i \<longleftrightarrow> \<not> (Bus i \<ge> 256 \<or> Device i \<ge> 32 \<or> Function i \<ge> 8)"

text \<open>A read stores only the bytes of its width in the caller's variable.\<close>

definition AcpiOsReadPciConfiguration ::
  "hardware \<Rightarrow> ACPI_PCI_ID \<Rightarrow> u32 \<Rightarrow> u64 \<Rightarrow> u32 \<Rightarrow> trace \<Rightarrow> ACPI_STATUS \<times> u64 \<times> trace" where
  "AcpiOsReadPciConfiguration hw i Reg old Width tr =
     (let bus = ucast (Bus i); device = ucast (Device i); func = ucast (Function i); reg = ucast Reg
      in if \<not> valid_pci_id i then (AE_BAD_PARAMETER, old, tr)
         else if Width = 8
         then (let (v, tr') = pci_config_read_byte hw bus device func reg tr
               in (AE_OK, (old AND NOT 0xFF) OR ucast v, tr'))
         else if Width = 16
         then (let (v, tr') = pci_config_read_word hw bus device func reg tr
               in (AE_OK, (old AND NOT 0xFFFF) OR ucast v, tr'))
         else if Width = 32
         then (let (v, tr') = pci_config_read_long hw bus device func reg tr
               in (AE_OK, (old AND NOT 0xFFFFFFFF) OR ucast v, tr'))
         else (AE_BAD_PARAMETER, old, tr))"

definition AcpiOsWritePciConfiguration ::
  "hardware \<Rightarrow> ACPI_PCI_ID \<Rightarrow> u32 \<Rightarrow> u64 \<Rightarrow> u32 \<Rightarrow> trace \<Rightarrow> ACPI_STATUS \<times> trace" where
  "AcpiOsWritePciConfiguration hw i Reg v Width tr =
     (let bus = ucast (Bus i); device = ucast (Device i); func = ucast (Function i); reg = ucast Reg
      in if \<not> valid_pci_id i then (AE_BAD_PARAMETER, tr)
         else if Width = 8 then (AE_OK, pci_config_write_byte hw bus device func reg (ucast v) tr)
         else if Width = 16 then (AE_OK, pci_config_write_word hw bus device func reg (ucast v) tr)
         else if Width = 32 then (AE_OK, pci_config_write_long bus device func reg (ucast v) tr)
         else (AE_BAD_PARAMETER, tr))"

definition AcpiOsReadPort :: "hardware \<Rightarrow> u32 \<Rightarrow> u32 \<Rightarrow> u32 \<Rightarrow> trace \<Rightarrow> ACPI_STATUS \<times> u32 \<times> trace" where
  "AcpiOsReadPort hw Address old Width tr =
     (if Width = 8 then (let (v, tr') = inb hw (ucast Address) tr in (AE_OK, ucast v, tr'))
      else if Width = 16 then (let (v, tr') = inw hw (ucast Address) tr in (AE_OK, ucast v, tr'))
      else if Width = 32 then (let (v, tr') = inl hw (ucast Address) tr in (AE_OK, v, tr'))
      else (AE_BAD_PARAMETER, old, tr))"

definition AcpiOsWritePort :: "u32 \<Rightarrow> u32 \<Rightarrow> u32 \<Rightarrow> trace \<Rightarrow> ACPI_STATUS \<times> trace" where
  "AcpiOsWritePort Address v Width tr =
     (if Width = 8 then (AE_OK, outb (ucast Address) (ucast v) tr)
      else if Width = 16 then (AE_OK, outw (ucast Address) (ucast v) tr)
      else if Width = 32 then (AE_OK, outl (ucast Address) v tr)
      else (AE_BAD_PARAMETER, tr))"

section \<open>Allocation and time\<close>

definition AcpiOsAllocate :: "page_map \<Rightarrow> layout \<Rightarrow> u32 \<Rightarrow> heap \<Rightarrow> (u32 \<times> heap) option" where
  "AcpiOsAllocate pg lay Size h = kmalloc pg lay Size h"

definition AcpiOsFree :: "u32 \<Rightarrow> heap \<Rightarrow> heap" where
  "AcpiOsFree Memory h = kfree Memory h"

definition AcpiOsGetTimer :: "pit \<Rightarrow> u64" where
  "AcpiOsGetTimer s = get_seconds s * 10000000 + get_us s * 10"

text \<open>The waits run with interrupts on and leave them off (the second component).\<close>

definition AcpiOsStall :: "nat \<Rightarrow> u32 \<Rightarrow> pit \<Rightarrow> (pit \<times> bool) option" where
  "AcpiOsStall fuel Microseconds s = map_option (\<lambda>t. (t, False)) (pit_wait_us fuel Microseconds s)"

definition AcpiOsSleep :: "nat \<Rightarrow> u64 \<Rightarrow> pit \<Rightarrow> (pit \<times> bool) option" where
  "AcpiOsSleep fuel Milliseconds s =
     map_option (\<lambda>t. (t, False)) (pit_wait_us fuel (ucast (Milliseconds * 1000)) s)"

section \<open>Services without effect\<close>

definition AcpiOsTerminate :: ACPI_STATUS where "AcpiOsTerminate = AE_OK"
definition AcpiOsPhysicalTableOverride :: ACPI_STATUS where "AcpiOsPhysicalTableOverride = AE_SUPPORT"
definition AcpiOsPredefinedOverride :: "ACPI_STATUS \<times> u32" where "AcpiOsPredefinedOverride = (AE_OK, 0)"
definition AcpiOsTableOverride :: "ACPI_STATUS \<times> u32" where "AcpiOsTableOverride = (AE_OK, 0)"
definition AcpiOsExecute :: "('c \<Rightarrow> 'c) \<Rightarrow> 'c \<Rightarrow> ACPI_STATUS \<times> 'c" where
  "AcpiOsExecute callback context = (AE_OK, callback context)"
definition AcpiOsAcquireLock :: u32 where "AcpiOsAcquireLock = 0"
definition AcpiOsGetThreadId :: u32 where "AcpiOsGetThreadId = 1"
definition AcpiOsWaitSemaphore :: ACPI_STATUS where "AcpiOsWaitSemaphore = AE_OK"
definition AcpiOsSignalSemaphore :: ACPI_STATUS where "AcpiOsSignalSemaphore = AE_OK"
definition AcpiOsInstallInterruptHandler :: ACPI_STATUS where "AcpiOsInstallInterruptHandler = AE_OK"
definition AcpiOsDeleteSemaphore :: ACPI_STATUS where "AcpiOsDeleteSemaphore = AE_OK"
definition AcpiOsCreateSemaphore :: ACPI_STATUS where "AcpiOsCreateSemaphore = AE_OK"
definition AcpiOsCreateLock :: ACPI_STATUS where "AcpiOsCreateLock = AE_OK"
definition AcpiOsRemoveInterruptHandler :: ACPI_STATUS where "AcpiOsRemoveInterruptHandler = AE_OK"
definition AcpiOsEnterSleep :: ACPI_STATUS where "AcpiOsEnterSleep = AE_OK"
definition AcpiOsSignal :: ACPI_STATUS where "AcpiOsSignal = AE_OK"

text \<open>Services that return nothing leave the state \<open>'c\<close> as it is; the library's search for the root
  pointer writes the caller's variable, which starts at 0.\<close>

definition AcpiOsWaitEventsComplete :: "'c \<Rightarrow> 'c" where "AcpiOsWaitEventsComplete c = c"
definition AcpiOsReleaseLock :: "'c \<Rightarrow> 'c" where "AcpiOsReleaseLock c = c"
definition AcpiOsDeleteLock :: "'c \<Rightarrow> 'c" where "AcpiOsDeleteLock c = c"
definition AcpiOsPrintf :: "'c \<Rightarrow> 'c" where "AcpiOsPrintf c = c"
definition AcpiOsVprintf :: "'c \<Rightarrow> 'c" where "AcpiOsVprintf c = c"

definition AcpiOsGetRootPointer :: "(u64 \<Rightarrow> 'c \<Rightarrow> u64 \<times> 'c) \<Rightarrow> 'c \<Rightarrow> u64 \<times> 'c" where
  "AcpiOsGetRootPointer AcpiFindRootPointer c = AcpiFindRootPointer 0 c"

end
