(* ===== verification/Elf.thy ===== *)
theory Elf
  imports Osi
begin

text \<open>
  The files of the boot module and the loading of programs, kernel/kernel/tar\_fs/tar.c: the list of
  file headers, the checks of an ELF header, the search of its sections and program headers, and
  the two ways to place a program in memory.  A header in memory is read field by field through
  the processor's translation (\<open>None\<close> is a page fault), as the C structures lay the fields out.
  What the functions print is left out, except the bytes that \<open>print_file\<close> writes.
\<close>

unbundle bit_operations_syntax

section \<open>The file list\<close>

text \<open>A header is 128 bytes: the size at 0, the name at 4, and the file follows.\<close>

definition HEADER_SIZE :: u32 where "HEADER_SIZE = 128"

fun get_file_header_from_list :: "mem \<Rightarrow> u32 \<Rightarrow> u32 list \<Rightarrow> u32 option" where
  "get_file_header_from_list m filename [] = Some 0"
| "get_file_header_from_list m filename (file # file_list) =
     do {
       r \<leftarrow> kstrcmp m filename (file + 4);
       if r = 0 then Some file else get_file_header_from_list m filename file_list
     }"

text \<open>\<open>file_headers\<close> is the list of the first \<open>num_of_files\<close> entries of the array.\<close>

definition get_file_header :: "mem \<Rightarrow> u32 list \<Rightarrow> u32 \<Rightarrow> u32 option" where
  "get_file_header m file_headers filename = get_file_header_from_list m filename file_headers"

definition print_file :: "mem \<Rightarrow> u32 list \<Rightarrow> u32 \<Rightarrow> u8 list option" where
  "print_file m file_headers filename =
     map_option (\<lambda>file. if file = 0 then []
                  else map (\<lambda>i. m (file + HEADER_SIZE + of_nat i)) [0..<unat (rd32 m file - HEADER_SIZE)])
       (get_file_header_from_list m filename file_headers)"

definition print_elf_file :: "mem \<Rightarrow> u32 list \<Rightarrow> u32 \<Rightarrow> u8 list option" where
  "print_elf_file m file_headers filename =
     map_option (\<lambda>file. if file = 0 then []
                  else map (\<lambda>i. m (file + HEADER_SIZE + of_nat i)) [0..<unat (rd32 m file - HEADER_SIZE)])
       (get_file_header_from_list m filename file_headers)"

text \<open>\<open>idpg\<close> is the effect of \<open>identity_map_page_in_kernel_addr\<close> on the kernel's virtual memory, as
  \<open>pg\<close> is that of \<open>map_page_in_kernel_addr\<close> (theory \<open>Heap\<close>).\<close>

definition map_file :: "(u32 \<Rightarrow> mem \<Rightarrow> mem) \<Rightarrow> u32 \<Rightarrow> heap \<Rightarrow> heap" where
  "map_file idpg file h =
     (let size = rd32 (hmem h) file
      in for_up 0 (size div PAGE_SIZE + size mod PAGE_SIZE)
           (\<lambda>i t. t\<lparr> hmem := idpg ((file AND 0xFFFFF000) + i * PAGE_SIZE) (hmem t) \<rparr>) h)"

partial_function (option) parse_headers ::
  "(u32 \<Rightarrow> mem \<Rightarrow> mem) \<Rightarrow> page_map \<Rightarrow> layout \<Rightarrow> u32 \<Rightarrow> u32 list \<Rightarrow> heap \<Rightarrow> (u32 list \<times> heap) option" where
  "parse_headers idpg pg lay file file_headers h =
     (if rd32 (hmem h) file = 0 then Some (file_headers, h)
      else if length file_headers \<ge> 32 then Some (file_headers, map_file idpg file h)
      else do {
        (new_file_header, h2) \<leftarrow> kmalloc pg lay (rd32 (hmem (map_file idpg file h)) file) (map_file idpg file h);
        let h3 = h2\<lparr> hmem := snd (kmemcpy (hmem h2) new_file_header file (rd32 (hmem h2) file)) \<rparr>;
        parse_headers idpg pg lay (file + rd32 (hmem h3) file) (file_headers @ [new_file_header]) h3
      })"

section \<open>Headers\<close>

text \<open>A field of \<open>n\<close> bytes.\<close>

definition field :: "nat \<Rightarrow> u32 \<Rightarrow> machine \<Rightarrow> u32 option" where
  "field n a s = map_option ucast (load_bytes n a s)"

record Elf32_Ehdr =
  e_ident :: "u32 list"
  e_type :: u32
  e_machine :: u32
  e_version :: u32
  e_entry :: u32
  e_phoff :: u32
  e_shoff :: u32
  e_ehsize :: u32
  e_phnum :: u32
  e_shnum :: u32
  e_shstrndx :: u32

definition load_ehdr :: "u32 \<Rightarrow> machine \<Rightarrow> Elf32_Ehdr option" where
  "load_ehdr a s =
     do {
       mag0 \<leftarrow> field 1 a s; mag1 \<leftarrow> field 1 (a + 1) s; mag2 \<leftarrow> field 1 (a + 2) s; mag3 \<leftarrow> field 1 (a + 3) s;
       class \<leftarrow> field 1 (a + 4) s; data \<leftarrow> field 1 (a + 5) s; version \<leftarrow> field 1 (a + 6) s;
       type \<leftarrow> field 2 (a + 16) s; machine \<leftarrow> field 2 (a + 18) s; ev \<leftarrow> field 4 (a + 20) s;
       entry \<leftarrow> field 4 (a + 24) s; phoff \<leftarrow> field 4 (a + 28) s; shoff \<leftarrow> field 4 (a + 32) s;
       ehsize \<leftarrow> field 2 (a + 40) s; phnum \<leftarrow> field 2 (a + 44) s; shnum \<leftarrow> field 2 (a + 48) s;
       shstrndx \<leftarrow> field 2 (a + 50) s;
       Some \<lparr> e_ident = [mag0, mag1, mag2, mag3, class, data, version], e_type = type, e_machine = machine,
              e_version = ev, e_entry = entry, e_phoff = phoff, e_shoff = shoff, e_ehsize = ehsize,
              e_phnum = phnum, e_shnum = shnum, e_shstrndx = shstrndx \<rparr>
     }"

definition is_valid_elf_sig :: "Elf32_Ehdr \<Rightarrow> bool" where
  "is_valid_elf_sig h \<longleftrightarrow> take 4 (e_ident h) = [0x7F, 0x45, 0x4C, 0x46]"

text \<open>The early returns, in their order.  A machine other than EM\_386 is only reported.\<close>

definition elf_header_ok :: "Elf32_Ehdr \<Rightarrow> bool" where
  "elf_header_ok h \<longleftrightarrow>
     is_valid_elf_sig h \<and> e_ident h ! 4 = 1 \<and> e_ident h ! 5 = 1 \<and> e_ident h ! 6 = 1
     \<and> (e_type h = 1 \<or> e_type h = 2) \<and> e_version h = 1 \<and> e_ehsize h = 52"

definition SHT_SYMTAB :: u32 where "SHT_SYMTAB = 2"
definition SHT_STRTAB :: u32 where "SHT_STRTAB = 3"
definition PT_LOAD :: u32 where "PT_LOAD = 1"

definition sh_type :: "u32 \<Rightarrow> machine \<Rightarrow> u32 option" where "sh_type shdr = field 4 (shdr + 4)"
definition sh_offset :: "u32 \<Rightarrow> machine \<Rightarrow> u32 option" where "sh_offset shdr = field 4 (shdr + 16)"
definition sh_size :: "u32 \<Rightarrow> machine \<Rightarrow> u32 option" where "sh_size shdr = field 4 (shdr + 20)"

text \<open>The symbol table and the string table of the symbols, 0 for none: the last of each.\<close>

definition find_tables :: "u32 \<Rightarrow> u32 \<Rightarrow> u32 \<Rightarrow> machine \<Rightarrow> (u32 \<times> u32) option" where
  "find_tables section_header count strtab_index s =
     for_up 0 count
       (\<lambda>i acc. do {
          (symbol_table, string_table) \<leftarrow> acc;
          let shdr = section_header + 40 * i;
          type \<leftarrow> sh_type shdr s;
          if type = SHT_SYMTAB then Some (shdr, string_table)
          else if type = SHT_STRTAB \<and> i \<noteq> strtab_index then Some (symbol_table, shdr)
          else Some (symbol_table, string_table)
        }) (Some (0, 0))"

record segments =
  memsz :: u32
  virtual_base_addr :: u32
  last_phdr :: u32

text \<open>The maximum of the sizes in memory, the address of the last loadable segment, and the last
  program header of any kind.\<close>

definition scan_segments :: "u32 \<Rightarrow> u32 \<Rightarrow> machine \<Rightarrow> segments option" where
  "scan_segments program_headers count s =
     for_up 0 count
       (\<lambda>i acc. do {
          g \<leftarrow> acc;
          let phdr = program_headers + 32 * i;
          type \<leftarrow> field 4 phdr s;
          if type = PT_LOAD
          then do {
            size \<leftarrow> field 4 (phdr + 20) s;
            vaddr \<leftarrow> field 4 (phdr + 8) s;
            Some \<lparr> memsz = (if memsz g > size then memsz g else size), virtual_base_addr = vaddr, last_phdr = phdr \<rparr>
          }
          else Some (g\<lparr> last_phdr := phdr \<rparr>)
        }) (Some \<lparr> memsz = 0, virtual_base_addr = 0, last_phdr = 0 \<rparr>)"

text \<open>The common part of the two loaders: \<open>None\<close> is a page fault, \<open>Some None\<close> a rejected file.\<close>

definition analyse_elf :: "u32 \<Rightarrow> machine \<Rightarrow> (Elf32_Ehdr \<times> segments) option option" where
  "analyse_elf file s =
     do {
       h \<leftarrow> load_ehdr file s;
       if \<not> elf_header_ok h then Some None
       else do {
         let section_header = file + e_shoff h;
         strtab_type \<leftarrow> sh_type (section_header + 40 * e_shstrndx h) s;
         if strtab_type \<noteq> SHT_STRTAB then Some None
         else do {
           (symbol_table, string_table) \<leftarrow> find_tables section_header (e_shnum h) (e_shstrndx h) s;
           _ \<leftarrow> sh_offset string_table s;
           _ \<leftarrow> sh_offset symbol_table s;
           _ \<leftarrow> sh_size symbol_table s;
           g \<leftarrow> scan_segments (file + e_phoff h) (e_phnum h) s;
           Some (Some (h, g))
         }
       }
     }"

section \<open>Loading\<close>

text \<open>\<open>kmemcpy\<close> through virtual pointers.\<close>

definition virtual_copy :: "u32 \<Rightarrow> u32 \<Rightarrow> u32 \<Rightarrow> machine \<Rightarrow> machine option" where
  "virtual_copy dest src n s =
     for_up 0 n
       (\<lambda>i acc. do {
          t \<leftarrow> acc;
          p \<leftarrow> translate t (src + i);
          vwrite8 t (dest + i) (pmem t p)
        }) (Some s)"

definition pages_of_size :: "u32 \<Rightarrow> u32" where
  "pages_of_size bytes = bytes div PAGE_SIZE + (if bytes mod PAGE_SIZE > 0 then 1 else 0)"

definition allocate_frames :: "paging_layout \<Rightarrow> u32 \<Rightarrow> machine \<Rightarrow> u32 \<times> machine" where
  "allocate_frames lay n s =
     (let (p, m) = global_phys_allocator_allocate_pages (allocators lay) n (kernel_view s)
      in (p, set_kernel_view m s))"

text \<open>\<open>file_header\<close> is what the search for the name returned; \<open>run\<close> is the loaded program.\<close>

definition parse_elf_file ::
  "paging_layout \<Rightarrow> (u32 \<Rightarrow> machine \<Rightarrow> machine option) \<Rightarrow> u32 \<Rightarrow> machine \<Rightarrow> ((u32 \<times> bool) \<times> machine) option"
where
  "parse_elf_file lay run file_header s =
     do {
       let file = file_header + HEADER_SIZE;
       r \<leftarrow> analyse_elf file s;
       case r of
         None \<Rightarrow> Some ((0, False), s)
       | Some (h, g) \<Rightarrow> do {
           let n = pages_of_size (memsz g);
           let (physical_memory, s1) = allocate_frames lay n s;
           (_, s2) \<leftarrow> map_pages_in_kernel_addr lay (virtual_base_addr g) physical_memory n
                        (PT_PRESENT OR PT_RW OR PT_USER) (PD_PRESENT OR PD_RW OR PD_USER) s1;
           p_offset \<leftarrow> field 4 (last_phdr g + 4) s2;
           s3 \<leftarrow> virtual_copy (virtual_base_addr g) (file + p_offset) (memsz g) s2;
           s4 \<leftarrow> run (e_entry h) s3;
           Some ((e_entry h, True), s4)
         }
     }"

definition USER_STACK_TOP_ADDR :: u32 where "USER_STACK_TOP_ADDR = 0xB0000000"

definition load_elf_file_in_process ::
  "paging_layout \<Rightarrow> process_t \<Rightarrow> u32 \<Rightarrow> osi \<Rightarrow> (bool \<times> process_t \<times> osi) option" where
  "load_elf_file_in_process lay process file_header st =
     do {
       let file = file_header + HEADER_SIZE;
       r \<leftarrow> analyse_elf file (omachine st);
       case r of
         None \<Rightarrow> Some (False, process, st)
       | Some (h, g) \<Rightarrow> do {
           let n = pages_of_size (memsz g);
           let (physical_memory, s1) = allocate_frames lay n (omachine st);
           (write_map_virt, st2) \<leftarrow> AcpiOsMapMemory lay (ucast physical_memory) (memsz g) (st\<lparr> omachine := s1 \<rparr>);
           p_offset \<leftarrow> field 4 (last_phdr g + 4) (omachine st2);
           s3 \<leftarrow> virtual_copy write_map_virt (file + p_offset) (memsz g) (omachine st2);
           st4 \<leftarrow> AcpiOsUnmapMemory lay write_map_virt (memsz g) (st2\<lparr> omachine := s3 \<rparr>);
           (_, s5) \<leftarrow> map_pages lay (virtual_cr3 process) (virtual_base_addr g) physical_memory n
                        (PT_PRESENT OR PT_RW) (PD_PRESENT OR PD_RW) (omachine st4);
           let (stack_phys_addr, s6) = allocate_physical_page lay s5;
           s7 \<leftarrow> clear_physical_page lay stack_phys_addr s6;
           (_, s8) \<leftarrow> user_map lay process (USER_STACK_TOP_ADDR - PAGE_SIZE) stack_phys_addr s7;
           Some (True, process\<lparr> proc_context := (proc_context process)\<lparr> ctx_eip := e_entry h \<rparr> \<rparr>,
                 st4\<lparr> omachine := s8 \<rparr>)
         }
     }"

definition kmemcpy_physical_addresses :: "paging_layout \<Rightarrow> u32 \<Rightarrow> u32 \<Rightarrow> u32 \<Rightarrow> osi \<Rightarrow> osi option" where
  "kmemcpy_physical_addresses lay dest src n st =
     do {
       (dest_virtual, st1) \<leftarrow> AcpiOsMapMemory lay (ucast dest) n st;
       (src_virtual, st2) \<leftarrow> AcpiOsMapMemory lay (ucast src) n st1;
       s \<leftarrow> virtual_copy dest_virtual src_virtual n (omachine st2);
       st3 \<leftarrow> AcpiOsUnmapMemory lay dest_virtual n (st2\<lparr> omachine := s \<rparr>);
       AcpiOsUnmapMemory lay src_virtual n st3
     }"

end
