(* ===== verification/Serial.thy ===== *)
theory Serial
  imports PortIO KString
begin

text \<open>
  The serial port, arch/i686/drivers/serial.  A wait for the line runs until the hardware answers,
  so the operations that wait are partial functions: \<open>None\<close> is a wait that never ends.
\<close>

unbundle bit_operations_syntax

definition COM1 :: u16 where "COM1 = 0x3F8"

definition serial_init :: "hardware \<Rightarrow> trace \<Rightarrow> bool \<times> trace" where
  "serial_init hw tr =
     (let tr1 = fold (\<lambda>(port, v). outb port v)
                  [(COM1 + 1, 0x00), (COM1 + 3, 0x80), (COM1 + 0, 0x03), (COM1 + 1, 0x00), (COM1 + 3, 0x03),
                   (COM1 + 2, 0xC7), (COM1 + 4, 0x0B), (COM1 + 4, 0x1E), (COM1 + 0, 0xAE)] tr;
          (b, tr2) = inb hw (COM1 + 0) tr1
      in if b \<noteq> 0xAE then (False, tr2) else (True, outb (COM1 + 4) 0x0F tr2))"

definition serial_received :: "hardware \<Rightarrow> trace \<Rightarrow> u8 \<times> trace" where
  "serial_received hw tr = (let (b, tr') = inb hw (COM1 + 5) tr in (b AND 1, tr'))"

definition is_transmit_empty :: "hardware \<Rightarrow> trace \<Rightarrow> u8 \<times> trace" where
  "is_transmit_empty hw tr = (let (b, tr') = inb hw (COM1 + 5) tr in (b AND 0x20, tr'))"

partial_function (option) wait_until :: "(trace \<Rightarrow> u8 \<times> trace) \<Rightarrow> trace \<Rightarrow> trace option" where
  "wait_until poll tr = (if fst (poll tr) = 0 then wait_until poll (snd (poll tr)) else Some (snd (poll tr)))"

definition serial_read :: "hardware \<Rightarrow> trace \<Rightarrow> (u8 \<times> trace) option" where
  "serial_read hw tr = map_option (inb hw COM1) (wait_until (serial_received hw) tr)"

definition serial_putchar :: "hardware \<Rightarrow> u8 \<Rightarrow> trace \<Rightarrow> trace option" where
  "serial_putchar hw c tr = map_option (outb COM1 c) (wait_until (is_transmit_empty hw) tr)"

definition serial_write :: "hardware \<Rightarrow> mem \<Rightarrow> u32 \<Rightarrow> u32 \<Rightarrow> trace \<Rightarrow> trace option" where
  "serial_write hw m txt n tr =
     for_up 0 n (\<lambda>i t. Option.bind t (serial_putchar hw (m (txt + i)))) (Some tr)"

definition serial_writestring :: "hardware \<Rightarrow> mem \<Rightarrow> u32 \<Rightarrow> trace \<Rightarrow> trace option" where
  "serial_writestring hw m txt tr = Option.bind (kstrlen m txt) (\<lambda>n. serial_write hw m txt n tr)"

end
