(* ===== verification/UserProgram.thy ===== *)
theory UserProgram
  imports Serial
begin

text \<open>
  The program of the boot disk, ramdisk\_files/test\_program.c, with its copies of the serial functions, and what
  the serial functions send: every byte of the string, in order, each after an answer that the line is empty.  The
  program never ends; \<open>test_program_rounds\<close> is its first \<open>n\<close> rounds, and \<open>hlt\<close> leaves no trace.
\<close>

unbundle bit_operations_syntax

section \<open>The program\<close>

partial_function (option) user_kstrlen_loop :: "mem \<Rightarrow> u32 \<Rightarrow> u32 \<Rightarrow> u32 option" where
  "user_kstrlen_loop m str len = (if str \<noteq> 0 \<and> m (str + len) \<noteq> 0 then user_kstrlen_loop m str (len + 1) else Some len)"

definition user_kstrlen :: "mem \<Rightarrow> u32 \<Rightarrow> u32 option" where
  "user_kstrlen m str = user_kstrlen_loop m str 0"

definition user_is_transmit_empty :: "hardware \<Rightarrow> trace \<Rightarrow> u8 \<times> trace" where
  "user_is_transmit_empty hw tr = (let (b, tr') = inb hw (COM1 + 5) tr in (b AND 0x20, tr'))"

partial_function (option) user_wait :: "hardware \<Rightarrow> trace \<Rightarrow> trace option" where
  "user_wait hw tr = (let (empty, tr1) = user_is_transmit_empty hw tr in if empty = 0 then user_wait hw tr1 else Some tr1)"

definition user_serial_putchar :: "hardware \<Rightarrow> u8 \<Rightarrow> trace \<Rightarrow> trace option" where
  "user_serial_putchar hw c tr = map_option (outb COM1 c) (user_wait hw tr)"

definition user_serial_write :: "hardware \<Rightarrow> mem \<Rightarrow> u32 \<Rightarrow> u32 \<Rightarrow> trace \<Rightarrow> trace option" where
  "user_serial_write hw m txt n tr =
     for_up 0 n (\<lambda>i t. Option.bind t (user_serial_putchar hw (m (txt + i)))) (Some tr)"

definition user_serial_writestring :: "hardware \<Rightarrow> mem \<Rightarrow> u32 \<Rightarrow> trace \<Rightarrow> trace option" where
  "user_serial_writestring hw m txt tr = Option.bind (user_kstrlen m txt) (\<lambda>n. user_serial_write hw m txt n tr)"

text \<open>\<open>message\<close> is the address of the literal.\<close>

definition simple_program :: "hardware \<Rightarrow> mem \<Rightarrow> u32 \<Rightarrow> trace \<Rightarrow> trace option" where
  "simple_program hw m message tr = user_serial_writestring hw m message tr"

fun test_program_rounds :: "hardware \<Rightarrow> mem \<Rightarrow> u32 \<Rightarrow> nat \<Rightarrow> trace \<Rightarrow> trace option" where
  "test_program_rounds hw m message 0 tr = Some tr"
| "test_program_rounds hw m message (Suc n) tr =
     do { tr1 \<leftarrow> simple_program hw m message tr; test_program_rounds hw m message n tr1 }"

section \<open>What is sent\<close>

text \<open>The bytes written to the data port, the oldest first, and that each was written just after an answer that the
  transmitter is empty.\<close>

fun sent :: "trace \<Rightarrow> u8 list" where
  "sent [] = []"
| "sent (Out8 p v # tr) = sent tr @ (if p = COM1 then [v] else [])"
| "sent (_ # tr) = sent tr"

definition line_empty :: "hardware \<Rightarrow> trace \<Rightarrow> bool" where
  "line_empty hw tr \<longleftrightarrow> answer8 hw tr (COM1 + 5) AND 0x20 \<noteq> 0"

fun paced :: "hardware \<Rightarrow> trace \<Rightarrow> bool" where
  "paced hw [] \<longleftrightarrow> True"
| "paced hw (Out8 p v # In8 q # tr) \<longleftrightarrow> (p = COM1 \<longrightarrow> q = COM1 + 5 \<and> line_empty hw tr) \<and> paced hw (In8 q # tr)"
| "paced hw (Out8 p v # tr) \<longleftrightarrow> p \<noteq> COM1 \<and> paced hw tr"
| "paced hw (_ # tr) \<longleftrightarrow> paced hw tr"

text \<open>The line always becomes empty after some polls.\<close>

definition drains :: "hardware \<Rightarrow> bool" where
  "drains hw \<longleftrightarrow> (\<forall>tr. \<exists>n. line_empty hw (replicate n (In8 (COM1 + 5)) @ tr))"

lemma wait_empty:
  "line_empty hw (replicate n (In8 (COM1 + 5)) @ tr) \<Longrightarrow>
     \<exists>k. wait_until (is_transmit_empty hw) tr = Some (In8 (COM1 + 5) # replicate k (In8 (COM1 + 5)) @ tr) \<and>
       line_empty hw (replicate k (In8 (COM1 + 5)) @ tr)"
proof (induction n arbitrary: tr)
  case 0
  then have "wait_until (is_transmit_empty hw) tr = Some (In8 (COM1 + 5) # tr)"
    by (subst wait_until.simps) (simp add: is_transmit_empty_def inb_def line_empty_def)
  then show ?case using 0 by (intro exI [of _ 0]) simp
next
  case (Suc n)
  show ?case
  proof (cases "line_empty hw tr")
    case True
    then have "wait_until (is_transmit_empty hw) tr = Some (In8 (COM1 + 5) # tr)"
      by (subst wait_until.simps) (simp add: is_transmit_empty_def inb_def line_empty_def)
    then show ?thesis using True by (intro exI [of _ 0]) simp
  next
    case False
    then have step: "wait_until (is_transmit_empty hw) tr = wait_until (is_transmit_empty hw) (In8 (COM1 + 5) # tr)"
      by (subst wait_until.simps) (simp add: is_transmit_empty_def inb_def line_empty_def)
    have "line_empty hw (replicate n (In8 (COM1 + 5)) @ In8 (COM1 + 5) # tr)" using Suc.prems by (simp add: replicate_app_Cons_same)
    from Suc.IH [OF this] obtain k where
      "wait_until (is_transmit_empty hw) (In8 (COM1 + 5) # tr) = Some (In8 (COM1 + 5) # replicate k (In8 (COM1 + 5)) @ In8 (COM1 + 5) # tr)"
      "line_empty hw (replicate k (In8 (COM1 + 5)) @ In8 (COM1 + 5) # tr)" by blast
    then show ?thesis unfolding step by (intro exI [of _ "Suc k"]) (simp add: replicate_app_Cons_same)
  qed
qed

lemma polls_sent: "sent (replicate k (In8 q) @ tr) = sent tr"
  by (induction k) simp_all

lemma polls_paced: "paced hw tr \<Longrightarrow> paced hw (replicate k (In8 q) @ tr)"
  by (induction k) simp_all

text \<open>One step of sending: the bytes \<open>s\<close> have been sent, and the pace is kept.\<close>

definition sends :: "hardware \<Rightarrow> trace \<Rightarrow> u8 list \<Rightarrow> trace \<Rightarrow> bool" where
  "sends hw tr s tr' \<longleftrightarrow> sent tr' = sent tr @ s \<and> (paced hw tr \<longrightarrow> paced hw tr')"

lemma putchar_sends:
  assumes "drains hw"
  shows "\<exists>tr'. serial_putchar hw c tr = Some tr' \<and> sends hw tr [c] tr'"
proof -
  obtain n where "line_empty hw (replicate n (In8 (COM1 + 5)) @ tr)" using assms by (auto simp: drains_def)
  from wait_empty [OF this] obtain k where
    k: "wait_until (is_transmit_empty hw) tr = Some (In8 (COM1 + 5) # replicate k (In8 (COM1 + 5)) @ tr)"
      "line_empty hw (replicate k (In8 (COM1 + 5)) @ tr)" by blast
  then show ?thesis
    by (simp add: serial_putchar_def outb_def sends_def polls_sent polls_paced)
qed

lemma writestring_sends:
  assumes "drains hw" "p \<noteq> 0" "cstr m p s" "length s < 2 ^ 32"
  shows "\<exists>tr'. serial_writestring hw m p tr = Some tr' \<and> sends hw tr s tr'"
proof -
  let ?n = "of_nat (length s) :: u32"
  let ?P = "\<lambda>k t. \<exists>tr'. t = Some tr' \<and> sends hw tr (take (unat k) s) tr'"
  have n: "unat ?n = length s" using assms(4) by (simp add: unat_of_nat_small)
  have "?P ?n (serial_write hw m p ?n tr)"
    unfolding serial_write_def
  proof (rule for_up_invariant [where P = ?P])
    fix k :: u32 and t assume k: "k < ?n" and P: "?P k t"
    then obtain t1 where t1: "t = Some t1" "sends hw tr (take (unat k) s) t1" by blast
    have kn: "unat k < length s" "unat (k + 1) = Suc (unat k)" using k n unat_Suc_less [OF k] by (simp_all add: word_less_nat_alt)
    have "m (p + k) = s ! unat k" using cstr_nth [OF assms(3) kn(1)] by simp
    moreover obtain t2 where "serial_putchar hw (m (p + k)) t1 = Some t2" "sends hw t1 [m (p + k)] t2"
      using putchar_sends [OF assms(1)] by blast
    ultimately show "?P (k + 1) (Option.bind t (serial_putchar hw (m (p + k))))"
      using t1 kn by (simp add: sends_def take_Suc_conv_app_nth)
  qed (simp_all add: sends_def)
  then show ?thesis using kstrlen_cstr [OF assms(2,3)] n by (simp add: serial_writestring_def)
qed

section \<open>The program's functions are the kernel's\<close>

lemma user_wait_eq: "user_wait hw tr = wait_until (is_transmit_empty hw) tr"
proof -
  have a: "wait_until (is_transmit_empty hw) tr = Some r" if "user_wait hw tr = Some r" for r
  proof (rule user_wait.raw_induct [where P = "\<lambda>hw tr r. wait_until (is_transmit_empty hw) tr = Some r", OF _ that])
    fix wait hw tr r
    assume ih: "\<And>hw tr r. wait hw tr = Some r \<Longrightarrow> wait_until (is_transmit_empty hw) tr = Some r"
      and eq: "(let (empty, tr1) = user_is_transmit_empty hw tr in if empty = 0 then wait hw tr1 else Some tr1) = Some r"
    then show "wait_until (is_transmit_empty hw) tr = Some r"
      by (subst wait_until.simps) (auto simp: user_is_transmit_empty_def is_transmit_empty_def inb_def Let_def split: if_splits)
  qed
  have b: "user_wait hw tr = Some r" if "wait_until (is_transmit_empty hw) tr = Some r" for r
  proof (rule wait_until.raw_induct [where P = "\<lambda>poll tr r. poll = is_transmit_empty hw \<longrightarrow> user_wait hw tr = Some r", OF _ that, THEN mp, OF _ refl])
    fix wait poll tr r
    assume ih: "\<And>poll tr r. wait poll tr = Some r \<Longrightarrow> poll = is_transmit_empty hw \<longrightarrow> user_wait hw tr = Some r"
      and eq: "(if fst (poll tr) = 0 then wait poll (snd (poll tr)) else Some (snd (poll tr))) = Some r"
    show "poll = is_transmit_empty hw \<longrightarrow> user_wait hw tr = Some r"
      using eq ih by (subst user_wait.simps) (auto simp: user_is_transmit_empty_def is_transmit_empty_def inb_def Let_def split: if_splits)
  qed
  show ?thesis using a b by (cases "user_wait hw tr"; cases "wait_until (is_transmit_empty hw) tr") auto
qed

lemma user_kstrlen_cstr:
  assumes "p \<noteq> 0"
  shows "cstr m (p + len) s \<Longrightarrow> user_kstrlen_loop m p len = Some (len + of_nat (length s))"
proof (induction s arbitrary: len)
  case Nil
  then show ?case by (subst user_kstrlen_loop.simps) simp
next
  case (Cons c s)
  then have "user_kstrlen_loop m p (len + 1) = Some (len + 1 + of_nat (length s))" by (intro Cons.IH) (simp add: add.assoc)
  then show ?case using Cons.prems assms by (subst user_kstrlen_loop.simps) (simp add: add.assoc)
qed

lemma user_writestring_eq:
  assumes "p \<noteq> 0" "cstr m p s"
  shows "user_serial_writestring hw m p tr = serial_writestring hw m p tr"
proof -
  have "user_serial_putchar = serial_putchar"
    by (simp add: fun_eq_iff user_serial_putchar_def serial_putchar_def user_wait_eq)
  then have "user_serial_write = serial_write" by (intro ext) (simp add: user_serial_write_def serial_write_def)
  moreover have "user_kstrlen m p = kstrlen m p"
    using user_kstrlen_cstr [OF assms(1), of m 0 s] assms(2) kstrlen_cstr [OF assms] by (simp add: user_kstrlen_def)
  ultimately show ?thesis by (simp add: user_serial_writestring_def serial_writestring_def)
qed

section \<open>Properties\<close>

text \<open>C37. When the line always empties after some polls, the program sends its message in every round: after \<open>n\<close>
  rounds exactly \<open>n\<close> copies of it have been written to the data port, in order, each byte just after an answer that the
  transmitter is empty.\<close>

theorem test_program_sends:
  assumes "drains hw" "message \<noteq> 0" "cstr m message s" "length s < 2 ^ 32"
  shows "\<exists>tr'. test_program_rounds hw m message n tr = Some tr' \<and> sent tr' = sent tr @ concat (replicate n s) \<and>
    (paced hw tr \<longrightarrow> paced hw tr')"
proof (induction n arbitrary: tr)
  case (Suc n)
  obtain t1 where t1: "serial_writestring hw m message tr = Some t1" "sends hw tr s t1"
    using writestring_sends [OF assms] by blast
  then have "test_program_rounds hw m message (Suc n) tr = test_program_rounds hw m message n t1"
    by (simp add: simple_program_def user_writestring_eq [OF assms(2,3)])
  moreover obtain t2 where "test_program_rounds hw m message n t1 = Some t2" "sent t2 = sent t1 @ concat (replicate n s)"
    "paced hw t1 \<longrightarrow> paced hw t2" using Suc.IH by blast
  ultimately show ?case using t1(2) by (simp add: sends_def)
qed simp

definition busy_twice :: hardware where
  "busy_twice = \<lparr> answer8 = (\<lambda>tr _. case tr of In8 _ # In8 _ # _ \<Rightarrow> 0x20 | _ \<Rightarrow> 0), answer16 = (\<lambda>_ _. 0), answer32 = (\<lambda>_ _. 0) \<rparr>"

theorem test_program_sends_witness:
  "\<exists>tr'. test_program_rounds busy_twice ((\<lambda>_. 0)(16 := 104, 17 := 105)) 16 2 [] = Some tr' \<and>
     sent tr' = [104, 105, 104, 105] \<and> paced busy_twice tr'"
proof -
  have "line_empty busy_twice (replicate 2 (In8 (COM1 + 5)) @ tr)" for tr
  proof -
    have "(0x20 :: u8) \<noteq> 0" by simp
    then show ?thesis by (simp add: line_empty_def busy_twice_def eval_nat_numeral)
  qed
  then have d: "drains busy_twice" unfolding drains_def by blast
  have c: "cstr ((\<lambda>_. 0)(16 := 104, 17 := 105)) 16 [104, 105]" by simp
  have "concat (replicate 2 [104, 105 :: u8]) = [104, 105, 104, 105]" by (simp add: eval_nat_numeral)
  then show ?thesis using test_program_sends [OF d _ c, of 2 "[]"] by simp
qed

end
