(* ===== verification/Locks.thy ===== *)
theory Locks
  imports Prelude
begin

text \<open>
  The locks, kernel/synchronization\_primitives: the interrupt lock of int\_lock.h, which saves and clears
  the interrupt flag, and the spin lock of spinlock.c as a step relation of any number of processors \<open>'p\<close>,
  whose steps interleave.  One step is one atomic operation of the code; the compare-and-exchange is
  the weak one, which may also fail when the values agree.
\<close>

unbundle bit_operations_syntax

section \<open>The interrupt lock\<close>

text \<open>The flags register of the processor; bit 9 allows interrupts.\<close>

definition INTERRUPT_FLAG :: u32 where "INTERRUPT_FLAG = 0x200"

definition disable_hwint :: "u32 \<Rightarrow> u32 \<times> u32" where
  "disable_hwint eflags = (eflags, eflags AND NOT INTERRUPT_FLAG)"

definition enable_hwint :: "u32 \<Rightarrow> u32 \<Rightarrow> u32" where
  "enable_hwint rflags eflags = rflags"

text \<open>The lock is the saved register.\<close>

definition int_lock :: "u32 \<Rightarrow> u32 \<times> u32" where
  "int_lock eflags = disable_hwint eflags"

definition int_unlock :: "u32 \<Rightarrow> u32 \<Rightarrow> u32" where
  "int_unlock rflags eflags = enable_hwint rflags eflags"

section \<open>The spin lock\<close>

datatype lock_pc = Outside | Comparing | Refused | Critical

record 'p spinlock =
  mutex :: bool
  expected :: "'p \<Rightarrow> bool"
  lock_pc :: "'p \<Rightarrow> lock_pc"

text \<open>\<open>__atomic_compare_exchange_n\<close>: success, the new value and the new expected value.\<close>

definition compare_exchange :: "bool \<Rightarrow> bool \<Rightarrow> bool \<Rightarrow> bool \<Rightarrow> bool \<times> bool \<times> bool" where
  "compare_exchange spurious value expect desired =
     (if value = expect \<and> \<not> spurious then (True, desired, expect) else (False, value, value))"

definition acquire_start :: "'p \<Rightarrow> 'p spinlock \<Rightarrow> 'p spinlock" where
  "acquire_start p s = s\<lparr> expected := (expected s)(p := False), lock_pc := (lock_pc s)(p := Comparing) \<rparr>"

definition acquire_compare :: "bool \<Rightarrow> 'p \<Rightarrow> 'p spinlock \<Rightarrow> 'p spinlock" where
  "acquire_compare spurious p s =
     (let (ok, v, e) = compare_exchange spurious (mutex s) (expected s p) True
      in s\<lparr> mutex := v, expected := (expected s)(p := e),
            lock_pc := (lock_pc s)(p := (if ok then Critical else Refused)) \<rparr>)"

definition acquire_clear :: "'p \<Rightarrow> 'p spinlock \<Rightarrow> 'p spinlock" where
  "acquire_clear p s = s\<lparr> expected := (expected s)(p := False), lock_pc := (lock_pc s)(p := Comparing) \<rparr>"

definition release :: "'p \<Rightarrow> 'p spinlock \<Rightarrow> 'p spinlock" where
  "release p s = s\<lparr> mutex := False, lock_pc := (lock_pc s)(p := Outside) \<rparr>"

inductive lock_step :: "'p spinlock \<Rightarrow> 'p spinlock \<Rightarrow> bool" where
  start: "lock_pc s p = Outside \<Longrightarrow> lock_step s (acquire_start p s)"
| compare: "lock_pc s p = Comparing \<Longrightarrow> lock_step s (acquire_compare spurious p s)"
| clear: "lock_pc s p = Refused \<Longrightarrow> lock_step s (acquire_clear p s)"
| release: "lock_pc s p = Critical \<Longrightarrow> lock_step s (release p s)"

inductive_cases lock_stepE: "lock_step s s'"

definition unlocked :: "'p spinlock" where
  "unlocked = \<lparr> mutex = False, expected = (\<lambda>_. False), lock_pc = (\<lambda>_. Outside) \<rparr>"

inductive lock_reachable :: "'p spinlock \<Rightarrow> bool" where
  init: "lock_reachable unlocked"
| step: "lock_reachable s \<Longrightarrow> lock_step s s' \<Longrightarrow> lock_reachable s'"

text \<open>A processor that compares expects a free lock, and the lock is held by the processor
  in its critical section, if there is one.\<close>

definition lock_inv :: "'p spinlock \<Rightarrow> bool" where
  "lock_inv s \<longleftrightarrow> (\<forall>p. lock_pc s p = Comparing \<longrightarrow> \<not> expected s p) \<and>
     (\<forall>p q. lock_pc s p = Critical \<and> lock_pc s q = Critical \<longrightarrow> p = q) \<and>
     (mutex s \<longleftrightarrow> (\<exists>p. lock_pc s p = Critical))"

lemma lock_step_inv: "lock_step s s' \<Longrightarrow> lock_inv s \<Longrightarrow> lock_inv s'"
proof (erule lock_stepE)
  fix p assume "s' = acquire_start p s" "lock_pc s p = Outside" "lock_inv s"
  then show "lock_inv s'" unfolding lock_inv_def acquire_start_def by (auto split: if_splits) (metis lock_pc.distinct)
next
  fix p spurious assume c: "s' = acquire_compare spurious p s" "lock_pc s p = Comparing" "lock_inv s"
  then have e: "\<not> expected s p" by (simp add: lock_inv_def)
  show "lock_inv s'"
  proof (cases "mutex s \<or> spurious")
    case True
    then have "s' = s\<lparr> expected := (expected s)(p := mutex s), lock_pc := (lock_pc s)(p := Refused) \<rparr>"
      using c(1) e by (auto simp: acquire_compare_def compare_exchange_def)
    then show ?thesis using c(2,3) unfolding lock_inv_def by (auto split: if_splits) (metis lock_pc.distinct)
  next
    case False
    then have "s' = s\<lparr> mutex := True, expected := (expected s)(p := False), lock_pc := (lock_pc s)(p := Critical) \<rparr>"
      using c(1) e by (auto simp: acquire_compare_def compare_exchange_def)
    then show ?thesis using c(2,3) False unfolding lock_inv_def by (auto split: if_splits)
  qed
next
  fix p assume "s' = acquire_clear p s" "lock_pc s p = Refused" "lock_inv s"
  then show "lock_inv s'" unfolding lock_inv_def acquire_clear_def by (auto split: if_splits) (metis lock_pc.distinct)
next
  fix p assume "s' = release p s" "lock_pc s p = Critical" "lock_inv s"
  then show "lock_inv s'" unfolding lock_inv_def release_def by (auto split: if_splits)
qed

lemma lock_start_inv: "lock_inv unlocked"
  by (simp add: lock_inv_def unlocked_def)

lemma lock_reachable_inv: "lock_reachable s \<Longrightarrow> lock_inv s"
proof (induction rule: lock_reachable.induct)
  case init
  show ?case by (rule lock_start_inv)
next
  case (step s s')
  then show ?case by (blast intro: lock_step_inv)
qed

text \<open>The steps of a processor from where it is to the next comparison that is not spurious.\<close>

definition try_acquire :: "'p \<Rightarrow> 'p spinlock \<Rightarrow> 'p spinlock" where
  "try_acquire p s =
     (case lock_pc s p of
        Outside \<Rightarrow> acquire_compare False p (acquire_start p s)
      | Comparing \<Rightarrow> acquire_compare False p s
      | Refused \<Rightarrow> acquire_compare False p (acquire_clear p s)
      | Critical \<Rightarrow> s)"

lemma try_acquire_effect:
  assumes "lock_inv s" "lock_pc s p \<noteq> Critical"
  shows "lock_pc (try_acquire p s) p = (if mutex s then Refused else Critical)"
    "mutex (try_acquire p s)"
  using assms
  by (auto simp: try_acquire_def acquire_start_def acquire_clear_def acquire_compare_def compare_exchange_def
      lock_inv_def split: lock_pc.split)

section \<open>Properties\<close>

text \<open>C5. In every state the processors reach from a free lock, whatever the interleaving and also when
  comparisons fail spuriously, at most one of them is between \<open>acquire_spinlock\<close> and \<open>release_spinlock\<close>;
  the lock is taken exactly while one is; and a processor outside that tries enters exactly if the lock is free.\<close>

theorem spinlock_excludes:
  assumes "lock_reachable s"
  shows "(lock_pc s p = Critical \<and> lock_pc s q = Critical \<longrightarrow> p = q) \<and>
    (mutex s \<longleftrightarrow> (\<exists>r. lock_pc s r = Critical)) \<and>
    (lock_pc s p \<noteq> Critical \<longrightarrow> (lock_pc (try_acquire p s) p = Critical \<longleftrightarrow> \<not> mutex s))"
  using lock_reachable_inv [OF assms] try_acquire_effect(1) [OF lock_reachable_inv [OF assms], of p]
  by (auto simp: lock_inv_def)

theorem spinlock_excludes_witness:
  "lock_pc (acquire_compare False 1 (acquire_start 1 (unlocked :: nat spinlock))) 1 = Critical \<and>
   lock_pc (try_acquire 2 (acquire_compare False 1 (acquire_start 1 (unlocked :: nat spinlock)))) 2 \<noteq> Critical"
proof -
  let ?s = "acquire_compare False 1 (acquire_start 1 (unlocked :: nat spinlock))"
  have "lock_reachable (acquire_start 1 (unlocked :: nat spinlock))"
    by (rule lock_reachable.step [OF lock_reachable.init lock_step.start]) (simp add: unlocked_def)
  then have r: "lock_reachable ?s"
    by (rule lock_reachable.step) (rule lock_step.compare, simp add: acquire_start_def)
  have s: "lock_pc ?s 1 = Critical" "lock_pc ?s 2 = Outside" "mutex ?s"
    by (simp_all add: acquire_compare_def acquire_start_def compare_exchange_def unlocked_def)
  show ?thesis using spinlock_excludes [OF r, of 2 1] s by simp
qed

end
