(* ===== verification/KStdioProps.thy ===== *)
theory KStdioProps
  imports KStdio
begin

text \<open>
  Correctness of the formatted output (theory \<open>KStdio\<close>): the loop of \<open>kprintf\<close> against a reference
  interpreter of format strings, \<open>formatted\<close>.
\<close>

unbundle bit_operations_syntax

section \<open>The reference interpreter\<close>

text \<open>What a directive prints for an argument; \<open>str\<close> gives the strings that pointers designate.\<close>

definition directive_text :: "(u32 \<Rightarrow> u8 list option) \<Rightarrow> u8 \<Rightarrow> u32 \<Rightarrow> u8 list option" where
  "directive_text str c a =
     (if c = 99 then Some [ucast a]
      else if c = 115 then str a
      else if c \<in> {100, 105} then Some (numeral_chars 10 False (sint a))
      else if c = 117 then Some (numeral_chars 10 False (uint a))
      else if c = 111 then Some (numeral_chars 8 False (uint a))
      else if c = 120 then Some (numeral_chars 16 True (uint a))
      else if c \<in> {88, 112} then Some (numeral_chars 16 False (uint a))
      else Some (numeral_chars 2 False (uint a)))"

definition directive :: "u8 \<Rightarrow> bool" where
  "directive c \<longleftrightarrow> c \<in> {99, 115, 100, 105, 117, 111, 120, 88, 112, 98, 66}"

text \<open>A percent sign before any other character, another percent sign among them, is dropped.\<close>

fun formatted :: "(u32 \<Rightarrow> u8 list option) \<Rightarrow> u8 list \<Rightarrow> u32 list \<Rightarrow> u8 list option" where
  "formatted str [] args = Some []"
| "formatted str [c] args = Some (if c = 37 then [] else [c])"
| "formatted str (c # d # fs) args =
     (if c \<noteq> 37 then map_option ((#) c) (formatted str (d # fs) args)
      else if directive d
      then (case args of
              [] \<Rightarrow> None
            | a # rest \<Rightarrow> Option.bind (directive_text str d a) (\<lambda>t. map_option ((@) t) (formatted str fs rest)))
      else formatted str (d # fs) args)"

text \<open>A string outside the local buffer, of which at most the first 66 bytes are written.\<close>

definition stored :: "u32 \<Rightarrow> mem \<Rightarrow> u32 \<Rightarrow> u8 list \<Rightarrow> bool" where
  "stored frame m p s \<longleftrightarrow>
     p \<noteq> 0 \<and> cstr m p s \<and> (\<forall>i \<le> length s. \<not> unat (p + of_nat i - frame) < 66)"

definition outside_kept :: "u32 \<Rightarrow> mem \<Rightarrow> mem \<Rightarrow> bool" where
  "outside_kept frame m m' \<longleftrightarrow> (\<forall>a. \<not> unat (a - frame) < 66 \<longrightarrow> m' a = m a)"

lemma outside_kept_refl [simp]: "outside_kept frame m m"
  by (simp add: outside_kept_def)

lemma outside_kept_trans: "outside_kept frame m m' \<Longrightarrow> outside_kept frame m' m'' \<Longrightarrow> outside_kept frame m m''"
  by (simp add: outside_kept_def)

lemma stored_kept: "stored frame m p s \<Longrightarrow> outside_kept frame m m' \<Longrightarrow> stored frame m' p s"
  unfolding stored_def outside_kept_def by (blast intro: cstr_frame)

lemma stored_nth:
  "stored frame m p s \<Longrightarrow> i < length s \<Longrightarrow> m (p + of_nat i) = s ! i"
  by (simp add: stored_def cstr_nth)

text \<open>The effect of printing without a colour.\<close>

definition printed :: "u32 \<Rightarrow> stdio \<Rightarrow> u8 list \<Rightarrow> stdio \<Rightarrow> bool" where
  "printed frame s t s' \<longleftrightarrow>
     serial_out s' = serial_out s @ t \<and> color_setting s' = color_setting s \<and> screen s' = screen s \<and>
     outside_kept frame (smem s) (smem s')"

lemma printed_Nil: "printed frame s [] s"
  by (simp add: printed_def)

lemma printed_append: "printed frame s t s1 \<Longrightarrow> printed frame s1 u s2 \<Longrightarrow> printed frame s (t @ u) s2"
  using outside_kept_trans by (auto simp: printed_def)

section \<open>Printing\<close>

lemma string_at_cstr:
  assumes "p \<noteq> 0" "cstr m p s"
  shows "string_at m p = Some s"
proof -
  have "unat (of_nat (length s) :: u32) = length s"
    using cstr_length [OF assms(2)] by (simp add: unat_of_nat_small)
  then show ?thesis using assms cstr_nth [OF assms(2)]
    by (auto simp: string_at_def kstrlen_cstr intro: nth_equalityI)
qed

lemma emit_string_prints:
  assumes "p \<noteq> 0" "cstr (smem s) p t" "color_setting s = - 1"
  shows "\<exists>s'. emit_string p s = Some s' \<and> printed frame s t s'"
  using assms string_at_cstr [OF assms(1,2)] by (simp add: emit_string_def print_string_def printed_def)

lemma emit_number_prints:
  assumes "frame \<noteq> 0" "1 < base" "unat base \<le> 36" "- (2 ^ 63) < sint number" "color_setting s = - 1"
  shows "\<exists>s'. emit_number frame number base lc s = Some s' \<and>
    printed frame s (numeral_chars (unat base) lc (sint number)) s'"
proof -
  have "65 < unat (128 :: u32)" by simp
  from kint_to_string_block [OF assms(1-3) this assms(4), of "smem s" lc, folded outside_kept_def]
  obtain m' where m': "kint_to_string (smem s) number frame 128 base lc = Some (frame, m')"
      "cstr m' frame (numeral_chars (unat base) lc (sint number))" "outside_kept frame (smem s) m'"
    by blast
  from emit_string_prints [of frame "s\<lparr> smem := m' \<rparr>"] m'(2) assms(1,5) obtain s' where
    "emit_string frame (s\<lparr> smem := m' \<rparr>) = Some s'"
    "printed frame (s\<lparr> smem := m' \<rparr>) (numeral_chars (unat base) lc (sint number)) s'"
    by auto
  moreover from this m'(3) have "printed frame s (numeral_chars (unat base) lc (sint number)) s'"
    unfolding printed_def by (auto elim: outside_kept_trans)
  ultimately show ?thesis using m'(1) by (simp add: emit_number_def)
qed

lemma sint_ucast_argument: "sint (ucast (a :: u32) :: u64) = uint a"
proof -
  have u: "unat (ucast a :: u64) = unat a" by (rule ucast_base)
  have "unat (ucast a :: u64) < 2 ^ (LENGTH(64) - 1)" unfolding u using unat_less_u32 [of a] by simp
  then have "sint (ucast a :: u64) = int (unat a)" by (simp only: sint_of_small u)
  then show ?thesis by simp
qed

lemma sint_scast_argument: "sint (scast (a :: u32) :: u64) = sint a"
  by (simp add: sint_up_scast is_up)

lemma convert_argument_prints:
  assumes "frame \<noteq> 0" "color_setting s = - 1" "directive d" "directive_text str d a = Some t"
    and "\<And>a t. str a = Some t \<Longrightarrow> stored frame (smem s) a t"
  shows "\<exists>r s'. convert_argument frame d index (a # rest) s = Some (r, index + 1, rest, s') \<and> printed frame s t s'"
proof -
  have wide: "- (2 ^ 63) < uint a" by (rule order.strict_trans2 [OF _ uint_ge_0]) simp
  have number: "\<exists>s'. emit_number frame (ucast a) base lc s = Some s' \<and>
      printed frame s (numeral_chars (unat base) lc (uint a)) s'"
    if "base \<in> {2, 8, 10, 16}" for base lc
    using emit_number_prints [of frame base "ucast a" s lc] assms(1,2) that wide
    by (auto simp: sint_ucast_argument)
  have signed: "\<exists>s'. emit_number frame (scast a) 10 False s = Some s' \<and>
      printed frame s (numeral_chars 10 False (sint a)) s'"
    using emit_number_prints [of frame 10 "scast a" s False] assms(1,2) sint_greater_eq [of a]
    by (auto simp: sint_scast_argument)
  have str: "\<exists>s'. emit_string a s = Some s' \<and> printed frame s t s'" if "str a = Some t"
    using assms(2,5) that by (intro emit_string_prints) (auto simp: stored_def)
  have numeric: ?thesis
    if "convert_argument frame d index (a # rest) s
          = Option.bind (emit_number frame (ucast a) base lc s) (\<lambda>s1. Some (r, index + 1, rest, s1))"
      "t = numeral_chars (unat base) lc (uint a)" "base \<in> {2, 8, 10, 16}" for r base lc
    using number [OF that(3), of lc] that(1,2) by auto
  note convert = convert_argument_def va_arg_def Let_def directive_text_def
  from assms(3) consider "d = 99" | "d = 115" | "d \<in> {100, 105}" | "d = 117" | "d = 111" | "d = 120"
    | "d \<in> {88}" | "d = 112" | "d \<in> {98, 66}" unfolding directive_def by auto
  then show ?thesis
  proof cases
    case 1
    then show ?thesis using assms(2,4) by (simp add: convert emit_char_def print_char_def printed_def)
  next
    case 2
    then show ?thesis using str assms(4) by (auto simp: convert)
  next
    case 3
    then show ?thesis using signed assms(4) by (auto simp: convert)
  next
    case 4
    then show ?thesis using assms(4) by (intro numeric [of 10 False 7]) (simp_all add: convert)
  next
    case 5
    then show ?thesis using assms(4) by (intro numeric [of 8 False 4]) (simp_all add: convert)
  next
    case 6
    then show ?thesis using assms(4) by (intro numeric [of 16 True 5]) (simp_all add: convert)
  next
    case 7
    then show ?thesis using assms(4) by (intro numeric [of 16 False 6]) (simp_all add: convert)
  next
    case 8
    then show ?thesis using assms(4) by (intro numeric [of 16 False 13]) (simp_all add: convert)
  next
    case 9
    then show ?thesis using assms(4) by (intro numeric [of 2 False 14]) (auto simp: convert)
  qed
qed

lemma convert_argument_other:
  assumes "\<not> directive d"
  shows "\<exists>r. convert_argument frame d index args s = Some (r, index, args, s)"
  using assms by (auto simp: directive_def convert_argument_def)

section \<open>The loop\<close>

text \<open>No colour prefix: the format does not begin with a percent sign and a digit of a colour.\<close>

definition colourless :: "u8 list \<Rightarrow> bool" where
  "colourless fs \<longleftrightarrow>
     \<not> (1 < length fs \<and> fs ! 0 = 37 \<and> (48 \<le> fs ! 1 \<and> fs ! 1 \<le> 57 \<or> 65 \<le> fs ! 1 \<and> fs ! 1 \<le> 70))"

lemma index_below: "i < n \<Longrightarrow> n < 2 ^ 32 \<Longrightarrow> (of_nat i :: u32) < of_nat n"
  by (simp add: word_less_nat_alt unat_of_nat_small)

lemma has_color_none:
  assumes "stored frame m format fs" "colourless fs"
  shows "has_color m format (of_nat (length fs)) = - 1"
proof (cases "1 < length fs")
  case True
  then have "m format = fs ! 0" "m (format + 1) = fs ! 1"
    using stored_nth [OF assms(1), of 0] stored_nth [OF assms(1), of 1] by force+
  then show ?thesis using assms(2) True by (auto simp: has_color_def colourless_def Let_def)
next
  case False
  then have "length fs = 0 \<or> length fs = 1" by linarith
  then show ?thesis by (auto simp: has_color_def)
qed

lemma conversion_step:
  assumes f: "stored frame (smem s) format fs" "colourless fs" and c: "color_setting s = - 1" and i: "i < length fs"
  shows "conversion_specifier frame format (of_nat (length fs)) (of_nat i) args s =
    (if fs ! i \<noteq> 37 then Some (0, of_nat i, args, print_char (fs ! i) s)
     else if Suc i < length fs then convert_argument frame (fs ! Suc i) (of_nat i) args s
     else Some (0, of_nat i, args, s))"
proof -
  have n: "length fs < 2 ^ 32" using f(1) cstr_length by (auto simp: stored_def)
  have here: "smem s (format + of_nat i) = fs ! i" by (rule stored_nth [OF f(1) i])
  have more: "(of_nat i + 1 :: u32) < of_nat (length fs) \<longleftrightarrow> Suc i < length fs"
  proof -
    have "unat (of_nat (Suc i) :: u32) = Suc i" "unat (of_nat (length fs) :: u32) = length fs"
      using i n by (auto simp only: len_num1 intro!: unat_of_nat_small) simp_all
    moreover have "(of_nat i + 1 :: u32) = of_nat (Suc i)" by simp
    ultimately show ?thesis by (simp only: word_less_nat_alt)
  qed
  have after: "smem s (format + (of_nat i + 1)) = fs ! Suc i" if "Suc i < length fs"
    using stored_nth [OF f(1) that] by (simp add: add_ac)
  have below: "of_nat i < (of_nat (length fs) :: u32)" using i n by (rule index_below)
  define k n where "k = (of_nat i :: u32)" and "n = (of_nat (length fs) :: u32)"
  have same: "s\<lparr> color_setting := - 1 \<rparr> = s" using c by (cases s) simp
  note * = here below more after has_color_none [OF f]
  show ?thesis
    using * [folded k_def n_def] c unfolding k_def [symmetric] n_def [symmetric]
    by (simp add: conversion_specifier_def emit_char_def same)
qed

lemma kprintf_loop_end [simp]: "kprintf_loop frame format n n args s = Some s"
  by (subst kprintf_loop.simps) simp

lemma kprintf_loop_step:
  assumes "i < length fs" "stored frame m format fs"
    and "conversion_specifier frame format (of_nat (length fs)) (of_nat i) args s = Some (r, k, rest, s1)"
  shows "kprintf_loop frame format (of_nat (length fs)) (of_nat i) args s
    = kprintf_loop frame format (of_nat (length fs)) (k + 1) rest s1"
proof -
  have "of_nat i < (of_nat (length fs) :: u32)"
    using assms(1,2) cstr_length by (intro index_below) (auto simp: stored_def)
  then show ?thesis using assms(3) by (subst kprintf_loop.simps) simp
qed

lemma drop_ConsD: "x # xs = drop i ys \<Longrightarrow> i < length ys \<and> ys ! i = x \<and> xs = drop (Suc i) ys"
  by (metis Cons_nth_drop_Suc drop_all leI list.distinct(1) list.inject)

lemma printed_char: "color_setting s = - 1 \<Longrightarrow> printed frame s [c] (print_char c s)"
  by (simp add: printed_def print_char_def)

lemma printed_context:
  assumes "printed frame s t s1"
  shows "color_setting s = - 1 \<Longrightarrow> color_setting s1 = - 1"
    and "stored frame (smem s) p u \<Longrightarrow> stored frame (smem s1) p u"
  using assms stored_kept by (auto simp: printed_def)

lemma kprintf_loop_prints:
  assumes "frame \<noteq> 0" "colourless fs"
    and "i \<le> length fs" "formatted str (drop i fs) args = Some out"
    and "stored frame (smem s) format fs" "color_setting s = - 1"
    and "\<And>a t. str a = Some t \<Longrightarrow> stored frame (smem s) a t"
  shows "\<exists>s'. kprintf_loop frame format (of_nat (length fs)) (of_nat i) args s = Some s' \<and> printed frame s out s'"
  using assms(3-)
proof (induction str "drop i fs" args arbitrary: i s out rule: formatted.induct)
  case (1 str args)
  then show ?case by (auto simp: printed_Nil)
next
  case (2 str c args)
  then have i: "i < length fs" "fs ! i = c" "Suc i = length fs" using drop_ConsD [OF 2(1)] by auto
  have "conversion_specifier frame format (of_nat (length fs)) (of_nat i) args s
      = Some (0, of_nat i, args, if c = 37 then s else print_char c s)"
    using conversion_step [OF 2(4) assms(2) 2(5) i(1)] i by simp
  from kprintf_loop_step [OF i(1) 2(4) this] have
    "kprintf_loop frame format (of_nat (length fs)) (of_nat i) args s = Some (if c = 37 then s else print_char c s)"
    using i(3) by (metis add.commute kprintf_loop_end of_nat_Suc)
  then show ?case using 2(1,3,5) printed_char printed_Nil by (auto simp flip: 2(1))
next
  case (3 str c d gs args)
  have i: "i < length fs" "fs ! i = c" "d # gs = drop (Suc i) fs" using drop_ConsD [OF 3(4)] by auto
  have j: "Suc i < length fs" "fs ! Suc i = d" "gs = drop (Suc (Suc i)) fs" using drop_ConsD [OF i(3)] by auto
  note step = conversion_step [OF 3(7) assms(2) 3(8) i(1), of args, unfolded i(2) j(2)]
  note out = 3(6) [folded 3(4), unfolded formatted.simps]
  have after: "of_nat i + 1 = (of_nat (Suc i) :: u32)" "of_nat i + 1 + 1 = (of_nat (Suc (Suc i)) :: u32)" by simp_all
  have go: ?case
    if "conversion_specifier frame format (of_nat (length fs)) (of_nat i) args s = Some (r, k, rest, s1)"
      and "k + 1 = of_nat j" "printed frame s t s1" "out = t @ out'"
      and "\<exists>s'. kprintf_loop frame format (of_nat (length fs)) (of_nat j) rest s1 = Some s' \<and> printed frame s1 out' s'"
    for r k rest s1 j t out'
    using that(5) kprintf_loop_step [OF i(1) 3(7) that(1)] printed_append [OF that(3)] that(2,4) by auto
  note kept = printed_context(1) [OF _ 3(8)] printed_context(2) [OF _ 3(7)] printed_context(2) [OF _ 3(9)]
  consider "c \<noteq> 37" | "c = 37" "directive d" | "c = 37" "\<not> directive d" by blast
  then show ?case
  proof cases
    case 1
    then obtain out' where out': "formatted str (d # gs) args = Some out'" "out = [c] @ out'" using out by auto
    have p: "printed frame s [c] (print_char c s)" using 3(8) by (rule printed_char)
    show ?thesis
    proof (rule go [OF _ after(1) p out'(2)])
      show "conversion_specifier frame format (of_nat (length fs)) (of_nat i) args s = Some (0, of_nat i, args, print_char c s)"
        using step 1 by simp
    qed (rule 3(1) [OF 1 i(3)]; use j(1) i(3) out'(1) kept [OF p] in simp)
  next
    case 2
    obtain a rest t out' where args: "args = a # rest" and t: "directive_text str d a = Some t"
      and out': "formatted str gs rest = Some out'" "out = t @ out'"
      using out 2 by (auto split: list.splits simp: bind_eq_Some_conv)
    from convert_argument_prints [OF assms(1) 3(8) 2(2) t 3(9)] obtain r s1 where
      s1: "convert_argument frame d (of_nat i) (a # rest) s = Some (r, of_nat i + 1, rest, s1)" and p: "printed frame s t s1"
      by blast
    show ?thesis
    proof (rule go [OF _ after(2) p out'(2)])
      show "conversion_specifier frame format (of_nat (length fs)) (of_nat i) args s = Some (r, of_nat i + 1, rest, s1)"
        using step 2 j(1) s1 args by simp
    qed (rule 3(2) [OF _ _ args t j(3)]; use 2 j i(3) out'(1) kept [OF p] in simp)
  next
    case 3
    from convert_argument_other [OF 3(2)] obtain r where
      "convert_argument frame d (of_nat i) args s = Some (r, of_nat i, args, s)" by blast
    then show ?thesis
      using step 3 j(1) out "3.prems" i(3)
      by (intro go [OF _ after(1) printed_Nil, of r args out] "3.hyps"(3)) auto
  qed
qed

section \<open>The properties\<close>

text \<open>C24. A format string without a colour prefix prints, for every string of directives and text, exactly
  what the reference interpreter \<open>formatted\<close> computes: \<open>kprintf\<close> returns, appends that text to the
  serial output, and changes nothing in memory but its own local buffer.  The interpreter shows what the
  code does with a doubled percent sign: both are dropped, and the second may begin a directive.\<close>

theorem kprintf_formats:
  assumes "frame \<noteq> 0" "color_setting s = - 1"
    and "stored frame (smem s) format fs" "colourless fs" "formatted str fs args = Some out"
    and "\<And>a t. str a = Some t \<Longrightarrow> stored frame (smem s) a t"
  shows "\<exists>s'. kprintf frame format args s = Some (0, s') \<and> serial_out s' = serial_out s @ out \<and>
    color_setting s' = - 1 \<and> screen s' = screen s \<and>
    (\<forall>a. \<not> unat (a - frame) < 66 \<longrightarrow> smem s' a = smem s a)"
proof -
  have length: "kstrlen (smem s) format = Some (of_nat (length fs))"
    using assms(3) by (simp add: stored_def kstrlen_cstr)
  from kprintf_loop_prints [of frame fs 0 str args out s format] assms obtain s' where
    "kprintf_loop frame format (of_nat (length fs)) 0 args s = Some s'" "printed frame s out s'"
    by auto
  then show ?thesis
    using length by (auto simp: kprintf_def kprintf_implementation_def printed_def outside_kept_def)
qed

definition sample_format :: mem where
  "sample_format = (\<lambda>_. 0)(16 := 110, 17 := 37, 18 := 115, 19 := 61, 20 := 37, 21 := 100, 32 := 97, 33 := 98)"

theorem kprintf_formats_witness:
  "\<forall>v. \<exists>s'. kprintf 64 16 [32, - 5] \<lparr> smem = sample_format, color_setting = - 1, serial_out = [], screen = v \<rparr>
      = Some (0, s') \<and> serial_out s' = [110, 97, 98, 61, 45, 53]"
proof
  fix v
  let ?s = "\<lparr> smem = sample_format, color_setting = - 1, serial_out = [], screen = v \<rparr> :: stdio"
  have stored: "stored 64 sample_format 16 [110, 37, 115, 61, 37, 100]" "stored 64 sample_format 32 [97, 98]"
    by (auto simp: stored_def sample_format_def le_Suc_eq)
  have "formatted [32 \<mapsto> [97, 98]] [110, 37, 115, 61, 37, 100] [32, - 5] = Some [110, 97, 98, 61, 45, 53]"
    by (simp add: directive_def directive_text_def numeral_chars_def digits_rev.simps digit_char_def)
  moreover have "colourless [110, 37, 115, 61, 37, 100]" by (simp add: colourless_def)
  ultimately show "\<exists>s'. kprintf 64 16 [32, - 5] ?s = Some (0, s') \<and> serial_out s' = [110, 97, 98, 61, 45, 53]"
    using kprintf_formats [of 64 ?s 16 "[110, 37, 115, 61, 37, 100]" "[32 \<mapsto> [97, 98]]" "[32, - 5]"
        "[110, 97, 98, 61, 45, 53]"] stored
    by (simp del: formatted.simps fun_upd_apply add: map_upd_Some_unfold) blast
qed

end
