(* ===== verification/PageTables.thy ===== *)
theory PageTables
  imports PagingProps
begin

text \<open>
  \<open>map_page\<close> for a page whose page table does not exist: it takes a frame from the physical allocator,
  clears it through the window, enters it in the page directory and goes on as with an existing table.
  \<open>table_allocated\<close> follows these steps; the property reads the result through the processor's
  translation.
\<close>

unbundle bit_operations_syntax

section \<open>What a change of memory keeps\<close>

text \<open>The window depends on three entries only.\<close>

lemma window_ready_frame:
  assumes w: "window_ready lay s"
    and eq: "rd32 pm (kdir lay + 4 * 1023) = rd32 (pmem s) (kdir lay + 4 * 1023)"
      "rd32 pm (kdir lay + 4 * table_index (kernel_page_directory lay)) =
       rd32 (pmem s) (kdir lay + 4 * table_index (kernel_page_directory lay))"
      "rd32 pm (table_of lay s (kernel_page_directory lay) + 4 * page_index_in_table (kernel_page_directory lay)) =
       rd32 (pmem s) (table_of lay s (kernel_page_directory lay) + 4 * page_index_in_table (kernel_page_directory lay))"
  shows "window_ready lay (s\<lparr> pmem := pm \<rparr>)"
proof -
  have "table_of lay (s\<lparr> pmem := pm \<rparr>) (kernel_page_directory lay) = table_of lay s (kernel_page_directory lay)"
    using eq(2) by (simp add: table_of_def)
  then show ?thesis using w eq by (simp add: window_ready_def Let_def)
qed

text \<open>The pages of the tables that the window depends on.\<close>

definition window_pages :: "paging_layout \<Rightarrow> machine \<Rightarrow> u32 set" where
  "window_pages lay s = {kdir lay, kmap lay, table_of lay s (kernel_page_directory lay)}"

text \<open>Two memories with the same entries in a table.\<close>

definition same_table :: "mem \<Rightarrow> mem \<Rightarrow> u32 \<Rightarrow> bool" where
  "same_table pm' pm t \<longleftrightarrow> (\<forall>i. unat i < 1024 \<longrightarrow> rd32 pm' (t + 4 * i) = rd32 pm (t + 4 * i))"

lemma same_tableD: "same_table pm' pm t \<Longrightarrow> unat i < 1024 \<Longrightarrow> rd32 pm' (t + 4 * i) = rd32 pm (t + 4 * i)"
  by (simp add: same_table_def)

lemma same_table_trans: "same_table pm2 pm1 t \<Longrightarrow> same_table pm1 pm t \<Longrightarrow> same_table pm2 pm t"
  by (simp add: same_table_def)

lemma window_ready_tables:
  assumes "window_ready lay s" "same_table pm (pmem s) (kdir lay)"
    "same_table pm (pmem s) (table_of lay s (kernel_page_directory lay))"
  shows "window_ready lay (s\<lparr> pmem := pm \<rparr>)"
  by (rule window_ready_frame [OF assms(1)])
    (use same_tableD [OF assms(2), of 1023] in \<open>simp_all add: same_tableD [OF assms(2)] same_tableD [OF assms(3)]\<close>)

lemma table_of_same:
  assumes "same_table pm (pmem s) (kdir lay)"
  shows "table_of lay (s\<lparr> pmem := pm \<rparr>) b = table_of lay s b"
  by (simp add: table_of_def same_tableD [OF assms])

lemma same_table_store:
  assumes "page_aligned t" "page_aligned u" "unat i < 1024" "t \<noteq> u"
  shows "same_table (wr32 pm (u + 4 * i) v) pm t"
  using assms by (auto simp: same_table_def entry_store_load)

text \<open>A memory that differs outside a table only.\<close>

lemma same_table_bytes:
  assumes t: "page_aligned t" and eq: "\<And>d. unat d < 4096 \<Longrightarrow> pm' (t + d) = pm (t + d)"
  shows "same_table pm' pm t"
  unfolding same_table_def
proof (intro allI impI)
  fix i :: u32 assume i: "unat i < 1024"
  have "unat (4 * i) = 4 * unat i" using i by (simp add: unat_word_ariths)
  then have "unat (4 * i + k) < 4096" if "unat k < 4" for k :: u32
    using i that by (simp add: unat_word_ariths)
  from this [of 0] this [of 1] this [of 2] this [of 3]
  have "pm' (t + (4 * i + k)) = pm (t + (4 * i + k))" if "k \<in> {0, 1, 2, 3}" for k
    using that by (intro eq) auto
  from this [of 0] this [of 1] this [of 2] this [of 3]
  show "rd32 pm' (t + 4 * i) = rd32 pm (t + 4 * i)" by (simp add: rd32_def add.assoc)
qed

section \<open>Clearing a page\<close>

text \<open>The first \<open>n\<close> bytes of a page cleared.\<close>

definition zeroed :: "u32 \<Rightarrow> nat \<Rightarrow> mem \<Rightarrow> mem" where
  "zeroed t n pm = (\<lambda>x. if unat (x - t) < n then 0 else pm x)"

lemma zeroed_0 [simp]: "zeroed t 0 pm = pm"
  by (simp add: zeroed_def)

lemma zeroed_Suc: "n < 2 ^ 32 \<Longrightarrow> (zeroed t n pm)(t + of_nat n := 0) = zeroed t (Suc n) pm"
proof
  fix x :: u32 assume n: "n < 2 ^ 32"
  then have "unat (of_nat n :: u32) = n" by (intro unat_of_nat_small) simp
  then have "x = t + of_nat n \<longleftrightarrow> unat (x - t) = n"
    by (metis add_diff_cancel_left' diff_add_cancel add.commute word_unat_eq_iff)
  then show "((zeroed t n pm)(t + of_nat n := 0)) x = zeroed t (Suc n) pm x"
    by (auto simp: zeroed_def less_Suc_eq)
qed

lemma page_distance:
  assumes "page_aligned t" "page_aligned u" "t \<noteq> u" "unat d < 4096"
  shows "\<not> unat (u + d - t) < 4096"
proof
  assume a: "unat (u + d - t) < 4096"
  have "return_page_address (t + (u + d - t)) = t"
    using entry_frame [OF assms(1) a] frame_offset [OF assms(1) a] by simp
  moreover have "return_page_address (u + d) = u"
    using entry_frame [OF assms(2,4)] frame_offset [OF assms(2,4)] by simp
  ultimately show False using assms(3) by simp
qed

lemma same_table_zeroed:
  assumes "page_aligned t" "page_aligned u" "t \<noteq> u" "n \<le> 4096"
  shows "same_table (zeroed t n pm) pm u"
  using page_distance [OF assms(1-3)] assms(4)
  by (intro same_table_bytes [OF assms(2)]) (force simp: zeroed_def)

lemma zeroed_entry:
  assumes "page_aligned t" "unat i < 1024"
  shows "rd32 (zeroed t 4096 pm) (t + 4 * i) = 0"
proof -
  have "unat (4 * i) = 4 * unat i" using assms(2) by (simp add: unat_word_ariths)
  then have "unat (4 * i + k) < 4096" if "unat k < 4" for k :: u32
    using assms(2) that by (simp add: unat_word_ariths)
  from this [of 0] this [of 1] this [of 2] this [of 3]
  have "zeroed t 4096 pm (t + 4 * i + k) = 0" if "k \<in> {0, 1, 2, 3}" for k
    using that by (auto simp: zeroed_def add.assoc)
  from this [of 0] this [of 1] this [of 2] this [of 3] show ?thesis by (simp add: rd32_def)
qed

text \<open>The page is cleared through entry 510 of the window.\<close>

lemma clear_page_effect:
  assumes w: "window_ready lay s" and t: "page_aligned t" "t \<notin> window_pages lay s"
  defines "e \<equiv> kmap lay + 4 * 510"
  defines "pm \<equiv> wr32 (zeroed t 4096 (wr32 (pmem s) e (t OR PT_PRESENT OR PT_RW))) e 0"
  shows "clear_physical_page lay t s = Some (s\<lparr> pmem := pm \<rparr>)" "window_ready lay (s\<lparr> pmem := pm \<rparr>)"
proof -
  let ?ptr = "ARBITRARY_MAPPING_REGION_START + 510 * PAGE_SIZE"
  have 510: "unat (510 :: u32) < 1024" by simp
  let ?s1 = "s\<lparr> pmem := wr32 (pmem s) e (t OR PT_PRESENT OR PT_RW) \<rparr>"
  let ?z = "\<lambda>n. ?s1\<lparr> pmem := zeroed t n (pmem ?s1) \<rparr>"
  have w1: "window_ready lay ?s1" unfolding e_def by (rule window_entry [OF w 510])
  have al: "page_aligned (kdir lay)" "page_aligned (kmap lay)" "kdir lay \<noteq> kmap lay"
    using w by (simp_all add: window_ready_def)
  have apart: "t \<noteq> kdir lay" "t \<noteq> kmap lay" "t \<noteq> table_of lay s (kernel_page_directory lay)"
    using t(2) by (auto simp: window_pages_def)
  have "same_table (pmem ?s1) (pmem s) (kdir lay)"
    using same_table_store [OF al(1,2) 510 al(3)] by (simp add: e_def)
  from table_of_same [OF this] have tab: "table_of lay ?s1 b = table_of lay s b" for b by simp
  have wz: "window_ready lay (?z n)" if "n \<le> 4096" for n
    by (rule window_ready_tables [OF w1]; rule same_table_zeroed [OF t(1) _ _ that])
      (use al apart tab in \<open>auto simp: table_of_def return_page_address_aligned\<close>)
  have ez: "rd32 (pmem (?z n)) e = (t OR PT_PRESENT OR PT_RW)" if "n \<le> 4096" for n
    using same_tableD [OF same_table_zeroed [OF t(1) al(2) apart(2) that] 510, of "pmem ?s1"] by (simp add: e_def)
  have byte: "vwrite8 (?z (unat k)) (?ptr + k) 0 = Some (?z (Suc (unat k)))" if "k < PAGE_SIZE" for k
  proof -
    have k: "unat k < 4096" using that by (simp add: PAGE_SIZE_def word_less_nat_alt)
    then have "translate_write (?z (unat k)) (?ptr + k) = Some (t + k)"
      using window_byte(2) [OF wz 510 k t(1)] ez by (simp add: e_def)
    then show ?thesis using zeroed_Suc [of "unat k" t "pmem ?s1"] k by (simp add: vwrite8_def)
  qed
  have "for_up 0 PAGE_SIZE (\<lambda>i r. Option.bind r (\<lambda>u. vwrite8 u (?ptr + i) 0)) (Some ?s1) = Some (?z (unat PAGE_SIZE))"
  proof (rule for_up_invariant [where P = "\<lambda>k r. r = Some (?z (unat k))"])
    fix k and r assume k: "k < PAGE_SIZE" "r = Some (?z (unat k))"
    then have "unat (k + 1) = Suc (unat k)" by (simp add: PAGE_SIZE_def word_less_nat_alt unat_word_ariths)
    then show "Option.bind r (\<lambda>u. vwrite8 u (?ptr + k) 0) = Some (?z (unat (k + 1)))"
      using byte [OF k(1)] k(2) by simp
  qed simp_all
  moreover have "unmap_window lay 510 (?z 4096) = (True, s\<lparr> pmem := pm \<rparr>)"
    using window_unmap [OF wz 510, of 4096] by (simp add: pm_def e_def)
  ultimately show "clear_physical_page lay t s = Some (s\<lparr> pmem := pm \<rparr>)"
    using window_map [OF w 510 t(1)] by (simp add: clear_physical_page_def PAGE_SIZE_def e_def)
  show "window_ready lay (s\<lparr> pmem := pm \<rparr>)"
    using window_entry [OF wz 510, of 4096 0] by (simp add: pm_def e_def)
qed

section \<open>Allocating the table\<close>

text \<open>The page directory, the window's table and the tables in the directory; their frames are in use, and the
  bits of the allocator lie elsewhere.\<close>

definition present :: "paging_layout \<Rightarrow> machine \<Rightarrow> u32 \<Rightarrow> bool" where
  "present lay s a \<longleftrightarrow> rd32 (pmem s) (kdir lay + 4 * table_index a) AND PD_PRESENT \<noteq> 0"

definition tables :: "paging_layout \<Rightarrow> machine \<Rightarrow> u32 set" where
  "tables lay s = {kdir lay, kmap lay} \<union> {table_of lay s b |b. present lay s b}"

definition frame_in_use :: "paging_layout \<Rightarrow> machine \<Rightarrow> u32 \<Rightarrow> bool" where
  "frame_in_use lay s t \<longleftrightarrow>
     (unat t div 4096 < 32768 \<longrightarrow> phys_page_used (allocators lay) (kernel_view s) (unat t div 4096))"

definition off_allocator :: "paging_layout \<Rightarrow> u32 \<Rightarrow> bool" where
  "off_allocator lay t \<longleftrightarrow>
     (\<forall>d. unat d < 4096 \<longrightarrow> \<not> unat (P2V (t + d) - global_phys_allocator (allocators lay)) < 8192)"

definition tables_safe :: "paging_layout \<Rightarrow> machine \<Rightarrow> bool" where
  "tables_safe lay s \<longleftrightarrow> (\<forall>t \<in> tables lay s. frame_in_use lay s t \<and> off_allocator lay t)"

lemma allocate_fresh:
  assumes safe: "tables_safe lay s" and ready: "phys_ready (allocators lay) (kernel_view s)"
    and free: "k < 32768" "\<not> phys_page_used (allocators lay) (kernel_view s) k"
  obtains t pm where "allocate_physical_page lay s = (t, s\<lparr> pmem := pm \<rparr>)" "page_aligned t" "t \<notin> tables lay s"
    "\<And>u. u \<in> tables lay s \<Longrightarrow> page_aligned u \<Longrightarrow> same_table pm (pmem s) u"
proof -
  let ?p = "global_phys_allocator (allocators lay)" and ?m = "kernel_view s"
  have last: "\<not> page_used 11 32 ?m ?p 32768" using ready by (simp add: phys_ready_def phys_page_used_def)
  obtain i m' where i: "i < 32768" "\<not> page_used 11 32 ?m ?p i"
    and call: "binary_buddy_memory_allocator_allocate ?m ?p PAGE_SIZE (of_nat 32768) (of_nat 11) 1 = (of_nat i * PAGE_SIZE, m')"
    and off: "agree_off ?p 8192 m' ?m"
    by (rule phys.alloc_page_cases [OF last, of PAGE_SIZE]) (use free in \<open>auto simp: phys_page_used_def\<close>)
  let ?t = "of_nat i * PAGE_SIZE :: u32" and ?pm = "\<lambda>x. m' (P2V x)"
  have u: "unat ?t = i * 4096" using i(1) by (intro unat_page) simp
  show ?thesis
  proof (rule that)
    show "allocate_physical_page lay s = (?t, s\<lparr> pmem := ?pm \<rparr>)"
      using call by (simp add: allocate_physical_page_def global_phys_allocator_allocate_page_def
          global_phys_allocator_allocate_pages_def set_kernel_view_def)
    show "page_aligned ?t" by (simp add: u)
    have "\<not> frame_in_use lay s ?t" using i by (simp add: frame_in_use_def u phys_page_used_def)
    then show "?t \<notin> tables lay s" using safe by (auto simp: tables_safe_def)
    fix v assume "v \<in> tables lay s" and v: "page_aligned v"
    then have "off_allocator lay v" using safe by (simp add: tables_safe_def)
    then show "same_table ?pm (pmem s) v"
      using off by (intro same_table_bytes [OF v]) (auto simp: agree_off_def off_allocator_def kernel_view_def)
  qed
qed

text \<open>With a table that is present \<open>map_page\<close> reads the directory once more; without one it is as if the new
  table had been there.\<close>

lemma tables_window: "window_ready lay s \<Longrightarrow> window_pages lay s \<subseteq> tables lay s"
  using flags_and_3 by (auto simp: window_pages_def tables_def present_def window_ready_def Let_def)

lemma table_aligned: "window_ready lay s \<Longrightarrow> t \<in> tables lay s \<Longrightarrow> page_aligned t"
  by (auto simp: tables_def table_of_def return_page_address_aligned window_ready_def)

text \<open>The new frame cleared: no table but the window's has changed.\<close>

lemma table_cleared:
  assumes w: "window_ready lay s" and safe: "tables_safe lay s"
    and ready: "phys_ready (allocators lay) (kernel_view s)"
    and free: "k < 32768" "\<not> phys_page_used (allocators lay) (kernel_view s) k"
  obtains t s1 s2 where "allocate_physical_page lay s = (t, s1)" "clear_physical_page lay t s1 = Some s2"
    "window_ready lay s2" "page_aligned t" "t \<notin> tables lay s"
    "\<And>i. unat i < 1024 \<Longrightarrow> rd32 (pmem s2) (t + 4 * i) = 0"
    "\<And>u. u \<in> tables lay s \<Longrightarrow> u \<noteq> kmap lay \<Longrightarrow> same_table (pmem s2) (pmem s) u"
proof -
  let ?e = "kmap lay + 4 * 510"
  have 510: "unat (510 :: u32) < 1024" by simp
  have al: "page_aligned (kmap lay)" using w by (simp add: window_ready_def)
  have in_tables: "kdir lay \<in> tables lay s" "table_of lay s (kernel_page_directory lay) \<in> tables lay s"
    using tables_window [OF w] by (auto simp: window_pages_def)
  obtain t pm where t: "allocate_physical_page lay s = (t, s\<lparr> pmem := pm \<rparr>)" "page_aligned t" "t \<notin> tables lay s"
    and keep: "\<And>u. u \<in> tables lay s \<Longrightarrow> same_table pm (pmem s) u"
    using allocate_fresh [OF safe ready free] table_aligned [OF w] by metis
  let ?s1 = "s\<lparr> pmem := pm \<rparr>" and ?pm2 = "wr32 (zeroed t 4096 (wr32 pm ?e (t OR PT_PRESENT OR PT_RW))) ?e 0"
  have w1: "window_ready lay ?s1" by (rule window_ready_tables [OF w]) (rule keep in_tables)+
  have "table_of lay ?s1 b = table_of lay s b" for b by (rule table_of_same [OF keep [OF in_tables(1)]])
  then have fresh: "t \<notin> window_pages lay ?s1" using t(3) tables_window [OF w] by (auto simp: window_pages_def)
  have clear: "clear_physical_page lay t ?s1 = Some (s\<lparr> pmem := ?pm2 \<rparr>)" "window_ready lay (s\<lparr> pmem := ?pm2 \<rparr>)"
    using clear_page_effect [OF w1 t(2) fresh] by simp_all
  have t_apart: "t \<noteq> kmap lay" using t(3) by (auto simp: tables_def)
  show ?thesis
  proof (rule that [OF t(1) clear t(2,3)])
    show "rd32 (pmem (s\<lparr> pmem := ?pm2 \<rparr>)) (t + 4 * i) = 0" if "unat i < 1024" for i
      using same_tableD [OF same_table_store [OF t(2) al 510 t_apart] that] zeroed_entry [OF t(2) that] by simp
    fix u assume u: "u \<in> tables lay s" "u \<noteq> kmap lay"
    then have "page_aligned u" "t \<noteq> u" using table_aligned [OF w u(1)] t(3) by auto
    note store = same_table_store [OF this(1) al 510 u(2)] and zero = same_table_zeroed [OF t(2) this order.refl]
    show "same_table (pmem (s\<lparr> pmem := ?pm2 \<rparr>)) (pmem s) u"
      using same_table_trans [OF store same_table_trans [OF zero same_table_trans [OF store keep [OF u(1)]]]] by simp
  qed
qed

text \<open>The state when the new table has been entered: the directory has one entry more, the new table is empty,
  and every other table but the window's is as it was.\<close>

lemma table_entered:
  assumes w: "window_ready lay s" and safe: "tables_safe lay s"
    and ready: "phys_ready (allocators lay) (kernel_view s)"
    and free: "k < 32768" "\<not> phys_page_used (allocators lay) (kernel_view s) k"
    and a: "\<not> present lay s a"
  obtains t s1 s2 s3 where "allocate_physical_page lay s = (t, s1)" "clear_physical_page lay t s1 = Some s2"
    "vwrite32 s2 (kernel_page_directory lay + 4 * table_index a) (t OR pd_flags) = Some s3"
    "window_ready lay s2" "window_ready lay s3" "page_aligned t" "t \<notin> tables lay s"
    "\<And>i. unat i < 1024 \<Longrightarrow> rd32 (pmem s2) (kdir lay + 4 * i) = rd32 (pmem s) (kdir lay + 4 * i)"
    "\<And>i. unat i < 1024 \<Longrightarrow> rd32 (pmem s3) (kdir lay + 4 * i) =
       (if i = table_index a then t OR pd_flags else rd32 (pmem s) (kdir lay + 4 * i))"
    "\<And>i. unat i < 1024 \<Longrightarrow> rd32 (pmem s3) (t + 4 * i) = 0"
    "\<And>u. u \<in> tables lay s \<Longrightarrow> u \<noteq> kmap lay \<Longrightarrow> u \<noteq> kdir lay \<Longrightarrow> same_table (pmem s3) (pmem s) u"
proof -
  let ?d = "kernel_page_directory lay" and ?x = "kdir lay + 4 * table_index a"
  have al: "page_aligned (kdir lay)" "kdir lay \<noteq> kmap lay" using w by (simp_all add: window_ready_def)
  obtain t s1 s2 where steps: "allocate_physical_page lay s = (t, s1)" "clear_physical_page lay t s1 = Some s2"
    and w2: "window_ready lay s2" and t: "page_aligned t" "t \<notin> tables lay s"
    and zero: "\<And>i. unat i < 1024 \<Longrightarrow> rd32 (pmem s2) (t + 4 * i) = 0"
    and keep: "\<And>u. u \<in> tables lay s \<Longrightarrow> u \<noteq> kmap lay \<Longrightarrow> same_table (pmem s2) (pmem s) u"
    using table_cleared [OF w safe ready free] by metis
  have dir: "rd32 (pmem s2) (kdir lay + 4 * i) = rd32 (pmem s) (kdir lay + 4 * i)" if "unat i < 1024" for i
    by (rule same_tableD [OF keep that]) (use al in \<open>auto simp: tables_def\<close>)
  then have tab: "table_of lay s2 b = table_of lay s b" for b by (simp add: table_of_def)
  let ?s3 = "s2\<lparr> pmem := wr32 (pmem s2) ?x (t OR pd_flags) \<rparr>"
  have s3: "vwrite32 s2 (?d + 4 * table_index a) (t OR pd_flags) = Some ?s3"
    using directory_pointer(2) [OF w2, of "table_index a"] by (simp add: vwrite32_def)
  have other: "same_table (pmem ?s3) (pmem s2) u" if "page_aligned u" "u \<noteq> kdir lay" for u
    using same_table_store [OF that(1) al(1) _ that(2), of "table_index a"] by simp
  show ?thesis
  proof (rule that [OF steps s3 w2 _ t dir])
    have here: "table_index a \<noteq> 1023" "table_index a \<noteq> table_index ?d" "table_of lay s ?d \<noteq> kdir lay"
      using a w rw_entry(2) [of "kmap lay"] flags_and_3 by (auto simp: present_def window_ready_def Let_def)
    have "page_aligned (table_of lay s ?d)" by (simp add: table_of_def return_page_address_aligned)
    then show "window_ready lay ?s3"
      using here entry_inj [OF al(1) table_index_less al(1), of 1023] entry_inj [OF al(1) table_index_less al(1) table_index_less]
        entry_inj [OF al(1) table_index_less, of "table_of lay s ?d" "page_index_in_table ?d"]
      by (intro window_ready_store [OF w2 entry_aligned [OF al(1) table_index_less]]) (simp_all add: tab)
    show "rd32 (pmem ?s3) (kdir lay + 4 * i) =
       (if i = table_index a then t OR pd_flags else rd32 (pmem s) (kdir lay + 4 * i))" if "unat i < 1024" for i
      using entry_store_load [OF al(1) _ al(1) that, of "table_index a"] dir [OF that] by simp
    show "rd32 (pmem ?s3) (t + 4 * i) = 0" if "unat i < 1024" for i
      using same_tableD [OF other that] t zero [OF that] by (auto simp: tables_def)
    show "same_table (pmem ?s3) (pmem s) u" if "u \<in> tables lay s" "u \<noteq> kmap lay" "u \<noteq> kdir lay" for u
      by (rule same_table_trans [OF other [OF table_aligned [OF w that(1)] that(3)] keep [OF that(1,2)]])
  qed
qed

text \<open>The translation after \<open>map_page\<close> for a page with a table, entry by entry.\<close>

lemma map_page_entries:
  assumes w: "window_ready lay s" and m: "mappable lay s a" and f: "page_aligned f"
  obtains s' where "map_page lay (kernel_page_directory lay) a f pt_flags pd_flags s = Some (True, s')"
    "window_ready lay s'"
    "\<And>b. table_of lay s b \<noteq> kmap lay \<Longrightarrow> translate s' b =
       (if same_entry lay s a b \<and> present lay s b then entry_target (f OR pt_flags) b else translate s b)"
proof -
  have 512: "unat (512 :: u32) < 1024" by simp
  have w': "window_ready lay (s\<lparr> pmem := set_entry lay 512 (table_of lay s a) (page_index_in_table a) (f OR pt_flags) (pmem s) \<rparr>)"
    using mappable_store [OF w m 512, of "f OR pt_flags"] by blast
  show ?thesis
    by (rule that [OF map_page_effect [OF w m f] w'])
      (simp add: translate_set_entry [OF w m 512 w'] same_entry_def present_def)
qed

section \<open>Properties\<close>

text \<open>C8. Mapping a page of the kernel address space that has no page table yet, while a frame is free and the
  tables in use are marked so: \<open>map_page\<close> returns true without a fault, the page is translated to the frame, every
  other address of its 4 MiB faults, and the translation of every address elsewhere (outside the
  window for short-term mappings) is unchanged.\<close>

theorem map_page_allocates:
  assumes w: "window_ready lay s" and safe: "tables_safe lay s"
    and ready: "phys_ready (allocators lay) (kernel_view s)"
    and free: "k < 32768" "\<not> phys_page_used (allocators lay) (kernel_view s) k"
    and a: "page_aligned a" "\<not> present lay s a" and f: "page_aligned f"
    and flags: "unat pt_flags < 4096" "pt_flags AND PT_PRESENT \<noteq> 0" "unat pd_flags < 4096" "pd_flags AND PD_PRESENT \<noteq> 0"
  shows "\<exists>s'. map_page lay (kernel_page_directory lay) a f pt_flags pd_flags s = Some (True, s') \<and>
    window_ready lay s' \<and>
    (\<forall>d. unat d < 4096 \<longrightarrow> translate s' (a + d) = Some (f + d)) \<and>
    (\<forall>b. table_index b = table_index a \<and> page_index_in_table b \<noteq> page_index_in_table a \<longrightarrow> translate s' b = None) \<and>
    (\<forall>b. table_index b \<noteq> table_index a \<and> table_of lay s b \<notin> {kdir lay, kmap lay} \<longrightarrow> translate s' b = translate s b)"
proof (rule table_entered [OF w safe ready free a(2), of pd_flags])
  let ?d = "kernel_page_directory lay"
  fix t s1 s2 s3
  assume steps: "allocate_physical_page lay s = (t, s1)" "clear_physical_page lay t s1 = Some s2"
      "vwrite32 s2 (?d + 4 * table_index a) (t OR pd_flags) = Some s3"
    and w2: "window_ready lay s2" and w3: "window_ready lay s3" and t: "page_aligned t" "t \<notin> tables lay s"
    and dir2: "\<And>i. unat i < 1024 \<Longrightarrow> rd32 (pmem s2) (kdir lay + 4 * i) = rd32 (pmem s) (kdir lay + 4 * i)"
    and dir: "\<And>i. unat i < 1024 \<Longrightarrow> rd32 (pmem s3) (kdir lay + 4 * i) =
       (if i = table_index a then t OR pd_flags else rd32 (pmem s) (kdir lay + 4 * i))"
    and zero: "\<And>i. unat i < 1024 \<Longrightarrow> rd32 (pmem s3) (t + 4 * i) = 0"
    and keep: "\<And>u. u \<in> tables lay s \<Longrightarrow> u \<noteq> kmap lay \<Longrightarrow> u \<noteq> kdir lay \<Longrightarrow> same_table (pmem s3) (pmem s) u"
  have entry: "return_page_address (t OR pd_flags) = t" "(t OR pd_flags) AND PD_PRESENT \<noteq> 0"
    using entry_frame [OF t(1) flags(3)] flags(4) by (simp_all add: bit.conj_disj_distrib2 or_eq_0_iff)
  have tab: "table_of lay s3 b = (if table_index b = table_index a then t else table_of lay s b)" for b
    by (simp add: table_of_def dir entry)
  have d: "table_index ?d \<noteq> table_index a" "table_of lay s ?d \<in> tables lay s"
    using a(2) w flags_and_3 tables_window [OF w] by (auto simp: present_def window_ready_def window_pages_def Let_def)
  have m: "mappable lay s3 a"
    using a(1) t d entry by (auto simp: mappable_def tab dir tables_def Let_def)
  have same: "map_page lay ?d a f pt_flags pd_flags s = map_page lay ?d a f pt_flags pd_flags s3"
    using steps directory_load [OF w] directory_load [OF w3] a dir entry f
    by (simp add: map_page_def page_aligned_mod present_bit present_def)
  obtain s' where s': "map_page lay ?d a f pt_flags pd_flags s3 = Some (True, s')" "window_ready lay s'"
    and entries: "\<And>b. table_of lay s3 b \<noteq> kmap lay \<Longrightarrow> translate s' b =
       (if same_entry lay s3 a b \<and> present lay s3 b then entry_target (f OR pt_flags) b else translate s3 b)"
    using map_page_entries [OF w3 m f, of pt_flags pd_flags] by blast
  have t_apart: "t \<noteq> kmap lay" "t \<noteq> kdir lay" using t(2) by (simp_all add: tables_def)
  have "translate s' (a + d) = Some (f + d)" if "unat d < 4096" for d
    using entries [of "a + d"] page_offset_indices [OF a(1) that] t_apart entry
      entry_target_flags [OF f flags(1,2), of "a + d"]
    by (simp add: tab same_entry_def present_def dir)
  moreover have "translate s' b = None" if "table_index b = table_index a" "page_index_in_table b \<noteq> page_index_in_table a" for b
    using entries [of b] that t_apart translate_entry [OF w3, of b] zero [of "page_index_in_table b"]
    by (simp add: tab same_entry_def entry_target_def)
  moreover have "translate s' b = translate s b" if b: "table_index b \<noteq> table_index a" "table_of lay s b \<notin> {kdir lay, kmap lay}" for b
  proof (cases "present lay s b")
    case True
    then have "table_of lay s b \<in> tables lay s" by (auto simp: tables_def)
    then have "rd32 (pmem s3) (table_of lay s b + 4 * page_index_in_table b) =
        rd32 (pmem s) (table_of lay s b + 4 * page_index_in_table b)" "t \<noteq> table_of lay s b"
      using same_tableD [OF keep page_index_less] b(2) t(2) by auto
    then show ?thesis
      using entries [of b] b translate_entry [OF w3, of b] translate_entry [OF w, of b]
      by (simp add: tab dir same_entry_def)
  next
    case False
    then show ?thesis
      using entries [of b] b translate_entry [OF w3, of b] translate_entry [OF w, of b]
      by (simp add: tab dir present_def)
  qed
  ultimately show ?thesis using same s' by auto
qed

text \<open>The sample machine with the frames below 544 in use.\<close>

definition sample_bits :: "mem \<Rightarrow> mem" where
  "sample_bits pm = (\<lambda>x. if 0x120FFC \<le> x \<and> x < 0x121040 then 0xFF else pm x)"

definition sample_used :: machine where
  "sample_used = sample_machine\<lparr> pmem := sample_bits (pmem sample_machine) \<rparr>"

lemma sample_bits_table:
  assumes "page_aligned t" "unat t div 4096 \<notin> {0x120, 0x121}"
  shows "same_table (sample_bits pm) pm t"
proof (rule same_table_bytes [OF assms(1)])
  fix d :: u32 assume d: "unat d < 4096"
  have u: "unat (t + d) = unat t + unat d" by (rule frame_offset_unat [OF assms(1) d])
  then have "unat (t + d) div 4096 = unat t div 4096" using assms(1) d by (auto elim!: dvdE)
  then have "\<not> (0x120FFC \<le> unat (t + d) \<and> unat (t + d) < 0x121040)" using assms(2) by auto
  then show "sample_bits pm (t + d) = pm (t + d)"
    by (auto simp: sample_bits_def word_le_nat_alt word_less_nat_alt)
qed

lemma sample_directory:
  assumes "unat i < 1024"
  shows "rd32 (pmem sample_used) (0x110000 + 4 * i) = (if i = 768 then 0x111003 else if i = 1023 then 0x112003 else 0)"
proof -
  have "rd32 (pmem sample_used) (0x110000 + 4 * i) = rd32 (pmem sample_machine) (0x110000 + 4 * i)"
    using same_tableD [OF sample_bits_table assms, of "0x110000"] by (simp add: sample_used_def)
  moreover have "pmem sample_machine =
      wr32 (wr32 (wr32 (\<lambda>_. 0) (0x110000 + 4 * 768) 0x111003) (0x110000 + 4 * 1023) 0x112003) (0x111000 + 4 * 272) 0x110003"
    by (simp add: sample_machine_def)
  moreover have "rd32 (wr32 (wr32 (wr32 (\<lambda>_. 0) (0x110000 + 4 * 768) 0x111003) (0x110000 + 4 * 1023) 0x112003)
      (0x111000 + 4 * 272) 0x110003) (0x110000 + 4 * i) = (if i = 768 then 0x111003 else if i = 1023 then 0x112003 else 0)"
    using assms entry_store_load [of "0x110000" 768 "0x110000" i] entry_store_load [of "0x110000" 1023 "0x110000" i]
      entry_store_load [of "0x111000" 272 "0x110000" i] sample_zero by (simp only:) simp
  ultimately show ?thesis by simp
qed

lemma sample_used_bits:
  assumes "k \<le> 32768"
  shows "phys_page_used (allocators sample_paging_layout) (kernel_view sample_used) k \<longleftrightarrow> k < 544"
proof -
  define i :: u32 where "i = of_nat (32736 + k)"
  have i: "unat i = 32736 + k" unfolding i_def using assms by (intro unat_of_nat_small) simp
  let ?x = "V2P (0xC0120000 + i div 8)"
  have x: "?x = 0x120000 + i div 8" by (simp add: mem_constants)
  have j: "unat (i div 8) = (32736 + k) div 8" by (simp only: unat_div_8 i)
  have carry: "unat (0x120000 + q) = 0x120000 + unat q" if "unat q < 0x10000" for q :: u32
    using that by (simp add: unat_word_ariths)
  have ux: "unat ?x = 0x120000 + (32736 + k) div 8"
    unfolding x using carry [of "i div 8"] j assms by simp
  have "?x \<noteq> c" if "unat c < 0x120000" for c using ux that by auto
  then have "pmem sample_machine ?x = 0" by (simp add: sample_machine_def wr32_def)
  then have "kernel_view sample_used (0xC0120000 + i div 8) = (if (32736 + k) div 8 < 0x1040 then 0xFF else 0)"
    by (simp add: kernel_view_def sample_used_def sample_bits_def word_le_nat_alt word_less_nat_alt ux)
  moreover have "(32736 + k) div 8 < 0x1040 \<longleftrightarrow> k < 544" by auto
  moreover have "bit (0xFF :: u8) n" if "n < 8" for n using that by (auto simp: less_Suc_eq numeral_eq_Suc)
  ultimately show ?thesis
    by (simp add: phys_page_used_def page_used_def level_bit_def region_start_def bitset_at_bit sample_paging_layout_def
        flip: i_def [simplified])
qed

lemma sample_used_ready:
  "window_ready sample_paging_layout sample_used" "tables_safe sample_paging_layout sample_used"
  "phys_ready (allocators sample_paging_layout) (kernel_view sample_used)"
  "\<not> phys_page_used (allocators sample_paging_layout) (kernel_view sample_used) 600"
  "\<not> present sample_paging_layout sample_used 0xC0400000"
proof -
  show "window_ready sample_paging_layout sample_used" unfolding sample_used_def
    by (rule window_ready_tables [OF sample_ready(1)]; rule sample_bits_table)
      (simp_all add: sample_paging_layout_def mem_constants table_of_def sample_machine_def table_index_def
        return_page_address_def)
  show "\<not> present sample_paging_layout sample_used 0xC0400000"
    by (simp add: present_def sample_paging_layout_def mem_constants table_index_def sample_directory [of 769, simplified])
  show "\<not> phys_page_used (allocators sample_paging_layout) (kernel_view sample_used) 600"
    "phys_ready (allocators sample_paging_layout) (kernel_view sample_used)"
    by (simp_all add: sample_used_bits phys_ready_def)
  have "tables sample_paging_layout sample_used \<subseteq> {0x110000, 0x111000, 0x112000}"
    by (auto simp: tables_def present_def table_of_def sample_paging_layout_def mem_constants sample_directory
        return_page_address_def split: if_splits)
  moreover have "off_allocator sample_paging_layout t" if "t \<in> {0x110000, 0x111000, 0x112000}" for t
    unfolding off_allocator_def
  proof (intro allI impI)
    fix d :: u32 assume "unat d < 4096"
    moreover have "P2V (t + d) - global_phys_allocator (allocators sample_paging_layout) = (t - 0x120000) + d"
      by (simp add: sample_paging_layout_def mem_constants)
    ultimately show "\<not> unat (P2V (t + d) - global_phys_allocator (allocators sample_paging_layout)) < 8192"
      using that by (auto simp: unat_word_ariths)
  qed
  moreover have "frame_in_use sample_paging_layout sample_used t" if "t \<in> {0x110000, 0x111000, 0x112000}" for t
    using that by (auto simp: frame_in_use_def sample_used_bits)
  ultimately show "tables_safe sample_paging_layout sample_used" by (auto simp: tables_safe_def)
qed

theorem map_page_allocates_witness:
  "\<exists>s'. map_page sample_paging_layout 0xC0110000 0xC0400000 0x200000 3 3 sample_used = Some (True, s') \<and>
    translate s' 0xC0400ABC = Some 0x200ABC \<and> translate s' 0xC0401ABC = None"
proof -
  have k: "kernel_page_directory sample_paging_layout = 0xC0110000" by (simp add: sample_paging_layout_def)
  obtain s' where s': "map_page sample_paging_layout 0xC0110000 0xC0400000 0x200000 3 3 sample_used = Some (True, s')"
    and t: "\<forall>d. unat d < 4096 \<longrightarrow> translate s' (0xC0400000 + d) = Some (0x200000 + d)"
    and e: "\<forall>b. table_index b = table_index 0xC0400000 \<and> page_index_in_table b \<noteq> page_index_in_table 0xC0400000 \<longrightarrow> translate s' b = None"
    using map_page_allocates [OF sample_used_ready(1-3) _ sample_used_ready(4) _ sample_used_ready(5),
        where f = "0x200000" and pt_flags = 3 and pd_flags = 3] by (auto simp: paging_flags k)
  have "translate s' 0xC0400ABC = Some 0x200ABC" using t [rule_format, of "0xABC"] by simp
  moreover have "translate s' 0xC0401ABC = None"
    using e [rule_format, of "0xC0401ABC"] by (simp add: table_index_def page_index_in_table_def PAGE_SIZE_def)
  ultimately show ?thesis using s' by blast
qed

end
