(* ===== verification/Ahci.thy ===== *)
theory Ahci
  imports Heap
begin

text \<open>
  The AHCI disk driver, arch/i686/drivers/hdd/ahci/ahci.c: the search for ports with a disk, the setup of
  a port's command list, and the read of sectors.  Registers and command structures lie in the
  memory the kernel sees (\<open>hmem\<close> of the heap), at the offsets of the structures of ahci.h;
  \<open>idpg\<close> is the effect of \<open>identity_map_page_in_kernel_addr\<close> on it, as in \<open>Elf\<close>.

  The controller works beside the processor: \<open>dev n\<close> is what it does to the memory between the
  \<open>n\<close>-th and the next of the driver's reads of a register that it waits on, and \<open>clock\<close> counts those reads.
  A wait without a bound is a \<open>partial_function\<close>; the wait of \<open>read_sector\<close> for an idle device has a bound.
  A pointer that the allocator returns is used without a test, as in the code.
\<close>

unbundle bit_operations_syntax

section \<open>State\<close>

record ahci =
  aheap :: heap
  clock :: nat
  pci_device_base_addr :: u32
  abar :: u32
  ahci_ports :: "u8 \<Rightarrow> u32"
  ahci_port_count :: u8

type_synonym device = "nat \<Rightarrow> mem \<Rightarrow> mem"

abbreviation amem :: "ahci \<Rightarrow> mem" where "amem s \<equiv> hmem (aheap s)"

definition set_amem :: "mem \<Rightarrow> ahci \<Rightarrow> ahci" where
  "set_amem m s = s\<lparr> aheap := (aheap s)\<lparr> hmem := m \<rparr> \<rparr>"

text \<open>A register that is read once, one that is polled, and a store.\<close>

definition areg :: "u32 \<Rightarrow> ahci \<Rightarrow> u32" where
  "areg a s = rd32 (amem s) a"

definition poll :: "device \<Rightarrow> u32 \<Rightarrow> ahci \<Rightarrow> u32 \<times> ahci" where
  "poll dev a s =
     (let s1 = (set_amem (dev (clock s) (amem s)) s)\<lparr> clock := clock s + 1 \<rparr>
      in (areg a s1, s1))"

definition set_areg :: "u32 \<Rightarrow> u32 \<Rightarrow> ahci \<Rightarrow> ahci" where
  "set_areg a v s = set_amem (wr32 (amem s) a v) s"

definition set_byte :: "u32 \<Rightarrow> u8 \<Rightarrow> ahci \<Rightarrow> ahci" where
  "set_byte a v s = set_amem ((amem s)(a := v)) s"

definition clear_bytes :: "u32 \<Rightarrow> u32 \<Rightarrow> ahci \<Rightarrow> ahci" where
  "clear_bytes a n s = set_amem (snd (kmemset (amem s) a 0 n)) s"

section \<open>Registers and structures\<close>

text \<open>\<open>struct hba_port\<close> is 128 bytes; \<open>struct hba_memory\<close> has its ports from byte 256.\<close>

definition command_list_base :: "u32 \<Rightarrow> u32" where "command_list_base port = port"
definition command_list_base_upper :: "u32 \<Rightarrow> u32" where "command_list_base_upper port = port + 4"
definition fis_base_addr :: "u32 \<Rightarrow> u32" where "fis_base_addr port = port + 8"
definition fis_base_addr_upper :: "u32 \<Rightarrow> u32" where "fis_base_addr_upper port = port + 12"
definition interrupt_status :: "u32 \<Rightarrow> u32" where "interrupt_status port = port + 16"
definition command_and_status :: "u32 \<Rightarrow> u32" where "command_and_status port = port + 24"
definition task_file_data :: "u32 \<Rightarrow> u32" where "task_file_data port = port + 32"
definition signature :: "u32 \<Rightarrow> u32" where "signature port = port + 36"
definition sata_status :: "u32 \<Rightarrow> u32" where "sata_status port = port + 40"
definition command_issue :: "u32 \<Rightarrow> u32" where "command_issue port = port + 56"
definition ports_implemented :: "u32 \<Rightarrow> u32" where "ports_implemented hba = hba + 12"
definition hba_ports :: "u32 \<Rightarrow> u32 \<Rightarrow> u32" where "hba_ports hba i = hba + 256 + 128 * i"

lemmas hba_offsets = command_list_base_def command_list_base_upper_def fis_base_addr_def
  fis_base_addr_upper_def interrupt_status_def command_and_status_def task_file_data_def signature_def
  sata_status_def command_issue_def ports_implemented_def hba_ports_def

definition HBA_PORT_PRESENT :: u8 where "HBA_PORT_PRESENT = 0x03"
definition HBA_PORT_IPM_ACTIVE :: u8 where "HBA_PORT_IPM_ACTIVE = 0x01"
definition SATA_ATAPI_SIGNATURE :: u32 where "SATA_ATAPI_SIGNATURE = 0xEB140101"
definition SATA_ATA_SIGNATURE :: u32 where "SATA_ATA_SIGNATURE = 0x00000101"
definition SATA_SEMB_SIGNATURE :: u32 where "SATA_SEMB_SIGNATURE = 0xC33C0101"
definition SATA_PM_SIGNATURE :: u32 where "SATA_PM_SIGNATURE = 0x96690101"
definition HBA_PxCMD_CR :: u32 where "HBA_PxCMD_CR = 0x8000"
definition HBA_PxCMD_FRE :: u32 where "HBA_PxCMD_FRE = 0x0010"
definition HBA_PxCMD_ST :: u32 where "HBA_PxCMD_ST = 0x0001"
definition HBA_PxCMD_FR :: u32 where "HBA_PxCMD_FR = 0x4000"
definition ATA_CMD_READ_DMA_EX :: u8 where "ATA_CMD_READ_DMA_EX = 0x25"
definition ATA_DEV_BUSY :: u32 where "ATA_DEV_BUSY = 0x80"
definition ATA_DEV_DRQ :: u32 where "ATA_DEV_DRQ = 0x08"
definition HBA_PxIS_TFES :: u32 where "HBA_PxIS_TFES = push_bit 30 1"
definition FIS_TYPE_REG_H2D :: u8 where "FIS_TYPE_REG_H2D = 0x27"

lemmas hba_bits = HBA_PxCMD_CR_def HBA_PxCMD_FRE_def HBA_PxCMD_ST_def HBA_PxCMD_FR_def
  ATA_DEV_BUSY_def ATA_DEV_DRQ_def HBA_PxIS_TFES_def

datatype hba_port_type =
  HBA_PORT_TYPE_NONE | HBA_PORT_TYPE_SATA | HBA_PORT_TYPE_SEMB | HBA_PORT_TYPE_PM | HBA_PORT_TYPE_SATAPI

fun port_type_number :: "hba_port_type \<Rightarrow> u32" where
  "port_type_number HBA_PORT_TYPE_NONE = 0"
| "port_type_number HBA_PORT_TYPE_SATA = 1"
| "port_type_number HBA_PORT_TYPE_SEMB = 2"
| "port_type_number HBA_PORT_TYPE_PM = 3"
| "port_type_number HBA_PORT_TYPE_SATAPI = 4"

text \<open>\<open>struct ahci_port\<close>: the port, its type, the buffer and its number, 16 bytes.\<close>

definition port_of :: "u32 \<Rightarrow> ahci \<Rightarrow> u32" where "port_of p s = areg p s"
definition buffer_of :: "u32 \<Rightarrow> ahci \<Rightarrow> u32" where "buffer_of p s = areg (p + 8) s"

section \<open>Finding the ports\<close>

definition check_port_type :: "u32 \<Rightarrow> ahci \<Rightarrow> hba_port_type" where
  "check_port_type port s =
     (let status = areg (sata_status port) s;
          interface_power_management = ucast (drop_bit 8 status AND 0x07) :: u8;
          device_detection = ucast (status AND 0x07) :: u8;
          sig = areg (signature port) s
      in if device_detection \<noteq> HBA_PORT_PRESENT then HBA_PORT_TYPE_NONE
         else if interface_power_management \<noteq> HBA_PORT_IPM_ACTIVE then HBA_PORT_TYPE_NONE
         else if sig = SATA_ATAPI_SIGNATURE then HBA_PORT_TYPE_SATAPI
         else if sig = SATA_ATA_SIGNATURE then HBA_PORT_TYPE_SATA
         else if sig = SATA_PM_SIGNATURE then HBA_PORT_TYPE_PM
         else if sig = SATA_SEMB_SIGNATURE then HBA_PORT_TYPE_SEMB
         else HBA_PORT_TYPE_NONE)"

definition add_port :: "page_map \<Rightarrow> layout \<Rightarrow> hba_port_type \<Rightarrow> u32 \<Rightarrow> ahci \<Rightarrow> ahci option" where
  "add_port pg lay port_type port s =
     do {
       (p, h) \<leftarrow> kmalloc pg lay 16 (aheap s);
       let n = ahci_port_count s;
       let s1 = s\<lparr> aheap := h, ahci_ports := (ahci_ports s)(n := p) \<rparr>;
       let s2 = set_areg (p + 4) (port_type_number port_type) s1;
       let s3 = set_areg p (hba_ports (abar s2) port) s2;
       let s4 = set_byte (p + 12) n s3;
       Some (s4\<lparr> ahci_port_count := n + 1 \<rparr>)
     }"

definition probe_ports :: "page_map \<Rightarrow> layout \<Rightarrow> ahci \<Rightarrow> ahci option" where
  "probe_ports pg lay s =
     (let implemented = areg (ports_implemented (abar s)) s
      in for_up 0 32 (\<lambda>port acc. do {
           t \<leftarrow> acc;
           if implemented AND push_bit (unat port) 1 \<noteq> 0
           then let port_type = check_port_type (hba_ports (abar t) port) t
                in if port_type = HBA_PORT_TYPE_SATA \<or> port_type = HBA_PORT_TYPE_SATAPI
                   then add_port pg lay port_type port t else Some t
           else Some t
         }) (Some s))"

section \<open>Starting and stopping a port\<close>

partial_function (option) wait_while :: "device \<Rightarrow> u32 \<Rightarrow> u32 \<Rightarrow> ahci \<Rightarrow> ahci option" where
  "wait_while dev a flags s =
     (let (v, s1) = poll dev a s
      in if v AND flags \<noteq> 0 then wait_while dev a flags s1 else Some s1)"

definition start_cmd :: "device \<Rightarrow> u32 \<Rightarrow> ahci \<Rightarrow> ahci option" where
  "start_cmd dev p s =
     do {
       s1 \<leftarrow> wait_while dev (command_and_status (port_of p s)) HBA_PxCMD_CR s;
       let c = command_and_status (port_of p s1);
       let s2 = set_areg c (areg c s1 OR HBA_PxCMD_FRE) s1;
       Some (set_areg c (areg c s2 OR HBA_PxCMD_ST) s2)
     }"

text \<open>The loop reads the register twice: the second time when the first bit is clear.\<close>

partial_function (option) wait_stopped :: "device \<Rightarrow> u32 \<Rightarrow> ahci \<Rightarrow> ahci option" where
  "wait_stopped dev a s =
     (let (v, s1) = poll dev a s
      in if v AND HBA_PxCMD_FR \<noteq> 0 then wait_stopped dev a s1
         else let (w, s2) = poll dev a s1
              in if w AND HBA_PxCMD_CR \<noteq> 0 then wait_stopped dev a s2 else Some s2)"

definition stop_cmd :: "device \<Rightarrow> u32 \<Rightarrow> ahci \<Rightarrow> ahci option" where
  "stop_cmd dev p s =
     (let c = command_and_status (port_of p s);
          s1 = set_areg c (areg c s AND NOT HBA_PxCMD_ST) s;
          s2 = set_areg c (areg c s1 AND NOT HBA_PxCMD_FRE) s1
      in wait_stopped dev c s2)"

section \<open>Configuring a port\<close>

text \<open>A physical page, mapped at its own address.\<close>

definition identity_page :: "(u32 \<Rightarrow> mem \<Rightarrow> mem) \<Rightarrow> layout \<Rightarrow> ahci \<Rightarrow> u32 \<times> ahci" where
  "identity_page idpg lay s =
     (let (base, m) = global_phys_allocator_allocate_page lay (amem s)
      in (base, set_amem (idpg base m) s))"

text \<open>\<open>struct hba_command_header\<close> is 32 bytes: the table length at 2, the table's address at 8.\<close>

definition set_table_length :: "u32 \<Rightarrow> u16 \<Rightarrow> ahci \<Rightarrow> ahci" where
  "set_table_length header n s = set_amem (wr16 (amem s) (header + 2) n) s"

definition configure_header :: "(u32 \<Rightarrow> mem \<Rightarrow> mem) \<Rightarrow> layout \<Rightarrow> u32 \<Rightarrow> u32 \<Rightarrow> ahci \<Rightarrow> ahci" where
  "configure_header idpg lay cmd_header i s =
     (let header = cmd_header + 32 * i;
          s1 = set_table_length header 8 s;
          (cmd_table_addr, s2) = identity_page idpg lay s1;
          address = cmd_table_addr + push_bit 8 i;
          s3 = set_areg (header + 8) address s2;
          s4 = set_areg (header + 12) 0 s3
      in clear_bytes cmd_table_addr 256 s4)"

definition configure_port :: "device \<Rightarrow> (u32 \<Rightarrow> mem \<Rightarrow> mem) \<Rightarrow> layout \<Rightarrow> u32 \<Rightarrow> ahci \<Rightarrow> ahci option" where
  "configure_port dev idpg lay p s =
     do {
       s1 \<leftarrow> stop_cmd dev p s;
       let (new_base, s2) = identity_page idpg lay s1;
       let port = port_of p s2;
       let s3 = set_areg (command_list_base_upper port) 0 (set_areg (command_list_base port) new_base s2);
       let s4 = clear_bytes (areg (command_list_base port) s3) 1024 s3;
       let (fis_base, s5) = identity_page idpg lay s4;
       let s6 = set_areg (fis_base_addr_upper port) 0 (set_areg (fis_base_addr port) fis_base s5);
       let s7 = clear_bytes (areg (fis_base_addr port) s6) 256 s6;
       let cmd_header = areg (command_list_base port) s7;
       start_cmd dev p (for_up 0 32 (configure_header idpg lay cmd_header) s7)
     }"

section \<open>Reading sectors\<close>

text \<open>The frame of a read command: the fields of \<open>struct fis_register_h2d\<close> that the driver sets, from
  byte 0 of the command table.\<close>

definition write_fis :: "u32 \<Rightarrow> u32 \<Rightarrow> u16 \<Rightarrow> ahci \<Rightarrow> ahci" where
  "write_fis fis sector sector_count s =
     (let s1 = set_byte fis FIS_TYPE_REG_H2D s;
          s2 = set_byte (fis + 1) (amem s1 (fis + 1) OR 0x80) s1;
          s3 = set_byte (fis + 2) ATA_CMD_READ_DMA_EX s2;
          s4 = set_byte (fis + 4) (ucast (sector AND 0xFF)) s3;
          s5 = set_byte (fis + 5) (ucast (drop_bit 8 sector AND 0xFF)) s4;
          s6 = set_byte (fis + 6) (ucast (drop_bit 16 sector AND 0xFF)) s5;
          s7 = set_byte (fis + 10) 0 (set_byte (fis + 9) 0 (set_byte (fis + 8) 0 s6));
          s8 = set_byte (fis + 7) (push_bit 6 1) s7;
          s9 = set_byte (fis + 12) (ucast (sector_count AND 0xFF)) s8
      in set_byte (fis + 13) (ucast (drop_bit 8 sector_count AND 0xFF)) s9)"

text \<open>The first entry of the table, at byte 128: the buffer's address, 22 bits of byte count, and
  the top bit to interrupt on completion.\<close>

definition write_prdt :: "u32 \<Rightarrow> u32 \<Rightarrow> u16 \<Rightarrow> ahci \<Rightarrow> ahci" where
  "write_prdt entry buffer sector_count s =
     (let s1 = set_areg entry buffer s;
          s2 = set_areg (entry + 4) 0 s1;
          byte_count = push_bit 9 (ucast sector_count) - 1 :: u32;
          s3 = set_areg (entry + 12)
                 ((areg (entry + 12) s2 AND 0xFFC00000) OR (byte_count AND 0x003FFFFF)) s2
      in set_areg (entry + 12) (areg (entry + 12) s3 OR 0x80000000) s3)"

function spin_while_busy :: "device \<Rightarrow> u32 \<Rightarrow> nat \<Rightarrow> ahci \<Rightarrow> nat \<times> ahci" where
  "spin_while_busy dev a spin s =
     (let (v, s1) = poll dev a s
      in if v AND (ATA_DEV_BUSY OR ATA_DEV_DRQ) \<noteq> 0 \<and> spin < 10000000
         then spin_while_busy dev a (spin + 1) s1 else (spin, s1))"
  by pat_completeness auto
termination
  by (relation "measure (\<lambda>(_, _, spin, _). 10000000 - spin)") auto

declare spin_while_busy.simps [simp del]

partial_function (option) wait_for_command :: "device \<Rightarrow> u32 \<Rightarrow> ahci \<Rightarrow> (bool \<times> ahci) option" where
  "wait_for_command dev port s =
     (let (ci, s1) = poll dev (command_issue port) s
      in if ci = 0 then Some (True, s1)
         else let (is, s2) = poll dev (interrupt_status port) s1
              in if is AND HBA_PxIS_TFES \<noteq> 0 then Some (False, s2)
                 else wait_for_command dev port s2)"

text \<open>The command in the first slot: its header, its table of one entry and its frame.\<close>

definition build_command :: "u32 \<Rightarrow> u32 \<Rightarrow> u16 \<Rightarrow> u32 \<Rightarrow> ahci \<Rightarrow> u32 \<times> ahci" where
  "build_command port sector sector_count buffer s =
     (let cmd_header = areg (command_list_base port) s;
          s2 = set_byte cmd_header ((amem s cmd_header AND NOT 0x1F) OR 5) s;
          s3 = set_byte cmd_header (amem s2 cmd_header AND NOT 0x40) s2;
          s4 = set_table_length cmd_header 1 s3;
          command_table = areg (cmd_header + 8) s4;
          s5 = clear_bytes command_table (128 + (ucast (rd16 (amem s4) (cmd_header + 2)) - 1) * 16) s4;
          s6 = write_prdt (command_table + 128) buffer sector_count s5
      in (command_table, write_fis command_table sector sector_count s6))"

definition read_sector :: "device \<Rightarrow> u32 \<Rightarrow> u32 \<Rightarrow> u16 \<Rightarrow> u32 \<Rightarrow> ahci \<Rightarrow> (bool \<times> ahci) option" where
  "read_sector dev p sector sector_count buffer s =
     (let port = port_of p s;
          s1 = set_areg (interrupt_status port) 0xFFFFFFFF s;
          (command_table, s2) = build_command port sector sector_count buffer s1;
          (spin, s3) = spin_while_busy dev (task_file_data port) 0 s2
      in if spin = 10000000 then Some (False, s3)
         else wait_for_command dev port (set_areg (command_issue port) 1 s3))"

definition init_ahci ::
  "device \<Rightarrow> (u32 \<Rightarrow> mem \<Rightarrow> mem) \<Rightarrow> page_map \<Rightarrow> layout \<Rightarrow> u32 \<Rightarrow> ahci \<Rightarrow> ahci option" where
  "init_ahci dev idpg pg lay pci_device s =
     do {
       let s1 = s\<lparr> pci_device_base_addr := pci_device \<rparr>;
       let s2 = s1\<lparr> abar := areg (pci_device + 36) s1 \<rparr>;
       s3 \<leftarrow> probe_ports pg lay (set_amem (idpg (abar s2) (amem s2)) s2);
       for_up 0 (ucast (ahci_port_count s3) :: u32) (\<lambda>i acc. do {
         t \<leftarrow> acc;
         let p = ahci_ports t (ucast i);
         t1 \<leftarrow> configure_port dev idpg lay p t;
         let (buffer, t2) = identity_page idpg lay t1;
         let t3 = set_areg (p + 8) buffer t2;
         let t4 = clear_bytes buffer PAGE_SIZE t3;
         map_option snd (read_sector dev p 0 4 (buffer_of p t4) t4)
       }) (Some s3)
     }"

end
