(* ===== verification/Pcie.thy ===== *)
theory Pcie
  imports Elf Ahci
begin

text \<open>
  PCI Express and the processor list, arch/i686/drivers/pci/pcie/pcie\_bus.c: the search for an ACPI
  table, which maps the tables through the ACPI shim and runs on the \<open>osi\<close> state with page faults, the enumeration
  of the configuration space, which is memory mapped at its own address and starts the disk driver
  (theory \<open>Ahci\<close>), and the list of the processors in the MADT.  The offsets are those of the packed
  structures of the ACPI headers and of pcie\_bus.h.  What only prints is left out.
\<close>

unbundle bit_operations_syntax

section \<open>The search for a table\<close>

definition ACPI_HEADER_SIZE :: u32 where "ACPI_HEADER_SIZE = 36"
definition ACPI_NAMESEG_SIZE :: u32 where "ACPI_NAMESEG_SIZE = 4"

text \<open>The memory as the processor sees it; the pages that a caller reads are tested with \<open>field\<close>.\<close>

definition virtual_view :: "machine \<Rightarrow> mem" where
  "virtual_view s = (\<lambda>a. case translate s a of None \<Rightarrow> 0 | Some p \<Rightarrow> pmem s p)"

text \<open>The test of one table: mapped, compared and unmapped.\<close>

definition table_matches :: "paging_layout \<Rightarrow> u32 \<Rightarrow> u32 \<Rightarrow> osi \<Rightarrow> (bool \<times> osi) option" where
  "table_matches lay table_phys name st =
     do {
       (header, st1) \<leftarrow> AcpiOsMapMemory lay (ucast table_phys) ACPI_HEADER_SIZE st;
       _ \<leftarrow> field 4 header (omachine st1);
       let is_match = kstrncmp (virtual_view (omachine st1)) header name ACPI_NAMESEG_SIZE = 0;
       st2 \<leftarrow> AcpiOsUnmapMemory lay header ACPI_HEADER_SIZE st1;
       Some (is_match, st2)
     }"

text \<open>The loop leaves with the fault, with the address of the table, or at its end.\<close>

definition search_tables ::
  "paging_layout \<Rightarrow> u32 \<Rightarrow> u32 \<Rightarrow> u32 \<Rightarrow> osi \<Rightarrow> (u32 \<times> osi) option" where
  "search_tables lay xsdt entries name st =
     (case for_ret 0 entries
             (\<lambda>i t. case load_bytes 8 (xsdt + ACPI_HEADER_SIZE + 8 * i) (omachine t) of
                      None \<Rightarrow> Inl None
                    | Some entry \<Rightarrow>
                        let table_phys = ucast entry :: u32
                        in (case table_matches lay table_phys name t of
                              None \<Rightarrow> Inl None
                            | Some (is_match, t') \<Rightarrow>
                                if is_match then Inl (Some (table_phys, t')) else Inr t')) st
      of Inl r \<Rightarrow> r | Inr t \<Rightarrow> Some (0, t))"

text \<open>The second mapping, of the whole table, is never removed.\<close>

definition find_table :: "paging_layout \<Rightarrow> u32 \<Rightarrow> u32 \<Rightarrow> osi \<Rightarrow> (u32 \<times> osi) option" where
  "find_table lay rsdp name st =
     do {
       xsdt_phys \<leftarrow> load_bytes 8 (rsdp + 24) (omachine st);
       (header, st1) \<leftarrow> AcpiOsMapMemory lay xsdt_phys ACPI_HEADER_SIZE st;
       len \<leftarrow> field 4 (header + 4) (omachine st1);
       xsdt_phys' \<leftarrow> load_bytes 8 (rsdp + 24) (omachine st1);
       let entries = (len - ACPI_HEADER_SIZE) div 8;
       (xsdt, st2) \<leftarrow> AcpiOsMapMemory lay xsdt_phys' len st1;
       st3 \<leftarrow> AcpiOsUnmapMemory lay header ACPI_HEADER_SIZE st2;
       search_tables lay xsdt entries name st3
     }"

text \<open>\<open>sig_mcfg\<close> and \<open>sig_madt\<close> are the addresses of the literals "MCFG" and "APIC".\<close>

definition find_mcfg :: "paging_layout \<Rightarrow> u32 \<Rightarrow> u32 \<Rightarrow> osi \<Rightarrow> (u32 \<times> osi) option" where
  "find_mcfg lay sig_mcfg rsdp st = find_table lay rsdp sig_mcfg st"

definition find_madt :: "paging_layout \<Rightarrow> u32 \<Rightarrow> u32 \<Rightarrow> osi \<Rightarrow> (u32 \<times> osi) option" where
  "find_madt lay sig_madt rsdp st = find_table lay rsdp sig_madt st"

section \<open>The configuration space\<close>

text \<open>\<open>struct pci_device_header\<close> from byte 0.\<close>

definition cfg_device_id :: "mem \<Rightarrow> u32 \<Rightarrow> u16" where "cfg_device_id m header = rd16 m (header + 2)"
definition cfg_prog_if :: "mem \<Rightarrow> u32 \<Rightarrow> u8" where "cfg_prog_if m header = m (header + 9)"
definition cfg_subclass :: "mem \<Rightarrow> u32 \<Rightarrow> u8" where "cfg_subclass m header = m (header + 10)"
definition cfg_class_code :: "mem \<Rightarrow> u32 \<Rightarrow> u8" where "cfg_class_code m header = m (header + 11)"

definition device_present :: "mem \<Rightarrow> u32 \<Rightarrow> bool" where
  "device_present m header \<longleftrightarrow> \<not> (cfg_device_id m header = 0 \<or> cfg_device_id m header = 0xFFFF)"

definition is_ahci :: "mem \<Rightarrow> u32 \<Rightarrow> bool" where
  "is_ahci m header \<longleftrightarrow> cfg_class_code m header = 0x01 \<and> cfg_subclass m header = 0x06 \<and> cfg_prog_if m header = 0x01"

record pcie =
  disks :: ahci
  num_of_valid_devices :: u32

definition map_config :: "(u32 \<Rightarrow> mem \<Rightarrow> mem) \<Rightarrow> u32 \<Rightarrow> pcie \<Rightarrow> pcie" where
  "map_config idpg a s = s\<lparr> disks := set_amem (idpg a (amem (disks s))) (disks s) \<rparr>"

definition enumerate_function ::
  "device \<Rightarrow> (u32 \<Rightarrow> mem \<Rightarrow> mem) \<Rightarrow> page_map \<Rightarrow> layout \<Rightarrow> u64 \<Rightarrow> u64 \<Rightarrow> pcie \<Rightarrow> pcie option" where
  "enumerate_function dev idpg pg lay device_addr function_number s =
     (let offset = push_bit 12 function_number;
          function_addr = ucast (device_addr + offset) :: u32;
          s1 = map_config idpg function_addr s;
          m = amem (disks s1)
      in if \<not> device_present m function_addr then Some s1
         else let s2 = s1\<lparr> num_of_valid_devices := num_of_valid_devices s1 + 1 \<rparr>
              in if is_ahci m function_addr
                 then map_option (\<lambda>d. s2\<lparr> disks := d \<rparr>) (init_ahci dev idpg pg lay function_addr (disks s2))
                 else Some s2)"

definition enumerate_device ::
  "device \<Rightarrow> (u32 \<Rightarrow> mem \<Rightarrow> mem) \<Rightarrow> page_map \<Rightarrow> layout \<Rightarrow> u64 \<Rightarrow> u64 \<Rightarrow> pcie \<Rightarrow> pcie option" where
  "enumerate_device dev idpg pg lay bus_addr device s =
     (let offset = push_bit 15 device;
          device_addr = ucast (bus_addr + offset) :: u32;
          s1 = map_config idpg device_addr s
      in if \<not> device_present (amem (disks s1)) device_addr then Some s1
         else for_up (0 :: u32) 8 (\<lambda>i acc. Option.bind acc
                (enumerate_function dev idpg pg lay (ucast device_addr) (ucast i))) (Some s1))"

definition enumerate_bus ::
  "device \<Rightarrow> (u32 \<Rightarrow> mem \<Rightarrow> mem) \<Rightarrow> page_map \<Rightarrow> layout \<Rightarrow> u64 \<Rightarrow> u64 \<Rightarrow> pcie \<Rightarrow> pcie option" where
  "enumerate_bus dev idpg pg lay base_addr bus s =
     (let offset = push_bit 20 bus;
          bus_addr = ucast (base_addr + offset) :: u32;
          s1 = map_config idpg bus_addr s
      in if \<not> device_present (amem (disks s1)) bus_addr then Some s1
         else for_up (0 :: u32) 32 (\<lambda>i acc. Option.bind acc
                (enumerate_device dev idpg pg lay (ucast bus_addr) (ucast i))) (Some s1))"

text \<open>An allocation of the MCFG: the base at 0, the first and the last bus at 10 and 11.  They are
  read again in every round of the loop over the buses.\<close>

definition rd64 :: "mem \<Rightarrow> u32 \<Rightarrow> u64" where
  "rd64 m a = ucast (rd32 m a) OR push_bit 32 (ucast (rd32 m (a + 4)))"

partial_function (option) enumerate_buses ::
  "device \<Rightarrow> (u32 \<Rightarrow> mem \<Rightarrow> mem) \<Rightarrow> page_map \<Rightarrow> layout \<Rightarrow> u32 \<Rightarrow> u32 \<Rightarrow> pcie \<Rightarrow> pcie option" where
  "enumerate_buses dev idpg pg lay config bus s =
     (if bus \<le> ucast (amem (disks s) (config + 11))
      then do {
        s1 \<leftarrow> enumerate_bus dev idpg pg lay (rd64 (amem (disks s)) config) (ucast bus) s;
        enumerate_buses dev idpg pg lay config (bus + 1) s1
      }
      else Some s)"

partial_function (option) enumerate_allocations ::
  "device \<Rightarrow> (u32 \<Rightarrow> mem \<Rightarrow> mem) \<Rightarrow> page_map \<Rightarrow> layout \<Rightarrow> u32 \<Rightarrow> u32 \<Rightarrow> u32 \<Rightarrow> pcie \<Rightarrow> pcie option" where
  "enumerate_allocations dev idpg pg lay mcfg entries i s =
     (if i < entries
      then do {
        let config = mcfg + 44 + 16 * i;
        let s1 = map_config idpg config s;
        s2 \<leftarrow> enumerate_buses dev idpg pg lay config (ucast (amem (disks s1) (config + 10))) s1;
        enumerate_allocations dev idpg pg lay mcfg entries (i + 1) s2
      }
      else Some s)"

definition enumerate_pcie ::
  "device \<Rightarrow> (u32 \<Rightarrow> mem \<Rightarrow> mem) \<Rightarrow> page_map \<Rightarrow> layout \<Rightarrow> u32 \<Rightarrow> pcie \<Rightarrow> pcie option" where
  "enumerate_pcie dev idpg pg lay mcfg s =
     enumerate_allocations dev idpg pg lay mcfg ((rd32 (amem (disks s)) (mcfg + 4) - 44) div 16) 0 s"

section \<open>The processors\<close>

record cores =
  cmem :: mem
  lapic_ids :: "u8 \<Rightarrow> u8"
  numcore :: u8
  lapic_ptr :: u32
  ioapic_ptr :: u32

definition map_apic :: "(u32 \<Rightarrow> mem \<Rightarrow> mem) \<Rightarrow> u32 \<Rightarrow> cores \<Rightarrow> cores" where
  "map_apic idpg a c = c\<lparr> cmem := idpg a (cmem c) \<rparr>"

text \<open>One record of the table: its type at 0, its length at 1.\<close>

definition madt_record :: "(u32 \<Rightarrow> mem \<Rightarrow> mem) \<Rightarrow> u32 \<Rightarrow> cores \<Rightarrow> cores" where
  "madt_record idpg a c =
     (if cmem c a = 0
      then if cmem c (a + 4) AND 1 \<noteq> 0
           then c\<lparr> lapic_ids := (lapic_ids c)(numcore c := cmem c (a + 3)), numcore := numcore c + 1 \<rparr>
           else c
      else if cmem c a = 1
      then let c1 = c\<lparr> ioapic_ptr := rd32 (cmem c) (a + 4) \<rparr> in map_apic idpg (ioapic_ptr c1) c1
      else if cmem c a = 5
      then let c1 = c\<lparr> lapic_ptr := ucast (rd64 (cmem c) (a + 4)) \<rparr> in map_apic idpg (lapic_ptr c1) c1
      else c)"

partial_function (option) madt_loop ::
  "(u32 \<Rightarrow> mem \<Rightarrow> mem) \<Rightarrow> u32 \<Rightarrow> u32 \<Rightarrow> cores \<Rightarrow> cores option" where
  "madt_loop idpg current_addr end_of_madt c =
     (if current_addr < end_of_madt
      then let c1 = madt_record idpg current_addr c
           in madt_loop idpg (current_addr + ucast (cmem c1 (current_addr + 1))) end_of_madt c1
      else Some c)"

definition detect_cores :: "(u32 \<Rightarrow> mem \<Rightarrow> mem) \<Rightarrow> u32 \<Rightarrow> cores \<Rightarrow> cores option" where
  "detect_cores idpg madt c =
     (let c1 = c\<lparr> lapic_ptr := rd32 (cmem c) (madt + 36) \<rparr>;
          c2 = map_apic idpg (lapic_ptr c1) c1;
          len = rd32 (cmem c2) (madt + 4)
      in madt_loop idpg (madt + 44) (madt + len) c2)"

end
