(* ===== verification/Tasks.thy ===== *)
theory Tasks
  imports Scheduler Elf
begin

text \<open>
  The creation of processes in kernel/kernel/scheduler/scheduler.c: kernel tasks, which run on a
  page of the kernel's memory with a prepared stack, the three tasks that \<open>scheduler_init\<close> creates, and the
  loading of a program into an address space of its own; and the entry of a task in task\_switch.s.

  A kernel task needs only the kernel's virtual memory, so it is created over the heap, with \<open>pg\<close> for the
  effect of \<open>map_page_in_kernel_addr\<close> on it (theory \<open>Heap\<close>).  Loading works on the machine's tables and
  frames; there \<open>new_name\<close> is the effect of \<open>string_new\<close> (theory \<open>KVector\<close>) on the machine.  The run queues are
  lists (theory \<open>Process\<close>), so creating their vectors empties them.  A process that was not created because
  the table is full has no pid: the machine has stopped.
\<close>

unbundle bit_operations_syntax

section \<open>State\<close>

definition STACK_SIZE :: u32 where "STACK_SIZE = 4096"

record kernel =
  ksched :: sched
  kheap :: heap

text \<open>Addresses that the linker chooses: the code of the tasks, their names, the kernel's page directory.\<close>

record task_layout =
  page_allocators :: layout
  kernel_directory :: u32
  arch_enter_tasklet_addr :: u32
  scheduler_kill_current_process_addr :: u32
  idle_task_addr :: u32
  init_task_addr :: u32
  post_init_task_addr :: u32
  idle_name :: u32
  init_name :: u32
  post_init_name :: u32

definition update_process :: "pid_t \<Rightarrow> (process_t \<Rightarrow> process_t) \<Rightarrow> sched \<Rightarrow> sched" where
  "update_process pid f s = s\<lparr> pcb := (pcb s)(pid := (pcb s pid)\<lparr> proc := f (proc (pcb s pid)) \<rparr>) \<rparr>"

section \<open>Kernel tasks\<close>

text \<open>The code pushes a word by taking it off \<open>esp\<close> and storing through the new value.\<close>

definition push_word :: "u32 \<Rightarrow> process_context \<times> mem \<Rightarrow> process_context \<times> mem" where
  "push_word v cm =
     (let c = (fst cm)\<lparr> ctx_esp := ctx_esp (fst cm) - 4 \<rparr>
      in (c, wr32 (snd cm) (ctx_esp c) v))"

definition prepare_stack :: "task_layout \<Rightarrow> u32 \<Rightarrow> u32 \<Rightarrow> u32 \<Rightarrow> process_context \<times> mem \<Rightarrow> process_context \<times> mem" where
  "prepare_stack code stack func data cm =
     (let c = (fst cm)\<lparr> ctx_ebp := stack, ctx_eip := arch_enter_tasklet_addr code,
                         ctx_esp := stack + STACK_SIZE \<rparr>
      in push_word data (push_word func (push_word (scheduler_kill_current_process_addr code) (c, snd cm))))"

definition scheduler_create_kernel_task_args ::
  "page_map \<Rightarrow> task_layout \<Rightarrow> u32 \<Rightarrow> u32 \<Rightarrow> u32 \<Rightarrow> kernel \<Rightarrow> (pid_t option \<times> kernel) option" where
  "scheduler_create_kernel_task_args pg code name func data k =
     (case scheduler_create_new_process (ksched k) of
        (None, s1) \<Rightarrow> Some (None, k\<lparr> ksched := s1 \<rparr>)
      | (Some pid, s1) \<Rightarrow> do {
          let lay = page_allocators code;
          let (stack, m1) = kernel_virt_allocator_allocate_page lay (hmem (kheap k));
          let (phys_stack, m2) = global_phys_allocator_allocate_page lay m1;
          let h3 = (kheap k)\<lparr> hmem := pg stack phys_stack m2 \<rparr>;
          (str, h4) \<leftarrow> string_new pg lay name h3;
          let p = (proc (pcb s1 pid))\<lparr> proc_system := True, physical_cr3 := V2P (kernel_directory code),
                    virtual_cr3 := kernel_directory code, physical_stack := phys_stack, proc_name := str \<rparr>;
          let (c, m5) = prepare_stack code stack func data (proc_context p, hmem h4);
          Some (Some pid, k\<lparr> ksched := update_process pid (\<lambda>_. p\<lparr> proc_context := c \<rparr>) s1,
                             kheap := h4\<lparr> hmem := m5 \<rparr> \<rparr>)
        })"

definition scheduler_create_kernel_task ::
  "page_map \<Rightarrow> task_layout \<Rightarrow> u32 \<Rightarrow> u32 \<Rightarrow> kernel \<Rightarrow> (pid_t option \<times> kernel) option" where
  "scheduler_create_kernel_task pg code name func k = scheduler_create_kernel_task_args pg code name func 0 k"

text \<open>\<open>arch_enter_tasklet\<close> pops the data and the function and jumps there: the data, the address it goes on
  at, and the stack pointer the function starts with.\<close>

definition arch_enter_tasklet :: "mem \<Rightarrow> u32 \<Rightarrow> u32 \<times> u32 \<times> u32" where
  "arch_enter_tasklet m esp = (rd32 m esp, rd32 m (esp + 4), esp + 8)"

section \<open>The tasks of the kernel\<close>

text \<open>One round of the idle task, after an interrupt has ended its \<open>hlt\<close>; the other two tasks print.\<close>

definition idle_task_round :: "sched \<Rightarrow> outcome \<times> sched" where
  "idle_task_round s = scheduler_yield s"

definition set_priority :: "pid_t \<Rightarrow> u32 \<Rightarrow> sched \<Rightarrow> sched" where
  "set_priority pid p s = update_process pid (\<lambda>q. q\<lparr> proc_priority := p \<rparr>) s"

text \<open>\<open>remember\<close> stores the pid in its static variable.\<close>

definition create_task ::
  "page_map \<Rightarrow> task_layout \<Rightarrow> u32 \<Rightarrow> u32 \<Rightarrow> u32 \<Rightarrow> (pid_t \<Rightarrow> sched \<Rightarrow> sched) \<Rightarrow> kernel \<Rightarrow> (outcome \<times> kernel) option" where
  "create_task pg code name func priority remember k =
     map_option (\<lambda>(r, k1). case r of
         None \<Rightarrow> (Halted, k1)
       | Some pid \<Rightarrow>
           (Returned, k1\<lparr> ksched := scheduler_queue_system_process pid
                            (remember pid (set_priority pid priority (ksched k1))) \<rparr>))
       (scheduler_create_kernel_task pg code name func k)"

definition create_idle_task :: "page_map \<Rightarrow> task_layout \<Rightarrow> kernel \<Rightarrow> (outcome \<times> kernel) option" where
  "create_idle_task pg code =
     create_task pg code (idle_name code) (idle_task_addr code) MIN_PRIORITY (\<lambda>pid s. s\<lparr> idle_pid := pid \<rparr>)"

definition create_init_task :: "page_map \<Rightarrow> task_layout \<Rightarrow> kernel \<Rightarrow> (outcome \<times> kernel) option" where
  "create_init_task pg code =
     create_task pg code (init_name code) (init_task_addr code) DEFAULT_PRIORITY (\<lambda>pid s. s\<lparr> init_pid := pid \<rparr>)"

definition create_post_init_task :: "page_map \<Rightarrow> task_layout \<Rightarrow> kernel \<Rightarrow> (outcome \<times> kernel) option" where
  "create_post_init_task pg code =
     create_task pg code (post_init_name code) (post_init_task_addr code) MAX_PRIORITY
       (\<lambda>pid s. s\<lparr> post_init_pid := pid \<rparr>)"

definition and_then ::
  "(kernel \<Rightarrow> (outcome \<times> kernel) option) \<Rightarrow> (kernel \<Rightarrow> (outcome \<times> kernel) option) \<Rightarrow> kernel \<Rightarrow> (outcome \<times> kernel) option" where
  "and_then f g k =
     Option.bind (f k) (\<lambda>(r, k1). if r = Returned then g k1 else Some (r, k1))"

definition scheduler_init :: "page_map \<Rightarrow> task_layout \<Rightarrow> kernel \<Rightarrow> (outcome \<times> kernel) option" where
  "scheduler_init pg code k =
     (let k1 = k\<lparr> ksched := for_up 0 PRIORITY_LEVELS (\<lambda>i s. s\<lparr> run_queues := (run_queues s)(i := []) \<rparr>) (ksched k) \<rparr>
      in and_then (create_idle_task pg code) (and_then (create_init_task pg code) (create_post_init_task pg code)) k1)"

section \<open>Loading a program\<close>

record loader =
  lsched :: sched
  losi :: osi

definition allocate_virtual_page :: "paging_layout \<Rightarrow> machine \<Rightarrow> u32 \<times> machine" where
  "allocate_virtual_page lay s =
     (let (p, m) = kernel_virt_allocator_allocate_page (allocators lay) (kernel_view s)
      in (p, set_kernel_view m s))"

text \<open>A fresh page directory, mapped in the kernel: its physical and its virtual address.\<close>

definition new_address_space :: "paging_layout \<Rightarrow> machine \<Rightarrow> ((u32 \<times> u32) \<times> machine) option" where
  "new_address_space lay s =
     do {
       let (directory, s1) = allocate_physical_page lay s;
       s2 \<leftarrow> clear_physical_page lay directory s1;
       let (mapping, s3) = allocate_virtual_page lay s2;
       (_, s4) \<leftarrow> map_page_in_kernel_addr lay mapping directory (PT_PRESENT OR PT_RW) (PD_PRESENT OR PD_RW) s3;
       Some ((directory, mapping), s4)
     }"

text \<open>The return address at the top of the stack page, through a mapping for the time of the write.\<close>

definition write_return_address :: "paging_layout \<Rightarrow> u32 \<Rightarrow> u32 \<Rightarrow> osi \<Rightarrow> osi option" where
  "write_return_address lay stack address st =
     do {
       (mapping, st1) \<leftarrow> AcpiOsMapMemory lay (ucast stack) STACK_SIZE st;
       let top = mapping + STACK_SIZE - 4;
       s \<leftarrow> vwrite32 (omachine st1) top address;
       AcpiOsUnmapMemory lay (top + 4 - STACK_SIZE) STACK_SIZE (st1\<lparr> omachine := s \<rparr>)
     }"

definition scheduler_load_process_in_new_address_space ::
  "paging_layout \<Rightarrow> (u32 \<Rightarrow> machine \<Rightarrow> (kstring \<times> machine) option) \<Rightarrow> u32 \<Rightarrow> u32 \<Rightarrow> u32 \<Rightarrow> loader
     \<Rightarrow> (pid_t option \<times> loader) option" where
  "scheduler_load_process_in_new_address_space lay new_name kill_addr filename file_header k =
     (case scheduler_create_new_process (lsched k) of
        (None, s1) \<Rightarrow> Some (None, k\<lparr> lsched := s1 \<rparr>)
      | (Some pid, s1) \<Rightarrow> do {
          let p0 = (proc (pcb s1 pid))\<lparr> proc_priority := DEFAULT_PRIORITY \<rparr>;
          ((directory, mapping), m1) \<leftarrow> new_address_space lay (omachine (losi k));
          let (stack, m2) = allocate_physical_page lay m1;
          (name, m3) \<leftarrow> new_name filename m2;
          let p1 = p0\<lparr> physical_cr3 := directory, virtual_cr3 := mapping, physical_stack := stack,
                       proc_name := name \<rparr>;
          (_, p2, o4) \<leftarrow> load_elf_file_in_process lay p1 file_header ((losi k)\<lparr> omachine := m3 \<rparr>);
          m5 \<leftarrow> map_kernel_inside_user lay p2 (omachine o4);
          let c = (proc_context p2)\<lparr> ctx_ebp := USER_STACK_TOP_ADDR - STACK_SIZE,
                                     ctx_esp := USER_STACK_TOP_ADDR - 4 \<rparr>;
          o6 \<leftarrow> write_return_address lay stack kill_addr (o4\<lparr> omachine := m5 \<rparr>);
          let s2 = update_process pid (\<lambda>_. p2\<lparr> proc_context := c \<rparr>) s1;
          Some (Some pid, \<lparr> lsched = scheduler_queue_system_process pid s2, losi = o6 \<rparr>)
        })"

end
