(* ===== verification/Boot.thy ===== *)
theory Boot
  imports Pcie Tasks Interrupts Keyboard
begin

text \<open>
  The start of the kernel: the page tables and code of arch/i686/boot, the exception handlers, the
  task state segment (usermode/gdt.c), the keyboard's indirection (keyboard\_driver.c), the start of the
  ACPI library (osi\_shim/acpi\_init.c), whose functions are arguments, and the search for the boot
  module in \<open>kernel_main\<close>.
\<close>

unbundle bit_operations_syntax

section \<open>The first page tables\<close>

text \<open>The tables of boot\_PT.s: each entry of the table maps the page of its index, and all 1024 entries of
  the directory lead to that table.  The assembler lays them down as part of the image.\<close>

definition boot_page_table :: "u32 list" where
  "boot_page_table = map (\<lambda>i. of_nat i * PAGE_SIZE OR PT_PRESENT) [0..<1024]"

definition boot_page_directory_entries :: "u32 \<Rightarrow> u32 list" where
  "boot_page_directory_entries table = replicate 1024 (V2P table + PD_PRESENT)"

definition lay_down :: "u32 \<Rightarrow> u32 list \<Rightarrow> mem \<Rightarrow> mem" where
  "lay_down a ws m = fold (\<lambda>i t. wr32 t (a + 4 * of_nat i) (ws ! i)) [0..<length ws] m"

definition load_boot_tables :: "u32 \<Rightarrow> paging_layout \<Rightarrow> mem \<Rightarrow> mem" where
  "load_boot_tables table lay m =
     lay_down (V2P (boot_page_directory lay)) (boot_page_directory_entries table)
       (lay_down (V2P table) boot_page_table m)"

text \<open>\<open>_start\<close> loads the directory and turns paging on; \<open>upper_memory\<close> then removes the first entry
  through its virtual address and loads the directory again.\<close>

definition start_code :: "paging_layout \<Rightarrow> machine \<Rightarrow> machine" where
  "start_code lay s = s\<lparr> loaded_cr3 := V2P (boot_page_directory lay), write_protect := False \<rparr>"

definition upper_memory :: "paging_layout \<Rightarrow> machine \<Rightarrow> machine option" where
  "upper_memory lay s =
     do {
       s1 \<leftarrow> vwrite32 s (boot_page_directory lay) 0;
       Some (s1\<lparr> loaded_cr3 := loaded_cr3 s1 \<rparr>)
     }"

section \<open>Exceptions\<close>

record interrupt_frame =
  frame_error_code :: u16
  frame_eip :: u32
  frame_cs :: u16
  frame_eflags :: u32
  frame_esp :: u32
  frame_ss :: u16
  frame_es :: u16
  frame_ds :: u16
  frame_fs :: u16
  frame_gs :: u16

text \<open>What the handler of an exception prints: its name, and for two of them the frame.\<close>

definition exception_name :: "u8 \<Rightarrow> string" where
  "exception_name n =
     (if n = 0 then ''Division By Zero'' else if n = 1 then ''Debug''
      else if n = 2 then ''Non Maskable Interrupt'' else if n = 3 then ''Breakpoint''
      else if n = 4 then ''Into Detected Overflow'' else if n = 5 then ''Out of Bounds''
      else if n = 6 then ''Invalid Opcode'' else if n = 7 then ''No Coprocessor''
      else if n = 8 then ''Double Fault'' else if n = 9 then ''Coprocessor Segment Overrun''
      else if n = 10 then ''Bad TSS'' else if n = 11 then ''Segment Not Present''
      else if n = 12 then ''Stack Fault'' else if n = 13 then ''General Protection Fault''
      else if n = 14 then ''Page Fault'' else if n = 15 then ''Unknown Interrupt''
      else if n = 16 then ''Coprocessor Fault'' else if n = 17 then ''Alignment Check''
      else if n = 18 then ''Machine Check'' else ''Reserved'')"

text \<open>A line: the text, and the number that \<open>%X\<close> prints after it.\<close>

definition frame_lines :: "interrupt_frame \<Rightarrow> (string \<times> u32 option) list" where
  "frame_lines f =
     [(''heres some info:'', None), (''error_code: '', Some (ucast (frame_error_code f))),
      (''eip: '', Some (frame_eip f)), (''cs: '', Some (ucast (frame_cs f))),
      (''eflags: '', Some (frame_eflags f)), (''esp: '', Some (frame_esp f)),
      (''ss: '', Some (ucast (frame_ss f))), (''es: '', Some (ucast (frame_es f))),
      (''ds: '', Some (ucast (frame_ds f))), (''fs: '', Some (ucast (frame_fs f))),
      (''gs: '', Some (ucast (frame_gs f)))]"

definition exception_lines :: "u8 \<Rightarrow> interrupt_frame \<Rightarrow> u32 \<Rightarrow> (string \<times> u32 option) list" where
  "exception_lines n f faulting_address =
     (exception_name n, None) #
     (if n = 13 then frame_lines f
      else if n = 14 then frame_lines f @ [(''address in cr2: '', Some faulting_address)]
      else [])"

text \<open>Then it halts, with interrupts off, as the gate leaves them.\<close>

definition exception_handler ::
  "u8 \<Rightarrow> interrupt_frame \<Rightarrow> u32 \<Rightarrow> sched \<Rightarrow> outcome \<times> (string \<times> u32 option) list \<times> sched" where
  "exception_handler n f faulting_address s =
     (Halted, exception_lines n f faulting_address, s\<lparr> interrupts_on := False \<rparr>)"

section \<open>The task state segment\<close>

text \<open>\<open>struct tss_entry_struct\<close> is 104 bytes: \<open>esp0\<close> at 4, \<open>ss0\<close> at 8.  Its address and the pages of the
  kernel's stack are static.\<close>

record tss_state =
  tss_heap :: heap
  kernel_stack_phys_page :: u32
  kernel_stack_virt_page :: u32
  task_register :: u16

definition TSS_SIZE :: u32 where "TSS_SIZE = 104"

definition set_tss_word :: "u32 \<Rightarrow> u32 \<Rightarrow> u32 \<Rightarrow> tss_state \<Rightarrow> tss_state" where
  "set_tss_word tss_entry offs v s =
     s\<lparr> tss_heap := (tss_heap s)\<lparr> hmem := wr32 (hmem (tss_heap s)) (tss_entry + offs) v \<rparr> \<rparr>"

definition flush_tss :: "tss_state \<Rightarrow> tss_state" where
  "flush_tss s = s\<lparr> task_register := (5 * 8) OR 3 \<rparr>"

definition write_tss :: "page_map \<Rightarrow> layout \<Rightarrow> u32 \<Rightarrow> tss_state \<Rightarrow> tss_state" where
  "write_tss pg lay tss_entry s =
     (let m1 = snd (kmemset (hmem (tss_heap s)) tss_entry 0 TSS_SIZE);
          s1 = set_tss_word tss_entry 8 (2 * 8) (s\<lparr> tss_heap := (tss_heap s)\<lparr> hmem := m1 \<rparr> \<rparr>);
          (phys, m2) = global_phys_allocator_allocate_page lay (hmem (tss_heap s1));
          (virt, m3) = kernel_virt_allocator_allocate_page lay m2;
          s2 = s1\<lparr> tss_heap := (tss_heap s1)\<lparr> hmem := pg virt phys m3 \<rparr>,
                   kernel_stack_phys_page := phys, kernel_stack_virt_page := virt \<rparr>
      in flush_tss (set_tss_word tss_entry 4 (kernel_stack_virt_page s2 + PAGE_SIZE) s2))"

definition get_kernel_stack_phys_page :: "tss_state \<Rightarrow> u32" where
  "get_kernel_stack_phys_page s = kernel_stack_phys_page s"

definition get_kernel_stack_virt_page :: "tss_state \<Rightarrow> u32" where
  "get_kernel_stack_virt_page s = kernel_stack_virt_page s"

definition set_kernel_stack :: "u32 \<Rightarrow> u32 \<Rightarrow> tss_state \<Rightarrow> tss_state" where
  "set_kernel_stack tss_entry stack s = set_tss_word tss_entry 4 stack s"

section \<open>The keyboard's indirection\<close>

text \<open>The handler calls whatever function was installed last, with the context installed last.\<close>

record 'k keyboard_slots =
  data_context :: u32
  current_process_keystroke_implementation :: "u32 \<Rightarrow> u8 \<Rightarrow> 'k \<Rightarrow> 'k option"

definition set_data_context :: "u32 \<Rightarrow> 'k keyboard_slots \<Rightarrow> 'k keyboard_slots" where
  "set_data_context new_context s = s\<lparr> data_context := new_context \<rparr>"

definition set_process_keystroke_implementation ::
  "(u32 \<Rightarrow> u8 \<Rightarrow> 'k \<Rightarrow> 'k option) \<Rightarrow> 'k keyboard_slots \<Rightarrow> 'k keyboard_slots" where
  "set_process_keystroke_implementation f s = s\<lparr> current_process_keystroke_implementation := f \<rparr>"

text \<open>The interrupt handler over the interrupt controllers, with the scan code the port gives.\<close>

definition keyboard_interrupt :: "'k keyboard_slots \<Rightarrow> u8 \<Rightarrow> interrupts \<times> 'k \<Rightarrow> (interrupts \<times> 'k) option" where
  "keyboard_interrupt slots scancode s =
     map_option (\<lambda>k. (pic_send_eoi 1 (fst s), k))
       (current_process_keystroke_implementation slots (data_context slots) scancode (snd s))"

definition enable_keyboard :: "u32 \<Rightarrow> interrupts \<Rightarrow> interrupts" where
  "enable_keyboard handler s = idt_register_handler 33 handler (pic_irq_enable 1 s)"

section \<open>The start of the ACPI library\<close>

definition AcpiGbl_ExceptionNames_Env :: "string list" where
  "AcpiGbl_ExceptionNames_Env =
     [''AE_OK'', ''AE_ERROR'', ''AE_NO_ACPI_TABLES'', ''AE_NO_NAMESPACE'', ''AE_NO_MEMORY'', ''AE_NOT_FOUND'',
      ''AE_NOT_EXIST'', ''AE_ALREADY_EXISTS'', ''AE_TYPE'', ''AE_NULL_OBJECT'', ''AE_NULL_ENTRY'',
      ''AE_BUFFER_OVERFLOW'', ''AE_STACK_OVERFLOW'', ''AE_STACK_UNDERFLOW'', ''AE_NOT_IMPLEMENTED'', ''AE_SUPPORT'',
      ''AE_LIMIT'', ''AE_TIME'', ''AE_ACQUIRE_DEADLOCK'', ''AE_RELEASE_DEADLOCK'', ''AE_NOT_ACQUIRED'',
      ''AE_ALREADY_ACQUIRED'', ''AE_NO_HARDWARE_RESPONSE'', ''AE_NO_GLOBAL_LOCK'', ''AE_ABORT_METHOD'',
      ''AE_SAME_HANDLER'', ''AE_NO_HANDLER'', ''AE_OWNER_ID_LIMIT'', ''AE_NOT_CONFIGURED'', ''AE_ACCESS'', ''AE_IO_ERROR'']"

text \<open>A call of the library and the report of its failure; a status beyond the names reads outside the
  table (\<open>None\<close>).\<close>

type_synonym 'c acpi_call = "'c \<Rightarrow> u32 \<times> 'c"

definition acpi_step :: "'c acpi_call \<Rightarrow> string list \<times> 'c \<Rightarrow> (string list \<times> 'c) option" where
  "acpi_step call s =
     (let (status, c) = call (snd s)
      in if status = 0 then Some (fst s, c)
         else if unat status < length AcpiGbl_ExceptionNames_Env
         then Some (fst s @ [AcpiGbl_ExceptionNames_Env ! unat status], c)
         else None)"

text \<open>The state has the library's own, the reports and the interrupt flag.\<close>

definition acpi_init ::
  "'c acpi_call \<Rightarrow> 'c acpi_call \<Rightarrow> 'c acpi_call \<Rightarrow> 'c acpi_call \<Rightarrow> 'c acpi_call \<Rightarrow> 'c \<Rightarrow> (bool \<times> string list \<times> 'c) option" where
  "acpi_init AcpiInitializeSubsystem AcpiInitializeTables AcpiLoadTables AcpiEnableSubsystem AcpiInitializeObjects c =
     do {
       s1 \<leftarrow> acpi_step AcpiInitializeSubsystem ([], c);
       s2 \<leftarrow> acpi_step AcpiInitializeTables s1;
       s3 \<leftarrow> acpi_step AcpiLoadTables s2;
       s4 \<leftarrow> acpi_step AcpiEnableSubsystem s3;
       (log, c5) \<leftarrow> acpi_step AcpiInitializeObjects s4;
       Some (False, log, c5)
     }"

section \<open>The boot module\<close>

definition MULTIBOOT_TAG_TYPE_END :: u32 where "MULTIBOOT_TAG_TYPE_END = 0"
definition MULTIBOOT_TAG_TYPE_MODULE :: u32 where "MULTIBOOT_TAG_TYPE_MODULE = 3"

text \<open>\<open>idpg\<close> is the effect of \<open>identity_map_page_in_kernel_addr\<close> on the kernel's memory, as in \<open>Elf\<close>.
  A tag has its type at 0 and its size at 4, and the next one starts at the next multiple of 8.\<close>

definition next_tag :: "u32 \<Rightarrow> u32 \<Rightarrow> u32" where
  "next_tag tag tag_size = tag + ((tag_size + 7) AND NOT 7)"

partial_function (option) find_module :: "(u32 \<Rightarrow> mem \<Rightarrow> mem) \<Rightarrow> u32 \<Rightarrow> u32 \<Rightarrow> mem \<Rightarrow> (u32 \<times> mem) option" where
  "find_module idpg tag module m =
     (if rd32 m tag \<noteq> MULTIBOOT_TAG_TYPE_END
      then let m1 = idpg (tag AND 0xFFFFF000) m
           in find_module idpg (next_tag tag (rd32 m1 (tag + 4)))
                (if rd32 m1 tag = MULTIBOOT_TAG_TYPE_MODULE then tag else module) m1
      else Some (module, m))"

text \<open>The start of the module, which is read also when no module was found and \<open>module\<close> is NULL.\<close>

definition module_start :: "(u32 \<Rightarrow> mem \<Rightarrow> mem) \<Rightarrow> u32 \<Rightarrow> mem \<Rightarrow> (u32 \<times> mem) option" where
  "module_start idpg mboot_header m =
     do {
       let tag = mboot_header + 8;
       let m1 = idpg (tag AND 0xFFFFF000) (idpg (mboot_header AND 0xFFFFF000) m);
       (module, m2) \<leftarrow> find_module idpg tag 0 m1;
       let addr = rd32 m2 (module + 8);
       Some (addr, idpg (addr AND 0xFFFFF000) m2)
     }"

end
