(* ===== verification/BootProps.thy ===== *)
theory BootProps
  imports Boot PagingProps
begin

text \<open>
  What the start of the kernel guarantees: after the code of upperhalf\_boot.s the addresses from 4 MiB on are mapped to
  the first 4 MiB of memory, so the linked addresses of the kernel reach its image, and the rest faults; and the search
  for the boot module returns the last module of the loader's list.
\<close>

unbundle bit_operations_syntax

section \<open>The first page tables\<close>

lemma lay_down_load:
  assumes t: "page_aligned t" and u: "page_aligned u" and j: "unat j < 1024" and n: "length ws \<le> 1024"
  shows "rd32 (lay_down t ws m) (u + 4 * j) =
    (if u = t \<and> unat j < length ws then ws ! unat j else rd32 m (u + 4 * j))"
proof -
  have "k \<le> 1024 \<Longrightarrow> rd32 (fold (\<lambda>i x. wr32 x (t + 4 * of_nat i) (ws ! i)) [0..<k] m) (u + 4 * j) =
    (if u = t \<and> unat j < k then ws ! unat j else rd32 m (u + 4 * j))" for k
  proof (induction k)
    case (Suc k)
    have k: "unat (of_nat k :: u32) = k" using Suc.prems by (simp add: unat_of_nat_small)
    have "unat (of_nat k :: u32) < 1024" using Suc.prems k by simp
    note store = entry_store_load [OF t this u j]
    have "j = of_nat k \<longleftrightarrow> unat j = k" using k by (auto simp: word_unat_eq_iff)
    then show ?case using Suc by (auto simp: store less_Suc_eq)
  qed simp
  from this [OF n] show ?thesis by (simp add: lay_down_def)
qed

lemma boot_tables_load:
  assumes t: "page_aligned (V2P table)" and d: "page_aligned (V2P (boot_page_directory lay))"
    and ne: "V2P table \<noteq> V2P (boot_page_directory lay)" and j: "unat j < 1024"
  shows "rd32 (load_boot_tables table lay m) (V2P (boot_page_directory lay) + 4 * j) = V2P table + 1"
    "rd32 (load_boot_tables table lay m) (V2P table + 4 * j) = j * PAGE_SIZE OR 1"
proof -
  let ?d = "V2P (boot_page_directory lay)" and ?t = "V2P table"
  have l: "length (boot_page_directory_entries table) = 1024" "length boot_page_table = 1024"
    by (simp_all add: boot_page_directory_entries_def boot_page_table_def)
  show "rd32 (load_boot_tables table lay m) (?d + 4 * j) = ?t + 1"
    using j lay_down_load [OF d d j, of "boot_page_directory_entries table"] l
    by (simp add: load_boot_tables_def) (simp add: boot_page_directory_entries_def PD_PRESENT_def)
  have "rd32 (load_boot_tables table lay m) (?t + 4 * j) = boot_page_table ! unat j"
    using j lay_down_load [OF d t j, of "boot_page_directory_entries table"] lay_down_load [OF t t j, of boot_page_table] l ne
    by (simp add: load_boot_tables_def)
  then show "rd32 (load_boot_tables table lay m) (?t + 4 * j) = j * PAGE_SIZE OR 1"
    using j by (simp add: boot_page_table_def PT_PRESENT_def)
qed

lemma page_number_unat: "unat j < 1024 \<Longrightarrow> unat (j * PAGE_SIZE) = unat j * 4096"
  by (simp add: PAGE_SIZE_def unat_word_ariths)

text \<open>The translation of an address whose directory entry leads to the boot table.\<close>

lemma boot_walk:
  assumes "page_aligned t" "rd32 pm (d + 4 * table_index a) = t + 1"
    "rd32 pm (t + 4 * page_index_in_table a) = page_index_in_table a * PAGE_SIZE OR 1"
  shows "page_walk pm d a = Some (t + 1, page_index_in_table a * PAGE_SIZE OR 1)"
    "return_page_address (page_index_in_table a * PAGE_SIZE OR 1) OR return_page_offset a = a mod 0x400000"
proof -
  have p: "page_aligned (page_index_in_table a * PAGE_SIZE)" by (simp add: page_number_unat)
  have t1: "t + 1 = t OR 1" using frame_offset [OF assms(1), of 1] by simp
  show "page_walk pm d a = Some (t + 1, page_index_in_table a * PAGE_SIZE OR 1)"
    by (rule page_walk_Some [OF assms(2) _ _])
      (use assms entry_frame [OF assms(1), of 1] in \<open>simp_all add: t1 paging_flags bit.conj_disj_distrib2\<close>)
  have "unat (page_index_in_table a * PAGE_SIZE + return_page_offset a) = unat a mod 4194304"
    using frame_offset_unat [OF p, of "return_page_offset a"] mod_mult2_eq [of "unat a" 4096 1024]
    by (simp add: page_number_unat return_page_offset_unat page_index_unat)
  then have "page_index_in_table a * PAGE_SIZE + return_page_offset a = a mod 0x400000"
    by (simp add: word_unat_eq_iff unat_mod_distrib)
  then show "return_page_address (page_index_in_table a * PAGE_SIZE OR 1) OR return_page_offset a = a mod 0x400000"
    using entry_frame [OF p, of 1] frame_offset [OF p, of "return_page_offset a"] by (simp add: return_page_offset_unat)
qed

text \<open>C12. After the start code has removed the first entry of the boot page directory, every address below
  4 MiB faults and every other address is translated to itself modulo 4 MiB: the kernel, linked at
  0xC0000000 above its image, reaches its image, and nothing else is mapped.\<close>

theorem boot_maps_low_memory:
  assumes "page_aligned (V2P table)" "page_aligned (V2P (boot_page_directory lay))"
    and "V2P table \<noteq> V2P (boot_page_directory lay)"
    and "KERNEL_OFFSET \<le> boot_page_directory lay" "boot_page_directory lay < KERNEL_OFFSET + 0x400000"
    and "pmem s = load_boot_tables table lay m"
  shows "\<exists>s'. upper_memory lay (start_code lay s) = Some s' \<and>
    (\<forall>a. translate s' a = (if a < 0x400000 then None else Some (a mod 0x400000)))"
proof -
  let ?d = "V2P (boot_page_directory lay)" and ?t = "V2P table"
  let ?s = "start_code lay s"
  note load = boot_tables_load [OF assms(1-3), of _ m, folded assms(6)]
  have walk: "page_walk (pmem s) ?d a = Some (?t + 1, page_index_in_table a * PAGE_SIZE OR 1)" for a
    by (rule boot_walk(1) [OF assms(1)]) (simp_all add: load)
  have st: "pmem ?s = pmem s" "loaded_cr3 ?s = ?d" "write_protect ?s = False" by (simp_all add: start_code_def)
  have target: "return_page_address (page_index_in_table a * PAGE_SIZE OR 1) OR return_page_offset a = a mod 0x400000" for a
    by (rule boot_walk(2) [OF assms(1), of "pmem s" ?d]) (simp_all add: load)
  have "translate_write ?s (boot_page_directory lay) = Some (boot_page_directory lay mod 0x400000)"
    by (simp only: translate_write_def st walk option.case prod.case target simp_thms if_False)
  moreover have "boot_page_directory lay mod 0x400000 = ?d"
  proof -
    have "3221225472 \<le> unat (boot_page_directory lay)" "unat (boot_page_directory lay) < 3225419776"
      using assms(4,5) by (simp_all add: KERNEL_OFFSET_def word_le_nat_alt word_less_nat_alt)
    moreover define k where "k = unat (boot_page_directory lay) - 3221225472"
    ultimately have "unat (boot_page_directory lay) = k + 768 * 4194304" "k < 4194304" by linarith+
    then have "unat (boot_page_directory lay) mod 4194304 = unat (boot_page_directory lay) - 3221225472"
      by (simp only: mod_mult_self1 mod_less)
    then show ?thesis
      using V2P_unat [OF assms(4)] by (simp add: word_unat_eq_iff unat_mod_distrib)
  qed
  ultimately have up: "upper_memory lay ?s = Some (?s\<lparr> pmem := wr32 (pmem s) ?d 0 \<rparr>)"
    by (simp add: upper_memory_def vwrite32_def start_code_def)
  have dir: "rd32 (wr32 (pmem s) ?d 0) (?d + 4 * table_index a) = (if table_index a = 0 then 0 else ?t + 1)" for a
    using entry_store_load [OF assms(2) _ assms(2) table_index_less, of 0] load(1) by simp
  have tab: "rd32 (wr32 (pmem s) ?d 0) (?t + 4 * page_index_in_table a) = page_index_in_table a * PAGE_SIZE OR 1" for a
    using entry_store_load [OF assms(2) _ assms(1) page_index_less, of 0] load(2) assms(3) by simp
  have low: "table_index a = 0 \<longleftrightarrow> a < 0x400000" for a
    by (simp add: word_unat_eq_iff table_index_unat word_less_nat_alt div_eq_0_iff)
  have "translate (?s\<lparr> pmem := wr32 (pmem s) ?d 0 \<rparr>) a = (if a < 0x400000 then None else Some (a mod 0x400000))" for a
  proof (cases "a < 0x400000")
    case True
    then show ?thesis using dir [of a] low [of a] by (simp add: translate_def start_code_def page_walk_def)
  next
    case False
    then have "rd32 (wr32 (pmem s) ?d 0) (?d + 4 * table_index a) = ?t + 1" using dir low by simp
    from boot_walk [OF assms(1) this tab] show ?thesis using False by (simp add: translate_def start_code_def)
  qed
  with up show ?thesis by blast
qed

theorem boot_maps_low_memory_witness:
  "\<exists>s'. upper_memory (sample_paging_layout\<lparr> boot_page_directory := 0xC0120000 \<rparr>)
      (start_code (sample_paging_layout\<lparr> boot_page_directory := 0xC0120000 \<rparr>)
        (sample_machine\<lparr> pmem := load_boot_tables 0xC0121000 (sample_paging_layout\<lparr> boot_page_directory := 0xC0120000 \<rparr>) (\<lambda>_. 0) \<rparr>)) = Some s' \<and>
     translate s' 0xC0100000 = Some 0x100000 \<and> translate s' 0x1000 = None"
  using boot_maps_low_memory [where table = "0xC0121000" and m = "\<lambda>_. 0" and lay = "sample_paging_layout\<lparr> boot_page_directory := 0xC0120000 \<rparr>"
      and s = "sample_machine\<lparr> pmem := load_boot_tables 0xC0121000 (sample_paging_layout\<lparr> boot_page_directory := 0xC0120000 \<rparr>) (\<lambda>_. 0) \<rparr>"]
  by (fastforce simp: V2P_def KERNEL_OFFSET_def)

section \<open>The boot module\<close>

text \<open>A list of tags as the loader lays it out: each tag as its address, its type and its size.\<close>

inductive tags_at :: "mem \<Rightarrow> u32 \<Rightarrow> (u32 \<times> u32) list \<Rightarrow> bool" for m where
  last: "rd32 m a = MULTIBOOT_TAG_TYPE_END \<Longrightarrow> tags_at m a []"
| tag: "rd32 m a \<noteq> MULTIBOOT_TAG_TYPE_END \<Longrightarrow> tags_at m (next_tag a (rd32 m (a + 4))) ts \<Longrightarrow>
    tags_at m a ((a, rd32 m a) # ts)"

definition last_module :: "(u32 \<times> u32) list \<Rightarrow> u32 \<Rightarrow> u32" where
  "last_module ts found =
     (case filter (\<lambda>t. snd t = MULTIBOOT_TAG_TYPE_MODULE) ts of [] \<Rightarrow> found | ms \<Rightarrow> fst (last ms))"

lemma last_module_Cons:
  "last_module ((a, t) # ts) found = last_module ts (if t = MULTIBOOT_TAG_TYPE_MODULE then a else found)"
  by (auto simp: last_module_def split: list.split)

lemma find_module_tags:
  assumes "tags_at m a ts" "\<And>p. idpg p m = m"
  shows "find_module idpg a module m = Some (last_module ts module, m)"
  using assms(1)
proof (induction arbitrary: module rule: tags_at.induct)
  case (last a)
  then show ?case by (subst find_module.simps) (simp add: last_module_def)
next
  case (tag a ts)
  then show ?case by (subst find_module.simps) (simp add: assms(2) Let_def last_module_Cons)
qed

text \<open>When the loader's list of tags ends, and the pages that it lies in are mapped at their own addresses
  already, the search returns, and with the last module tag of the list; without one it returns NULL, and the
  kernel takes the word at address 8 for the address of its module.\<close>

theorem boot_module_is_last:
  assumes "tags_at m (mboot_header + 8) ts" "\<And>p. idpg p m = m"
  shows "module_start idpg mboot_header m = Some (rd32 m (last_module ts 0 + 8), m)"
  using find_module_tags [OF assms(1), of idpg 0] by (simp add: module_start_def assms(2) Let_def)

theorem boot_module_is_last_witness:
  "module_start (\<lambda>_ m. m) 0x9000 (wr32 (wr32 (wr32 (\<lambda>_. 0) 0x9008 3) 0x900C 16) 0x9010 0x200000) =
     Some (0x200000, wr32 (wr32 (wr32 (\<lambda>_. 0) 0x9008 3) 0x900C 16) 0x9010 0x200000)"
proof -
  let ?m = "wr32 (wr32 (wr32 (\<lambda>_. 0) 0x9008 3) 0x900C 16) 0x9010 (0x200000 :: u32)"
  have z: "rd32 (\<lambda>_. 0) a = 0" for a by (simp add: rd32_def)
  have r: "rd32 ?m 0x9008 = 3" "rd32 ?m 0x900C = 16" "rd32 ?m 0x9010 = 0x200000" "rd32 ?m 0x9018 = 0"
    by (simp_all add: z)
  have "tags_at ?m (0x9000 + 8) [(0x9008, 3)]"
    using tags_at.tag [of ?m "0x9008" "[]"] tags_at.last [of ?m "0x9018"] r
    by (simp add: MULTIBOOT_TAG_TYPE_END_def next_tag_def)
  from boot_module_is_last [OF this, of "\<lambda>_ m. m"] show ?thesis
    using r by (simp add: last_module_def MULTIBOOT_TAG_TYPE_MODULE_def)
qed

end
