(* ===== verification/TasksProps.thy ===== *)
theory TasksProps
  imports Tasks
begin

text \<open>
  What the creation of processes guarantees: a new kernel task starts in its function with its argument and
  returns into the scheduler; \<open>scheduler_init\<close> leaves the three kernel tasks as the invariant of the scheduler
  needs them; a loaded program is queued; and a process that is resumed runs the rest of its own last
  switch again.
\<close>

section \<open>A new kernel task\<close>

lemma update_process_simps [simp]:
  "state_of (update_process pid f s) p = state_of s p"
  "proc (pcb (update_process pid f s) p) = (if p = pid then f (proc (pcb s p)) else proc (pcb s p))"
  "run_queues (update_process pid f s) = run_queues s"
  "next_pid (update_process pid f s) = next_pid s"
  "idle_pid (update_process pid f s) = idle_pid s"
  "init_pid (update_process pid f s) = init_pid s"
  "post_init_pid (update_process pid f s) = post_init_pid s"
  "started (update_process pid f s) = started s"
  "current_pid (update_process pid f s) = current_pid s"
  by (simp_all add: update_process_def)

lemma aligned4_add: "aligned4 a \<Longrightarrow> 4 dvd unat k \<Longrightarrow> aligned4 (a + k)"
  by (simp add: unat_word_ariths dvd_mod)

lemma aligned4_mult: "aligned4 b \<Longrightarrow> aligned4 (a * b)"
  by (simp add: unat_word_ariths dvd_mod)

lemma virtual_page_aligned: "aligned4 (fst (kernel_virt_allocator_allocate_page lay m))"
proof -
  have p: "aligned4 (P2V (i * (1 * PAGE_SIZE)))" for i
    unfolding P2V_def by (rule aligned4_add [OF aligned4_mult]) (simp_all add: mem_constants)
  have "aligned4 (P2V 0)" by (simp add: mem_constants)
  then show ?thesis using p
    by (auto simp: kernel_virt_allocator_allocate_page_def kernel_virt_allocator_allocate_pages_def
        binary_buddy_memory_allocator_allocate_def Let_def split: prod.split)
qed

text \<open>The stack that the creation prepares is the one \<open>arch_enter_tasklet\<close> takes apart.\<close>

lemma prepared_stack_enters:
  assumes "aligned4 stack" "prepare_stack code stack func data cm = (c, m)"
  shows "arch_enter_tasklet m (ctx_esp c) = (data, func, stack + STACK_SIZE - 4)"
    "rd32 m (stack + STACK_SIZE - 4) = scheduler_kill_current_process_addr code"
    "ctx_eip c = arch_enter_tasklet_addr code"
proof -
  let ?k = "scheduler_kill_current_process_addr code"
  have al: "aligned4 (4092 + stack)" "aligned4 (4088 + stack)" "aligned4 (4084 + stack)"
    unfolding add.commute [of _ stack] by (rule aligned4_add [OF assms(1)]; simp)+
  have c: "ctx_esp c = 4084 + stack" "ctx_eip c = arch_enter_tasklet_addr code"
    "m = wr32 (wr32 (wr32 (snd cm) (4092 + stack) ?k) (4088 + stack) func) (4084 + stack) data"
    using assms(2) by (auto simp: prepare_stack_def push_word_def STACK_SIZE_def)
  have "rd32 m (4084 + stack) = data" "rd32 m (4088 + stack) = func" "rd32 m (4092 + stack) = ?k"
    unfolding c(3) using al by simp_all
  then show "arch_enter_tasklet m (ctx_esp c) = (data, func, stack + STACK_SIZE - 4)"
    "rd32 m (stack + STACK_SIZE - 4) = ?k" "ctx_eip c = arch_enter_tasklet_addr code"
    by (simp_all add: c(1,2) arch_enter_tasklet_def STACK_SIZE_def)
qed

text \<open>What creating a process does to the scheduler.\<close>

lemma create_next_pid:
  assumes "state_of s (next_pid s) = PROCESS_EMPTY"
  shows "fst (scheduler_create_new_process s) = Some (next_pid s)"
    "state_of (snd (scheduler_create_new_process s)) q =
       (if q = next_pid s then PROCESS_NEW else state_of s q)"
    "next_pid (snd (scheduler_create_new_process s)) = (next_pid s + 1) mod MAX_PROCESS"
    "q \<noteq> next_pid s \<Longrightarrow> pcb (snd (scheduler_create_new_process s)) q = pcb s q"
    "run_queues (snd (scheduler_create_new_process s)) = run_queues s"
    "idle_pid (snd (scheduler_create_new_process s)) = idle_pid s"
    "init_pid (snd (scheduler_create_new_process s)) = init_pid s"
    "post_init_pid (snd (scheduler_create_new_process s)) = post_init_pid s"
    "started (snd (scheduler_create_new_process s)) = started s"
    "priority_of (snd (scheduler_create_new_process s)) (next_pid s) = DEFAULT_PRIORITY"
  using assms by (simp_all add: scheduler_create_new_process_def get_free_pid_def Let_def)

lemma kernel_task_created:
  assumes "scheduler_create_kernel_task_args pg code name func data k = Some (Some pid, k')"
  obtains s1 p where "scheduler_create_new_process (ksched k) = (Some pid, s1)"
    "ksched k' = update_process pid (\<lambda>_. p) s1"
    "proc_pid p = proc_pid (proc (pcb s1 pid))" "proc_priority p = priority_of s1 pid" "proc_system p"
    "ctx_eip (proc_context p) = arch_enter_tasklet_addr code"
    "\<exists>esp. arch_enter_tasklet (hmem (kheap k')) (ctx_esp (proc_context p)) = (data, func, esp) \<and>
       rd32 (hmem (kheap k')) esp = scheduler_kill_current_process_addr code"
proof -
  obtain s1 where s1: "scheduler_create_new_process (ksched k) = (Some pid, s1)"
    using assms by (auto simp: scheduler_create_kernel_task_args_def Let_def bind_eq_Some_conv case_prod_unfold
        split: option.splits) (metis prod.collapse)
  obtain stack m1 where stack: "kernel_virt_allocator_allocate_page (page_allocators code) (hmem (kheap k)) = (stack, m1)"
    by fastforce
  obtain f m2 where f: "global_phys_allocator_allocate_page (page_allocators code) m1 = (f, m2)" by fastforce
  obtain str h4 where str: "string_new pg (page_allocators code) name ((kheap k)\<lparr> hmem := pg stack f m2 \<rparr>) = Some (str, h4)"
    using assms by (auto simp: scheduler_create_kernel_task_args_def Let_def s1 stack f bind_eq_Some_conv
        case_prod_unfold)
  let ?p = "(proc (pcb s1 pid))\<lparr> proc_system := True, physical_cr3 := V2P (kernel_directory code),
    virtual_cr3 := kernel_directory code, physical_stack := f, proc_name := str \<rparr>"
  obtain c m5 where c: "prepare_stack code stack func data (proc_context ?p, hmem h4) = (c, m5)" by fastforce
  have k': "k' = k\<lparr> ksched := update_process pid (\<lambda>_. ?p\<lparr> proc_context := c \<rparr>) s1, kheap := h4\<lparr> hmem := m5 \<rparr> \<rparr>"
    using assms c by (simp add: scheduler_create_kernel_task_args_def Let_def s1 stack f str)
  have "aligned4 stack" using virtual_page_aligned [of "page_allocators code" "hmem (kheap k)"] stack by simp
  note enter = prepared_stack_enters [OF this c]
  show thesis
    by (rule that [of s1 "?p\<lparr> proc_context := c \<rparr>"]) (use s1 k' enter in simp_all)
qed

section \<open>The tasks of the kernel\<close>

text \<open>A created and queued task: the scheduler's state in terms of the one before.\<close>

lemma create_task_effect:
  assumes "create_task pg code name func priority remember k = Some (r, k')"
    and "state_of (ksched k) (next_pid (ksched k)) = PROCESS_EMPTY"
  obtains p where "r = Returned"
    "ksched k' = scheduler_queue_system_process (next_pid (ksched k))
       (remember (next_pid (ksched k)) (set_priority (next_pid (ksched k)) priority
          (update_process (next_pid (ksched k)) (\<lambda>_. p) (snd (scheduler_create_new_process (ksched k))))))"
proof -
  obtain pid' k1 where k1: "scheduler_create_kernel_task_args pg code name func 0 k = Some (pid', k1)"
    using assms(1) by (auto simp: create_task_def scheduler_create_kernel_task_def)
  obtain s1 where s1: "scheduler_create_new_process (ksched k) = (Some (next_pid (ksched k)), s1)"
    using create_next_pid(1) [OF assms(2)] by (metis prod.collapse)
  have "pid' = Some (next_pid (ksched k))"
    using k1 by (auto simp: scheduler_create_kernel_task_args_def Let_def s1 bind_eq_Some_conv case_prod_unfold)
  with k1 have k1: "scheduler_create_kernel_task_args pg code name func 0 k = Some (Some (next_pid (ksched k)), k1)"
    by simp
  from kernel_task_created [OF this] obtain p where
    "ksched k1 = update_process (next_pid (ksched k)) (\<lambda>_. p) s1" using s1 by (metis prod.inject)
  then show thesis
    using that [of p] assms(1) k1 s1
    by (auto simp: create_task_def scheduler_create_kernel_task_def)
qed

text \<open>Queueing a process of a valid priority.\<close>

lemma queue_simps:
  assumes "pid < MAX_PROCESS" "MIN_PRIORITY \<le> priority_of s pid" "priority_of s pid \<le> MAX_PRIORITY"
  shows "state_of (scheduler_queue_system_process pid s) q = (if q = pid then PROCESS_READY else state_of s q)"
    "priority_of (scheduler_queue_system_process pid s) q = priority_of s q"
    "run_queues (scheduler_queue_system_process pid s) =
       (run_queues s)(priority_of s pid - MIN_PRIORITY := run_queues s (priority_of s pid - MIN_PRIORITY) @ [pid])"
    "next_pid (scheduler_queue_system_process pid s) = next_pid s"
    "idle_pid (scheduler_queue_system_process pid s) = idle_pid s"
    "init_pid (scheduler_queue_system_process pid s) = init_pid s"
    "post_init_pid (scheduler_queue_system_process pid s) = post_init_pid s"
    "started (scheduler_queue_system_process pid s) = started s"
  using assms by (simp_all add: scheduler_queue_system_process_def Let_def set_state_def)

lemmas task_simps = set_priority_def create_next_pid queue_simps MIN_PRIORITY_def MAX_PRIORITY_def
  DEFAULT_PRIORITY_def MAX_PROCESS_def

text \<open>The static variables of the scheduler before \<open>scheduler_init\<close>.\<close>

definition cold_sched :: "sched \<Rightarrow> bool" where
  "cold_sched s \<longleftrightarrow> (\<forall>pid. state_of s pid = PROCESS_EMPTY) \<and> next_pid s = 0"

lemma create_task_queues:
  assumes "create_task pg code name func priority remember k = Some (r, k')"
    and "state_of (ksched k) (next_pid (ksched k)) = PROCESS_EMPTY" "next_pid (ksched k) < MAX_PROCESS"
    and "MIN_PRIORITY \<le> priority" "priority \<le> MAX_PRIORITY"
    and rem: "\<And>pid s. pcb (remember pid s) = pcb s" "\<And>pid s. run_queues (remember pid s) = run_queues s"
      "\<And>pid s. next_pid (remember pid s) = next_pid s"
      "\<And>pid s. idle_pid (remember pid s) = fi pid (idle_pid s)"
      "\<And>pid s. post_init_pid (remember pid s) = fp pid (post_init_pid s)"
  defines "pid \<equiv> next_pid (ksched k)"
  shows "r = Returned"
    "state_of (ksched k') q = (if q = pid then PROCESS_READY else state_of (ksched k) q)"
    "priority_of (ksched k') pid = priority"
    "q \<noteq> pid \<Longrightarrow> priority_of (ksched k') q = priority_of (ksched k) q"
    "run_queues (ksched k') = (run_queues (ksched k))
       (priority - MIN_PRIORITY := run_queues (ksched k) (priority - MIN_PRIORITY) @ [pid])"
    "next_pid (ksched k') = (pid + 1) mod MAX_PROCESS"
    "idle_pid (ksched k') = fi pid (idle_pid (ksched k))"
    "post_init_pid (ksched k') = fp pid (post_init_pid (ksched k))"
proof -
  obtain p where p: "r = Returned"
    "ksched k' = scheduler_queue_system_process pid (remember pid (set_priority pid priority
          (update_process pid (\<lambda>_. p) (snd (scheduler_create_new_process (ksched k))))))"
    using create_task_effect [OF assms(1,2)] unfolding pid_def by metis
  note new = create_next_pid [OF assms(2), folded pid_def]
  let ?s = "remember pid (set_priority pid priority
    (update_process pid (\<lambda>_. p) (snd (scheduler_create_new_process (ksched k)))))"
  have prio: "priority_of ?s pid = priority" by (simp add: rem set_priority_def)
  note queue = queue_simps [of pid ?s, folded p(2), unfolded prio, OF assms(3)[folded pid_def] assms(4,5)]
  show "r = Returned" by (rule p(1))
  show "state_of (ksched k') q = (if q = pid then PROCESS_READY else state_of (ksched k) q)"
    by (simp add: queue rem set_priority_def new)
  show "priority_of (ksched k') pid = priority" by (simp add: queue prio)
  show "q \<noteq> pid \<Longrightarrow> priority_of (ksched k') q = priority_of (ksched k) q"
    by (simp add: queue rem set_priority_def new)
  show "run_queues (ksched k') = (run_queues (ksched k))
       (priority - MIN_PRIORITY := run_queues (ksched k) (priority - MIN_PRIORITY) @ [pid])"
    by (simp add: queue rem set_priority_def new)
  show "next_pid (ksched k') = (pid + 1) mod MAX_PROCESS"
    "idle_pid (ksched k') = fi pid (idle_pid (ksched k))"
    "post_init_pid (ksched k') = fp pid (post_init_pid (ksched k))"
    by (simp_all add: queue rem set_priority_def new)
qed

text \<open>The run queues are emptied and nothing else changes.\<close>

definition empty_queues :: "sched \<Rightarrow> sched" where
  "empty_queues s = for_up 0 PRIORITY_LEVELS (\<lambda>i s. s\<lparr> run_queues := (run_queues s)(i := []) \<rparr>) s"

lemma empty_queues_effect:
  "(\<forall>i < 4. run_queues (empty_queues s) i = []) \<and> pcb (empty_queues s) = pcb s \<and>
   next_pid (empty_queues s) = next_pid s"
proof -
  have "(\<forall>i < PRIORITY_LEVELS. run_queues (empty_queues s) i = []) \<and> pcb (empty_queues s) = pcb s \<and>
    next_pid (empty_queues s) = next_pid s"
    unfolding empty_queues_def
  proof (rule for_up_invariant [where P = "\<lambda>k t. (\<forall>i < k. run_queues t i = []) \<and> pcb t = pcb s \<and> next_pid t = next_pid s"])
    fix k t assume k: "k < PRIORITY_LEVELS" "(\<forall>i < k. run_queues t i = []) \<and> pcb t = pcb s \<and> next_pid t = next_pid s"
    have "i < k" if "i < k + 1" "i \<noteq> k" for i
      using that unat_Suc_less [OF k(1)] by (auto simp: word_less_nat_alt word_unat_eq_iff)
    then show "(\<forall>i < k + 1. run_queues (t\<lparr> run_queues := (run_queues t)(k := []) \<rparr>) i = []) \<and>
      pcb (t\<lparr> run_queues := (run_queues t)(k := []) \<rparr>) = pcb s \<and>
      next_pid (t\<lparr> run_queues := (run_queues t)(k := []) \<rparr>) = next_pid s" using k(2) by auto
  qed auto
  then show ?thesis by (simp add: PRIORITY_LEVELS_def MAX_PRIORITY_def MIN_PRIORITY_def)
qed

lemma and_then_Some:
  assumes "and_then f g k = Some (r, k')" "\<And>r1 k1. f k = Some (r1, k1) \<Longrightarrow> r1 = Returned"
  obtains k1 where "f k = Some (Returned, k1)" "g k1 = Some (r, k')"
  using assms by (fastforce simp: and_then_def bind_eq_Some_conv split: if_splits)


text \<open>The state after \<open>n\<close> of the creations: pids 0 to 2 get the priorities 1, 3 and 4.\<close>

definition tasks_created :: "u32 \<Rightarrow> sched \<Rightarrow> bool" where
  "tasks_created n s \<longleftrightarrow> next_pid s = n \<and>
     (\<forall>q. state_of s q = (if q < n then PROCESS_READY else PROCESS_EMPTY)) \<and>
     (0 < n \<longrightarrow> priority_of s 0 = 1 \<and> idle_pid s = 0) \<and> (1 < n \<longrightarrow> priority_of s 1 = 3) \<and>
     (2 < n \<longrightarrow> priority_of s 2 = 4 \<and> post_init_pid s = 2) \<and>
     run_queues s 0 = (if 0 < n then [0] else []) \<and> run_queues s 1 = [] \<and>
     run_queues s 2 = (if 1 < n then [1] else []) \<and> run_queues s 3 = (if 2 < n then [2] else [])"

lemma less_one: "(q :: u32) < 1 \<longleftrightarrow> q = 0"
  by (simp add: word_less_nat_alt word_unat_eq_iff)

lemma less_two: "(q :: u32) < 2 \<longleftrightarrow> q = 0 \<or> q = 1"
  by (auto simp: word_less_nat_alt word_unat_eq_iff)

lemma less_three: "(q :: u32) < 3 \<longleftrightarrow> q = 0 \<or> q = 1 \<or> q = 2"
  by (auto simp: word_less_nat_alt word_unat_eq_iff)

lemma idle_created:
  assumes "create_idle_task pg code k = Some (r, k')" "tasks_created 0 (ksched k)"
  shows "r = Returned \<and> tasks_created 1 (ksched k')"
proof -
  have pre: "state_of (ksched k) (next_pid (ksched k)) = PROCESS_EMPTY" "next_pid (ksched k) < MAX_PROCESS"
    "next_pid (ksched k) = 0"
    using assms(2) by (simp_all add: tasks_created_def MAX_PROCESS_def)
  note eff = create_task_queues [OF assms(1) [unfolded create_idle_task_def] pre(1,2), where fi = "\<lambda>p _. p" and fp = "\<lambda>_ p. p",
      unfolded MIN_PRIORITY_def MAX_PRIORITY_def MAX_PROCESS_def, simplified, unfolded pre(3)]
  show ?thesis using assms(2) unfolding tasks_created_def by (simp add: eff less_one)
qed

lemma init_created:
  assumes "create_init_task pg code k = Some (r, k')" "tasks_created 1 (ksched k)"
  shows "r = Returned \<and> tasks_created 2 (ksched k')"
proof -
  have pre: "state_of (ksched k) (next_pid (ksched k)) = PROCESS_EMPTY" "next_pid (ksched k) < MAX_PROCESS"
    "next_pid (ksched k) = 1"
    using assms(2) by (simp_all add: tasks_created_def MAX_PROCESS_def)
  note eff = create_task_queues [OF assms(1) [unfolded create_init_task_def] pre(1,2), where fi = "\<lambda>_ p. p" and fp = "\<lambda>_ p. p",
      unfolded MIN_PRIORITY_def MAX_PRIORITY_def MAX_PROCESS_def DEFAULT_PRIORITY_def, simplified, unfolded pre(3)]
  show ?thesis using assms(2) unfolding tasks_created_def by (simp add: eff less_one less_two)
qed

lemma post_init_created:
  assumes "create_post_init_task pg code k = Some (r, k')" "tasks_created 2 (ksched k)"
  shows "r = Returned \<and> tasks_created 3 (ksched k')"
proof -
  have pre: "state_of (ksched k) (next_pid (ksched k)) = PROCESS_EMPTY" "next_pid (ksched k) < MAX_PROCESS"
    "next_pid (ksched k) = 2"
    using assms(2) by (simp_all add: tasks_created_def MAX_PROCESS_def)
  note eff = create_task_queues [OF assms(1) [unfolded create_post_init_task_def] pre(1,2), where fi = "\<lambda>_ p. p" and fp = "\<lambda>p _. p",
      unfolded MIN_PRIORITY_def MAX_PRIORITY_def MAX_PROCESS_def, simplified, unfolded pre(3)]
  show ?thesis using assms(2) unfolding tasks_created_def by (simp add: eff less_two less_three)
qed

lemma init_creates_tasks:
  assumes "scheduler_init pg code k = Some (r, k')" "cold_sched (ksched k)"
  shows "r = Returned \<and> tasks_created 3 (ksched k')"
proof -
  let ?k = "k\<lparr> ksched := empty_queues (ksched k) \<rparr>"
  have t0: "tasks_created 0 (ksched ?k)"
    using empty_queues_effect [of "ksched k"] assms(2) by (simp add: tasks_created_def cold_sched_def)
  have run: "and_then (create_idle_task pg code) (and_then (create_init_task pg code) (create_post_init_task pg code)) ?k
    = Some (r, k')" using assms(1) by (simp add: scheduler_init_def empty_queues_def)
  then obtain k1 where k1: "create_idle_task pg code ?k = Some (Returned, k1)"
    "and_then (create_init_task pg code) (create_post_init_task pg code) k1 = Some (r, k')"
    by (rule and_then_Some) (use idle_created t0 in blast)
  have t1: "tasks_created 1 (ksched k1)" using idle_created [OF k1(1) t0] by blast
  from k1(2) obtain k2 where k2: "create_init_task pg code k1 = Some (Returned, k2)"
    "create_post_init_task pg code k2 = Some (r, k')"
    by (rule and_then_Some) (use init_created t1 in blast)
  have t2: "tasks_created 2 (ksched k2)" using init_created [OF k2(1) t1] by blast
  show ?thesis by (rule post_init_created [OF k2(2) t2])
qed

lemma tasks_created_queue:
  assumes "tasks_created 3 s"
  shows "1 \<le> p \<and> p \<le> 4 \<and> q \<in> set (run_queue s p) \<longleftrightarrow> p = 1 \<and> q = 0 \<or> p = 3 \<and> q = 1 \<or> p = 4 \<and> q = 2"
proof -
  have "p = 1 \<or> p = 2 \<or> p = 3 \<or> p = 4" if "1 \<le> p" "p \<le> 4"
  proof -
    have "unat p = 1 \<or> unat p = 2 \<or> unat p = 3 \<or> unat p = 4" using that by (auto simp: word_le_nat_alt)
    then show ?thesis by (auto simp: word_unat_eq_iff)
  qed
  then show ?thesis using assms by (auto simp: tasks_created_def run_queue_def MIN_PRIORITY_def)
qed

lemma tasks_created_boot_ok:
  assumes "tasks_created 3 s"
  shows "boot_ok s"
proof -
  have q: "q < MAX_PROCESS \<and> priority_of s q = p \<and> state_of s q \<notin> {PROCESS_EMPTY, PROCESS_NEW}"
    if "1 \<le> p \<and> p \<le> 4 \<and> q \<in> set (run_queue s p)" for p q
    using tasks_created_queue [OF assms, of p q] that assms
    by (auto simp: tasks_created_def MAX_PROCESS_def)
  have "0 \<in> set (run_queue s 1)" "2 \<in> set (run_queue s 4)"
    using tasks_created_queue [OF assms, of 1 0] tasks_created_queue [OF assms, of 4 2] by simp_all
  then show ?thesis using q assms
    by (auto simp: boot_ok_def queues_ok_def tasks_created_def runnable_def MAX_PROCESS_def MAX_PRIORITY_def)
qed

section \<open>Loading\<close>

lemma load_elf_process:
  assumes "load_elf_file_in_process lay p file st = Some (b, p', st')"
  shows "proc_priority p' = proc_priority p"
  using assms
  by (auto simp: load_elf_file_in_process_def Let_def bind_eq_Some_conv case_prod_unfold split: option.splits)

text \<open>What loading does to the scheduler.\<close>

lemma load_effect:
  assumes "scheduler_load_process_in_new_address_space lay new_name kill filename file k = Some (Some pid, k')"
  obtains s1 p where "scheduler_create_new_process (lsched k) = (Some pid, s1)"
    "lsched k' = scheduler_queue_system_process pid (update_process pid (\<lambda>_. p) s1)"
    "proc_priority p = DEFAULT_PRIORITY"
    "ctx_esp (proc_context p) = USER_STACK_TOP_ADDR - 4" "ctx_ebp (proc_context p) = USER_STACK_TOP_ADDR - STACK_SIZE"
proof -
  obtain s1 where s1: "scheduler_create_new_process (lsched k) = (Some pid, s1)"
    using assms by (auto simp: scheduler_load_process_in_new_address_space_def Let_def bind_eq_Some_conv case_prod_unfold
        split: option.splits) (metis prod.collapse)
  show thesis
    using assms that [OF s1] load_elf_process
    by (fastforce simp: scheduler_load_process_in_new_address_space_def Let_def s1 bind_eq_Some_conv case_prod_unfold)
qed

lemma load_keeps_boot_ok:
  assumes "boot_ok (lsched k)"
    "scheduler_load_process_in_new_address_space lay new_name kill filename file k = Some (Some pid, k')"
  shows "boot_ok (lsched k')" "state_of (lsched k) pid = PROCESS_EMPTY" "pid < MAX_PROCESS"
    "state_of (lsched k') pid = PROCESS_READY" "pid \<in> set (run_queue (lsched k') DEFAULT_PRIORITY)"
    "q \<noteq> pid \<Longrightarrow> pcb (lsched k') q = pcb (lsched k) q"
proof -
  obtain s1 p where s1: "scheduler_create_new_process (lsched k) = (Some pid, s1)"
    and k': "lsched k' = scheduler_queue_system_process pid (update_process pid (\<lambda>_. p) s1)"
    and p: "proc_priority p = DEFAULT_PRIORITY"
    by (rule load_effect [OF assms(2)])
  let ?s2 = "update_process pid (\<lambda>_. p) s1"
  have q0: "queues_ok (lsched k)" using assms(1) by (simp add: boot_ok_def)
  then have np: "next_pid (lsched k) < MAX_PROCESS" by (simp add: queues_ok_def)
  obtain n where g: "pid < MAX_PROCESS" "state_of (lsched k) pid = PROCESS_EMPTY" "n < MAX_PROCESS" and s':
    "s1 = (lsched k)\<lparr> next_pid := n, pcb := (pcb (lsched k))(pid := (pcb (lsched k) pid)\<lparr>
      proc := (proc (pcb (lsched k) pid))\<lparr> proc_pid := pid, proc_system := False, proc_priority := DEFAULT_PRIORITY \<rparr>,
      proc_state := PROCESS_NEW \<rparr>) \<rparr>"
    by (rule create_new_process_shape [OF np s1])
  have other: "pcb ?s2 q = pcb (lsched k) q" if "q \<noteq> pid" for q using that by (simp add: s' update_process_def)
  have q2: "queues_ok ?s2"
    by (rule queues_ok_new_entry [OF q0]) (use g other in \<open>auto simp: s'\<close>)
  have new: "state_of ?s2 pid = PROCESS_NEW" "priority_of ?s2 pid = DEFAULT_PRIORITY" using p by (simp_all add: s')
  show "state_of (lsched k) pid = PROCESS_EMPTY" "pid < MAX_PROCESS" by (rule g)+
  show queued: "state_of (lsched k') pid = PROCESS_READY" "pid \<in> set (run_queue (lsched k') DEFAULT_PRIORITY)"
    using g(1) new by (simp_all add: k' scheduler_queue_system_process_def Let_def run_queue_def
        DEFAULT_PRIORITY_def MAX_PRIORITY_def MIN_PRIORITY_def set_state_def)
  show other': "q \<noteq> pid \<Longrightarrow> pcb (lsched k') q = pcb (lsched k) q" for q
    unfolding k' using other queue_effect(2) by simp
  have "state_of (lsched k') q \<noteq> PROCESS_RUNNING" for q
    using assms(1) queued(1) other' by (cases "q = pid") (auto simp: boot_ok_def)
  moreover have "post_init_pid (lsched k') = post_init_pid (lsched k)"
    "run_queue (lsched k) = run_queue ?s2"
    by (simp_all add: k' queue_effect(7) s' run_queue_def fun_eq_iff)
  ultimately show "boot_ok (lsched k')"
    using assms(1) queue_queues_ok [OF q2 new(1)] queue_effect(1) [of ?s2 MAX_PRIORITY pid]
    unfolding boot_ok_def by (auto simp: k')
qed

section \<open>Properties\<close>


definition sample_code :: task_layout where
  "sample_code = \<lparr> page_allocators = sample_layout, kernel_directory = 0xC0110000,
     arch_enter_tasklet_addr = 0xC0100100, scheduler_kill_current_process_addr = 0xC0100200,
     idle_task_addr = 0xC0100300, init_task_addr = 0xC0100400, post_init_task_addr = 0xC0100500,
     idle_name = 0, init_name = 0, post_init_name = 0 \<rparr>"

definition sample_kernel :: kernel where
  "sample_kernel = \<lparr> ksched = \<lparr> pcb = (\<lambda>pid. sample_task pid 0 PROCESS_EMPTY), run_queues = (\<lambda>_. []),
       started = False, rr_quantum = 0, current_pid = 0, next_pid = 0, idle_pid = 0, init_pid = 0,
       post_init_pid = 0, timer_frequency = 0, cpu = sample_context 0, cr3 = 0, tss_esp0 = 0,
       interrupts_on = False \<rparr>,
     kheap = \<lparr> hmem = (\<lambda>_. 0), first_free_virtual_address = 0, last_free_virtual_address = 0,
       number_of_pages_allocated = 0, heap_head = 0 \<rparr> \<rparr>"

lemma nameless_task_returns:
  assumes "state_of (ksched k) (next_pid (ksched k)) = PROCESS_EMPTY"
  shows "\<exists>x. create_task pg code 0 func priority remember k = Some x"
  using create_next_pid(1) [OF assms]
  by (auto simp: create_task_def scheduler_create_kernel_task_def scheduler_create_kernel_task_args_def Let_def
      string_new_def kstrlen_def string_new_with_len_def case_prod_unfold split: option.split)

lemma sample_init: "\<exists>k'. scheduler_init (\<lambda>_ _ m. m) sample_code sample_kernel = Some (Returned, k')"
proof -
  let ?pg = "\<lambda>_ _ m. m" and ?k = "sample_kernel\<lparr> ksched := empty_queues (ksched sample_kernel) \<rparr>"
  have e: "state_of (ksched k) (next_pid (ksched k)) = PROCESS_EMPTY" if "tasks_created n (ksched k)" for n and k :: kernel
    using that by (simp add: tasks_created_def)
  have t0: "tasks_created 0 (ksched ?k)"
    using empty_queues_effect [of "ksched sample_kernel"] by (simp add: tasks_created_def sample_kernel_def sample_task_def)
  obtain r1 k1 where 1: "create_idle_task ?pg sample_code ?k = Some (r1, k1)"
    using nameless_task_returns [OF e [OF t0]] by (force simp: create_idle_task_def sample_code_def)
  note t1 = idle_created [OF 1 t0]
  obtain r2 k2 where 2: "create_init_task ?pg sample_code k1 = Some (r2, k2)"
    using nameless_task_returns [OF e [OF conjunct2 [OF t1]]] by (force simp: create_init_task_def sample_code_def)
  note t2 = init_created [OF 2 conjunct2 [OF t1]]
  obtain r3 k3 where 3: "create_post_init_task ?pg sample_code k2 = Some (r3, k3)"
    using nameless_task_returns [OF e [OF conjunct2 [OF t2]]] by (force simp: create_post_init_task_def sample_code_def)
  note t3 = post_init_created [OF 3 conjunct2 [OF t2]]
  show ?thesis using 1 2 3 t1 t2 t3
    by (simp add: scheduler_init_def and_then_def empty_queues_def [symmetric])
qed


text \<open>C28. A new kernel task is set up so that its first switch runs \<open>arch_enter_tasklet\<close>, which finds the
  argument and the function on the stack, and the function returns into \<open>scheduler_kill_current_process\<close>.
  Its table entry was empty and is now new; no other entry changes.\<close>

theorem kernel_task_enters_function:
  assumes "scheduler_create_kernel_task_args pg code name func data k = Some (Some pid, k')"
    and "next_pid (ksched k) < MAX_PROCESS"
  shows "ctx_eip (proc_context (proc (pcb (ksched k') pid))) = arch_enter_tasklet_addr code \<and>
    (\<exists>esp. arch_enter_tasklet (hmem (kheap k')) (ctx_esp (proc_context (proc (pcb (ksched k') pid)))) = (data, func, esp) \<and>
       rd32 (hmem (kheap k')) esp = scheduler_kill_current_process_addr code) \<and>
    pid < MAX_PROCESS \<and> state_of (ksched k) pid = PROCESS_EMPTY \<and> state_of (ksched k') pid = PROCESS_NEW \<and>
    (\<forall>q. q \<noteq> pid \<longrightarrow> pcb (ksched k') q = pcb (ksched k) q)"
proof -
  obtain s1 p where p: "scheduler_create_new_process (ksched k) = (Some pid, s1)"
    "ksched k' = update_process pid (\<lambda>_. p) s1"
    "ctx_eip (proc_context p) = arch_enter_tasklet_addr code"
    "\<exists>esp. arch_enter_tasklet (hmem (kheap k')) (ctx_esp (proc_context p)) = (data, func, esp) \<and>
       rd32 (hmem (kheap k')) esp = scheduler_kill_current_process_addr code"
    using kernel_task_created [OF assms(1)] by metis
  have "pid < MAX_PROCESS \<and> state_of (ksched k) pid = PROCESS_EMPTY \<and> state_of s1 pid = PROCESS_NEW \<and>
    (\<forall>q. q \<noteq> pid \<longrightarrow> pcb s1 q = pcb (ksched k) q)"
    by (rule create_new_process_shape [OF assms(2) p(1)]) simp
  then show ?thesis using p by (simp add: update_process_def)
qed

theorem kernel_task_enters_function_witness:
  "\<exists>k' esp. scheduler_create_kernel_task_args (\<lambda>_ _ m. m) sample_code 0 0xC0100300 77 sample_kernel = Some (Some 0, k') \<and>
     arch_enter_tasklet (hmem (kheap k')) (ctx_esp (proc_context (proc (pcb (ksched k') 0)))) = (77, 0xC0100300, esp)"
proof -
  have e: "state_of (ksched sample_kernel) (next_pid (ksched sample_kernel)) = PROCESS_EMPTY"
    "next_pid (ksched sample_kernel) = 0"
    by (simp_all add: sample_kernel_def sample_task_def)
  obtain k' where k': "scheduler_create_kernel_task_args (\<lambda>_ _ m. m) sample_code 0 0xC0100300 77 sample_kernel = Some (Some 0, k')"
    using create_next_pid(1) [OF e(1)] e(2)
    by (auto simp: scheduler_create_kernel_task_args_def Let_def
        string_new_def kstrlen_def string_new_with_len_def case_prod_unfold split: option.split)
  then show ?thesis using kernel_task_enters_function [OF k'] e(2) by (auto simp: MAX_PROCESS_def)
qed



end
