(* ===== verification/AhciProps.thy ===== *)
theory AhciProps
  imports Ahci
begin

text \<open>
  The read of the AHCI driver: what the command it builds asks for, and how it ends for a device that stays busy, that
  completes the command, and that reports an error.
\<close>

unbundle bit_operations_syntax

section \<open>The command\<close>

lemma set_byte_mem [simp]: "amem (set_byte a v s) = (amem s)(a := v)"
  by (simp add: set_byte_def set_amem_def)

lemma clock_simps [simp]:
  "clock (set_amem m s) = clock s" "clock (set_byte a v s) = clock s" "clock (set_areg a w s) = clock s"
  "clock (clear_bytes a n s) = clock s" "clock (set_table_length a h s) = clock s"
  "amem (set_amem m s) = m"
  by (simp_all add: set_byte_def set_areg_def clear_bytes_def set_table_length_def set_amem_def)

text \<open>The sector and the number of sectors that a frame in memory names.\<close>

definition fis_lba :: "mem \<Rightarrow> u32 \<Rightarrow> u64" where
  "fis_lba m fis = ucast (m (fis + 4)) OR push_bit 8 (ucast (m (fis + 5))) OR push_bit 16 (ucast (m (fis + 6)))
     OR push_bit 24 (ucast (m (fis + 8))) OR push_bit 32 (ucast (m (fis + 9))) OR push_bit 40 (ucast (m (fis + 10)))"

definition fis_count :: "mem \<Rightarrow> u32 \<Rightarrow> u16" where
  "fis_count m fis = ucast (m (fis + 12)) OR push_bit 8 (ucast (m (fis + 13)))"

lemma fis_bytes:
  fixes fis sector :: u32 and sector_count :: u16 and s :: ahci
  defines "m \<equiv> amem (write_fis fis sector sector_count s)"
  shows "m fis = FIS_TYPE_REG_H2D" "m (fis + 2) = ATA_CMD_READ_DMA_EX" "bit (m (fis + 1)) 7"
    "m (fis + 4) = ucast sector" "m (fis + 5) = ucast (drop_bit 8 sector)" "m (fis + 6) = ucast (drop_bit 16 sector)"
    "m (fis + 8) = 0" "m (fis + 9) = 0" "m (fis + 10) = 0"
    "m (fis + 12) = ucast sector_count" "m (fis + 13) = ucast (drop_bit 8 sector_count)"
proof -
  have ff: "(0xFF :: u32) = mask 8" "(0xFF :: u16) = mask 8" by (simp_all add: mask_eq_exp_minus_1)
  have low: "ucast (x AND 0xFF) = (ucast x :: u8)" "ucast (y AND 0xFF) = (ucast y :: u8)" for x :: u32 and y :: u16
    unfolding ff by (rule bit_word_eqI, auto simp: bit_simps)+
  show "m fis = FIS_TYPE_REG_H2D" "m (fis + 2) = ATA_CMD_READ_DMA_EX" "bit (m (fis + 1)) 7"
    "m (fis + 4) = ucast sector" "m (fis + 5) = ucast (drop_bit 8 sector)" "m (fis + 6) = ucast (drop_bit 16 sector)"
    "m (fis + 8) = 0" "m (fis + 9) = 0" "m (fis + 10) = 0"
    "m (fis + 12) = ucast sector_count" "m (fis + 13) = ucast (drop_bit 8 sector_count)"
    unfolding m_def write_fis_def by (simp_all add: Let_def low bit_simps)
qed

lemma fis_names:
  "fis_lba (amem (write_fis fis sector sector_count s)) fis = ucast (sector AND mask 24)"
  "fis_count (amem (write_fis fis sector sector_count s)) fis = sector_count"
proof -
  show "fis_lba (amem (write_fis fis sector sector_count s)) fis = ucast (sector AND mask 24)"
  proof (rule bit_word_eqI)
    fix n assume "n < LENGTH(64)"
    consider "n < 8" | "8 \<le> n \<and> n < 16" | "16 \<le> n \<and> n < 24" | "24 \<le> n" by linarith
    then show "bit (fis_lba (amem (write_fis fis sector sector_count s)) fis) n = bit (ucast (sector AND mask 24) :: u64) n"
      by cases (auto simp: fis_lba_def fis_bytes bit_simps)
  qed
  show "fis_count (amem (write_fis fis sector sector_count s)) fis = sector_count"
  proof (rule bit_word_eqI)
    fix n assume "n < LENGTH(16)"
    then consider "n < 8" | "8 \<le> n \<and> n < 16" by force
    then show "bit (fis_count (amem (write_fis fis sector sector_count s)) fis) n = bit sector_count n"
      by cases (auto simp: fis_count_def fis_bytes bit_simps)
  qed
qed

section \<open>How a read ends\<close>

lemma poll_simps [simp]:
  "fst (poll dev a s) = rd32 (dev (clock s) (amem s)) a" "clock (snd (poll dev a s)) = clock s + 1"
  "amem (snd (poll dev a s)) = dev (clock s) (amem s)"
  by (simp_all add: poll_def Let_def areg_def set_amem_def)

lemma write_prdt_clock [simp]: "clock (write_prdt e b n s) = clock s" "clock (write_fis f x n s) = clock s"
  by (simp_all add: write_prdt_def write_fis_def Let_def)

text \<open>A device that is busy at every poll keeps the loop for its full number of rounds; an idle one for none.\<close>

lemma spin_busy:
  assumes "\<And>n m. rd32 (dev n m) a AND (ATA_DEV_BUSY OR ATA_DEV_DRQ) \<noteq> 0" "spin + d = 10000000"
  shows "fst (spin_while_busy dev a spin s) = 10000000 \<and>
    clock (snd (spin_while_busy dev a spin s)) = clock s + d + 1"
  using assms(2)
proof (induction d arbitrary: spin s)
  case 0
  then show ?case by (subst spin_while_busy.simps, subst spin_while_busy.simps) (simp add: case_prod_unfold)
next
  case (Suc d)
  have busy: "fst (poll dev a s) AND (ATA_DEV_BUSY OR ATA_DEV_DRQ) \<noteq> 0" using assms(1) by simp
  have "spin_while_busy dev a spin s = spin_while_busy dev a (spin + 1) (snd (poll dev a s))"
    using Suc.prems busy by (subst spin_while_busy.simps) (simp add: case_prod_unfold)
  then show ?case using Suc.IH [of "spin + 1" "snd (poll dev a s)"] Suc.prems by simp
qed

lemma spin_idle:
  assumes "\<And>n m. rd32 (dev n m) a AND (ATA_DEV_BUSY OR ATA_DEV_DRQ) = 0"
  shows "spin_while_busy dev a 0 s = (0, snd (poll dev a s))"
  using assms by (subst spin_while_busy.simps) (simp add: case_prod_unfold)

text \<open>The wait for the command ends at the first poll that shows it done or shows an error.\<close>

lemma wait_for_command_done:
  assumes "\<And>n m. clock s \<le> n \<Longrightarrow> n < clock s + 2 * k \<Longrightarrow> rd32 (dev n m) (command_issue port) \<noteq> 0"
    "\<And>n m. clock s \<le> n \<Longrightarrow> n < clock s + 2 * k \<Longrightarrow> rd32 (dev n m) (interrupt_status port) AND HBA_PxIS_TFES = 0"
    "\<And>m. rd32 (dev (clock s + 2 * k) m) (command_issue port) = 0"
  shows "\<exists>s'. wait_for_command dev port s = Some (True, s') \<and> clock s' = clock s + 2 * k + 1"
  using assms
proof (induction k arbitrary: s)
  case 0
  then show ?case by (subst wait_for_command.simps) (simp add: case_prod_unfold)
next
  case (Suc k)
  let ?s = "snd (poll dev (interrupt_status port) (snd (poll dev (command_issue port) s)))"
  have "wait_for_command dev port s = wait_for_command dev port ?s"
    using Suc.prems(1) [of "clock s"] Suc.prems(2) [of "clock s + 1"]
    by (subst wait_for_command.simps) (simp add: case_prod_unfold)
  moreover have "\<exists>s'. wait_for_command dev port ?s = Some (True, s') \<and> clock s' = clock ?s + 2 * k + 1"
    by (rule Suc.IH) (use Suc.prems in \<open>simp_all add: algebra_simps\<close>)
  ultimately show ?case by simp
qed

lemma wait_for_command_error:
  assumes "\<And>n m. clock s \<le> n \<Longrightarrow> n \<le> clock s + 2 * k \<Longrightarrow> rd32 (dev n m) (command_issue port) \<noteq> 0"
    "\<And>n m. clock s \<le> n \<Longrightarrow> n < clock s + 2 * k \<Longrightarrow> rd32 (dev n m) (interrupt_status port) AND HBA_PxIS_TFES = 0"
    "\<And>m. rd32 (dev (clock s + 2 * k + 1) m) (interrupt_status port) AND HBA_PxIS_TFES \<noteq> 0"
  shows "\<exists>s'. wait_for_command dev port s = Some (False, s') \<and> clock s' = clock s + 2 * k + 2"
  using assms
proof (induction k arbitrary: s)
  case 0
  then show ?case by (subst wait_for_command.simps) (simp add: case_prod_unfold)
next
  case (Suc k)
  let ?s = "snd (poll dev (interrupt_status port) (snd (poll dev (command_issue port) s)))"
  have "wait_for_command dev port s = wait_for_command dev port ?s"
    using Suc.prems(1) [of "clock s"] Suc.prems(2) [of "clock s + 1"]
    by (subst wait_for_command.simps) (simp add: case_prod_unfold)
  moreover have "\<exists>s'. wait_for_command dev port ?s = Some (False, s') \<and> clock s' = clock ?s + 2 * k + 2"
    by (rule Suc.IH) (use Suc.prems in \<open>simp_all add: algebra_simps\<close>)
  ultimately show ?case by simp
qed

lemma build_command_clock: "clock (snd (build_command port sector sector_count buffer s)) = clock s"
  by (simp add: build_command_def Let_def)

text \<open>The three ends, by what the device answers to the polls; \<open>port\<close> is the port's registers.\<close>

definition always_busy :: "device \<Rightarrow> u32 \<Rightarrow> bool" where
  "always_busy dev port \<longleftrightarrow> (\<forall>n m. rd32 (dev n m) (task_file_data port) AND (ATA_DEV_BUSY OR ATA_DEV_DRQ) \<noteq> 0)"

definition idle_device :: "device \<Rightarrow> u32 \<Rightarrow> bool" where
  "idle_device dev port \<longleftrightarrow> (\<forall>n m. rd32 (dev n m) (task_file_data port) AND (ATA_DEV_BUSY OR ATA_DEV_DRQ) = 0)"

text \<open>The command is neither done nor failed at the polls from \<open>a\<close> to before \<open>b\<close>.\<close>

definition working :: "device \<Rightarrow> u32 \<Rightarrow> nat \<Rightarrow> nat \<Rightarrow> bool" where
  "working dev port a b \<longleftrightarrow>
     (\<forall>n m. a \<le> n \<and> n < b \<longrightarrow> rd32 (dev n m) (command_issue port) \<noteq> 0 \<and> rd32 (dev n m) (interrupt_status port) AND HBA_PxIS_TFES = 0)"

lemma read_sector_steps:
  fixes s :: ahci and buffer sector p :: u32 and n :: u16
  defines "s2 \<equiv> snd (build_command (port_of p s) sector n buffer (set_areg (interrupt_status (port_of p s)) 0xFFFFFFFF s))"
  shows "read_sector dev p sector n buffer s =
     (if fst (spin_while_busy dev (task_file_data (port_of p s)) 0 s2) = 10000000
      then Some (False, snd (spin_while_busy dev (task_file_data (port_of p s)) 0 s2))
      else wait_for_command dev (port_of p s)
        (set_areg (command_issue (port_of p s)) 1 (snd (spin_while_busy dev (task_file_data (port_of p s)) 0 s2))))"
    "clock s2 = clock s"
  by (simp_all add: s2_def read_sector_def case_prod_unfold Let_def build_command_clock)

definition sample_ahci :: ahci where
  "sample_ahci = \<lparr> aheap = \<lparr> hmem = (\<lambda>_. 0), first_free_virtual_address = 0,
       last_free_virtual_address = 0, number_of_pages_allocated = 0, heap_head = 0 \<rparr>, clock = 0,
       pci_device_base_addr = 0, abar = 0, ahci_ports = (\<lambda>_. 0), ahci_port_count = 0 \<rparr>"

section \<open>Properties\<close>

text \<open>The command that \<open>read_sector\<close> builds is a read with the number of sectors asked for, from the sector
  asked for modulo \<open>2 ^ 24\<close>: bits 24 to 31 of the sector, for which the frame has a byte, are dropped.\<close>

theorem read_command_names_sector:
  "fis_lba (amem (snd (build_command port sector n buffer s))) (fst (build_command port sector n buffer s)) =
     ucast (sector AND mask 24) \<and>
   fis_count (amem (snd (build_command port sector n buffer s))) (fst (build_command port sector n buffer s)) = n \<and>
   amem (snd (build_command port sector n buffer s)) (fst (build_command port sector n buffer s) + 2) = ATA_CMD_READ_DMA_EX"
  by (simp add: build_command_def Let_def fis_names fis_bytes)

text \<open>C30. \<open>read_sector\<close> gives up with false after 10000001 polls of a device that stays busy; of an idle one it returns true at the
  first poll that shows the command done, and false at the first that shows an error, whatever the device does in
  between.\<close>

theorem read_sector_ends:
  "(always_busy dev (port_of p s) \<longrightarrow>
      (\<exists>s'. read_sector dev p sector n buffer s = Some (False, s') \<and> clock s' = clock s + 10000001)) \<and>
   (idle_device dev (port_of p s) \<and> working dev (port_of p s) (clock s + 1) (clock s + 1 + 2 * k) \<and>
      (\<forall>m. rd32 (dev (clock s + 1 + 2 * k) m) (command_issue (port_of p s)) = 0) \<longrightarrow>
      (\<exists>s'. read_sector dev p sector n buffer s = Some (True, s') \<and> clock s' = clock s + 2 + 2 * k)) \<and>
   (idle_device dev (port_of p s) \<and> working dev (port_of p s) (clock s + 1) (clock s + 1 + 2 * k) \<and>
      (\<forall>m. rd32 (dev (clock s + 1 + 2 * k) m) (command_issue (port_of p s)) \<noteq> 0) \<and>
      (\<forall>m. rd32 (dev (clock s + 2 + 2 * k) m) (interrupt_status (port_of p s)) AND HBA_PxIS_TFES \<noteq> 0) \<longrightarrow>
      (\<exists>s'. read_sector dev p sector n buffer s = Some (False, s') \<and> clock s' = clock s + 3 + 2 * k))"
proof -
  let ?port = "port_of p s"
  let ?s2 = "snd (build_command ?port sector n buffer (set_areg (interrupt_status ?port) 0xFFFFFFFF s))"
  note steps = read_sector_steps(1) [of dev p sector n buffer s]
    read_sector_steps(2) [of p s sector n buffer]
  have idle: "\<exists>s3. clock s3 = clock s + 1 \<and> read_sector dev p sector n buffer s = wait_for_command dev ?port s3"
    if i: "idle_device dev ?port"
  proof -
    have "spin_while_busy dev (task_file_data ?port) 0 ?s2 = (0, snd (poll dev (task_file_data ?port) ?s2))"
      using i by (intro spin_idle) (simp add: idle_device_def)
    then show ?thesis
      using steps by (intro exI [of _ "set_areg (command_issue ?port) 1 (snd (poll dev (task_file_data ?port) ?s2))"]) simp
  qed
  have "\<exists>s'. read_sector dev p sector n buffer s = Some (False, s') \<and> clock s' = clock s + 10000001"
    if "always_busy dev ?port"
    using spin_busy [of dev "task_file_data ?port" 0 10000000 ?s2] that steps by (simp add: always_busy_def)
  moreover have "\<exists>s'. read_sector dev p sector n buffer s = Some (True, s') \<and> clock s' = clock s + 2 + 2 * k"
    if c: "idle_device dev ?port" "working dev ?port (clock s + 1) (clock s + 1 + 2 * k)"
      "\<forall>m. rd32 (dev (clock s + 1 + 2 * k) m) (command_issue ?port) = 0"
  proof -
    obtain s3 where s3: "clock s3 = clock s + 1" "read_sector dev p sector n buffer s = wait_for_command dev ?port s3"
      using idle [OF c(1)] by blast
    show ?thesis using wait_for_command_done [of s3 k dev ?port] c(2,3) s3 by (simp add: working_def)
  qed
  moreover have "\<exists>s'. read_sector dev p sector n buffer s = Some (False, s') \<and> clock s' = clock s + 3 + 2 * k"
    if c: "idle_device dev ?port" "working dev ?port (clock s + 1) (clock s + 1 + 2 * k)"
      "\<forall>m. rd32 (dev (clock s + 1 + 2 * k) m) (command_issue ?port) \<noteq> 0"
      "\<forall>m. rd32 (dev (clock s + 2 + 2 * k) m) (interrupt_status ?port) AND HBA_PxIS_TFES \<noteq> 0"
  proof -
    obtain s3 where s3: "clock s3 = clock s + 1" "read_sector dev p sector n buffer s = wait_for_command dev ?port s3"
      using idle [OF c(1)] by blast
    have "rd32 (dev i m) (command_issue ?port) \<noteq> 0" if "clock s3 \<le> i" "i \<le> clock s3 + 2 * k" for i m
      using c(2,3) s3(1) that by (cases "i = clock s3 + 2 * k") (auto simp: working_def)
    then show ?thesis using wait_for_command_error [of s3 k dev ?port] c(2,4) s3
      by (simp add: working_def numeral_3_eq_3)
  qed
  ultimately show ?thesis by blast
qed

text \<open>A device that is idle and has done the command at once.\<close>

theorem read_sector_ends_witness:
  "\<exists>s'. read_sector (\<lambda>_ _ _. 0) 0 5 4 0x5000 sample_ahci = Some (True, s') \<and> clock s' = 2"
  using read_sector_ends [of "\<lambda>_ _ _. 0" 0 sample_ahci 5 4 "0x5000" 0]
  by (simp add: idle_device_def working_def sample_ahci_def rd32_def numeral_2_eq_2)

end
