(* ===== verification/PcieProps.thy ===== *)
theory PcieProps
  imports Pcie
begin

text \<open>
  The enumeration of the PCI Express functions and the list of the processors, against the memory they
  read: the enumeration counts the functions present behind present devices on present buses, and the
  processors found are the enabled records of the MADT in their order.
\<close>

unbundle bit_operations_syntax

section \<open>Enumeration\<close>

text \<open>A loop whose body always returns.\<close>

lemma for_up_total:
  assumes "\<And>k t. body k t = Some (g k t)"
  shows "for_up i n (\<lambda>k acc. Option.bind acc (body k)) (Some s) = Some (for_up i n g s)"
  using assms
proof (induction i n g s rule: for_up.induct)
  case (1 i n g s)
  let ?b = "\<lambda>k acc. Option.bind acc (body k)"
  show ?case
  proof (cases "i < n")
    case True
    have "for_up i n ?b (Some s) = for_up (i + 1) n ?b (?b i (Some s))" by (rule for_up_step [OF True])
    then have "for_up i n ?b (Some s) = for_up (i + 1) n ?b (Some (g i s))" by (simp add: "1.prems")
    then show ?thesis using "1.IH" [OF True "1.prems"] for_up_step [OF True, of g s] by simp
  next
    case False
    then show ?thesis by (simp add: for_up_done)
  qed
qed

definition counted :: "nat \<Rightarrow> pcie \<Rightarrow> pcie" where
  "counted n s = s\<lparr> num_of_valid_devices := num_of_valid_devices s + of_nat n \<rparr>"

lemma counted_simps [simp]:
  "disks (counted n s) = disks s" "counted 0 s = s" "counted a (counted b s) = counted (b + a) s"
  by (simp_all add: counted_def add.assoc)

lemma for_up_counted:
  "for_up (0 :: u32) n (\<lambda>k. counted (f k)) s = counted (sum_list (map (\<lambda>k. f (of_nat k)) [0..<unat n])) s"
proof -
  have "fold (\<lambda>k. counted (f (of_nat k))) ks s = counted (sum_list (map (\<lambda>k. f (of_nat k)) ks)) s" for ks :: "nat list"
    by (induction ks arbitrary: s) (simp_all add: add.commute)
  then show ?thesis by (simp add: for_up_fold)
qed

text \<open>The address of a header is computed with 64 bits and cut to 32.\<close>

lemma low_address: "ucast (a + push_bit k (ucast i) :: u64) = (ucast a + push_bit k i :: u32)" for i :: u32
proof -
  have "ucast (x + y :: u64) = (ucast x + ucast y :: u32)" for x y
  proof -
    have "unat (ucast z :: u32) = unat z mod 4294967296" for z :: u64
      by (simp add: unsigned_ucast_eq unsigned_take_bit_eq take_bit_eq_mod)
    then show ?thesis by (simp add: word_unat_eq_iff unat_word_ariths mod_add_eq mod_mod_cancel)
  qed
  moreover have "ucast (push_bit k (ucast i) :: u64) = (push_bit k i :: u32)"
    by (rule bit_word_eqI) (auto simp: bit_simps)
  ultimately show ?thesis by simp
qed

text \<open>What is there: the functions of a device, of a bus, of an allocation and of the whole table.\<close>

definition device_functions :: "mem \<Rightarrow> u32 \<Rightarrow> nat" where
  "device_functions m a =
     (if \<not> device_present m a then 0
      else sum_list (map (\<lambda>f. if device_present m (a + push_bit 12 (of_nat f)) then 1 else 0) [0..<8]))"

definition bus_functions :: "mem \<Rightarrow> u32 \<Rightarrow> nat" where
  "bus_functions m a =
     (if \<not> device_present m a then 0
      else sum_list (map (\<lambda>d. device_functions m (a + push_bit 15 (of_nat d))) [0..<32]))"

definition allocation_functions :: "mem \<Rightarrow> u32 \<Rightarrow> nat" where
  "allocation_functions m config =
     sum_list (map (\<lambda>b. bus_functions m (rd32 m config + push_bit 20 (of_nat b)))
       [unat (m (config + 10))..<unat (m (config + 11)) + 1])"

definition mcfg_functions :: "mem \<Rightarrow> u32 \<Rightarrow> nat" where
  "mcfg_functions m mcfg =
     sum_list (map (\<lambda>i. allocation_functions m (mcfg + 44 + 16 * of_nat i)) [0..<unat (rd32 m (mcfg + 4) - 44) div 16])"

lemma cast_up_down [simp]: "ucast (ucast a :: u64) = (a :: u32)"
  by (rule bit_word_eqI) (auto simp: bit_simps)

lemma byte_as_u32: "unat (ucast (b :: u8) :: u32) = unat b" "unat b < 256"
proof -
  show l: "unat b < 256" using unsigned_less [of b] by simp
  then show "unat (ucast b :: u32) = unat b" by (simp add: unsigned_ucast_eq unsigned_take_bit_eq take_bit_nat_eq_self)
qed

text \<open>A configuration space that is mapped already and has no AHCI controller.\<close>

definition plain_config :: "(u32 \<Rightarrow> mem \<Rightarrow> mem) \<Rightarrow> mem \<Rightarrow> bool" where
  "plain_config idpg m \<longleftrightarrow> (\<forall>a. idpg a m = m) \<and> (\<forall>a. \<not> (device_present m a \<and> is_ahci m a))"

lemma map_config_id: "plain_config idpg (amem (disks s)) \<Longrightarrow> map_config idpg a s = s"
  by (simp add: map_config_def plain_config_def set_amem_def)

lemma enumerate_function_effect:
  fixes i :: u32
  assumes "plain_config idpg (amem (disks s))"
  shows "enumerate_function dev idpg pg lay (ucast a) (ucast i) s =
    Some (counted (if device_present (amem (disks s)) (a + push_bit 12 i) then 1 else 0) s)"
proof -
  have "ucast (ucast a + push_bit 12 (ucast i) :: u64) = (a + push_bit 12 i :: u32)" by (simp add: low_address)
  then show ?thesis
    using assms map_config_id [OF assms]
    by (auto simp: enumerate_function_def plain_config_def counted_def Let_def)
qed

text \<open>Loops over headers: the memory does not change, so the counts add up.\<close>

lemma enumerate_loop:
  assumes "\<And>k t. amem (disks t) = m \<Longrightarrow> body k t = Some (counted (f k) t)" "amem (disks s) = m"
  shows "for_up (0 :: u32) n (\<lambda>k acc. Option.bind acc (body k)) (Some s) =
    Some (counted (sum_list (map (\<lambda>k. f (of_nat k)) [0..<unat n])) s)"
proof -
  have "fold (\<lambda>k acc. Option.bind acc (body (of_nat k))) ks (Some s) =
    Some (counted (sum_list (map (\<lambda>k. f (of_nat k)) ks)) s)" for ks
    using assms(2) by (induction ks arbitrary: s) (simp_all add: assms(1) add.commute)
  then show ?thesis by (simp add: for_up_fold)
qed

lemma enumerate_device_effect:
  fixes i :: u32
  assumes "plain_config idpg (amem (disks s))"
  shows "enumerate_device dev idpg pg lay (ucast a) (ucast i) s =
    Some (counted (device_functions (amem (disks s)) (a + push_bit 15 i)) s)"
proof -
  have "ucast (ucast a + push_bit 15 (ucast i) :: u64) = (a + push_bit 15 i :: u32)" by (simp add: low_address)
  moreover have "for_up (0 :: u32) 8 (\<lambda>k acc. Option.bind acc (enumerate_function dev idpg pg lay (ucast b) (ucast k))) (Some s) =
    Some (counted (sum_list (map (\<lambda>k. if device_present (amem (disks s)) (b + push_bit 12 (of_nat k)) then 1 else 0) [0..<8])) s)" for b
    using enumerate_loop [of "amem (disks s)" "\<lambda>k. enumerate_function dev idpg pg lay (ucast b) (ucast k)"
        "\<lambda>k. if device_present (amem (disks s)) (b + push_bit 12 k) then 1 else 0" s 8]
      enumerate_function_effect assms by simp
  ultimately show ?thesis
    using map_config_id [OF assms] by (simp add: enumerate_device_def device_functions_def Let_def)
qed

lemma enumerate_bus_effect:
  fixes i :: u32
  assumes "plain_config idpg (amem (disks s))"
  shows "enumerate_bus dev idpg pg lay base (ucast i) s =
    Some (counted (bus_functions (amem (disks s)) (ucast base + push_bit 20 i)) s)"
proof -
  have "ucast (base + push_bit 20 (ucast i) :: u64) = (ucast base + push_bit 20 i :: u32)" by (rule low_address)
  moreover have "for_up (0 :: u32) 32 (\<lambda>k acc. Option.bind acc (enumerate_device dev idpg pg lay (ucast b) (ucast k))) (Some s) =
    Some (counted (sum_list (map (\<lambda>k. device_functions (amem (disks s)) (b + push_bit 15 (of_nat k))) [0..<32])) s)" for b
    using enumerate_loop [of "amem (disks s)" "\<lambda>k. enumerate_device dev idpg pg lay (ucast b) (ucast k)"
        "\<lambda>k. device_functions (amem (disks s)) (b + push_bit 15 k)" s 32]
      enumerate_device_effect assms by simp
  ultimately show ?thesis
    using map_config_id [OF assms] by (simp add: enumerate_bus_def bus_functions_def Let_def)
qed

lemma rd64_low: "ucast (rd64 m a) = rd32 m a"
  by (rule bit_word_eqI) (auto simp: rd64_def bit_simps)

text \<open>The loop over the buses ends after the last bus of the allocation, which is at most 255.\<close>

lemma enumerate_buses_effect:
  assumes "plain_config idpg (amem (disks s))" "bus \<le> 256"
  shows "enumerate_buses dev idpg pg lay config bus s =
    Some (counted (sum_list (map (\<lambda>b. bus_functions (amem (disks s)) (rd32 (amem (disks s)) config + push_bit 20 (of_nat b)))
      [unat bus..<unat (amem (disks s) (config + 11)) + 1])) s)"
  using assms
proof (induction "257 - unat bus" arbitrary: bus s)
  case 0
  then show ?case by (simp add: word_le_nat_alt)
next
  case (Suc n)
  let ?m = "amem (disks s)"
  let ?e = "ucast (?m (config + 11)) :: u32"
  have e: "unat ?e = unat (?m (config + 11))" "unat (?m (config + 11)) < 256"
    by (rule byte_as_u32)+
  show ?case
  proof (cases "bus \<le> ?e")
    case True
    then have b: "unat bus \<le> unat (?m (config + 11))" by (simp add: word_le_nat_alt e)
    have next_bus: "unat (bus + 1) = unat bus + 1" using b e(2) by (simp add: unat_add_small)
    let ?k = "bus_functions ?m (rd32 ?m config + push_bit 20 bus)"
    have "enumerate_buses dev idpg pg lay config (bus + 1) (counted ?k s) =
      Some (counted (sum_list (map (\<lambda>b. bus_functions ?m (rd32 ?m config + push_bit 20 (of_nat b)))
        [unat (bus + 1)..<unat (?m (config + 11)) + 1])) (counted ?k s))"
      using Suc.hyps(1) [of "bus + 1" "counted ?k s"] Suc.prems Suc.hyps(2) b e(2) next_bus
      by (simp add: word_le_nat_alt)
    moreover have "[unat bus..<unat (?m (config + 11)) + 1] = unat bus # [unat (bus + 1)..<unat (?m (config + 11)) + 1]"
      using b next_bus by (simp add: upt_rec)
    ultimately show ?thesis
      using True enumerate_bus_effect [OF Suc.prems(1), of dev pg lay "rd64 ?m config" bus]
      by (subst enumerate_buses.simps) (simp add: rd64_low)
  next
    case False
    then have "\<not> unat bus < unat (?m (config + 11)) + 1" by (simp add: word_le_nat_alt e)
    then show ?thesis using False by (subst enumerate_buses.simps) simp
  qed
qed

lemma enumerate_allocations_effect:
  assumes "plain_config idpg (amem (disks s))" "i \<le> entries"
  shows "enumerate_allocations dev idpg pg lay mcfg entries i s =
    Some (counted (sum_list (map (\<lambda>k. allocation_functions (amem (disks s)) (mcfg + 44 + 16 * of_nat k)) [unat i..<unat entries])) s)"
  using assms
proof (induction "unat entries - unat i" arbitrary: i s)
  case 0
  then have "\<not> i < entries" by (simp add: word_less_nat_alt)
  then show ?case using 0 by (subst enumerate_allocations.simps) (simp add: word_less_nat_alt)
next
  case (Suc n)
  then have less: "i < entries" by (simp add: word_less_nat_alt)
  let ?m = "amem (disks s)" and ?c = "mcfg + 44 + 16 * i"
  have i1: "unat (i + 1) = Suc (unat i)" by (rule unat_Suc_less [OF less])
  have start: "ucast (?m (?c + 10)) \<le> (256 :: u32)"
    using byte_as_u32 [of "?m (?c + 10)"] by (simp add: word_le_nat_alt)
  have u: "unat (ucast (?m (?c + 10)) :: u32) = unat (?m (?c + 10))"
    by (rule byte_as_u32)
  let ?k = "allocation_functions ?m ?c"
  have buses: "enumerate_buses dev idpg pg lay ?c (ucast (?m (?c + 10))) s = Some (counted ?k s)"
    using enumerate_buses_effect [OF Suc.prems(1) start, of dev pg lay ?c] unfolding u allocation_functions_def .
  have "enumerate_allocations dev idpg pg lay mcfg entries (i + 1) (counted ?k s) =
    Some (counted (sum_list (map (\<lambda>k. allocation_functions ?m (mcfg + 44 + 16 * of_nat k)) [unat (i + 1)..<unat entries])) (counted ?k s))"
    using Suc.hyps(1) [of "i + 1" "counted ?k s"] Suc.hyps(2) Suc.prems i1 le_of_less_plus_one [OF less] by simp
  moreover have "[unat i..<unat entries] = unat i # [unat (i + 1)..<unat entries]"
    using less i1 by (simp add: upt_conv_Cons word_less_nat_alt)
  ultimately show ?case
    using less buses map_config_id [OF Suc.prems(1)] by (subst enumerate_allocations.simps) (simp add: Let_def)
qed

section \<open>The processors\<close>

text \<open>The records from \<open>a\<close> to the end \<open>e\<close> of the table, by their addresses.\<close>

inductive records_at :: "mem \<Rightarrow> u32 \<Rightarrow> u32 \<Rightarrow> u32 list \<Rightarrow> bool" for m e where
  ends: "\<not> a < e \<Longrightarrow> records_at m e a []"
| one: "a < e \<Longrightarrow> records_at m e (a + ucast (m (a + 1))) rs \<Longrightarrow> records_at m e a (a # rs)"

definition enabled_ids :: "mem \<Rightarrow> u32 list \<Rightarrow> u8 list" where
  "enabled_ids m rs = map (\<lambda>a. m (a + 3)) (filter (\<lambda>a. m a = 0 \<and> m (a + 4) AND 1 \<noteq> 0) rs)"

definition last_word :: "mem \<Rightarrow> u8 \<Rightarrow> u32 list \<Rightarrow> u32 \<Rightarrow> u32" where
  "last_word m ty rs d = fold (\<lambda>a v. if m a = ty then rd32 m (a + 4) else v) rs d"

definition all_mapped :: "(u32 \<Rightarrow> mem \<Rightarrow> mem) \<Rightarrow> mem \<Rightarrow> bool" where
  "all_mapped idpg m \<longleftrightarrow> (\<forall>a. idpg a m = m)"

lemma madt_record_effect:
  assumes "all_mapped idpg (cmem c)"
  shows "cmem (madt_record idpg a c) = cmem c"
    "numcore (madt_record idpg a c) = numcore c + of_nat (length (enabled_ids (cmem c) [a]))"
    "lapic_ids (madt_record idpg a c) =
       (if enabled_ids (cmem c) [a] = [] then lapic_ids c else (lapic_ids c)(numcore c := cmem c (a + 3)))"
    "ioapic_ptr (madt_record idpg a c) = (if cmem c a = 1 then rd32 (cmem c) (a + 4) else ioapic_ptr c)"
    "lapic_ptr (madt_record idpg a c) = (if cmem c a = 5 then rd32 (cmem c) (a + 4) else lapic_ptr c)"
  using assms
  by (simp_all add: madt_record_def enabled_ids_def map_apic_def all_mapped_def Let_def rd64_low)

lemma madt_loop_records:
  assumes "records_at m e a rs" "all_mapped idpg m" "cmem c = m"
  shows "madt_loop idpg a e c = Some (fold (madt_record idpg) rs c)"
  using assms
proof (induction arbitrary: c rule: records_at.induct)
  case (ends a)
  then show ?case by (subst madt_loop.simps) simp
next
  case (one a rs)
  then have "cmem (madt_record idpg a c) = m" by (simp add: madt_record_effect)
  then show ?case using one by (subst madt_loop.simps) (simp add: Let_def)
qed

lemma enabled_ids_Cons: "enabled_ids m (a # rs) = enabled_ids m [a] @ enabled_ids m rs"
  by (simp add: enabled_ids_def)

lemma madt_fold:
  assumes "all_mapped idpg (cmem c)" "length (enabled_ids (cmem c) rs) \<le> 256"
  shows "cmem (fold (madt_record idpg) rs c) = cmem c \<and>
    numcore (fold (madt_record idpg) rs c) = numcore c + of_nat (length (enabled_ids (cmem c) rs)) \<and>
    ioapic_ptr (fold (madt_record idpg) rs c) = last_word (cmem c) 1 rs (ioapic_ptr c) \<and>
    lapic_ptr (fold (madt_record idpg) rs c) = last_word (cmem c) 5 rs (lapic_ptr c) \<and>
    (\<forall>i < length (enabled_ids (cmem c) rs).
       lapic_ids (fold (madt_record idpg) rs c) (numcore c + of_nat i) = enabled_ids (cmem c) rs ! i) \<and>
    (\<forall>k. length (enabled_ids (cmem c) rs) \<le> unat (k - numcore c) \<longrightarrow>
       lapic_ids (fold (madt_record idpg) rs c) k = lapic_ids c k)"
  using assms
proof (induction rs arbitrary: c)
  case Nil
  then show ?case by (simp add: enabled_ids_def last_word_def)
next
  case (Cons a rs)
  let ?c = "madt_record idpg a c" and ?m = "cmem c" and ?f = "fold (madt_record idpg) rs (madt_record idpg a c)"
  note eff = madt_record_effect [OF Cons.prems(1), of a]
  have len: "length (enabled_ids ?m (a # rs)) = length (enabled_ids ?m [a]) + length (enabled_ids ?m rs)"
    by (subst enabled_ids_Cons) simp
  note ih = Cons.IH [of ?c, unfolded eff(1), OF Cons.prems(1)]
  have le: "length (enabled_ids ?m rs) \<le> 256" using Cons.prems(2) len by simp
  note ih = ih [OF le]
  have base: "cmem ?f = ?m" "numcore ?f = numcore c + of_nat (length (enabled_ids ?m (a # rs)))"
    "ioapic_ptr ?f = last_word ?m 1 (a # rs) (ioapic_ptr c)" "lapic_ptr ?f = last_word ?m 5 (a # rs) (lapic_ptr c)"
    using ih eff len by (simp_all add: last_word_def add.assoc)
  have "(\<forall>i < length (enabled_ids ?m (a # rs)). lapic_ids ?f (numcore c + of_nat i) = enabled_ids ?m (a # rs) ! i) \<and>
    (\<forall>k. length (enabled_ids ?m (a # rs)) \<le> unat (k - numcore c) \<longrightarrow> lapic_ids ?f k = lapic_ids c k)"
  proof (cases "enabled_ids ?m [a] = []")
    case True
    then show ?thesis using ih eff by (simp add: enabled_ids_Cons [of _ _ rs])
  next
    case False
    then have one: "enabled_ids ?m [a] = [?m (a + 3)]" by (auto simp: enabled_ids_def split: if_splits)
    let ?L = "length (enabled_ids ?m rs)"
    have ids: "enabled_ids ?m (a # rs) = ?m (a + 3) # enabled_ids ?m rs" using one by (subst enabled_ids_Cons) simp
    have L: "?L \<le> 255" using Cons.prems(2) ids by simp
    have n: "numcore ?c = numcore c + 1" "lapic_ids ?c = (lapic_ids c)(numcore c := ?m (a + 3))"
      using eff one by simp_all
    have keep: "lapic_ids ?f k = lapic_ids c k" if k: "Suc ?L \<le> unat (k - numcore c)" for k
    proof -
      have "unat (k - (numcore c + 1)) = unat ((k - numcore c) - 1)" by (simp add: algebra_simps)
      moreover have "0 < k - numcore c" using k by (simp add: word_less_nat_alt)
      ultimately have "?L \<le> unat (k - (numcore c + 1))" "k \<noteq> numcore c"
        using k unat_pred_of_less [of 0 "k - numcore c"] by auto
      then show ?thesis using ih n by simp
    qed
    have "?L \<le> unat (numcore c - (numcore c + 1))" using L by (simp add: unsigned_minus_1_eq_mask mask_eq_exp_minus_1)
    then have first: "lapic_ids ?f (numcore c) = ?m (a + 3)" using ih n by simp
    have rest: "lapic_ids ?f (numcore c + of_nat (Suc i)) = enabled_ids ?m rs ! i" if "i < ?L" for i
      using ih n that by (simp add: add.assoc)
    have all: "lapic_ids ?f (numcore c + of_nat i) = (?m (a + 3) # enabled_ids ?m rs) ! i" if "i < Suc ?L" for i
      using first rest that by (cases i) (simp_all del: of_nat_Suc)
    show ?thesis unfolding ids length_Cons using keep all by blast
  qed
  then show ?case using base by simp
qed

section \<open>Properties\<close>


definition sample_pcie :: pcie where
  "sample_pcie = \<lparr> disks = \<lparr> aheap = \<lparr> hmem = (\<lambda>_. 0), first_free_virtual_address = 0,
       last_free_virtual_address = 0, number_of_pages_allocated = 0, heap_head = 0 \<rparr>, clock = 0,
       pci_device_base_addr = 0, abar = 0, ahci_ports = (\<lambda>_. 0), ahci_port_count = 0 \<rparr>, num_of_valid_devices = 5 \<rparr>"


text \<open>C32. \<open>detect_cores\<close> returns for a MADT whose records lead to its end, and finds the enabled processors in the order
  of the table, the address of the last I/O APIC, and the address of the local APIC
  from the table or from its last override; the count is kept in 8 bits, so 256 processors count as none.\<close>

theorem detect_cores_reads_madt:
  assumes "all_mapped idpg (cmem c)" "records_at (cmem c) (madt + rd32 (cmem c) (madt + 4)) (madt + 44) rs"
    and "length (enabled_ids (cmem c) rs) \<le> 256" "numcore c = 0"
  shows "\<exists>c'. detect_cores idpg madt c = Some c' \<and>
    map (\<lambda>i. lapic_ids c' (of_nat i)) [0..<length (enabled_ids (cmem c) rs)] = enabled_ids (cmem c) rs \<and>
    unat (numcore c') = length (enabled_ids (cmem c) rs) mod 256 \<and>
    ioapic_ptr c' = last_word (cmem c) 1 rs (ioapic_ptr c) \<and>
    lapic_ptr c' = last_word (cmem c) 5 rs (rd32 (cmem c) (madt + 36))"
proof -
  let ?c = "c\<lparr> lapic_ptr := rd32 (cmem c) (madt + 36) \<rparr>" and ?ids = "enabled_ids (cmem c) rs"
  have map: "map_apic idpg a ?c = ?c" for a using assms(1) by (simp add: map_apic_def all_mapped_def)
  have "detect_cores idpg madt c = Some (fold (madt_record idpg) rs ?c)"
    using madt_loop_records [OF assms(2,1), of ?c] map by (simp add: detect_cores_def Let_def)
  moreover have "all_mapped idpg (cmem ?c)" "length (enabled_ids (cmem ?c) rs) \<le> 256" using assms by simp_all
  note fold = madt_fold [OF this]
  have "unat (of_nat (length ?ids) :: u8) = length ?ids mod 256" by (simp add: unsigned_of_nat take_bit_eq_mod)
  moreover have "map (\<lambda>i. lapic_ids (fold (madt_record idpg) rs ?c) (of_nat i)) [0..<length ?ids] = ?ids"
    using fold assms(4) by (intro nth_equalityI) simp_all
  ultimately show ?thesis using fold assms(4)
    by (intro exI [of _ "fold (madt_record idpg) rs ?c"] conjI) simp_all
qed

text \<open>A record of length 0 before the end of the table is read again and again: \<open>detect_cores\<close> never returns.\<close>

theorem detect_cores_stuck:
  assumes "all_mapped idpg (cmem c)" "madt + 44 < madt + rd32 (cmem c) (madt + 4)" "cmem c (madt + 45) = 0"
  shows "detect_cores idpg madt c = None"
proof -
  have "\<not> (a < e \<and> cmem c (a + 1) = 0 \<and> all_mapped idpg (cmem c))" if y: "madt_loop idpg a e c = Some y" for a e c y
  proof (rule madt_loop.raw_induct [where P = "\<lambda>idpg a e c y. \<not> (a < e \<and> cmem c (a + 1) = 0 \<and> all_mapped idpg (cmem c))", OF _ y])
    fix loop :: "(u32 \<Rightarrow> mem \<Rightarrow> mem) \<Rightarrow> u32 \<Rightarrow> u32 \<Rightarrow> cores \<Rightarrow> cores option" and idpg a e c y
    assume ih: "\<And>idpg a e c y. loop idpg a e c = Some y \<Longrightarrow> \<not> (a < e \<and> cmem c (a + 1) = 0 \<and> all_mapped idpg (cmem c))"
      and eq: "(if a < e then let c1 = madt_record idpg a c in loop idpg (a + ucast (cmem c1 (a + 1))) e c1 else Some c) = Some y"
    show "\<not> (a < e \<and> cmem c (a + 1) = 0 \<and> all_mapped idpg (cmem c))"
    proof
      assume stuck: "a < e \<and> cmem c (a + 1) = 0 \<and> all_mapped idpg (cmem c)"
      then have "loop idpg a e (madt_record idpg a c) = Some y" using eq by (simp add: Let_def madt_record_effect)
      from ih [OF this] stuck show False by (simp add: madt_record_effect)
    qed
  qed
  note stuck = this
  let ?c = "c\<lparr> lapic_ptr := rd32 (cmem c) (madt + 36) \<rparr>"
  have "map_apic idpg a ?c = ?c" for a using assms(1) by (simp add: map_apic_def all_mapped_def)
  then have "detect_cores idpg madt c = madt_loop idpg (madt + 44) (madt + rd32 (cmem c) (madt + 4)) ?c"
    by (simp add: detect_cores_def Let_def)
  moreover have "madt_loop idpg (madt + 44) (madt + rd32 (cmem c) (madt + 4)) ?c \<noteq> Some y" for y
    using stuck [of "madt + 44" "madt + rd32 (cmem c) (madt + 4)" ?c y] assms by (auto simp: add.commute)
  ultimately show ?thesis by (metis option.exhaust)
qed

definition sample_cores :: "mem \<Rightarrow> cores" where
  "sample_cores m = \<lparr> cmem = m, lapic_ids = (\<lambda>_. 0), numcore = 0, lapic_ptr = 0, ioapic_ptr = 0 \<rparr>"

text \<open>A table of one enabled processor with the id 7: 52 bytes, the record at byte 44.\<close>

definition sample_madt :: mem where
  "sample_madt = (wr32 (wr32 (\<lambda>_. 0) 4 52) 44 0x07000800)(48 := 1)"

theorem detect_cores_reads_madt_witness:
  "\<exists>c'. detect_cores (\<lambda>_ m. m) 0 (sample_cores sample_madt) = Some c' \<and> lapic_ids c' 0 = 7 \<and> numcore c' = 1"
proof -
  have m: "rd32 sample_madt 4 = 52" "sample_madt 44 = 0" "sample_madt 45 = 8" "sample_madt 47 = 7" "sample_madt 48 = 1"
    by (simp_all add: sample_madt_def rd32_def wr32_def)
  have rec: "records_at sample_madt (0 + rd32 sample_madt (0 + 4)) (0 + 44) [44]"
    using records_at.one [of 44 52 sample_madt "[]"] records_at.ends [of 52 52 sample_madt] m by simp
  have ids: "enabled_ids sample_madt [44] = [7]" using m by (simp add: enabled_ids_def)
  show ?thesis
    using detect_cores_reads_madt [of "\<lambda>_ m. m" "sample_cores sample_madt" 0 "[44]"] rec ids
    by (auto simp: sample_cores_def all_mapped_def word_unat_eq_iff)
qed

theorem detect_cores_stuck_witness:
  "detect_cores (\<lambda>_ m. m) 0 (sample_cores (wr32 (\<lambda>_. 0) 4 52)) = None"
proof -
  have "rd32 (wr32 (\<lambda>_. 0) 4 52) 4 = (52 :: u32)" "wr32 (\<lambda>_. 0) 4 52 45 = 0" by (simp_all add: wr32_def rd32_def)
  then show ?thesis
    using detect_cores_stuck [of "\<lambda>_ m. m" "sample_cores (wr32 (\<lambda>_. 0) 4 52)" 0] by (simp add: sample_cores_def all_mapped_def)
qed

end
