(* ===== verification/HeapProps.thy ===== *)
theory HeapProps
  imports Heap
begin

text \<open>
  Correctness of the kernel heap (theory \<open>Heap\<close>).  The memory from \<open>HEAP_START_ADDR\<close> is read as an
  array of words, \<open>word_at\<close>.  A well-formed heap, \<open>heap_ok\<close>, is tiled by blocks (size and whether it
  is in use, in the order of their addresses), each with its two tags, and its free blocks, in some order, are
  the doubly linked free list.
\<close>

unbundle bit_operations_syntax

section \<open>The heap as an array of words\<close>

definition heap_limit :: nat where "heap_limit = 268386304"

definition haddr :: "nat \<Rightarrow> u32" where
  "haddr i = HEAP_START_ADDR + 4 * of_nat i"

definition word_at :: "heap \<Rightarrow> nat \<Rightarrow> u32" where
  "word_at h i = (if i < heap_limit then rd32 (hmem h) (haddr i) else 0)"

lemma heap_start: "HEAP_START_ADDR = 3221422080"
  by (simp add: mem_constants)

lemma haddr_unat: "i < heap_limit \<Longrightarrow> unat (haddr i) = 3221422080 + 4 * i"
proof -
  assume i: "i < heap_limit"
  have "haddr i = of_nat (3221422080 + 4 * i)" by (simp add: haddr_def heap_start)
  then show ?thesis using i unat_of_nat_small [where 'a = 32, of "3221422080 + 4 * i"] by (simp add: heap_limit_def)
qed

lemma haddr_nonzero: "i < heap_limit \<Longrightarrow> haddr i \<noteq> 0"
  using haddr_unat [of i] by (auto simp: word_unat_eq_iff)

lemma haddr_inj: "i < heap_limit \<Longrightarrow> j < heap_limit \<Longrightarrow> haddr i = haddr j \<longleftrightarrow> i = j"
  using haddr_unat [of i] haddr_unat [of j] by (auto simp: word_unat_eq_iff)

lemma haddr_aligned: "i < heap_limit \<Longrightarrow> aligned4 (haddr i)"
  by (simp add: haddr_unat dvd_add_right_iff)

lemma haddr_plus: "haddr i + 4 * j = haddr (i + unat j)"
  by (simp add: haddr_def algebra_simps)

lemma haddr_minus: "unat j \<le> i \<Longrightarrow> haddr i - 4 * j = haddr (i - unat j)"
  by (simp add: haddr_def of_nat_diff algebra_simps)

lemma hget_word: "i + unat j < heap_limit \<Longrightarrow> hget h (haddr i) j = word_at h (i + unat j)"
  by (simp add: hget_def word_at_def haddr_plus)

lemma hget_before: "0 < i \<Longrightarrow> i < heap_limit \<Longrightarrow> hget h (haddr i) (- 1) = word_at h (i - 1)"
  using haddr_minus [of 1 i] by (simp add: hget_def word_at_def less_imp_diff_less)

lemma hput_word:
  "i + unat j < heap_limit \<Longrightarrow> word_at (hput (haddr i) j v h) = (word_at h)(i + unat j := v)"
  by (auto simp: fun_eq_iff word_at_def hput_def haddr_plus haddr_inj haddr_aligned)

lemma hput_before:
  "0 < i \<Longrightarrow> i < heap_limit \<Longrightarrow> word_at (hput (haddr i) (- 1) v h) = (word_at h)(i - 1 := v)"
  using hput_word [of "i - 1" 0] haddr_minus [of 1 i] by (simp add: hput_def)

lemma hput_fields [simp]:
  "heap_head (hput p i v h) = heap_head h"
  "last_free_virtual_address (hput p i v h) = last_free_virtual_address h"
  "number_of_pages_allocated (hput p i v h) = number_of_pages_allocated h"
  "first_free_virtual_address (hput p i v h) = first_free_virtual_address h"
  by (simp_all add: hput_def)

lemma word_at_fields [simp]:
  "word_at (h\<lparr> heap_head := x \<rparr>) = word_at h"
  "word_at (h\<lparr> last_free_virtual_address := x \<rparr>) = word_at h"
  "word_at (h\<lparr> number_of_pages_allocated := n \<rparr>) = word_at h"
  by (simp_all add: fun_eq_iff word_at_def)

lemma hput_head_commute: "(hput p i v h)\<lparr> heap_head := x \<rparr> = hput p i v (h\<lparr> heap_head := x \<rparr>)"
  by (simp add: hput_def)

section \<open>Blocks\<close>

definition size_tag :: "nat \<Rightarrow> bool \<Rightarrow> u32" where
  "size_tag n used = (if used then of_nat n OR 0x80000000 else of_nat n)"

lemma size_tag_simps:
  assumes "n < heap_limit"
  shows "get_size (size_tag n used) = of_nat n" "get_allocated_bit (size_tag n used) = used"
    "size_tag n used AND 0x7fffffff = of_nat n" "of_nat n OR 0x80000000 = size_tag n True"
proof -
  have m: "(0x7fffffff :: u32) = mask 31" "(0x80000000 :: u32) = push_bit 31 1"
    by (simp_all add: mask_eq_exp_minus_1)
  have b: "bit (0x80000000 :: u32) = (\<lambda>k. k = 31)"
  proof
    fix k
    have "bit (push_bit 31 (1 :: u32)) k \<longleftrightarrow> k = 31" by (simp only: bit_simps) auto
    then show "bit (0x80000000 :: u32) k \<longleftrightarrow> k = 31" unfolding m(2) .
  qed
  have small: "k < 31" if "bit n k" for k
  proof -
    have "take_bit 31 n = n" using assms by (intro take_bit_nat_eq_self) (simp add: heap_limit_def)
    then show ?thesis using that by (metis bit_take_bit_iff)
  qed
  show and7: "size_tag n used AND 0x7fffffff = of_nat n"
    unfolding m(1) size_tag_def by (rule bit_word_eqI) (auto simp: bit_simps b dest: small)
  then show "get_size (size_tag n used) = of_nat n" by (simp add: get_size_def)
  have "size_tag n used AND 0x80000000 = (if used then 0x80000000 else 0)"
    unfolding size_tag_def by (rule bit_word_eqI) (auto simp: bit_simps b dest: small)
  then show "get_allocated_bit (size_tag n used) = used" by (simp add: get_allocated_bit_def)
  show "of_nat n OR 0x80000000 = size_tag n True" by (simp add: size_tag_def)
qed

text \<open>The blocks from word \<open>i\<close> on, with their positions.\<close>

fun blocks :: "nat \<Rightarrow> (nat \<times> bool) list \<Rightarrow> (nat \<times> nat \<times> bool) list" where
  "blocks i [] = []"
| "blocks i ((n, used) # bs) = (i, n, used) # blocks (i + n) bs"

definition extent :: "(nat \<times> bool) list \<Rightarrow> nat" where
  "extent bs = sum_list (map fst bs)"

lemma extent_simps [simp]: "extent [] = 0" "extent ((n, used) # bs) = n + extent bs" "extent (xs @ ys) = extent xs + extent ys"
  by (simp_all add: extent_def)

lemma blocks_append: "blocks i (xs @ ys) = blocks i xs @ blocks (i + extent xs) ys"
  by (induction xs arbitrary: i) (auto simp: add.assoc)

lemma blocks_range: "(j, n, used) \<in> set (blocks i bs) \<Longrightarrow> i \<le> j \<and> j + n \<le> i + extent bs"
  by (induction bs arbitrary: i) force+

lemma blocks_split:
  "(j, n, used) \<in> set (blocks i bs) \<Longrightarrow> \<exists>xs ys. bs = xs @ (n, used) # ys \<and> j = i + extent xs"
proof (induction bs arbitrary: i)
  case (Cons b bs)
  obtain m u where b: "b = (m, u)" by fastforce
  show ?case
  proof (cases "(j, n, used) = (i, m, u)")
    case True
    then show ?thesis using b by (intro exI [of _ "[]"] exI [of _ bs]) auto
  next
    case False
    then obtain xs ys where "bs = xs @ (n, used) # ys" "j = i + m + extent xs"
      using Cons b by force
    then show ?thesis using b by (intro exI [of _ "b # xs"] exI [of _ ys]) auto
  qed
qed simp

definition block_ok :: "(nat \<Rightarrow> u32) \<Rightarrow> nat \<times> nat \<times> bool \<Rightarrow> bool" where
  "block_ok w b = (case b of (i, n, used) \<Rightarrow> 4 \<le> n \<and> w i = size_tag n used \<and> w (i + n - 1) = size_tag n used \<and>
     (used \<longrightarrow> w (i + 1) = 0 \<and> w (i + 2) = 0))"

section \<open>The free list\<close>

fun first_ptr :: "nat list \<Rightarrow> u32 \<Rightarrow> u32" where
  "first_ptr [] nxt = nxt"
| "first_ptr (p # ps) nxt = haddr p"

fun last_ptr :: "u32 \<Rightarrow> nat list \<Rightarrow> u32" where
  "last_ptr prv [] = prv"
| "last_ptr prv (p # ps) = last_ptr (haddr p) ps"

fun links :: "(nat \<Rightarrow> u32) \<Rightarrow> u32 \<Rightarrow> nat list \<Rightarrow> u32 \<Rightarrow> bool" where
  "links w prv [] nxt \<longleftrightarrow> True"
| "links w prv (p # ps) nxt \<longleftrightarrow> w (p + 1) = prv \<and> w (p + 2) = first_ptr ps nxt \<and> links w (haddr p) ps nxt"

lemma first_ptr_append: "first_ptr (ps @ qs) nxt = first_ptr ps (first_ptr qs nxt)"
  by (cases ps) simp_all

lemma last_ptr_snoc: "last_ptr prv (ps @ [p]) = haddr p"
  by (induction ps arbitrary: prv) simp_all

lemma links_append:
  "links w prv (ps @ qs) nxt \<longleftrightarrow> links w prv ps (first_ptr qs nxt) \<and> links w (last_ptr prv ps) qs nxt"
  by (induction ps arbitrary: prv) (auto simp: first_ptr_append)

lemma links_frame:
  "links w prv ps nxt \<Longrightarrow> (\<And>p. p \<in> set ps \<Longrightarrow> w' (p + 1) = w (p + 1) \<and> w' (p + 2) = w (p + 2)) \<Longrightarrow>
    links w' prv ps nxt"
  by (induction ps arbitrary: prv) auto

text \<open>The successor of the last block of \<open>before\<close> becomes \<open>x\<close>, and the predecessor of the first of
  \<open>after\<close> becomes \<open>y\<close>.\<close>

definition relink :: "nat list \<Rightarrow> nat list \<Rightarrow> u32 \<Rightarrow> u32 \<Rightarrow> (nat \<Rightarrow> u32) \<Rightarrow> nat \<Rightarrow> u32" where
  "relink before after x y w =
     (let w1 = (if before = [] then w else w(last before + 2 := x))
      in if after = [] then w1 else w1(hd after + 1 := y))"

text \<open>The link words of different blocks are different words.\<close>

definition spaced :: "nat set \<Rightarrow> bool" where
  "spaced S \<longleftrightarrow> (\<forall>p \<in> S. \<forall>q \<in> S. p < q \<longrightarrow> p + 4 \<le> q)"

lemma relink_frame:
  "relink before after x y w k \<noteq> w k \<Longrightarrow> \<exists>p \<in> set before \<union> set after. k = p + 1 \<or> k = p + 2"
  by (auto simp: relink_def Let_def split: if_splits)

lemma relink_cong: "w k = w' k \<Longrightarrow> relink before after x y w k = relink before after x y w' k"
  by (cases "before = []"; cases "after = []") (simp_all add: relink_def)

lemma spaced_links: "spaced S \<Longrightarrow> p \<in> S \<Longrightarrow> q \<in> S \<Longrightarrow> p + 1 \<noteq> q + 2"
proof -
  assume "spaced S" "p \<in> S" "q \<in> S"
  then have "q < p \<Longrightarrow> q + 4 \<le> p" unfolding spaced_def by blast
  then show ?thesis by linarith
qed

lemma links_relink:
  assumes l: "links w 0 before u" "links w v after 0" and d: "distinct (before @ after)"
    and s: "spaced (set (before @ after))"
  shows "links (relink before after x y w) 0 before x" "links (relink before after x y w) y after 0"
proof -
  let ?w = "relink before after x y w"
  have ends: "after = [] \<or> hd after \<in> set (before @ after)" "before = [] \<or> last before \<in> set (before @ after)"
    by auto
  have prev: "?w (q + 1) = w (q + 1)" if "q \<in> set (before @ after)" "after = [] \<or> q \<noteq> hd after" for q
    using that ends(2) spaced_links [OF s, of q "last before"] by (auto simp: relink_def Let_def)
  have nxt: "?w (q + 2) = w (q + 2)" if "q \<in> set (before @ after)" "before = [] \<or> q \<noteq> last before" for q
    using that ends(1) spaced_links [OF s, of "hd after" q] by (fastforce simp: relink_def Let_def)
  have apart: "q \<in> set before \<Longrightarrow> after = [] \<or> q \<noteq> hd after" "q \<in> set after \<Longrightarrow> before = [] \<or> q \<noteq> last before" for q
    using d last_in_set [of before] by (auto simp: disjoint_iff)
  show "links ?w 0 before x"
  proof (cases before rule: rev_cases)
    case (snoc ps p)
    have "links ?w 0 ps (haddr p)"
      by (rule links_frame [of w]) (use l(1) d snoc prev nxt apart(1) in \<open>auto simp: links_append\<close>)
    moreover have "?w (p + 1) = w (p + 1)" using snoc by (intro prev apart(1)) auto
    moreover have "?w (p + 2) = x" using snoc ends(1) spaced_links [OF s, of "hd after" p] by (fastforce simp: relink_def Let_def)
    ultimately show ?thesis using l(1) snoc by (simp add: links_append)
  qed simp
  show "links ?w y after 0"
  proof (cases after)
    case (Cons p ps)
    have "links ?w (haddr p) ps 0"
      by (rule links_frame [of w]) (use l(2) d Cons prev nxt apart(2) in auto)
    moreover have "?w (p + 2) = w (p + 2)" using Cons by (intro nxt apart(2)) auto
    moreover have "?w (p + 1) = y" using Cons by (simp add: relink_def Let_def)
    ultimately show ?thesis using l(2) Cons by simp
  qed simp
qed

section \<open>Well-formed heaps\<close>

definition free_blocks :: "(nat \<times> bool) list \<Rightarrow> nat set" where
  "free_blocks bs = {j. \<exists>n. (j, n, False) \<in> set (blocks 0 bs)}"

text \<open>\<open>heap_part\<close>: the list holds free blocks, but perhaps not all of them, as in the midst of \<open>kfree\<close>.\<close>

definition heap_part :: "heap \<Rightarrow> (nat \<times> bool) list \<Rightarrow> nat list \<Rightarrow> bool" where
  "heap_part h bs fl \<longleftrightarrow> extent bs < heap_limit \<and> last_free_virtual_address h = haddr (extent bs) \<and>
     (\<forall>b \<in> set (blocks 0 bs). block_ok (word_at h) b) \<and>
     distinct fl \<and> set fl \<subseteq> free_blocks bs \<and> links (word_at h) 0 fl 0 \<and> heap_head h = first_ptr fl 0"

definition heap_ok :: "heap \<Rightarrow> (nat \<times> bool) list \<Rightarrow> nat list \<Rightarrow> bool" where
  "heap_ok h bs fl \<longleftrightarrow> heap_part h bs fl \<and> set fl = free_blocks bs"

lemma heap_ok_part: "heap_ok h bs fl \<Longrightarrow> heap_part h bs fl"
  by (simp add: heap_ok_def)

lemma blocks_disjoint:
  "(j, n, u) \<in> set (blocks i bs) \<Longrightarrow> (k, m, v) \<in> set (blocks i bs) \<Longrightarrow> j < k \<Longrightarrow> j + n \<le> k"
proof (induction bs arbitrary: i)
  case (Cons b bs)
  obtain l x where b: "b = (l, x)" by fastforce
  show ?case using Cons.IH [of "i + l"] Cons.prems b blocks_range [of j n u "i + l" bs] blocks_range [of k m v "i + l" bs]
    by auto
qed simp

lemma blocks_unique:
  assumes "(j, n, u) \<in> set (blocks i bs)" "(j, m, v) \<in> set (blocks i bs)" "0 < n" "0 < m"
  shows "n = m \<and> u = v"
  using assms
proof (induction bs arbitrary: i)
  case (Cons b bs)
  obtain l x where b: "b = (l, x)" by fastforce
  show ?case
    using Cons.IH [of "i + l"] Cons.prems b blocks_range [of j n u "i + l" bs] blocks_range [of j m v "i + l" bs]
    by auto
qed simp

lemma free_blocks_spaced:
  assumes "\<forall>b \<in> set (blocks 0 bs). block_ok w b"
  shows "spaced (free_blocks bs)"
  unfolding spaced_def
proof (intro ballI impI)
  fix p q assume "p \<in> free_blocks bs" "q \<in> free_blocks bs" "p < q"
  then obtain n m where "(p, n, False) \<in> set (blocks 0 bs)" "(q, m, False) \<in> set (blocks 0 bs)"
    by (auto simp: free_blocks_def)
  then show "p + 4 \<le> q" using blocks_disjoint [of p n False 0 bs q m False] assms \<open>p < q\<close>
    by (fastforce simp: block_ok_def)
qed

lemma free_block_room:
  assumes "heap_part h bs fl" "p \<in> set fl"
  shows "p + 4 \<le> extent bs" "p + 3 < heap_limit"
proof -
  have "p \<in> free_blocks bs" using assms by (auto simp: heap_part_def)
  then obtain n where n: "(p, n, False) \<in> set (blocks 0 bs)" by (auto simp: free_blocks_def)
  moreover have "4 \<le> n" using assms(1) n by (fastforce simp: heap_part_def block_ok_def)
  ultimately show "p + 4 \<le> extent bs" using blocks_range by fastforce
  then show "p + 3 < heap_limit" using assms(1) by (simp add: heap_part_def)
qed

text \<open>Changes of one region, and of link words of free blocks outside it, leave the other blocks well-formed.\<close>

lemma others_ok:
  assumes ok: "\<forall>b \<in> set (blocks 0 (xs @ old @ ys)). block_ok w b"
    and F: "F \<subseteq> free_blocks (xs @ old @ ys)"
    and frame: "\<And>k. k < extent xs \<or> extent xs + extent old \<le> k \<Longrightarrow> w' k \<noteq> w k \<Longrightarrow> \<exists>p \<in> F. k = p + 1 \<or> k = p + 2"
    and b: "b \<in> set (blocks 0 xs) \<union> set (blocks (extent xs + extent old) ys)"
  shows "block_ok w' b"
proof -
  obtain j n u where bj: "b = (j, n, u)" by (cases b) auto
  have mem: "(j, n, u) \<in> set (blocks 0 (xs @ old @ ys))" using b bj by (auto simp: blocks_append add.assoc)
  then have w: "block_ok w (j, n, u)" using ok by blast
  then have n: "4 \<le> n" by (simp add: block_ok_def)
  have out: "k < extent xs \<or> extent xs + extent old \<le> k" if "j \<le> k" "k < j + n" for k
    using b that blocks_range [of j n u 0 xs] blocks_range [of j n u "extent xs + extent old" ys] bj by auto
  have links: "k \<noteq> p + 1 \<and> k \<noteq> p + 2"
    if p: "p \<in> F" and k: "k \<in> (if u then {j, j + 1, j + 2, j + n - 1} else {j, j + n - 1})" for p k
  proof -
    obtain m where m: "(p, m, False) \<in> set (blocks 0 (xs @ old @ ys))"
      using p F by (auto simp: free_blocks_def)
    then have "4 \<le> m" using ok by (fastforce simp: block_ok_def)
    have "p = j \<Longrightarrow> \<not> u"
      using blocks_unique [OF mem, of m False] m n \<open>4 \<le> m\<close> by auto
    moreover have "p < j \<Longrightarrow> p + m \<le> j" "j < p \<Longrightarrow> j + n \<le> p"
      using blocks_disjoint [OF m mem] blocks_disjoint [OF mem m] by auto
    ultimately show ?thesis using k n \<open>4 \<le> m\<close> by (cases p j rule: linorder_cases) (auto split: if_splits)
  qed
  have same: "w' k = w k" if "k \<in> (if u then {j, j + 1, j + 2, j + n - 1} else {j, j + n - 1})" for k
    using frame [of k] out [of k] links [OF _ that] that n by (fastforce split: if_splits)
  show ?thesis using w same [of j] same [of "j + 1"] same [of "j + 2"] same [of "j + n - 1"]
    by (cases u) (auto simp: bj block_ok_def)
qed

section \<open>The pieces of the code\<close>

lemma first_ptr_nonzero:
  "(\<And>p. p \<in> set ps \<Longrightarrow> p + 3 < heap_limit) \<Longrightarrow> first_ptr ps 0 = 0 \<longleftrightarrow> ps = []"
proof (cases ps)
  case (Cons p qs)
  assume "\<And>p. p \<in> set ps \<Longrightarrow> p + 3 < heap_limit"
  then have "p + 3 < heap_limit" using Cons by simp
  then show ?thesis using Cons haddr_nonzero [of p] by simp
qed simp

lemma last_ptr_last: "last_ptr prv ps = (if ps = [] then prv else haddr (last ps))"
  by (induction ps arbitrary: prv) auto

lemma first_ptr_hd: "first_ptr ps nxt = (if ps = [] then nxt else haddr (hd ps))"
  by (cases ps) auto

text \<open>The two assignments by which the code changes the neighbours of a block in the free list.\<close>

definition set_next :: "u32 \<Rightarrow> u32 \<Rightarrow> heap \<Rightarrow> heap" where
  "set_next x prv h = (if prv \<noteq> 0 then hput prv 2 x h else h\<lparr> heap_head := x \<rparr>)"

definition set_prev :: "u32 \<Rightarrow> u32 \<Rightarrow> heap \<Rightarrow> heap" where
  "set_prev y nxt h = (if nxt \<noteq> 0 then hput nxt 1 y h else h)"

lemma set_links_fields [simp]:
  "last_free_virtual_address (set_next x prv h) = last_free_virtual_address h"
  "last_free_virtual_address (set_prev y nxt h) = last_free_virtual_address h"
  "heap_head (set_prev y nxt h) = heap_head h"
  by (simp_all add: set_prev_def set_next_def)

text \<open>The bytes below the heap.\<close>

definition low_kept :: "heap \<Rightarrow> heap \<Rightarrow> bool" where
  "low_kept h h' \<longleftrightarrow> (\<forall>x < HEAP_START_ADDR. hmem h' x = hmem h x)"

lemma low_kept_refl [simp]: "low_kept h h"
  by (simp add: low_kept_def)

lemma low_kept_trans: "low_kept h h1 \<Longrightarrow> low_kept h1 h2 \<Longrightarrow> low_kept h h2"
  by (simp add: low_kept_def)

lemma low_hput:
  assumes "low_kept h0 h" "i + unat j < heap_limit"
  shows "low_kept h0 (hput (haddr i) j v h)"
  unfolding low_kept_def
proof (intro allI impI)
  fix x assume x: "x < HEAP_START_ADDR"
  have "x \<noteq> haddr (i + unat j) + k" if "unat k < 4" for k
  proof
    assume "x = haddr (i + unat j) + k"
    moreover have "unat (haddr (i + unat j) + k) = unat (haddr (i + unat j)) + unat k"
      using haddr_unat [OF assms(2)] that assms(2) by (intro unat_add_small) (simp add: heap_limit_def)
    ultimately show False using x haddr_unat [OF assms(2)] by (simp add: word_less_nat_alt heap_start)
  qed
  from this [of 0] this [of 1] this [of 2] this [of 3] have "hmem (hput (haddr i) j v h) x = hmem h x"
    by (simp add: hput_def haddr_plus wr32_def)
  then show "hmem (hput (haddr i) j v h) x = hmem h0 x" using assms(1) x by (simp add: low_kept_def)
qed

lemma low_hput_before: "low_kept h0 h \<Longrightarrow> 0 < i \<Longrightarrow> i < heap_limit \<Longrightarrow> low_kept h0 (hput (haddr i) (- 1) v h)"
  using low_hput [of h0 h "i - 1" 0 v] haddr_minus [of 1 i] by (simp add: hput_def)

lemma low_head [simp]: "low_kept h0 (h\<lparr> heap_head := x \<rparr>) = low_kept h0 h"
  by (simp add: low_kept_def)

lemma low_set_links:
  assumes "low_kept h0 h" "\<And>p. p \<in> set ps \<Longrightarrow> p + 3 < heap_limit"
  shows "low_kept h0 (set_next x (last_ptr 0 ps) h)" "low_kept h0 (set_prev x (first_ptr ps 0) h)"
  using assms(1) low_hput [OF assms(1), of "last ps" 2 x] low_hput [OF assms(1), of "hd ps" 1 x] assms(2) [of "last ps"] assms(2) [of "hd ps"]
  by (auto simp: set_next_def set_prev_def last_ptr_last first_ptr_hd)

lemma relink_code:
  assumes room: "\<And>p. p \<in> set before \<union> set after \<Longrightarrow> p + 3 < heap_limit"
  shows "word_at (set_prev y (first_ptr after 0) (set_next x (last_ptr 0 before) h)) =
      relink before after x y (word_at h)"
    and "heap_head (set_prev y nxt (set_next x (last_ptr 0 before) h)) = (if before = [] then x else heap_head h)"
proof -
  have b: "before \<noteq> [] \<Longrightarrow> last before + 3 < heap_limit" using room by simp
  then have b0: "before \<noteq> [] \<Longrightarrow> haddr (last before) \<noteq> 0" by (intro haddr_nonzero) simp
  have a: "after \<noteq> [] \<Longrightarrow> hd after + 3 < heap_limit" using room by simp
  then have a0: "after \<noteq> [] \<Longrightarrow> haddr (hd after) \<noteq> 0" by (intro haddr_nonzero) simp
  show "word_at (set_prev y (first_ptr after 0) (set_next x (last_ptr 0 before) h)) =
      relink before after x y (word_at h)"
    using a a0 b b0 hput_word [of "hd after" 1] hput_word [of "last before" 2]
    by (cases "before = []"; cases "after = []")
      (simp_all add: set_prev_def set_next_def relink_def Let_def last_ptr_last first_ptr_hd)
  show "heap_head (set_prev y nxt (set_next x (last_ptr 0 before) h)) = (if before = [] then x else heap_head h)"
    using b0 by (simp add: set_prev_def set_next_def last_ptr_last)
qed

section \<open>Allocation from a block\<close>

lemma free_block_size:
  assumes "heap_part h (xs @ (n, used) # ys) fl"
  shows "4 \<le> n" "extent xs + n < heap_limit" "n < heap_limit"
    "word_at h (extent xs) = size_tag n used" "word_at h (extent xs + n - 1) = size_tag n used"
    "used \<Longrightarrow> word_at h (extent xs + 1) = 0 \<and> word_at h (extent xs + 2) = 0"
  using assms by (auto simp: heap_part_def blocks_append block_ok_def)

lemma not_own:
  assumes ok: "heap_part h (xs @ (n, used) # ys) fl" and p: "p \<in> set fl" "p \<noteq> extent xs"
  shows "p + 4 \<le> extent xs \<or> extent xs + n \<le> p"
proof -
  from p obtain m where m: "(p, m, False) \<in> set (blocks 0 (xs @ (n, used) # ys))"
    using ok by (auto simp: heap_part_def free_blocks_def)
  have "4 \<le> m" using m ok by (fastforce simp: heap_part_def block_ok_def)
  have own: "(extent xs, n, used) \<in> set (blocks 0 (xs @ (n, used) # ys))" by (simp add: blocks_append)
  show ?thesis
  proof (cases p "extent xs" rule: linorder_cases)
    case less
    then show ?thesis using blocks_disjoint [OF m own] \<open>4 \<le> m\<close> by simp
  next
    case greater
    then show ?thesis using blocks_disjoint [OF own m] by simp
  qed (use p in simp)
qed

lemma links_relinked:
  assumes ok: "heap_part h bs (before @ gone @ after)"
  shows "links (relink before after x y (word_at h)) 0 before x" "links (relink before after x y (word_at h)) y after 0"
proof -
  have "set (before @ gone @ after) \<subseteq> free_blocks bs" "\<forall>b \<in> set (blocks 0 bs). block_ok (word_at h) b"
    using ok by (simp_all add: heap_part_def)
  then have "spaced (set (before @ after))" using free_blocks_spaced unfolding spaced_def by (simp add: subset_iff) blast
  moreover have "distinct (before @ after)" "links (word_at h) 0 (before @ gone @ after) 0"
    using ok by (auto simp: heap_part_def)
  ultimately show "links (relink before after x y (word_at h)) 0 before x" "links (relink before after x y (word_at h)) y after 0"
    using links_relink by (auto simp: links_append)
qed

lemma free_block_links:
  assumes ok: "heap_part h bs (before @ b # after)"
  shows "word_at h (b + 1) = last_ptr 0 before" "word_at h (b + 2) = first_ptr after 0"
    "last_ptr 0 before = 0 \<longleftrightarrow> before = []" "first_ptr after 0 = 0 \<longleftrightarrow> after = []"
proof -
  show "word_at h (b + 1) = last_ptr 0 before" "word_at h (b + 2) = first_ptr after 0"
    using ok by (auto simp: heap_part_def links_append)
  have room: "p + 3 < heap_limit" if "p \<in> set before \<union> set after" for p
    using free_block_room(2) [OF ok, of p] that by auto
  show "first_ptr after 0 = 0 \<longleftrightarrow> after = []" using room by (intro first_ptr_nonzero) auto
  show "last_ptr 0 before = 0 \<longleftrightarrow> before = []"
  proof (cases "before = []")
    case False
    then have "last before + 3 < heap_limit" by (intro room) simp
    then show ?thesis using False haddr_nonzero [of "last before"] by (simp add: last_ptr_last)
  qed simp
qed

text \<open>What an operation on the region \<open>a\<close>, \<open>n\<close> may change: the region and the links of the free blocks.\<close>

definition only_changes :: "heap \<Rightarrow> heap \<Rightarrow> nat \<Rightarrow> nat \<Rightarrow> nat set \<Rightarrow> bool" where
  "only_changes h h' a n F \<longleftrightarrow>
     (\<forall>k. (k < a \<or> a + n \<le> k) \<longrightarrow> word_at h' k \<noteq> word_at h k \<longrightarrow> (\<exists>p \<in> F. k = p + 1 \<or> k = p + 2))"

text \<open>A region of the heap is tiled anew: what has to be shown of the result.\<close>

lemma free_region:
  assumes ok: "heap_part h (xs @ old @ ys) fl" and ext: "extent new = extent old"
  shows "free_blocks (xs @ new @ ys) = free_blocks (xs @ old @ ys) - {extent xs..<extent xs + extent old}
    \<union> {j. \<exists>n. (j, n, False) \<in> set (blocks (extent xs) new)}"
proof -
  have all: "\<forall>b \<in> set (blocks 0 (xs @ old @ ys)). block_ok (word_at h) b" using ok by (simp add: heap_part_def)
  have inside: "extent xs \<le> j \<and> j < extent xs + extent old" if "(j, n, u) \<in> set (blocks (extent xs) old)" for j n u
  proof -
    have "4 \<le> n" using all that by (fastforce simp: blocks_append block_ok_def)
    then show ?thesis using blocks_range [OF that] by simp
  qed
  have outside: "j < extent xs \<or> extent xs + extent old \<le> j"
    if "(j, n, u) \<in> set (blocks 0 xs) \<union> set (blocks (extent xs + extent old) ys)" for j n u
  proof -
    have "4 \<le> n" using all that by (fastforce simp: blocks_append block_ok_def add.assoc)
    then show ?thesis using that blocks_range [of j n u 0 xs] blocks_range [of j n u "extent xs + extent old" ys] by auto
  qed
  show ?thesis unfolding free_blocks_def blocks_append ext
    using inside outside by (fastforce simp: add.assoc)
qed

lemma region_part:
  assumes ok: "heap_part h (xs @ old @ ys) fl" and ext: "extent new = extent old"
    and lim: "last_free_virtual_address h' = last_free_virtual_address h"
    and frame: "only_changes h h' (extent xs) (extent old) (set fl)"
    and new: "\<And>b. b \<in> set (blocks (extent xs) new) \<Longrightarrow> block_ok (word_at h') b"
    and fl: "distinct fl'" "set fl' \<subseteq> free_blocks (xs @ new @ ys)"
    and list: "links (word_at h') 0 fl' 0" "heap_head h' = first_ptr fl' 0"
  shows "heap_part h' (xs @ new @ ys) fl'"
proof -
  have all: "\<forall>b \<in> set (blocks 0 (xs @ old @ ys)). block_ok (word_at h) b" and set: "set fl \<subseteq> free_blocks (xs @ old @ ys)"
    using ok by (simp_all add: heap_part_def)
  have "block_ok (word_at h') b" if "b \<in> set (blocks 0 xs) \<union> set (blocks (extent xs + extent old) ys)" for b
    using others_ok [OF all set] frame that unfolding only_changes_def by blast
  moreover have "\<forall>b \<in> set (blocks 0 (xs @ new @ ys)).
      b \<in> set (blocks 0 xs) \<union> set (blocks (extent xs + extent old) ys) \<or> b \<in> set (blocks (extent xs) new)"
    by (auto simp: blocks_append ext)
  ultimately have oks: "\<forall>b \<in> set (blocks 0 (xs @ new @ ys)). block_ok (word_at h') b" using new by blast
  then show ?thesis using ok fl list lim ext by (simp add: heap_part_def add.assoc)
qed

lemma region_ok:
  assumes ok: "heap_ok h (xs @ old @ ys) fl" and ext: "extent new = extent old"
    and lim: "last_free_virtual_address h' = last_free_virtual_address h"
    and frame: "only_changes h h' (extent xs) (extent old) (set fl)"
    and new: "\<And>b. b \<in> set (blocks (extent xs) new) \<Longrightarrow> block_ok (word_at h') b"
    and fl: "distinct fl'" "set fl' = set fl - {extent xs..<extent xs + extent old} \<union> {j. \<exists>n. (j, n, False) \<in> set (blocks (extent xs) new)}"
    and list: "links (word_at h') 0 fl' 0" "heap_head h' = first_ptr fl' 0"
  shows "heap_ok h' (xs @ new @ ys) fl'"
proof -
  have "set fl' = free_blocks (xs @ new @ ys)"
    using ok free_region [OF heap_ok_part [OF ok] ext] fl(2) by (simp add: heap_ok_def)
  then show ?thesis
    using region_part [OF heap_ok_part [OF ok] ext lim frame new fl(1) _ list] by (simp add: heap_ok_def)
qed

text \<open>The links of a list of blocks outside a region survive a change of the region.\<close>

lemma links_outside:
  assumes l: "links w prv ps nxt"
    and out: "\<And>p. p \<in> set ps \<Longrightarrow> p + 4 \<le> a \<or> a + n \<le> p"
    and same: "\<And>k. k < a \<or> a + n \<le> k \<Longrightarrow> w' k = w k"
  shows "links w' prv ps nxt"
proof (rule links_frame [OF l])
  fix p assume "p \<in> set ps"
  then have "p + 4 \<le> a \<or> a + n \<le> p" by (rule out)
  then show "w' (p + 1) = w (p + 1) \<and> w' (p + 2) = w (p + 2)" by (auto intro!: same)
qed

text \<open>The words of a region are not links of blocks outside it.\<close>

lemma relink_inside:
  assumes "\<And>p. p \<in> set before \<union> set after \<Longrightarrow> p + 4 \<le> a \<or> a + n \<le> p" "set after' \<subseteq> set after" "a \<le> k" "k < a + n"
  shows "relink before after' x y w k = w k"
  using relink_frame [of before after' x y w k] assms by fastforce

text \<open>What is common to the operations on the free list: a region is tiled anew, and its free blocks
  \<open>mids\<close> take the place of \<open>gone\<close> in the list.\<close>

lemma retiled:
  assumes part: "heap_part h (xs @ old @ ys) (before @ gone @ after)" and ext: "extent new = extent old"
    and list: "\<And>p. p \<in> set before \<union> set after \<Longrightarrow> p + 4 \<le> extent xs \<or> extent xs + extent old \<le> p"
      "free_blocks (xs @ old @ ys) - {extent xs..<extent xs + extent old} = set before \<union> set after"
    and outside: "\<And>k. k < extent xs \<or> extent xs + extent old \<le> k \<Longrightarrow> word_at h' k =
        relink before after (first_ptr (mids @ after) 0) (last_ptr (last_ptr 0 before) mids) (word_at h) k"
    and new: "\<And>b. b \<in> set (blocks (extent xs) new) \<Longrightarrow> block_ok (word_at h') b"
    and mids: "distinct mids" "set mids = {j. \<exists>m. (j, m, False) \<in> set (blocks (extent xs) new)}"
      "links (word_at h') (last_ptr 0 before) mids (first_ptr after 0)"
    and fields: "heap_head h' = (if before = [] then first_ptr (mids @ after) 0 else heap_head h)"
      "last_free_virtual_address h' = last_free_virtual_address h"
  shows "heap_ok h' (xs @ new @ ys) (before @ mids @ after) \<and>
    only_changes h h' (extent xs) (extent old) (set (before @ gone @ after))"
proof -
  note l = links_relinked [OF part]
  have only: "only_changes h h' (extent xs) (extent old) (set (before @ gone @ after))"
    unfolding only_changes_def using outside relink_frame [of before after _ _ "word_at h"] by fastforce
  have free: "set (before @ mids @ after) = free_blocks (xs @ new @ ys)"
    unfolding free_region [OF part ext] list(2) set_append mids(2) by blast
  have "j + m \<le> extent xs + extent old \<and> 4 \<le> m \<and> extent xs \<le> j" if "(j, m, False) \<in> set (blocks (extent xs) new)" for j m
    using blocks_range [OF that] new [OF that] ext by (simp add: block_ok_def)
  then have "p \<in> {extent xs..<extent xs + extent old}" if "p \<in> set mids" for p using that mids(2) by fastforce
  moreover have "p \<notin> {extent xs..<extent xs + extent old}" if "p \<in> set before \<union> set after" for p
    using that unfolding list(2) [symmetric] by blast
  ultimately have "set mids \<inter> (set before \<union> set after) = {}" by blast
  then have dist: "distinct (before @ mids @ after)" using part mids(1) by (auto simp: heap_part_def)
  have "links (word_at h') 0 (before @ mids @ after) 0"
    unfolding links_append
  proof (intro conjI)
    show "links (word_at h') 0 before (first_ptr (mids @ after) 0)"
      by (rule links_outside [where a = "extent xs" and n = "extent old", OF l(1)]) (use list(1) outside in auto)
    show "links (word_at h') (last_ptr (last_ptr 0 before) mids) after 0"
      by (rule links_outside [where a = "extent xs" and n = "extent old", OF l(2)]) (use list(1) outside in auto)
  qed (rule mids(3))
  moreover have "heap_head h' = first_ptr (before @ mids @ after) 0"
    using fields(1) part by (cases before) (simp_all add: heap_part_def)
  ultimately have "heap_part h' (xs @ new @ ys) (before @ mids @ after)"
    using region_part [OF part ext fields(2) only new dist eq_refl [OF free]] by blast
  then show ?thesis using free only by (simp add: heap_ok_def)
qed

lemma remaining_blocks:
  assumes ok: "heap_part h (xs @ (n, False) # ys) (before @ extent xs # after)"
  shows "p \<in> set before \<union> set after \<Longrightarrow> p + 4 \<le> extent xs \<or> extent xs + n \<le> p"
    "set (before @ extent xs # after) - {extent xs..<extent xs + n} = set before \<union> set after"
    "distinct (before @ after)"
proof -
  have d: "distinct (before @ extent xs # after)" using ok by (simp add: heap_part_def)
  then show "distinct (before @ after)" by auto
  show out: "p + 4 \<le> extent xs \<or> extent xs + n \<le> p" if "p \<in> set before \<union> set after" for p
    by (rule not_own [OF ok]) (use that d in auto)
  then show "set (before @ extent xs # after) - {extent xs..<extent xs + n} = set before \<union> set after"
    using free_block_size(1) [OF ok] by fastforce
qed

lemma used_kept:
  assumes ok: "heap_part h (xs @ old @ ys) fl" and frame: "only_changes h h' (extent xs) (extent old) (set fl)"
    and used: "(j, m, True) \<in> set (blocks 0 xs) \<union> set (blocks (extent xs + extent old) ys)" and i: "j \<le> i" "i < j + m"
  shows "word_at h' i = word_at h i"
proof (rule ccontr)
  assume "word_at h' i \<noteq> word_at h i"
  moreover have "i < extent xs \<or> extent xs + extent old \<le> i"
    using used i blocks_range [of j m True 0 xs] blocks_range [of j m True "extent xs + extent old" ys] by auto
  ultimately obtain p where p: "p \<in> set fl" "i = p + 1 \<or> i = p + 2" using frame by (auto simp: only_changes_def)
  then obtain l where l: "(p, l, False) \<in> set (blocks 0 (xs @ old @ ys))"
    using ok by (auto simp: heap_part_def free_blocks_def)
  have u: "(j, m, True) \<in> set (blocks 0 (xs @ old @ ys))" using used by (auto simp: blocks_append add.assoc)
  have four: "4 \<le> l" "4 \<le> m" using l u ok by (fastforce simp: heap_part_def block_ok_def)+
  then have "p \<noteq> j" using blocks_unique [OF l, of m True] u by auto
  then show False using blocks_disjoint [OF l u] blocks_disjoint [OF u l] p(2) i four by (cases p j rule: linorder_cases) auto
qed

lemma of_nat_pred: "0 < n \<Longrightarrow> n < heap_limit \<Longrightarrow> unat (of_nat n - 1 :: u32) = n - 1"
proof -
  assume n: "0 < n" "n < heap_limit"
  then have "(of_nat n - 1 :: u32) = of_nat (n - 1)" by (simp add: of_nat_diff)
  then show ?thesis using n unat_of_nat_small [where 'a = 32, of "n - 1"] by (simp add: heap_limit_def)
qed

lemma unat_heap: "n < heap_limit \<Longrightarrow> unat (of_nat n :: u32) = n"
  by (simp add: unat_of_nat_small heap_limit_def)

text \<open>An allocation of a whole block.\<close>

lemma whole_block_words:
  assumes part: "heap_part h (xs @ (n, False) # ys) (before @ extent xs # after)"
  defines "h' \<equiv> allocate_whole_block (haddr (extent xs)) h"
  shows "word_at h' = (relink before after (first_ptr after 0) (last_ptr 0 before)
      ((word_at h)(extent xs := size_tag n True, extent xs + n - 1 := size_tag n True)))(extent xs + 1 := 0, extent xs + 2 := 0)"
    "heap_head h' = (if before = [] then first_ptr after 0 else heap_head h)"
    "last_free_virtual_address h' = last_free_virtual_address h" "low_kept h h'"
proof -
  let ?T = "extent xs" and ?w = "word_at h" and ?lp = "last_ptr 0 before" and ?fa = "first_ptr after 0"
  note f = free_block_size [OF part] and l = free_block_links [OF part]
  obtain n' where n: "n = n' + 4" using f(1) by (metis add.commute le_Suc_ex)
  have room: "p + 3 < heap_limit" if "p \<in> set before \<union> set after" for p
    using free_block_room(2) [OF part, of p] that by auto
  have same: "relink before after' x y w k = w k" if "set after' \<subseteq> set after" "?T \<le> k" "k < ?T + n" for after' x y w k
    by (rule relink_inside [OF remaining_blocks(1) [OF part] that])
  define h1 where "h1 = hput (haddr ?T) 0 (size_tag n True) h"
  define h2 where "h2 = hput (haddr ?T) (of_nat n - 1) (size_tag n True) h1"
  define h3 where "h3 = set_next ?fa ?lp h2"
  define h4 where "h4 = set_prev ?lp ?fa h3"
  have w1: "word_at h1 = ?w(?T := size_tag n True)" using f by (simp add: h1_def hput_word)
  have w2: "word_at h2 = ?w(?T := size_tag n True, ?T + n - 1 := size_tag n True)"
    using f by (simp add: h2_def hput_word w1 of_nat_pred)
  have w3: "word_at h3 = relink before [] ?fa 0 (word_at h2)"
    using relink_code(1) [of before "[]" 0 ?fa h2] room by (simp add: set_prev_def h3_def)
  have w4: "word_at h4 = relink before after ?fa ?lp (word_at h2)"
    unfolding h4_def h3_def by (rule relink_code(1) [OF room])
  have last: "hget h1 (haddr ?T) (of_nat n - 1) = of_nat n"
    using f(1,2,3,5) by (auto simp: hget_word w1 of_nat_pred size_tag_def)
  have g: "hget h (haddr ?T) 0 OR 0x80000000 = size_tag n True" "get_size (hget h1 (haddr ?T) 0) - 1 = of_nat n - 1"
    "hget h1 (haddr ?T) (of_nat n - 1) OR 0x80000000 = size_tag n True" "hget h2 (haddr ?T) 1 = ?lp"
    "hget h2 (haddr ?T) 2 = ?fa" "hget h3 (haddr ?T) 1 = ?lp" "hget h3 (haddr ?T) 2 = ?fa"
    unfolding last using f l(1,2) n by (simp_all add: hget_word w1 w2 w3 same size_tag_simps) (simp_all add: size_tag_def)
  have code: "h' = hput (haddr ?T) 2 0 (hput (haddr ?T) 1 0 h4)"
    unfolding h'_def allocate_whole_block_def Let_def g h1_def [symmetric] unfolding g h2_def [symmetric] unfolding g
    unfolding set_next_def [symmetric] unfolding h3_def [symmetric] g unfolding set_prev_def [symmetric] unfolding h4_def [symmetric]
    by (simp add: h4_def set_prev_def g)
  show "word_at h' = (relink before after ?fa ?lp (?w(?T := size_tag n True, ?T + n - 1 := size_tag n True)))(?T + 1 := 0, ?T + 2 := 0)"
    using f by (simp add: code hput_word w4 w2)
  show "heap_head h' = (if before = [] then ?fa else heap_head h)"
    unfolding code h4_def h3_def hput_fields
    by (subst relink_code(2) [where after = after]) (use room in \<open>auto simp: h2_def h1_def\<close>)
  show "last_free_virtual_address h' = last_free_virtual_address h" by (simp add: code h4_def h3_def h2_def h1_def)
  show "low_kept h h'"
    unfolding code h4_def h3_def h2_def h1_def
    by (intro low_hput low_set_links low_kept_refl) (use f room in \<open>simp_all add: of_nat_pred\<close>)
qed

lemma whole_block:
  assumes ok: "heap_ok h (xs @ (n, False) # ys) (before @ extent xs # after)"
  defines "h' \<equiv> allocate_whole_block (haddr (extent xs)) h"
  shows "heap_ok h' (xs @ (n, True) # ys) (before @ after)"
    and "only_changes h h' (extent xs) n (set (before @ extent xs # after))" and "low_kept h h'"
proof -
  let ?T = "extent xs"
  note part = heap_ok_part [OF ok]
  note f = free_block_size(1) [OF part] and rem = remaining_blocks [OF part] and w = whole_block_words [OF part, folded h'_def]
  obtain n' where n: "n = n' + 4" using f by (metis add.commute le_Suc_ex)
  have same: "relink before after x y w k = w k" if "?T \<le> k" "k < ?T + n" for x y w k
    by (rule relink_inside [OF rem(1) subset_refl that])
  have "heap_ok h' (xs @ [(n, True)] @ ys) (before @ [] @ after) \<and>
    only_changes h h' ?T (extent [(n, False)]) (set (before @ [?T] @ after))"
  proof (rule retiled)
    show "heap_part h (xs @ [(n, False)] @ ys) (before @ [?T] @ after)" using part by simp
    show "free_blocks (xs @ [(n, False)] @ ys) - {?T..<?T + extent [(n, False)]} = set before \<union> set after"
      using ok rem(2) by (simp add: heap_ok_def)
    show "block_ok (word_at h') b" if "b \<in> set (blocks ?T [(n, True)])" for b
      using that n by (simp add: block_ok_def w same)
    show "word_at h' k = relink before after (first_ptr ([] @ after) 0) (last_ptr (last_ptr 0 before) []) (word_at h) k"
      if "k < ?T \<or> ?T + extent [(n, False)] \<le> k" for k
      using that n by (auto simp: w intro: relink_cong)
  qed (use rem(1) w in simp_all)
  then show "heap_ok h' (xs @ (n, True) # ys) (before @ after)"
    "only_changes h h' ?T n (set (before @ ?T # after))" by simp_all
qed (simp add: h'_def whole_block_words [OF heap_ok_part [OF ok]])

text \<open>An allocation of the first words of a block.\<close>

lemma split_words:
  assumes part: "heap_part h (xs @ (k + r, False) # ys) (before @ extent xs # after)" and k: "4 \<le> k" "4 \<le> r"
  defines "h' \<equiv> split_block (of_nat k) (haddr (extent xs)) h" and "N \<equiv> extent xs + k"
  shows "word_at h' = (relink before after (haddr N) (haddr N)
      ((word_at h)(N := of_nat r, N + 1 := last_ptr 0 before, N + 2 := first_ptr after 0, N + r - 1 := of_nat r)))
      (extent xs + 1 := 0, extent xs + 2 := 0, extent xs := size_tag k True, extent xs + k - 1 := size_tag k True)"
    "heap_head h' = (if before = [] then haddr N else heap_head h)"
    "last_free_virtual_address h' = last_free_virtual_address h" "low_kept h h'"
proof -
  let ?T = "extent xs" and ?w = "word_at h" and ?lp = "last_ptr 0 before" and ?fa = "first_ptr after 0"
  note f = free_block_size [OF part] and l = free_block_links [OF part]
  obtain k' r' where kr: "k = k' + 4" "r = r' + 4" using k by (metis add.commute le_Suc_ex)
  have lims: "k < heap_limit" "r < heap_limit" "N + r < heap_limit" using f by (simp_all add: N_def)
  have room: "p + 3 < heap_limit" if "p \<in> set before \<union> set after" for p
    using free_block_room(2) [OF part, of p] that by auto
  have same: "relink before after' x y w j = w j" if "set after' \<subseteq> set after" "?T \<le> j" "j < ?T + (k + r)" for after' x y w j
    by (rule relink_inside [OF remaining_blocks(1) [OF part] that])
  define h1 where "h1 = hput (haddr N) 0 (of_nat r) h"
  define h2 where "h2 = hput (haddr N) 1 ?lp h1"
  define h3 where "h3 = hput (haddr N) 2 ?fa h2"
  define h4 where "h4 = hput (haddr N) (of_nat r - 1) (of_nat r) h3"
  define h5 where "h5 = set_next (haddr N) ?lp h4"
  define h6 where "h6 = set_prev (haddr N) ?fa h5"
  define h8 where "h8 = hput (haddr ?T) 2 0 (hput (haddr ?T) 1 0 h6)"
  have w1: "word_at h1 = ?w(N := of_nat r)" using lims by (simp add: h1_def hput_word)
  have w2: "word_at h2 = ?w(N := of_nat r, N + 1 := ?lp)" using lims k by (simp add: h2_def hput_word w1)
  have w3: "word_at h3 = ?w(N := of_nat r, N + 1 := ?lp, N + 2 := ?fa)" using lims k by (simp add: h3_def hput_word w2)
  have w4: "word_at h4 = ?w(N := of_nat r, N + 1 := ?lp, N + 2 := ?fa, N + r - 1 := of_nat r)"
    using lims k by (simp add: h4_def hput_word w3 of_nat_pred)
  have w5: "word_at h5 = relink before [] (haddr N) 0 (word_at h4)"
    using relink_code(1) [of before "[]" 0 "haddr N" h4] room by (simp add: set_prev_def h5_def)
  have w6: "word_at h6 = relink before after (haddr N) (haddr N) (word_at h4)"
    unfolding h6_def h5_def by (rule relink_code(1) [OF room])
  have g0: "haddr ?T + 4 * of_nat k = haddr N" "get_size (hget h (haddr ?T) 0 - of_nat k) = of_nat r"
    using f size_tag_simps(1) [of r False] lims by (simp_all add: hget_word size_tag_def haddr_plus unat_heap N_def)
  have g: "hget h1 (haddr ?T) 1 = ?lp" "hget h2 (haddr ?T) 2 = ?fa" "get_size (hget h3 (haddr N) 0) = of_nat r"
    "hget h4 (haddr ?T) 1 = ?lp" "hget h5 (haddr ?T) 2 = ?fa"
    using f l(1,2) kr size_tag_simps(1) [of r False] lims
    by (simp_all add: hget_word w1 w2 w3 w4 w5 same size_tag_def N_def)
  have code: "h' = hput (haddr ?T) (of_nat k - 1) (size_tag k True) (hput (haddr ?T) 0 (size_tag k True) h8)"
    unfolding h'_def split_block_def Let_def g0 h1_def [symmetric] g
    unfolding h2_def [symmetric] g unfolding h3_def [symmetric] g unfolding h4_def [symmetric] g
    unfolding set_next_def [symmetric] h5_def [symmetric] g unfolding set_prev_def [symmetric] h6_def [symmetric]
    by (simp add: h8_def size_tag_def)
  show "word_at h' = (relink before after (haddr N) (haddr N)
      (?w(N := of_nat r, N + 1 := ?lp, N + 2 := ?fa, N + r - 1 := of_nat r)))
      (?T + 1 := 0, ?T + 2 := 0, ?T := size_tag k True, ?T + k - 1 := size_tag k True)"
    using f k lims by (simp add: code h8_def hput_word w6 w4 of_nat_pred)
  show "heap_head h' = (if before = [] then haddr N else heap_head h)"
    unfolding code h8_def h6_def h5_def hput_fields
    by (subst relink_code(2) [where after = after]) (use room in \<open>auto simp: h4_def h3_def h2_def h1_def\<close>)
  show "last_free_virtual_address h' = last_free_virtual_address h"
    by (simp add: code h8_def h6_def h5_def h4_def h3_def h2_def h1_def)
  show "low_kept h h'"
    unfolding code h8_def h6_def h5_def h4_def h3_def h2_def h1_def
    by (intro low_hput low_set_links low_kept_refl) (use f k room lims in \<open>simp_all add: of_nat_pred\<close>)
qed

lemma split_ok:
  assumes ok: "heap_ok h (xs @ (k + r, False) # ys) (before @ extent xs # after)" and k: "4 \<le> k" "4 \<le> r"
  defines "h' \<equiv> split_block (of_nat k) (haddr (extent xs)) h"
  shows "heap_ok h' (xs @ (k, True) # (r, False) # ys) (before @ (extent xs + k) # after)"
    and "only_changes h h' (extent xs) (k + r) (set (before @ extent xs # after))" and "low_kept h h'"
proof -
  let ?T = "extent xs" and ?N = "extent xs + k"
  note part = heap_ok_part [OF ok]
  note rem = remaining_blocks [OF part] and w = split_words [OF part k, folded h'_def]
  obtain k' r' where kr: "k = k' + 4" "r = r' + 4" using k by (metis add.commute le_Suc_ex)
  have same: "relink before after x y w j = w j" if "?T \<le> j" "j < ?T + (k + r)" for x y w j
    by (rule relink_inside [OF rem(1) subset_refl that])
  have inside: "word_at h' j = ((word_at h)(?N := of_nat r, ?N + 1 := last_ptr 0 before, ?N + 2 := first_ptr after 0, ?N + r - 1 := of_nat r,
      ?T + 1 := 0, ?T + 2 := 0, ?T := size_tag k True, ?T + k - 1 := size_tag k True)) j" if "?T \<le> j" "j < ?T + (k + r)" for j
    unfolding w(1) fun_upd_apply same [OF that] by simp
  have vals: "word_at h' ?T = size_tag k True" "word_at h' (?T + 1) = 0" "word_at h' (?T + 2) = 0"
    "word_at h' (?T + k - 1) = size_tag k True" "word_at h' ?N = of_nat r" "word_at h' (?N + 1) = last_ptr 0 before"
    "word_at h' (?N + 2) = first_ptr after 0" "word_at h' (?N + r - 1) = of_nat r"
    by (subst inside, simp_all add: kr)+
  have "heap_ok h' (xs @ [(k, True), (r, False)] @ ys) (before @ [?N] @ after) \<and>
    only_changes h h' ?T (extent [(k + r, False)]) (set (before @ [?T] @ after))"
  proof (rule retiled)
    show "heap_part h (xs @ [(k + r, False)] @ ys) (before @ [?T] @ after)" using part by simp
    show "free_blocks (xs @ [(k + r, False)] @ ys) - {?T..<?T + extent [(k + r, False)]} = set before \<union> set after"
      using ok rem(2) by (simp add: heap_ok_def)
    show "block_ok (word_at h') b" if "b \<in> set (blocks ?T [(k, True), (r, False)])" for b
      using that k vals by (auto simp: block_ok_def size_tag_def)
    show "word_at h' j = relink before after (first_ptr ([?N] @ after) 0) (last_ptr (last_ptr 0 before) [?N]) (word_at h) j"
      if "j < ?T \<or> ?T + extent [(k + r, False)] \<le> j" for j
      using that kr by (auto simp: w intro: relink_cong)
  qed (use rem(1) w vals in simp_all)
  then show "heap_ok h' (xs @ (k, True) # (r, False) # ys) (before @ ?N # after)"
    "only_changes h h' ?T (k + r) (set (before @ ?T # after))" by simp_all
qed (simp add: h'_def split_words [OF heap_ok_part [OF ok] k])

section \<open>Allocation\<close>

definition block_size :: "heap \<Rightarrow> nat \<Rightarrow> u32" where
  "block_size h p = get_size (word_at h p)"

lemma block_size_ok:
  assumes ok: "heap_ok h bs fl" and m: "(p, m, used) \<in> set (blocks 0 bs)"
  shows "block_size h p = of_nat m" "m < heap_limit"
proof -
  have "block_ok (word_at h) (p, m, used)" using ok m by (auto simp: heap_ok_def heap_part_def)
  moreover show "m < heap_limit" using blocks_range [OF m] ok by (simp add: heap_ok_def heap_part_def)
  ultimately show "block_size h p = of_nat m" by (simp add: block_size_def block_ok_def size_tag_simps)
qed

lemma find_block_skip:
  assumes "links (word_at h) prv (before @ rest) 0" and "\<And>p. p \<in> set before \<Longrightarrow> p + 3 < heap_limit \<and> block_size h p < words"
  shows "find_block h words (first_ptr (before @ rest) 0) = find_block h words (first_ptr rest 0)"
  using assms
proof (induction before arbitrary: prv)
  case (Cons p ps)
  have p: "p + 3 < heap_limit" "\<not> words \<le> block_size h p" using Cons.prems(2) [of p] by (auto simp: not_le)
  then have "find_block h words (haddr p) = find_block h words (hget h (haddr p) 2)"
    using haddr_nonzero [of p] by (subst find_block.simps) (simp add: block_size_def hget_word)
  also have "hget h (haddr p) 2 = first_ptr (ps @ rest) 0" using p Cons.prems(1) by (simp add: hget_word)
  finally show ?case using Cons.IH [of "haddr p"] Cons.prems by simp
qed simp

lemma find_block_first:
  assumes ok: "heap_ok h (xs @ (n, False) # ys) (before @ extent xs # after)"
    and fits: "words \<le> n" and first: "\<And>p m. p \<in> set before \<Longrightarrow> (p, m, False) \<in> set (blocks 0 (xs @ (n, False) # ys)) \<Longrightarrow> m < words"
  shows "find_block h (of_nat words) (heap_head h) = Some (haddr (extent xs))"
proof -
  note f = free_block_size [OF heap_ok_part [OF ok]]
  have words: "words < heap_limit" using fits f(3) by simp
  have "find_block h (of_nat words) (first_ptr (before @ extent xs # after) 0) =
      find_block h (of_nat words) (first_ptr (extent xs # after) 0)"
  proof (rule find_block_skip)
    show "links (word_at h) 0 (before @ extent xs # after) 0" using ok by (simp add: heap_ok_def heap_part_def)
    fix p assume p: "p \<in> set before"
    then obtain m where m: "(p, m, False) \<in> set (blocks 0 (xs @ (n, False) # ys))"
      using ok by (force simp: heap_ok_def heap_part_def free_blocks_def)
    show "p + 3 < heap_limit \<and> block_size h p < of_nat words"
      using free_block_room(2) [OF heap_ok_part [OF ok], of p] p block_size_ok [OF ok m] first [OF p m] words
      by (simp add: word_less_nat_alt unat_heap)
  qed
  moreover have "block_size h (extent xs) = of_nat n"
    using block_size_ok [OF ok, of "extent xs" n False] by (simp add: blocks_append)
  then have "of_nat words \<le> get_size (hget h (haddr (extent xs)) 0)"
    using f words fits by (simp add: hget_word block_size_def word_le_nat_alt unat_heap)
  then have "find_block h (of_nat words) (haddr (extent xs)) = Some (haddr (extent xs))"
    using haddr_nonzero [of "extent xs"] f by (subst find_block.simps) simp
  ultimately show ?thesis using ok by (simp add: heap_ok_def heap_part_def)
qed

definition words_for :: "u32 \<Rightarrow> nat" where
  "words_for request = (unat request + 3) div 4 + 4"

lemma words_for_code:
  "request div BYTES_IN_WORD + (if request mod BYTES_IN_WORD > 0 then 1 else 0) + 4 = (of_nat (words_for request) :: u32)"
proof -
  have "(unat request + 3) div 4 = unat request div 4 + (if unat request mod 4 > 0 then 1 else 0)" by presburger
  moreover have "(of_nat (unat request div 4) :: u32) = request div 4"
    using unat_of_nat_small [where 'a = 32, of "unat request div 4"] unat_less_u32 [of request]
    by (simp add: word_unat_eq_iff unat_div)
  moreover have "unat request mod 4 > 0 \<longleftrightarrow> request mod 4 > 0" by (simp add: word_less_nat_alt unat_mod)
  ultimately show ?thesis by (simp add: words_for_def BYTES_IN_WORD_def)
qed

text \<open>The blocks after an allocation of \<open>words\<close> from a free block of \<open>n\<close>, and what replaces it in the free list.\<close>

definition allocated :: "nat \<Rightarrow> nat \<Rightarrow> (nat \<times> bool) list" where
  "allocated words n = (if words + 16 < n then [(words, True), (n - words, False)] else [(n, True)])"

definition remainder :: "nat \<Rightarrow> nat \<Rightarrow> nat \<Rightarrow> nat list" where
  "remainder words n i = (if words + 16 < n then [i + words] else [])"

lemma allocate_block_ok:
  assumes ok: "heap_ok h (xs @ (n, False) # ys) (before @ extent xs # after)" and words: "4 \<le> words" "words \<le> n"
  shows "\<exists>h'. allocate_block (of_nat words) (haddr (extent xs)) h = (haddr (extent xs), h') \<and>
    heap_ok h' (xs @ allocated words n @ ys) (before @ remainder words n (extent xs) @ after) \<and>
    only_changes h h' (extent xs) n (set (before @ extent xs # after)) \<and> low_kept h h'"
proof -
  note f = free_block_size [OF heap_ok_part [OF ok]]
  have lim: "words + 16 < 2 ^ LENGTH(32)" using words f(3) by (simp add: heap_limit_def)
  have "block_size h (extent xs) = of_nat n"
    using block_size_ok [OF ok, of "extent xs" n False] by (simp add: blocks_append)
  moreover have "(of_nat words + 2 * MIN_BLOCK_SIZE :: u32) = of_nat (words + 16)" by (simp add: MIN_BLOCK_SIZE_def)
  moreover have "(of_nat n :: u32) \<le> of_nat (words + 16) \<longleftrightarrow> n \<le> words + 16"
    unfolding word_le_nat_alt using lim f(3) by (simp only: unat_of_nat_small unat_heap)
  ultimately have code: "allocate_block (of_nat words) (haddr (extent xs)) h = (haddr (extent xs),
      if n \<le> words + 16 then allocate_whole_block (haddr (extent xs)) h else split_block (of_nat words) (haddr (extent xs)) h)"
    using f size_tag_simps(2) [OF f(3), of False] by (simp add: allocate_block_def hget_word block_size_def)
  show ?thesis
  proof (cases "n \<le> words + 16")
    case True
    then show ?thesis using code whole_block [OF ok] by (simp add: allocated_def remainder_def)
  next
    case False
    then have "n = words + (n - words)" by simp
    then show ?thesis
      using False code split_ok [where k = words and r = "n - words" and xs = xs and ys = ys and h = h] ok words
      by (simp add: allocated_def remainder_def)
  qed
qed

lemma kmalloc_effect:
  fixes request :: u32
  assumes ok: "heap_ok h (xs @ (n, False) # ys) (before @ extent xs # after)" and req: "request \<noteq> 0"
    and fits: "words_for request \<le> n"
    and first: "\<And>p m. p \<in> set before \<Longrightarrow> (p, m, False) \<in> set (blocks 0 (xs @ (n, False) # ys)) \<Longrightarrow> m < words_for request"
  shows "\<exists>h'. kmalloc pg lay request h = Some (haddr (extent xs + 3), h') \<and>
    heap_ok h' (xs @ allocated (words_for request) n @ ys) (before @ remainder (words_for request) n (extent xs) @ after) \<and>
    only_changes h h' (extent xs) n (set (before @ extent xs # after)) \<and> low_kept h h'"
proof -
  have "4 \<le> words_for request" by (simp add: words_for_def)
  then obtain h' where h': "allocate_block (of_nat (words_for request)) (haddr (extent xs)) h = (haddr (extent xs), h')"
    "heap_ok h' (xs @ allocated (words_for request) n @ ys) (before @ remainder (words_for request) n (extent xs) @ after)"
    "only_changes h h' (extent xs) n (set (before @ extent xs # after))" "low_kept h h'"
    using allocate_block_ok [OF ok _ fits] by blast
  obtain l zs where "allocated (words_for request) n @ ys = (l, True) # zs" by (cases "words_for request + 16 < n") (auto simp: allocated_def)
  then have zero: "word_at h' (extent xs + 1) = 0 \<and> word_at h' (extent xs + 2) = 0" "extent xs + 2 < heap_limit"
    using free_block_size(1,2,6) [of h' xs l True zs "before @ remainder (words_for request) n (extent xs) @ after"] heap_ok_part [OF h'(2)]
    by auto
  then have "hget h' (haddr (extent xs)) 1 = 0" "hget h' (haddr (extent xs)) 2 = 0" by (simp_all add: hget_word)
  moreover have "haddr (extent xs) + 12 = haddr (extent xs + 3)" by (simp add: haddr_def)
  ultimately have "kmalloc pg lay request h = Some (haddr (extent xs + 3), h')"
    using h'(1) req haddr_nonzero [of "extent xs"] zero(2) find_block_first [OF ok fits first]
    by (simp add: kmalloc_def words_for_code) (subst kmalloc_loop.simps, simp)
  then show ?thesis using h'(2-4) by blast
qed

lemma kmalloc_ok:
  fixes request :: u32
  assumes ok: "heap_ok h (xs @ (n, False) # ys) (before @ extent xs # after)" and req: "request \<noteq> 0"
    and fits: "words_for request \<le> n"
    and first: "\<And>p m. p \<in> set before \<Longrightarrow> (p, m, False) \<in> set (blocks 0 (xs @ (n, False) # ys)) \<Longrightarrow> m < words_for request"
  shows "\<exists>h'. kmalloc pg lay request h = Some (haddr (extent xs + 3), h') \<and>
    heap_ok h' (xs @ allocated (words_for request) n @ ys) (before @ remainder (words_for request) n (extent xs) @ after) \<and>
    (\<forall>j m i. (j, m, True) \<in> set (blocks 0 (xs @ (n, False) # ys)) \<longrightarrow> j \<le> i \<and> i < j + m \<longrightarrow> word_at h' i = word_at h i)"
proof -
  obtain h' where h': "kmalloc pg lay request h = Some (haddr (extent xs + 3), h')"
    "heap_ok h' (xs @ allocated (words_for request) n @ ys) (before @ remainder (words_for request) n (extent xs) @ after)"
    "only_changes h h' (extent xs) n (set (before @ extent xs # after))"
    using kmalloc_effect [OF ok req fits, of pg lay] first by blast
  have "word_at h' i = word_at h i"
    if "(j, m, True) \<in> set (blocks 0 (xs @ (n, False) # ys))" "j \<le> i" "i < j + m" for j m i
    using used_kept [of h xs "[(n, False)]" ys _ h' j m i] heap_ok_part [OF ok] h'(3) that by (auto simp: blocks_append)
  then show ?thesis using h'(1,2) by blast
qed

section \<open>Release\<close>

text \<open>A block that is marked free but not yet in the list, its links zero.\<close>

definition detached :: "heap \<Rightarrow> (nat \<times> bool) list \<Rightarrow> nat \<Rightarrow> (nat \<times> bool) list \<Rightarrow> nat list \<Rightarrow> bool" where
  "detached h xs n ys fl \<longleftrightarrow> heap_part h (xs @ (n, False) # ys) fl \<and>
     set fl = free_blocks (xs @ (n, False) # ys) - {extent xs} \<and>
     word_at h (extent xs + 1) = 0 \<and> word_at h (extent xs + 2) = 0"

definition release :: "u32 \<Rightarrow> heap \<Rightarrow> heap" where
  "release b h =
     (let h1 = hput b 0 (hget h b 0 AND 0x7fffffff) h
      in hput b (hget h1 b 0 - 1) (hget h1 b (hget h1 b 0 - 1) AND 0x7fffffff) h1)"

lemma release_ok:
  assumes ok: "heap_ok h (xs @ (n, True) # ys) fl"
  shows "detached (release (haddr (extent xs)) h) xs n ys fl"
    and "only_changes h (release (haddr (extent xs)) h) (extent xs) n (set fl)"
proof -
  let ?T = "extent xs" and ?w = "word_at h"
  note part = heap_ok_part [OF ok]
  note f = free_block_size [OF part]
  obtain n' where n: "n = n' + 4" using f(1) by (metis add.commute le_Suc_ex)
  define h1 where "h1 = hput (haddr ?T) 0 (of_nat n) h"
  define h2 where "h2 = hput (haddr ?T) (of_nat n - 1) (of_nat n) h1"
  have w1: "word_at h1 = ?w(?T := of_nat n)" using f by (simp add: h1_def hput_word)
  have w2: "word_at h2 = ?w(?T := of_nat n, ?T + n - 1 := of_nat n)" using f by (simp add: h2_def hput_word w1 of_nat_pred)
  have "hput (haddr ?T) 0 (hget h (haddr ?T) 0 AND 0x7fffffff) h = h1" "hget h1 (haddr ?T) 0 = of_nat n"
    "hget h1 (haddr ?T) (of_nat n - 1) AND 0x7fffffff = of_nat n"
    using f size_tag_simps(3) [OF f(3)] size_tag_simps(3) [OF f(3), of False, unfolded size_tag_def]
    by (simp_all add: h1_def hget_word hput_word of_nat_pred)
  then have code: "release (haddr ?T) h = h2" by (simp add: release_def h2_def)
  have same: "word_at h2 k = ?w k" if "k < ?T \<or> ?T + n \<le> k" for k using that n by (auto simp: w2)
  then have only: "only_changes h h2 ?T n (set fl)" by (auto simp: only_changes_def)
  then show "only_changes h (release (haddr ?T) h) ?T n (set fl)" by (simp add: code)
  have free: "free_blocks (xs @ (n, False) # ys) = insert ?T (set fl)" "?T \<notin> set fl"
  proof -
    have "set fl = free_blocks (xs @ (n, True) # ys)" using ok by (simp add: heap_ok_def)
    moreover have "(?T, n, True) \<in> set (blocks 0 (xs @ (n, True) # ys))" by (simp add: blocks_append)
    ultimately show "?T \<notin> set fl"
      using blocks_unique [of ?T n True 0 _ _ False] f(1) part by (fastforce simp: free_blocks_def heap_part_def block_ok_def)
    show "free_blocks (xs @ (n, False) # ys) = insert ?T (set fl)"
      using \<open>set fl = free_blocks (xs @ (n, True) # ys)\<close> by (auto simp: free_blocks_def blocks_append)
  qed
  have "heap_part h2 (xs @ [(n, False)] @ ys) fl"
  proof (rule region_part)
    show "heap_part h (xs @ [(n, True)] @ ys) fl" using part by simp
    show "only_changes h h2 ?T (extent [(n, True)]) (set fl)" using only by simp
    show "block_ok (word_at h2) b" if "b \<in> set (blocks ?T [(n, False)])" for b
      using that n by (simp add: block_ok_def w2 size_tag_def)
    show "links (word_at h2) 0 fl 0"
    proof (rule links_outside [where a = ?T and n = n])
      show "links ?w 0 fl 0" using part by (simp add: heap_part_def)
      show "p + 4 \<le> ?T \<or> ?T + n \<le> p" if "p \<in> set fl" for p using not_own [OF part that] that free(2) by auto
    qed (use same in auto)
    show "heap_head h2 = first_ptr fl 0" using part by (simp add: heap_part_def h2_def h1_def)
    show "set fl \<subseteq> free_blocks (xs @ [(n, False)] @ ys)" using free by auto
    show "distinct fl" using part by (simp add: heap_part_def)
  qed (simp_all add: h2_def h1_def)
  then show "detached (release (haddr ?T) h) xs n ys fl"
    using f(6) n free by (simp add: detached_def code w2)
qed

lemma insert_front_words:
  assumes d: "detached h xs n ys fl"
  defines "h' \<equiv> insert_front (haddr (extent xs)) h"
  shows "word_at h' = relink [] fl (haddr (extent xs)) (haddr (extent xs))
      ((word_at h)(extent xs + 1 := 0, extent xs + 2 := first_ptr fl 0))"
    "heap_head h' = haddr (extent xs)" "last_free_virtual_address h' = last_free_virtual_address h"
proof -
  let ?T = "extent xs" and ?w = "word_at h"
  have part: "heap_part h (xs @ (n, False) # ys) fl" and zero: "?w (?T + 1) = 0" "?w (?T + 2) = 0"
    using d by (simp_all add: detached_def)
  note f = free_block_size [OF part]
  have head: "heap_head h = first_ptr fl 0" using part by (simp add: heap_part_def)
  have room: "p + 3 < heap_limit" if "p \<in> set [] \<union> set fl" for p
    using free_block_room(2) [OF part, of p] that by auto
  define h2 where "h2 = hput (haddr ?T) 2 (first_ptr fl 0) (hput (haddr ?T) 1 0 h)"
  define h3 where "h3 = set_prev (haddr ?T) (first_ptr fl 0) (set_next (haddr ?T) (last_ptr 0 []) h2)"
  have w2: "word_at h2 = ?w(?T + 1 := 0, ?T + 2 := first_ptr fl 0)" using f by (simp add: h2_def hput_word)
  have w3: "word_at h3 = relink [] fl (haddr ?T) (haddr ?T) (word_at h2)"
    unfolding h3_def by (rule relink_code(1) [OF room])
  have "hget h (haddr ?T) 1 = 0" "hget h (haddr ?T) 2 = 0" "hget h2 (haddr ?T) 2 = first_ptr fl 0"
    using f zero by (simp_all add: hget_word w2)
  then have code: "h' = h3"
    unfolding h'_def insert_front_def h3_def set_next_def set_prev_def
    by (simp add: Let_def head h2_def hput_head_commute)
  show "word_at h' = relink [] fl (haddr ?T) (haddr ?T) (?w(?T + 1 := 0, ?T + 2 := first_ptr fl 0))" by (simp add: code w3 w2)
  show "heap_head h' = haddr ?T" "last_free_virtual_address h' = last_free_virtual_address h"
    by (simp_all add: code h3_def h2_def set_next_def)
qed

text \<open>The free blocks outside the region of a detached block.\<close>

lemma detached_list:
  assumes d: "detached h xs n ys fl"
  shows "p \<in> set fl \<Longrightarrow> p + 4 \<le> extent xs \<or> extent xs + n \<le> p"
    "free_blocks (xs @ (n, False) # ys) - {extent xs..<extent xs + n} = set fl"
proof -
  have part: "heap_part h (xs @ (n, False) # ys) fl" and free: "set fl = free_blocks (xs @ (n, False) # ys) - {extent xs}"
    using d by (simp_all add: detached_def)
  show out: "p + 4 \<le> extent xs \<or> extent xs + n \<le> p" if "p \<in> set fl" for p
    using not_own [OF part that] that free by auto
  show "free_blocks (xs @ (n, False) # ys) - {extent xs..<extent xs + n} = set fl"
    using out free free_block_size(1) [OF part] by fastforce
qed

lemma insert_front_ok:
  assumes d: "detached h xs n ys fl"
  defines "h' \<equiv> insert_front (haddr (extent xs)) h"
  shows "heap_ok h' (xs @ (n, False) # ys) (extent xs # fl)" and "only_changes h h' (extent xs) n (set fl)"
proof -
  let ?T = "extent xs"
  have part: "heap_part h (xs @ (n, False) # ys) fl" using d by (simp add: detached_def)
  note f = free_block_size [OF part] and list = detached_list [OF d] and w = insert_front_words [OF d, folded h'_def]
  have inside: "word_at h' k = ((word_at h)(?T + 1 := 0, ?T + 2 := first_ptr fl 0)) k" if "?T \<le> k" "k < ?T + n" for k
    unfolding w(1) by (rule relink_inside [where n = n]) (use list(1) that in auto)
  have "heap_ok h' (xs @ [(n, False)] @ ys) ([] @ [?T] @ fl) \<and>
    only_changes h h' ?T (extent [(n, False)]) (set ([] @ [] @ fl))"
  proof (rule retiled)
    show "block_ok (word_at h') b" if "b \<in> set (blocks ?T [(n, False)])" for b
      using that f(1,4,5) inside [of ?T] inside [of "?T + n - 1"] by (auto simp: block_ok_def)
    show "word_at h' k = relink [] fl (first_ptr ([?T] @ fl) 0) (last_ptr (last_ptr 0 []) [?T]) (word_at h) k"
      if "k < ?T \<or> ?T + extent [(n, False)] \<le> k" for k
      using that f(1) by (auto simp: w intro: relink_cong)
    show "links (word_at h') (last_ptr 0 []) [?T] (first_ptr fl 0)" using inside [of "?T + 1"] inside [of "?T + 2"] f(1) by simp
  qed (use part list w in simp_all)
  then show "heap_ok h' (xs @ (n, False) # ys) (?T # fl)" "only_changes h h' ?T n (set fl)" by simp_all
qed

lemma unat_plus_heap:
  assumes "n + k < heap_limit"
  shows "unat (of_nat n + of_nat k :: u32) = n + k"
  using unat_heap [OF assms] by simp

lemma not_linked_to_itself:
  assumes part: "heap_part h bs (before @ p # after)"
  shows "last_ptr 0 before \<noteq> haddr p" "first_ptr after 0 \<noteq> haddr p"
proof -
  have room: "q < heap_limit" if "q \<in> set (before @ p # after)" for q
    using free_block_room(2) [OF part that] by simp
  have "last before \<in> set before" if "before \<noteq> []" using that by simp
  moreover have "hd after \<in> set after" if "after \<noteq> []" using that by simp
  moreover have "p \<notin> set before \<union> set after" using part by (auto simp: heap_part_def)
  ultimately show "last_ptr 0 before \<noteq> haddr p" "first_ptr after 0 \<noteq> haddr p"
    using room haddr_nonzero [of p] haddr_inj by (auto simp: last_ptr_last first_ptr_hd)
qed

text \<open>The free block behind a detached one, and the rest of the free list.\<close>

lemma detached_next:
  assumes d: "detached h xs n ((m, False) # zs) (before @ (extent xs + n) # after)"
  shows "heap_part h (xs @ (n, False) # (m, False) # zs) (before @ (extent xs + n) # after)"
    "4 \<le> n" "4 \<le> m" "extent xs + (n + m) < heap_limit" "word_at h (extent xs) = of_nat n" "word_at h (extent xs + n) = of_nat m"
    "p \<in> set before \<union> set after \<Longrightarrow> p + 4 \<le> extent xs \<or> extent xs + (n + m) \<le> p"
    "free_blocks (xs @ (n, False) # (m, False) # zs) - {extent xs..<extent xs + (n + m)} = set before \<union> set after"
proof -
  let ?fl = "before @ (extent xs + n) # after"
  show part: "heap_part h (xs @ (n, False) # (m, False) # zs) ?fl" using d by (simp add: detached_def)
  have free: "set ?fl = free_blocks (xs @ (n, False) # (m, False) # zs) - {extent xs}" using d by (simp add: detached_def)
  have part2: "heap_part h ((xs @ [(n, False)]) @ (m, False) # zs) ?fl" using part by simp
  note f = free_block_size [OF part] and f2 = free_block_size [OF part2, simplified]
  show "4 \<le> n" "4 \<le> m" "extent xs + (n + m) < heap_limit" "word_at h (extent xs) = of_nat n" "word_at h (extent xs + n) = of_nat m"
    using f f2 by (simp_all add: size_tag_def)
  show out: "p + 4 \<le> extent xs \<or> extent xs + (n + m) \<le> p" if p: "p \<in> set before \<union> set after" for p
  proof -
    have "p \<in> set ?fl" "p \<noteq> extent xs" "p \<noteq> extent xs + n" using p free part by (auto simp: heap_part_def)
    then show ?thesis using not_own [OF part, of p] not_own [OF part2, of p] f(1) by auto
  qed
  have "free_blocks (xs @ (n, False) # (m, False) # zs) = insert (extent xs) (insert (extent xs + n) (set before \<union> set after))"
    using free by (auto simp: free_blocks_def blocks_append)
  moreover have "p \<notin> {extent xs..<extent xs + (n + m)}" if "p \<in> set before \<union> set after" for p using out [OF that] by auto
  moreover have "extent xs \<in> {extent xs..<extent xs + (n + m)}" "extent xs + n \<in> {extent xs..<extent xs + (n + m)}"
    using f(1) f2(1) by auto
  ultimately show "free_blocks (xs @ (n, False) # (m, False) # zs) - {extent xs..<extent xs + (n + m)} = set before \<union> set after"
    by auto
qed

lemma join_next_words:
  assumes d: "detached h xs n ((m, False) # zs) (before @ (extent xs + n) # after)"
  defines "h' \<equiv> snd (join_next (haddr (extent xs)) h)" and "T \<equiv> extent xs" and "N \<equiv> extent xs + n"
  shows "word_at h' = (relink before after (haddr T) (haddr T) (word_at h))(T + 1 := last_ptr 0 before, T + 2 := first_ptr after 0,
      T := of_nat (n + m), N - 1 := 0, N := 0, N + 1 := 0, N + 2 := 0, T + (n + m) - 1 := of_nat (n + m))"
    "heap_head h' = (if before = [] then haddr T else heap_head h)"
    "last_free_virtual_address h' = last_free_virtual_address h"
    "fst (join_next (haddr T) h) \<longleftrightarrow> not_self_linked (haddr T) h'"
proof -
  let ?w = "word_at h" and ?lp = "last_ptr 0 before" and ?fa = "first_ptr after 0"
  note nx = detached_next [OF d]
  have part2: "heap_part h (xs @ (n, False) # (m, False) # zs) (before @ N # after)" using nx(1) by (simp add: N_def)
  note f = nx(2-6) [folded T_def, folded N_def [unfolded T_def [symmetric]]] and l = free_block_links [OF part2]
  obtain n' m' where nm: "n = n' + 4" "m = m' + 4" using f(1,2) by (metis add.commute le_Suc_ex)
  have N: "N = T + n" by (simp add: N_def T_def)
  have room: "p + 3 < heap_limit" if "p \<in> set before \<union> set after" for p
    using free_block_room(2) [OF part2, of p] that by auto
  have same: "relink before after' x y w j = w j" if "set after' \<subseteq> set after" "T \<le> j" "j < T + (n + m)" for after' x y w j
    using relink_inside [OF nx(7) that(1)] that(2,3) by (simp add: T_def)
  have lims: "n < heap_limit" "n + 1 < heap_limit" "n + 2 < heap_limit" "n + m < heap_limit" using f by simp_all
  have u: "unat (of_nat n + 1 :: u32) = n + 1" "unat (of_nat n + 2 :: u32) = n + 2"
    using unat_plus_heap [OF lims(2)] unat_plus_heap [OF lims(3)] by simp_all
  define h2 where "h2 = set_prev (haddr T) ?fa (set_next (haddr T) ?lp h)"
  define h4 where "h4 = hput (haddr T) 2 ?fa (hput (haddr T) 1 ?lp h2)"
  define h5 where "h5 = hput (haddr T) 0 (of_nat (n + m)) h4"
  define h9 where "h9 = hput (haddr T) (of_nat n + 2) 0 (hput (haddr T) (of_nat n + 1) 0
    (hput (haddr T) (of_nat n) 0 (hput (haddr T) (of_nat n - 1) 0 h5)))"
  have w2: "word_at h2 = relink before after (haddr T) (haddr T) ?w"
    unfolding h2_def by (rule relink_code(1) [OF room])
  have w4: "word_at h4 = (relink before after (haddr T) (haddr T) ?w)(T + 1 := ?lp, T + 2 := ?fa)"
    using f by (simp add: h4_def hput_word w2)
  have w5: "word_at h5 = (word_at h4)(T := of_nat (n + m))" using f by (simp add: h5_def hput_word)
  have w9: "word_at h9 = (word_at h5)(N - 1 := 0, N := 0, N + 1 := 0, N + 2 := 0)"
    using f lims u by (simp add: h9_def hput_word of_nat_pred unat_heap add.assoc N)
  have g: "hget h (haddr T) 0 = of_nat n" "hget h (haddr T) (of_nat n + 1) = ?lp" "hget h (haddr T) (of_nat n + 2) = ?fa"
    "hget h2 (haddr T) 0 = of_nat n"
    using f l(1,2) lims u same [of after T] by (simp_all add: hget_word add.assoc N w2)
  have g4: "hget h4 (haddr T) 0 + hget h4 (haddr T) (hget h4 (haddr T) 0) = of_nat (n + m)"
    using f lims same [of after T] same [of after N] by (simp add: hget_word w4 unat_heap N)
  have g9: "hget h9 (haddr T) 0 = of_nat (n + m)" using f nm by (auto simp: hget_word w9 w5 N)
  have code: "join_next (haddr T) h = (let r = hput (haddr T) (of_nat (n + m) - 1) (of_nat (n + m)) h9 in (not_self_linked (haddr T) r, r))"
    unfolding join_next_def Let_def g
    unfolding set_next_def [symmetric] unfolding set_prev_def [symmetric] unfolding h2_def [symmetric] g
    unfolding h4_def [symmetric] g4 unfolding h5_def [symmetric] h9_def [symmetric] g9 ..
  then have h': "h' = hput (haddr T) (of_nat (n + m) - 1) (of_nat (n + m)) h9" by (simp add: h'_def T_def Let_def)
  show "fst (join_next (haddr T) h) \<longleftrightarrow> not_self_linked (haddr T) h'" by (simp add: code h' Let_def)
  show "word_at h' = (relink before after (haddr T) (haddr T) ?w)(T + 1 := ?lp, T + 2 := ?fa, T := of_nat (n + m),
      N - 1 := 0, N := 0, N + 1 := 0, N + 2 := 0, T + (n + m) - 1 := of_nat (n + m))"
    using f lims of_nat_pred [of "n + m"] by (simp add: h' hput_word w9 w5 w4)
  show "heap_head h' = (if before = [] then haddr T else heap_head h)"
    unfolding h' h9_def h5_def h4_def h2_def hput_fields by (subst relink_code(2) [where after = after]) (use room in auto)
  show "last_free_virtual_address h' = last_free_virtual_address h" by (simp add: h' h9_def h5_def h4_def h2_def)
qed

lemma join_next_ok:
  assumes d: "detached h xs n ((m, False) # zs) (before @ (extent xs + n) # after)"
  defines "r \<equiv> join_next (haddr (extent xs)) h"
  shows "fst r" "heap_ok (snd r) (xs @ (n + m, False) # zs) (before @ extent xs # after)"
    "only_changes h (snd r) (extent xs) (n + m) (set (before @ (extent xs + n) # after))"
proof -
  let ?T = "extent xs" and ?N = "extent xs + n" and ?h = "snd r"
  note nx = detached_next [OF d] and w = join_next_words [OF d, folded r_def]
  obtain n' m' where nm: "n = n' + 4" "m = m' + 4" using nx(2,3) by (metis add.commute le_Suc_ex)
  have same: "relink before after x y w j = w j" if "?T \<le> j" "j < ?T + (n + m)" for x y w j
    by (rule relink_inside [OF nx(7) subset_refl that])
  have vals: "word_at ?h (?T + 1) = last_ptr 0 before" "word_at ?h (?T + 2) = first_ptr after 0"
    "word_at ?h ?T = of_nat (n + m)" "word_at ?h (?T + (n + m) - 1) = of_nat (n + m)"
    by (simp_all add: w nm)
  have ok: "heap_ok ?h (xs @ [(n + m, False)] @ zs) (before @ [?T] @ after) \<and>
    only_changes h ?h ?T (extent [(n, False), (m, False)]) (set (before @ [?N] @ after))"
  proof (rule retiled)
    show "heap_part h (xs @ [(n, False), (m, False)] @ zs) (before @ [?N] @ after)" using nx(1) by simp
    show "block_ok (word_at ?h) b" if "b \<in> set (blocks ?T [(n + m, False)])" for b
      using that vals nm by (simp add: block_ok_def size_tag_def)
    show "word_at ?h j = relink before after (first_ptr ([?T] @ after) 0) (last_ptr (last_ptr 0 before) [?T]) (word_at h) j"
      if "j < ?T \<or> ?T + extent [(n, False), (m, False)] \<le> j" for j
      using that nm by (auto simp: w)
  qed (use nx(7,8) w vals in simp_all)
  then show "heap_ok ?h (xs @ (n + m, False) # zs) (before @ ?T # after)" "only_changes h ?h ?T (n + m) (set (before @ ?N # after))"
    by simp_all
  have "heap_part ?h (xs @ [(n + m, False)] @ zs) (before @ ?T # after)" using ok heap_ok_part by simp
  note self = not_linked_to_itself [OF this]
  have "?T + 2 < heap_limit" using nx(2-4) by simp
  then show "fst r" using vals self by (simp add: r_def w(4) [unfolded r_def] not_self_linked_def hget_word)
qed

text \<open>The second half of \<open>join_previous\<close>, after the block has left the free list.\<close>

definition merge_tail :: "u32 \<Rightarrow> u32 \<Rightarrow> heap \<Rightarrow> bool \<times> u32 \<times> heap" where
  "merge_tail old old_size h2 =
     (let b = old - 4 * hget h2 old (-1);
          h6 = hput old 2 0 (hput old 1 0 (hput old 0 0 (hput old (-1) 0 h2)));
          h7 = hput b 0 (hget h6 b 0 + old_size) h6;
          h8 = hput b (hget h7 b 0 - 1) (hget h7 b 0) h7
      in (not_self_linked b h8, b, h8))"

lemma merge_tail_words:
  assumes part: "heap_part h (xs @ (k, False) # (n, False) # ys) (bef @ extent xs # aft)"
  defines "B \<equiv> extent xs" and "T \<equiv> extent xs + k"
  shows "\<exists>h'. merge_tail (haddr T) (of_nat n) h = (True, haddr B, h') \<and>
    word_at h' = (word_at h)(T - 1 := 0, T := 0, T + 1 := 0, T + 2 := 0, B := of_nat (k + n), B + (k + n) - 1 := of_nat (k + n)) \<and>
    heap_head h' = heap_head h \<and> last_free_virtual_address h' = last_free_virtual_address h"
proof -
  let ?w = "word_at h"
  have part2: "heap_part h ((xs @ [(k, False)]) @ (n, False) # ys) (bef @ B # aft)" using part by (simp add: B_def)
  note f = free_block_size [OF part, folded B_def] and f2 = free_block_size [OF part2, simplified, folded T_def]
  note own = free_block_links(1,2) [OF part, folded B_def] and self = not_linked_to_itself [OF part, folded B_def]
  obtain k' n' where kn: "k = k' + 4" "n = n' + 4" using f(1) f2(1) by (metis add.commute le_Suc_ex)
  have T: "T = B + k" by (simp add: T_def B_def)
  have lims: "B + (k + n) < heap_limit" "k + n < heap_limit" using f2(2) T by simp_all
  define h6 where "h6 = hput (haddr T) 2 0 (hput (haddr T) 1 0 (hput (haddr T) 0 0 (hput (haddr T) (- 1) 0 h)))"
  define h7 where "h7 = hput (haddr B) 0 (of_nat (k + n)) h6"
  define h8 where "h8 = hput (haddr B) (of_nat (k + n) - 1) (of_nat (k + n)) h7"
  have w6: "word_at h6 = ?w(T - 1 := 0, T := 0, T + 1 := 0, T + 2 := 0)"
    using lims kn by (simp add: h6_def hput_word hput_before T)
  have w7: "word_at h7 = (word_at h6)(B := of_nat (k + n))" using f by (simp add: h7_def hput_word)
  have w8: "word_at h8 = (word_at h7)(B + (k + n) - 1 := of_nat (k + n))"
    using f(1) lims of_nat_pred [of "k + n"] by (simp add: h8_def hput_word)
  have prev: "haddr T - 4 * of_nat k = haddr B" by (simp add: haddr_def T algebra_simps)
  have g: "hget h (haddr T) (- 1) = of_nat k"
    "hget h6 (haddr B) 0 + of_nat n = of_nat (k + n)" "hget h7 (haddr B) 0 = of_nat (k + n)"
    "hget h8 (haddr B) 1 = last_ptr 0 bef" "hget h8 (haddr B) 2 = first_ptr aft 0"
    using f(1-5) lims own kn
    by (simp_all add: hget_before hget_word haddr_minus unat_heap size_tag_def w8 w7 w6 T)
  have "word_at h8 = ?w(T - 1 := 0, T := 0, T + 1 := 0, T + 2 := 0, B := of_nat (k + n), B + (k + n) - 1 := of_nat (k + n))"
    by (simp only: w8 w7 w6)
  moreover have "heap_head h8 = heap_head h" "last_free_virtual_address h8 = last_free_virtual_address h"
    by (simp_all add: h8_def h7_def h6_def)
  moreover have "merge_tail (haddr T) (of_nat n) h = (True, haddr B, h8)"
    unfolding merge_tail_def Let_def g prev h6_def [symmetric] unfolding g h7_def [symmetric] unfolding g h8_def [symmetric]
    by (simp add: not_self_linked_def g self)
  ultimately show ?thesis by blast
qed

lemma merge_tail_ok:
  assumes part: "heap_part h (xs @ (k, False) # (n, False) # ys) fl"
    and free: "set fl = free_blocks (xs @ (k, False) # (n, False) # ys) - {extent xs + k}"
  defines "r \<equiv> merge_tail (haddr (extent xs + k)) (of_nat n) h"
  shows "fst r" "fst (snd r) = haddr (extent xs)" "heap_ok (snd (snd r)) (xs @ (k + n, False) # ys) fl"
    "only_changes h (snd (snd r)) (extent xs) (k + n) (set fl)"
proof -
  let ?B = "extent xs" and ?T = "extent xs + k" and ?w = "word_at h"
  have part2: "heap_part h ((xs @ [(k, False)]) @ (n, False) # ys) fl" using part by simp
  note f = free_block_size [OF part] and f2 = free_block_size [OF part2, simplified]
  have B: "?B \<in> set fl" using free f(1) by (auto simp: free_blocks_def blocks_append)
  then obtain bef aft where fl: "fl = bef @ ?B # aft" by (metis split_list)
  obtain k' n' where kn: "k = k' + 4" "n = n' + 4" using f(1) f2(1) by (metis add.commute le_Suc_ex)
  obtain h8 where code: "r = (True, haddr ?B, h8)"
    and w: "word_at h8 = ?w(?T - 1 := 0, ?T := 0, ?T + 1 := 0, ?T + 2 := 0, ?B := of_nat (k + n), ?B + (k + n) - 1 := of_nat (k + n))"
    and fields: "heap_head h8 = heap_head h" "last_free_virtual_address h8 = last_free_virtual_address h"
    using merge_tail_words [OF part [unfolded fl]] unfolding r_def by blast
  then show "fst r" "fst (snd r) = haddr ?B" by simp_all
  have outside: "word_at h8 j = ?w j" if "j < ?B \<or> ?B + (k + n) \<le> j" for j using that kn by (auto simp: w)
  then have only: "only_changes h h8 ?B (k + n) (set fl)" by (auto simp: only_changes_def)
  then show "only_changes h (snd (snd r)) ?B (k + n) (set fl)" by (simp add: code)
  have out: "p + 4 \<le> ?B \<or> ?B + (k + n) \<le> p" if p: "p \<in> set fl" "p \<noteq> ?B" for p
  proof -
    have "p \<noteq> ?T" using p free by auto
    then show ?thesis using not_own [OF part p] not_own [OF part2 p(1)] by auto
  qed
  have "free_blocks (xs @ [(k, False), (n, False)] @ ys) = insert ?T (set fl)"
    using free by (auto simp: free_blocks_def blocks_append)
  moreover have "set fl - {?B..<?B + (k + n)} = set fl - {?B}" using out f(1) by fastforce
  ultimately have newfree: "free_blocks (xs @ [(k + n, False)] @ ys) = set fl"
    using free_region [of h xs "[(k, False), (n, False)]" ys fl "[(k + n, False)]"] part B f2(1) by (auto simp: add.assoc)
  have "heap_part h8 (xs @ [(k + n, False)] @ ys) fl"
  proof (rule region_part)
    show "heap_part h (xs @ [(k, False), (n, False)] @ ys) fl" using part by simp
    show "only_changes h h8 ?B (extent [(k, False), (n, False)]) (set fl)" using only by simp
    show "block_ok (word_at h8) b" if "b \<in> set (blocks ?B [(k + n, False)])" for b
      using that kn by (simp add: block_ok_def size_tag_def w)
    show "links (word_at h8) 0 fl 0"
    proof (rule links_frame)
      show "links ?w 0 fl 0" using part by (simp add: heap_part_def)
      fix p assume p: "p \<in> set fl"
      show "word_at h8 (p + 1) = ?w (p + 1) \<and> word_at h8 (p + 2) = ?w (p + 2)"
      proof (cases "p = ?B")
        case False
        then have "p + 4 \<le> ?B \<or> ?B + (k + n) \<le> p" using out p by blast
        then show ?thesis using outside [of "p + 1"] outside [of "p + 2"] by auto
      qed (simp add: w kn)
    qed
    show "heap_head h8 = first_ptr fl 0" using part fields by (simp add: heap_part_def)
    show "set fl \<subseteq> free_blocks (xs @ [(k + n, False)] @ ys)" using newfree by simp
    show "distinct fl" using part by (simp add: heap_part_def)
  qed (use fields in simp_all)
  then show "heap_ok (snd (snd r)) (xs @ (k + n, False) # ys) fl" using newfree by (simp add: heap_ok_def code)
qed

lemma unlink_ok:
  assumes ok: "heap_ok h bs (before @ p # after)"
  defines "h' \<equiv> set_prev (last_ptr 0 before) (first_ptr after 0) (set_next (first_ptr after 0) (last_ptr 0 before) h)"
  shows "heap_part h' bs (before @ after)" "set (before @ after) = free_blocks bs - {p}"
    "only_changes h h' a n (set (before @ p # after))"
proof -
  note part = heap_ok_part [OF ok]
  note l = free_block_links [OF part]
  have room: "q + 3 < heap_limit" if "q \<in> set before \<union> set after" for q
    using free_block_room(2) [OF part, of q] that by auto
  have w: "word_at h' = relink before after (first_ptr after 0) (last_ptr 0 before) (word_at h)"
    unfolding h'_def by (rule relink_code(1) [OF room])
  have every: "word_at h' k \<noteq> word_at h k \<Longrightarrow> \<exists>q \<in> set (before @ p # after). k = q + 1 \<or> k = q + 2" for k
    using relink_frame [of before after _ _ "word_at h" k] by (fastforce simp: w)
  then show "only_changes h h' a n (set (before @ p # after))" by (simp add: only_changes_def)
  show set: "set (before @ after) = free_blocks bs - {p}" using ok by (auto simp: heap_ok_def heap_part_def)
  have "heap_part h' (bs @ [] @ []) (before @ after)"
  proof (rule region_part)
    show "heap_part h (bs @ [] @ []) (before @ p # after)" using part by simp
    show "only_changes h h' (extent bs) (extent []) (set (before @ p # after))" using every by (simp add: only_changes_def)
    show "links (word_at h') 0 (before @ after) 0" unfolding links_append w using links_relinked [of h bs before "[p]" after] part by simp
    show "heap_head h' = first_ptr (before @ after) 0"
    proof -
      have "heap_head h' = (if before = [] then first_ptr after 0 else heap_head h)"
        unfolding h'_def by (subst relink_code(2) [where after = after]) (use room in auto)
      then show ?thesis using part by (cases before) (simp_all add: heap_part_def)
    qed
    show "distinct (before @ after)" using part by (simp add: heap_part_def)
  qed (use set in \<open>auto simp: h'_def\<close>)
  then show "heap_part h' bs (before @ after)" by simp
qed

lemma join_previous_detached:
  assumes d: "detached h (xs @ [(k, False)]) n ys fl"
  shows "join_previous (haddr (extent xs + k)) h = merge_tail (haddr (extent xs + k)) (of_nat n) h"
proof -
  have part: "heap_part h ((xs @ [(k, False)]) @ (n, False) # ys) fl" using d by (simp add: detached_def)
  note f = free_block_size [OF part, simplified]
  have "hget h (haddr (extent xs + k)) 0 = of_nat n" "hget h (haddr (extent xs + k)) 1 = 0"
    "hget h (haddr (extent xs + k)) 2 = 0"
    using f d by (simp_all add: detached_def hget_word size_tag_def)
  then show ?thesis by (simp add: join_previous_def merge_tail_def Let_def)
qed

lemma join_previous_listed:
  assumes ok: "heap_ok h (xs @ (k, False) # (n, False) # ys) (before @ (extent xs + k) # after)"
  shows "join_previous (haddr (extent xs + k)) h = merge_tail (haddr (extent xs + k)) (of_nat n)
    (set_prev (last_ptr 0 before) (first_ptr after 0) (set_next (first_ptr after 0) (last_ptr 0 before) h))"
proof -
  have part: "heap_part h ((xs @ [(k, False)]) @ (n, False) # ys) (before @ (extent xs + k) # after)"
    using heap_ok_part [OF ok] by simp
  note f = free_block_size [OF part, simplified] and l = free_block_links [OF part]
  have g: "hget h (haddr (extent xs + k)) 0 = of_nat n" "hget h (haddr (extent xs + k)) 1 = last_ptr 0 before"
    "hget h (haddr (extent xs + k)) 2 = first_ptr after 0"
    using f l(1,2) by (simp_all add: hget_word size_tag_def)
  have "4 \<le> k" using free_block_size(1) [of h xs k False "(n, False) # ys"] heap_ok_part [OF ok] by simp
  moreover have "extent xs \<in> set (before @ (extent xs + k) # after)"
    using ok by (auto simp: heap_ok_def free_blocks_def blocks_append)
  ultimately have "before = [] \<Longrightarrow> after \<noteq> []" by auto
  then have "(if last_ptr 0 before \<noteq> 0 then hput (last_ptr 0 before) 2 (first_ptr after 0) h
      else if first_ptr after 0 \<noteq> 0 then h\<lparr> heap_head := first_ptr after 0 \<rparr> else h)
    = set_next (first_ptr after 0) (last_ptr 0 before) h"
    using l(3,4) by (simp add: set_next_def)
  then show ?thesis unfolding join_previous_def Let_def g merge_tail_def set_prev_def by simp
qed

lemma only_changes_trans:
  "only_changes h h1 a n F \<Longrightarrow> only_changes h1 h2 a n G \<Longrightarrow> G \<subseteq> F \<Longrightarrow> only_changes h h2 a n F"
  unfolding only_changes_def by (metis subsetD)

lemma join_previous_ok:
  fixes xs ys :: "(nat \<times> bool) list" and h :: heap
  assumes "detached h (xs @ [(k, False)]) n ys fl \<and> fl' = fl \<or>
    heap_ok h (xs @ (k, False) # (n, False) # ys) fl \<and> (\<exists>before after. fl = before @ (extent xs + k) # after \<and> fl' = before @ after)"
  defines "r \<equiv> join_previous (haddr (extent xs + k)) h"
  shows "fst r \<and> fst (snd r) = haddr (extent xs) \<and> heap_ok (snd (snd r)) (xs @ (k + n, False) # ys) fl' \<and>
    only_changes h (snd (snd r)) (extent xs) (k + n) (set fl)"
  using assms(1)
proof
  assume d: "detached h (xs @ [(k, False)]) n ys fl \<and> fl' = fl"
  then have "heap_part h (xs @ (k, False) # (n, False) # ys) fl"
    "set fl = free_blocks (xs @ (k, False) # (n, False) # ys) - {extent xs + k}"
    by (simp_all add: detached_def)
  from merge_tail_ok [OF this] show ?thesis
    using d join_previous_detached [of h xs k n ys fl] by (simp add: r_def)
next
  assume "heap_ok h (xs @ (k, False) # (n, False) # ys) fl \<and>
    (\<exists>before after. fl = before @ (extent xs + k) # after \<and> fl' = before @ after)"
  then obtain before after where ok: "heap_ok h (xs @ (k, False) # (n, False) # ys) (before @ (extent xs + k) # after)"
    and fl: "fl = before @ (extent xs + k) # after" "fl' = before @ after" by auto
  let ?h = "set_prev (last_ptr 0 before) (first_ptr after 0) (set_next (first_ptr after 0) (last_ptr 0 before) h)"
  note u = unlink_ok [OF ok]
  note m = merge_tail_ok [OF u(1,2)]
  show ?thesis
    using m only_changes_trans [OF u(3) m(4)] by (auto simp: r_def join_previous_listed [OF ok] fl)
qed

text \<open>The blocks that are in use, with their words, stay what they are.\<close>

definition kept :: "heap \<Rightarrow> heap \<Rightarrow> (nat \<times> nat \<times> bool) set \<Rightarrow> bool" where
  "kept h h' B \<longleftrightarrow> (\<forall>j m i. (j, m, True) \<in> B \<longrightarrow> j \<le> i \<and> i < j + m \<longrightarrow> word_at h' i = word_at h i)"

lemma kept_trans: "kept h h1 B \<Longrightarrow> kept h1 h2 B \<Longrightarrow> kept h h2 B"
  by (simp add: kept_def)

lemma kept_subset: "kept h h' B \<Longrightarrow> (\<And>j m. (j, m, True) \<in> C \<Longrightarrow> (j, m, True) \<in> B) \<Longrightarrow> kept h h' C"
  unfolding kept_def by blast

text \<open>The blocks from word \<open>i\<close> on, and all that lies behind them.\<close>

definition rest :: "nat \<Rightarrow> (nat \<times> bool) list \<Rightarrow> (nat \<times> nat \<times> bool) set" where
  "rest i ys = set (blocks i ys) \<union> {(i + extent ys, m, True) | m. True}"

lemma kept_region:
  assumes ok: "heap_part h (xs @ old @ ys) fl" and only: "only_changes h h' (extent xs) (extent old) (set fl)"
  shows "kept h h' (set (blocks 0 xs) \<union> rest (extent xs + extent old) ys)"
proof -
  have "word_at h' i = word_at h i" if i: "extent xs + extent old + extent ys \<le> i" for i
  proof (rule ccontr)
    assume "word_at h' i \<noteq> word_at h i"
    moreover have "extent xs + extent old \<le> i" using i by simp
    ultimately obtain p where "p \<in> set fl" "i = p + 1 \<or> i = p + 2" using only unfolding only_changes_def by blast
    then show False using free_block_room(1) [OF ok, of p] i by auto
  qed
  then show ?thesis unfolding kept_def rest_def using used_kept [OF ok only] by auto
qed

text \<open>The blocks after the release of a block of \<open>n\<close> words between \<open>xs\<close> and \<open>ys\<close>: it is joined with a
  free block after it and with a free block before it.\<close>

definition join_right :: "nat \<Rightarrow> (nat \<times> bool) list \<Rightarrow> (nat \<times> bool) list" where
  "join_right n ys = (case ys of (m, False) # zs \<Rightarrow> (n + m, False) # zs | _ \<Rightarrow> (n, False) # ys)"

definition freed :: "(nat \<times> bool) list \<Rightarrow> nat \<Rightarrow> (nat \<times> bool) list \<Rightarrow> (nat \<times> bool) list" where
  "freed xs n ys =
     (case (rev xs, join_right n ys) of
        ((k, False) # rxs, (m, _) # zs) \<Rightarrow> rev rxs @ (k + m, False) # zs
      | (_, bs) \<Rightarrow> xs @ bs)"

text \<open>The part of \<open>kfree\<close> after the join with the next block.\<close>

definition finish_free :: "bool \<Rightarrow> u32 \<Rightarrow> heap \<Rightarrow> heap" where
  "finish_free next_free b h3 =
     (let previous_free = (b > HEAP_START_ADDR \<and> \<not> get_allocated_bit (hget h3 b (-1)));
          (ok2, b', h4) = (if previous_free then join_previous b h3 else (True, b, h3))
      in if \<not> ok2 then h4
         else if \<not> (next_free \<or> previous_free) then insert_front b' h4 else h4)"

lemma previous_block:
  assumes part: "heap_part h (xs @ (n, False) # ys) fl"
  shows "haddr (extent xs) > HEAP_START_ADDR \<and> \<not> get_allocated_bit (hget h (haddr (extent xs)) (-1)) \<longleftrightarrow>
    (\<exists>ws k. xs = ws @ [(k, False)])"
proof (cases xs rule: rev_cases)
  case Nil
  then show ?thesis by (simp add: haddr_def)
next
  case (snoc ws b)
  obtain k u where b: "b = (k, u)" by fastforce
  have p: "heap_part h (ws @ (k, u) # (n, False) # ys) fl" using part snoc b by simp
  note f = free_block_size [OF p]
  have lim: "extent xs < heap_limit" "0 < extent xs" using f(1,2) snoc b by simp_all
  have "haddr (extent xs) > HEAP_START_ADDR" using lim by (simp add: word_less_nat_alt haddr_unat) (simp add: heap_start)
  moreover have "hget h (haddr (extent xs)) (- 1) = size_tag k u"
    using lim f(5) snoc b by (simp add: hget_before)
  ultimately show ?thesis using f(3) snoc b by (auto simp: size_tag_simps)
qed

lemma finish_free_ok:
  assumes st: "\<not> next_free \<and> detached h xs n ys fl \<or>
    next_free \<and> heap_ok h (xs @ (n, False) # ys) fl \<and> extent xs \<in> set fl"
  shows "\<exists>fl'. heap_ok (finish_free next_free (haddr (extent xs)) h)
      (case rev xs of (k, False) # rxs \<Rightarrow> rev rxs @ (k + n, False) # ys | _ \<Rightarrow> xs @ (n, False) # ys) fl' \<and>
    kept h (finish_free next_free (haddr (extent xs)) h) (set (blocks 0 xs) \<union> rest (extent xs + n) ys)"
proof -
  have part: "heap_part h (xs @ (n, False) # ys) fl" using st by (auto simp: detached_def heap_ok_def)
  note prev = previous_block [OF part]
  show ?thesis
  proof (cases "\<exists>ws k. xs = ws @ [(k, False)]")
    case True
    then obtain ws k where xs: "xs = ws @ [(k, False)]" by blast
    have T: "extent xs = extent ws + k" by (simp add: xs)
    obtain fl' where "detached h (ws @ [(k, False)]) n ys fl \<and> fl' = fl \<or>
      heap_ok h (ws @ (k, False) # (n, False) # ys) fl \<and> (\<exists>before after. fl = before @ (extent ws + k) # after \<and> fl' = before @ after)"
      using st by (auto simp: xs) (metis split_list)
    note j = join_previous_ok [OF this, folded T]
    obtain h' where h': "join_previous (haddr (extent xs)) h = (True, haddr (extent ws), h')"
      "heap_ok h' (ws @ (k + n, False) # ys) fl'" "only_changes h h' (extent ws) (k + n) (set fl)"
      using j by (cases "join_previous (haddr (extent xs)) h") auto
    have code: "finish_free next_free (haddr (extent xs)) h = h'"
      using prev True unfolding finish_free_def Let_def h'(1) by simp
    have "kept h h' (set (blocks 0 ws) \<union> rest (extent ws + extent [(k, False), (n, False)]) ys)"
      using kept_region [of h ws "[(k, False), (n, False)]" ys fl h'] part h'(3) by (simp add: xs)
    then have "kept h h' (set (blocks 0 xs) \<union> rest (extent xs + n) ys)"
      by (rule kept_subset) (auto simp: xs blocks_append rest_def add.assoc)
    then show ?thesis unfolding code using h'(2) by (auto simp: xs)
  next
    case False
    then have none: "(case rev xs of (k, False) # rxs \<Rightarrow> rev rxs @ (k + n, False) # ys | _ \<Rightarrow> xs @ (n, False) # ys) = xs @ (n, False) # ys"
      by (cases xs rule: rev_cases) (auto split: bool.split)
    have np: "(haddr (extent xs) > HEAP_START_ADDR \<and> \<not> get_allocated_bit (hget h (haddr (extent xs)) (-1))) = False"
      using prev False by blast
    show ?thesis
    proof (cases next_free)
      case True
      then have "finish_free next_free (haddr (extent xs)) h = h"
        unfolding finish_free_def Let_def np by simp
      then show ?thesis using st True unfolding none by (auto simp: kept_def)
    next
      case False
      then have d: "detached h xs n ys fl" using st by simp
      have code: "finish_free next_free (haddr (extent xs)) h = insert_front (haddr (extent xs)) h"
        using False unfolding finish_free_def Let_def np by simp
      have "kept h (insert_front (haddr (extent xs)) h) (set (blocks 0 xs) \<union> rest (extent xs + extent [(n, False)]) ys)"
        using kept_region [of h xs "[(n, False)]" ys fl] part insert_front_ok(2) [OF d] by simp
      then show ?thesis using insert_front_ok(1) [OF d] unfolding none code by auto
    qed
  qed
qed

lemma kfree_code:
  assumes ok: "heap_ok h (xs @ (n, True) # (m, u) # zs) fl"
  defines "b \<equiv> haddr (extent xs)"
  defines "r \<equiv> if \<not> u then join_next b (release b h) else (True, release b h)"
  shows "kfree (haddr (extent xs + 3)) h = (if \<not> fst r then snd r else finish_free (\<not> u) b (snd r))"
proof -
  let ?h = "release b h"
  note f = free_block_size [OF heap_ok_part [OF ok]]
  have part2: "heap_part ?h (xs @ (n, False) # (m, u) # zs) fl" using release_ok(1) [OF ok] by (simp add: detached_def b_def)
  then have part3: "heap_part ?h ((xs @ [(n, False)]) @ (m, u) # zs) fl" by simp
  note f2 = free_block_size [OF part2] and f3 = free_block_size [OF part3, simplified]
  have "hget ?h b 0 = of_nat n" using f2(2,4) by (simp add: hget_word size_tag_def b_def)
  moreover have "hget ?h b (of_nat n) = size_tag m u" using f2(3) f3(2,4) by (simp add: hget_word unat_heap b_def)
  ultimately have nf: "get_allocated_bit (hget ?h b (hget ?h b 0)) = u" using f3(3) by (simp add: size_tag_simps)
  have b: "haddr (extent xs + 3) - 12 = b" by (simp add: haddr_def b_def)
  have z: "haddr (extent xs + 3) \<noteq> 0" using f(1,2) by (intro haddr_nonzero) simp
  have g: "hget h b 1 = 0" "hget h b 2 = 0" using f(1,2,6) by (simp_all add: hget_word b_def)
  show ?thesis
    unfolding kfree_def Let_def b g release_def [unfolded Let_def, symmetric] nf r_def
    using z by (cases u) (simp_all add: finish_free_def Let_def split: prod.split)
qed

lemma kfree_ok:
  assumes ok: "heap_ok h (xs @ (n, True) # ys) fl" and others: "ys \<noteq> []"
  shows "\<exists>fl'. heap_ok (kfree (haddr (extent xs + 3)) h) (freed xs n ys) fl' \<and>
    kept h (kfree (haddr (extent xs + 3)) h) (set (blocks 0 xs) \<union> rest (extent xs + n) ys)"
proof -
  let ?T = "extent xs"
  let ?h = "release (haddr ?T) h"
  note d = release_ok [OF ok]
  have k1: "kept h ?h (set (blocks 0 xs) \<union> rest (?T + n) ys)"
    using kept_region [of h xs "[(n, True)]" ys fl ?h] heap_ok_part [OF ok] d(2) by simp
  obtain m u zs where ys: "ys = (m, u) # zs" using others by (cases ys) auto
  obtain r where r: "r = (if \<not> u then join_next (haddr ?T) ?h else (True, ?h))" by blast
  note code = kfree_code [OF ok [unfolded ys], folded r]
  show ?thesis
  proof (cases u)
    case True
    then have "freed xs n ys = (case rev xs of (k, False) # rxs \<Rightarrow> rev rxs @ (k + n, False) # ys | _ \<Rightarrow> xs @ (n, False) # ys)"
      by (auto simp: freed_def ys join_right_def split: list.split prod.split bool.split)
    moreover note finish_free_ok [of "\<not> u" ?h xs n ys fl]
    ultimately show ?thesis using True d(1) k1 kept_trans by (auto simp: code r)
  next
    case False
    obtain before after where fl: "fl = before @ (?T + n) # after"
    proof -
      have "?T + n \<in> set fl" using d(1) free_block_size(1) [OF heap_ok_part [OF ok]] False
        by (auto simp: detached_def ys free_blocks_def blocks_append)
      then show ?thesis using that by (metis split_list)
    qed
    have d': "detached ?h xs n ((m, False) # zs) (before @ (?T + n) # after)" using d(1) False by (simp add: ys fl)
    note j = join_next_ok [OF d']
    have part4: "heap_part ?h (xs @ [(n, False), (m, False)] @ zs) fl" using d(1) False by (simp add: detached_def ys)
    have "only_changes ?h (snd r) ?T (extent [(n, False), (m, False)]) (set fl)" using j(3) False by (simp add: r fl)
    from kept_region [OF part4 this] have k2: "kept ?h (snd r) (set (blocks 0 xs) \<union> rest (?T + n) ys)"
      by (rule kept_subset) (auto simp: ys False rest_def add.assoc)
    have "freed xs n ys = (case rev xs of (k, False) # rxs \<Rightarrow> rev rxs @ (k + (n + m), False) # zs | _ \<Rightarrow> xs @ (n + m, False) # zs)"
      using False by (auto simp: freed_def ys join_right_def split: list.split prod.split bool.split)
    moreover obtain fl' where "heap_ok (finish_free True (haddr ?T) (snd r))
        (case rev xs of (k, False) # rxs \<Rightarrow> rev rxs @ (k + (n + m), False) # zs | _ \<Rightarrow> xs @ (n + m, False) # zs) fl'"
      and k3: "kept (snd r) (finish_free True (haddr ?T) (snd r)) (set (blocks 0 xs) \<union> rest (?T + (n + m)) zs)"
      using finish_free_ok [of True "snd r" xs "n + m" zs "before @ ?T # after"] j(2) False by (auto simp: r)
    moreover have "kept (snd r) (finish_free True (haddr ?T) (snd r)) (set (blocks 0 xs) \<union> rest (?T + n) ys)"
      using k3 by (rule kept_subset) (auto simp: ys False rest_def add.assoc)
    ultimately show ?thesis using j(1) False kept_trans [OF kept_trans [OF k1 k2]] by (auto simp: code r)
  qed
qed

section \<open>Every reachable heap\<close>

lemma init_ok: "heap_ok (kdynamic_memory_init pg lay h) [(1024, False)] [0]"
proof -
  obtain frame m where a: "global_phys_allocator_allocate_page lay (hmem h) = (frame, m)" by fastforce
  obtain q m' where b: "kmemset (pg HEAP_START_ADDR frame m) HEAP_START_ADDR 0 PAGE_SIZE = (q, m')" by fastforce
  define h1 where "h1 = h\<lparr> hmem := m', number_of_pages_allocated := 1, first_free_virtual_address := HEAP_START_ADDR,
    last_free_virtual_address := HEAP_START_ADDR + 4 * WORDS_IN_PAGE, heap_head := HEAP_START_ADDR \<rparr>"
  define h4 where "h4 = hput (haddr 0) 2 0 (hput (haddr 0) 1 0 (hput (haddr 0) 0 1024 h1))"
  define h5 where "h5 = hput (haddr 0) (1024 - 1) 1024 h4"
  have zero: "HEAP_START_ADDR = haddr 0" and w: "WORDS_IN_PAGE = 1024"
    by (simp_all add: haddr_def heap_constants)
  have w4: "word_at h4 = (word_at h1)(0 := 1024, 1 := 0, 2 := 0)"
    by (simp add: h4_def hput_word heap_limit_def) (simp add: numeral_2_eq_2)
  have "hget h4 (haddr 0) 0 = 1024" by (simp add: hget_word w4 heap_limit_def)
  then have code: "kdynamic_memory_init pg lay h = h5"
    using b unfolding kdynamic_memory_init_def a Let_def prod.case h5_def h4_def h1_def w zero by simp
  have "word_at h5 = (word_at h1)(0 := 1024, 1 := 0, 2 := 0, 1023 := 1024)"
    using hput_word [of 0 1023 1024 h4] by (simp add: h5_def w4 heap_limit_def)
  moreover have "last_free_virtual_address h5 = haddr 1024" "heap_head h5 = haddr 0"
    by (simp_all add: h5_def h4_def h1_def w haddr_def)
  ultimately show ?thesis
    unfolding code by (simp add: heap_ok_def heap_part_def block_ok_def size_tag_def free_blocks_def heap_limit_def)
qed

lemma words_for_u32: "unat (of_nat (words_for request) :: u32) = words_for request"
proof -
  have "words_for request < 2 ^ 32" using unat_less_u32 [of request] by (simp add: words_for_def)
  then show ?thesis by (simp add: unat_of_nat_small)
qed

lemma find_block_cases:
  assumes ok: "heap_ok h bs fl"
  obtains (none) "find_block h (of_nat (words_for request)) (heap_head h) = Some 0"
      "\<And>p m. (p, m, False) \<in> set (blocks 0 bs) \<Longrightarrow> m < words_for request"
    | (some) xs n ys before after where "bs = xs @ (n, False) # ys" "fl = before @ extent xs # after" "words_for request \<le> n"
      "\<And>p m. p \<in> set before \<Longrightarrow> (p, m, False) \<in> set (blocks 0 bs) \<Longrightarrow> m < words_for request"
proof -
  let ?w = "of_nat (words_for request) :: u32"
  note part = heap_ok_part [OF ok]
  have size: "block_size h p < ?w \<longleftrightarrow> m < words_for request" if "(p, m, u) \<in> set (blocks 0 bs)" for p m u
    using block_size_ok [OF ok that] by (simp add: word_less_nat_alt unat_heap words_for_u32)
  have mem: "(p, m, False) \<in> set (blocks 0 bs) \<Longrightarrow> p \<in> set fl" for p m
    using ok by (auto simp: heap_ok_def free_blocks_def)
  show ?thesis
  proof (cases "\<exists>p \<in> set fl. \<not> block_size h p < ?w")
    case True
    then obtain before p after where fl: "fl = before @ p # after" "\<not> block_size h p < ?w" "\<forall>q \<in> set before. block_size h q < ?w"
      using split_list_first_prop [of fl "\<lambda>p. \<not> block_size h p < ?w"] by auto
    obtain n where n: "(p, n, False) \<in> set (blocks 0 bs)" using fl(1) ok by (force simp: heap_ok_def free_blocks_def)
    then obtain xs ys where bs: "bs = xs @ (n, False) # ys" "p = extent xs" using blocks_split by fastforce
    show ?thesis
    proof (rule some [OF bs(1)])
      show "fl = before @ extent xs # after" using fl(1) bs(2) by simp
      show "words_for request \<le> n" using fl(2) size [OF n] by simp
    qed (use fl(3) size in blast)
  next
    case False
    have "find_block h ?w (first_ptr (fl @ []) 0) = find_block h ?w (first_ptr [] 0)"
      using False part free_block_room(2) [OF part] by (intro find_block_skip) (auto simp: heap_part_def)
    then have "find_block h ?w (heap_head h) = Some 0"
      using part by (simp add: heap_part_def find_block.simps [of h ?w 0])
    then show ?thesis using none False mem size by blast
  qed
qed

lemma find_block_result:
  assumes ok: "heap_ok h bs fl" and found: "find_block h (of_nat (words_for request)) (heap_head h) = Some b" "b \<noteq> 0"
  shows "\<exists>xs n ys before after. bs = xs @ (n, False) # ys \<and> fl = before @ extent xs # after \<and> words_for request \<le> n \<and>
    (\<forall>p \<in> set before. \<forall>m. (p, m, False) \<in> set (blocks 0 bs) \<longrightarrow> m < words_for request)"
  using ok
proof (cases rule: find_block_cases [where request = request])
  case (some xs n ys before after)
  then show ?thesis by blast
qed (use found in simp)

text \<open>The heap and the pointers that have been returned and not yet freed, after any sequence of
  allocations that a free block can serve and releases of blocks other than the last.\<close>

inductive heap_run :: "page_map \<Rightarrow> layout \<Rightarrow> heap \<Rightarrow> heap \<Rightarrow> u32 set \<Rightarrow> bool" for pg lay h0 where
  heap_start_run: "heap_run pg lay h0 (kdynamic_memory_init pg lay h0) {}"
| heap_malloc_run: "\<lbrakk> heap_run pg lay h0 h L; request \<noteq> 0;
    find_block h (of_nat (words_for request)) (heap_head h) = Some b; b \<noteq> 0;
    kmalloc pg lay request h = Some (p, h') \<rbrakk> \<Longrightarrow> heap_run pg lay h0 h' (insert p L)"
| heap_free_run: "\<lbrakk> heap_run pg lay h0 h L; p \<in> L;
    p - 12 + 4 * get_size (hget h (p - 12) 0) \<noteq> last_free_virtual_address h \<rbrakk> \<Longrightarrow> heap_run pg lay h0 (kfree p h) (L - {p})"

definition live :: "(nat \<times> bool) list \<Rightarrow> u32 set" where
  "live bs = {haddr (j + 3) | j. \<exists>n. (j, n, True) \<in> set (blocks 0 bs)}"

definition used_at :: "nat \<Rightarrow> (nat \<times> bool) list \<Rightarrow> nat set" where
  "used_at i bs = {j. \<exists>n. (j, n, True) \<in> set (blocks i bs)}"

lemma live_used: "live bs = (\<lambda>j. haddr (j + 3)) ` used_at 0 bs"
  by (auto simp: live_def used_at_def)

lemma used_at_simps [simp]:
  "used_at i [] = {}" "used_at i ((n, False) # bs) = used_at (i + n) bs"
  "used_at i ((n, True) # bs) = insert i (used_at (i + n) bs)"
  "used_at i (xs @ ys) = used_at i xs \<union> used_at (i + extent xs) ys"
  by (auto simp: used_at_def blocks_append)

lemma used_allocated: "words \<le> n \<Longrightarrow> used_at 0 (xs @ allocated words n @ ys) = insert (extent xs) (used_at 0 (xs @ (n, False) # ys))"
  by (simp add: allocated_def)

lemma used_freed: "used_at 0 (freed xs n ys) = used_at 0 xs \<union> used_at (extent xs + n) ys"
proof -
  have r: "used_at i (join_right n ys) = used_at (i + n) ys" "\<exists>m zs. join_right n ys = (m, False) # zs" for i
    by (auto simp: join_right_def add.assoc split: list.split prod.split bool.split)
  then obtain m zs where m: "join_right n ys = (m, False) # zs" by blast
  show ?thesis
  proof (cases xs rule: rev_cases)
    case Nil
    then show ?thesis using r(1) [of 0] by (simp add: freed_def m)
  next
    case (snoc ws b)
    obtain k u where b: "b = (k, u)" by fastforce
    have "used_at (extent xs + m) zs = used_at (extent xs + n) ys" using r(1) [of "extent xs"] by (simp add: m)
    then show ?thesis using snoc b r(1) [of "extent xs"] by (cases u) (simp_all add: freed_def m add.assoc)
  qed
qed

lemma extent_freed: "extent (freed xs n ys) = extent xs + n + extent ys"
  by (cases xs rule: rev_cases) (auto simp: freed_def join_right_def split: list.split prod.split bool.split)

lemma extent_allocated: "words \<le> n \<Longrightarrow> extent (allocated words n) = n"
  by (simp add: allocated_def)

lemma used_room:
  assumes "heap_ok h bs fl" "j \<in> used_at 0 bs"
  shows "j + 4 \<le> extent bs" "j + 3 < heap_limit"
proof -
  obtain n where n: "(j, n, True) \<in> set (blocks 0 bs)" using assms(2) by (auto simp: used_at_def)
  then have "4 \<le> n" using assms(1) by (fastforce simp: heap_ok_def heap_part_def block_ok_def)
  then show "j + 4 \<le> extent bs" using blocks_range [OF n] by simp
  then show "j + 3 < heap_limit" using assms(1) by (simp add: heap_ok_def heap_part_def)
qed

text \<open>A release of a block other than the last.\<close>

lemma free_step:
  assumes ok: "heap_ok h bs fl" and p: "p \<in> live bs"
    and inner: "p - 12 + 4 * get_size (hget h (p - 12) 0) \<noteq> last_free_virtual_address h"
  shows "\<exists>bs' fl'. heap_ok (kfree p h) bs' fl' \<and> live bs' = live bs - {p} \<and> extent bs' = extent bs \<and>
    (\<forall>i \<ge> extent bs. word_at (kfree p h) i = word_at h i)"
proof -
  note part = heap_ok_part [OF ok]
  obtain j n where j: "p = haddr (j + 3)" "(j, n, True) \<in> set (blocks 0 bs)" using p by (auto simp: live_def)
  then obtain xs ys where bs: "bs = xs @ (n, True) # ys" "j = extent xs" using blocks_split by fastforce
  note f = free_block_size [OF part [unfolded bs(1)]]
  have "haddr (j + 3) - 12 = haddr j" by (simp add: haddr_def)
  moreover have "get_size (hget h (haddr j) 0) = of_nat n" using f(2,3,4) bs(2) by (simp add: hget_word size_tag_simps)
  ultimately have "p - 12 + 4 * get_size (hget h (p - 12) 0) = haddr (j + n)"
    using f(3) by (simp add: j(1) haddr_plus unat_heap)
  then have "ys \<noteq> []" using inner part bs by (auto simp: heap_part_def)
  then obtain fl' where fl': "heap_ok (kfree p h) (freed xs n ys) fl'" and kept: "kept h (kfree p h) (rest (extent xs + n) ys)"
    using kfree_ok [of h xs n ys fl] ok bs j(1) kept_subset by (metis UnI2)
  have "word_at (kfree p h) i = word_at h i" if "extent bs \<le> i" for i
    using kept [unfolded kept_def rest_def, rule_format, of "extent bs" "Suc (i - extent bs)" i] that by (simp add: bs)
  moreover have "live (freed xs n ys) = live bs - {p}"
  proof -
    have "j \<notin> used_at 0 xs \<union> used_at (j + n) ys"
    proof
      assume "j \<in> used_at 0 xs \<union> used_at (j + n) ys"
      then obtain m where m: "(j, m, True) \<in> set (blocks 0 xs) \<or> (j, m, True) \<in> set (blocks (j + n) ys)"
        by (auto simp: used_at_def)
      then have "(j, m, True) \<in> set (blocks 0 bs)" by (auto simp: bs blocks_append)
      then have "4 \<le> m" using part by (fastforce simp: heap_part_def block_ok_def)
      then show False
        using m f(1) bs(2) blocks_range [of j m True 0 xs] blocks_range [of j m True "j + n" ys] by auto
    qed
    moreover have "inj_on (\<lambda>j. haddr (j + 3)) (used_at 0 bs)"
      using used_room(2) [OF ok] haddr_inj by (intro inj_onI) fastforce
    ultimately show ?thesis by (auto simp: live_used used_freed bs j(1) inj_on_def)
  qed
  moreover have "extent (freed xs n ys) = extent bs" by (simp add: extent_freed bs)
  ultimately show ?thesis using fl' by blast
qed

text \<open>The blocks behind live pointers do not overlap.\<close>

lemma live_apart:
  assumes ok: "heap_ok h bs fl" and pq: "p \<in> live bs" "q \<in> live bs" "p < q"
  shows "unat p + 4 * unat (get_size (hget h (p - 12) 0)) \<le> unat q"
proof -
  obtain j k n m where jk: "p = haddr (j + 3)" "q = haddr (k + 3)" "(j, n, True) \<in> set (blocks 0 bs)" "(k, m, True) \<in> set (blocks 0 bs)"
    using pq(1,2) by (auto simp: live_def)
  have room: "j + 3 < heap_limit" "k + 3 < heap_limit"
    using used_room(2) [OF ok] jk(3,4) by (auto simp: used_at_def)
  note b = block_size_ok [OF ok jk(3)]
  have "j < k" using pq(3) jk(1,2) haddr_unat [OF room(1)] haddr_unat [OF room(2)] by (simp add: word_less_nat_alt)
  then have "j + n \<le> k" using blocks_disjoint [OF jk(3,4)] by simp
  moreover have "p - 12 = haddr j" by (simp add: jk(1) haddr_def)
  moreover have "get_size (hget h (haddr j) 0) = of_nat n" using b room by (simp add: block_size_def hget_word)
  ultimately show ?thesis
    using haddr_unat [OF room(1)] haddr_unat [OF room(2)] b(2) jk(1,2) by (simp add: unat_heap)
qed

lemma heap_run_ok:
  "heap_run pg lay h0 h L \<Longrightarrow> \<exists>bs fl. heap_ok h bs fl \<and> extent bs = 1024 \<and> L = live bs"
proof (induction rule: heap_run.induct)
  case heap_start_run
  show ?case
    by (intro exI [of _ "[(1024, False)]"] exI [of _ "[0]"]) (simp add: init_ok live_used)
next
  case (heap_malloc_run h L request b p h')
  then obtain bs fl where ok: "heap_ok h bs fl" "extent bs = 1024" "L = live bs" by blast
  obtain xs n ys before after where bs: "bs = xs @ (n, False) # ys" and fl: "fl = before @ extent xs # after"
    and fits: "words_for request \<le> n"
    and first: "\<forall>p \<in> set before. \<forall>m. (p, m, False) \<in> set (blocks 0 bs) \<longrightarrow> m < words_for request"
    using find_block_result [OF ok(1) heap_malloc_run.hyps(3,4)] by blast
  have "heap_ok h (xs @ (n, False) # ys) (before @ extent xs # after)" using ok(1) by (simp add: bs fl)
  note k = kmalloc_ok [OF this heap_malloc_run.hyps(2) fits, of pg lay]
  have "p = haddr (extent xs + 3) \<and>
    heap_ok h' (xs @ allocated (words_for request) n @ ys) (before @ remainder (words_for request) n (extent xs) @ after)"
    using k first heap_malloc_run.hyps(5) by (auto simp: bs)
  then show ?case
    using ok(2,3) used_allocated [OF fits, of xs ys] extent_allocated [OF fits]
    by (intro exI [of _ "xs @ allocated (words_for request) n @ ys"] exI) (auto simp: live_used bs)
next
  case (heap_free_run h L p)
  then obtain bs fl where ok: "heap_ok h bs fl" "extent bs = 1024" "L = live bs" by blast
  from free_step [OF ok(1), of p] heap_free_run.hyps(2,3) ok(2,3) show ?case by metis
qed

section \<open>Properties\<close>

text \<open>C13. \<open>kmalloc\<close> on a well-formed heap takes the first block of the free list that is large enough for
  the request rounded up to words and four words of administration: it returns the address of the block's fourth
  word, the heap stays well-formed with that block in use, all of it when at most 16 words would remain and
  otherwise its first words, the rest staying in the block's place in the free list; every block in
  use before keeps all its words.\<close>

theorem kmalloc_first_fit:
  fixes request :: u32
  assumes ok: "heap_ok h (xs @ (n, False) # ys) (before @ extent xs # after)" and req: "request \<noteq> 0"
    and fits: "words_for request \<le> n"
    and first: "\<And>p m. p \<in> set before \<Longrightarrow> (p, m, False) \<in> set (blocks 0 (xs @ (n, False) # ys)) \<Longrightarrow> m < words_for request"
  shows "\<exists>h'. kmalloc pg lay request h = Some (haddr (extent xs + 3), h') \<and>
    heap_ok h' (xs @ allocated (words_for request) n @ ys) (before @ remainder (words_for request) n (extent xs) @ after) \<and>
    (\<forall>j m i. (j, m, True) \<in> set (blocks 0 (xs @ (n, False) # ys)) \<longrightarrow> j \<le> i \<and> i < j + m \<longrightarrow> word_at h' i = word_at h i)"
  by (rule kmalloc_ok [OF assms])

text \<open>C14. \<open>kfree\<close> of a block in use that is not the last one of a well-formed heap: the block becomes
  free, joined with the free block after it and with the free block before it where there are
  such, the heap stays well-formed, so the joined block is in the free list once, and every other
  block in use keeps all its words.\<close>

theorem kfree_coalesces:
  assumes ok: "heap_ok h (xs @ (n, True) # ys) fl" and others: "ys \<noteq> []"
  shows "\<exists>fl'. heap_ok (kfree (haddr (extent xs + 3)) h) (freed xs n ys) fl' \<and>
    kept h (kfree (haddr (extent xs + 3)) h) (set (blocks 0 xs) \<union> set (blocks (extent xs + n) ys))"
proof -
  obtain fl' where fl': "heap_ok (kfree (haddr (extent xs + 3)) h) (freed xs n ys) fl'"
    "kept h (kfree (haddr (extent xs + 3)) h) (set (blocks 0 xs) \<union> rest (extent xs + n) ys)"
    using kfree_ok [OF assms] by blast
  from fl'(2) have "kept h (kfree (haddr (extent xs + 3)) h) (set (blocks 0 xs) \<union> set (blocks (extent xs + n) ys))"
    by (rule kept_subset) (auto simp: rest_def)
  then show ?thesis using fl'(1) by blast
qed

definition sample_heap :: heap where
  "sample_heap = kdynamic_memory_init (\<lambda>_ _ m. m) sample_layout
     \<lparr> hmem = \<lambda>_. 0, first_free_virtual_address = 0, last_free_virtual_address = 0,
       number_of_pages_allocated = 0, heap_head = 0 \<rparr>"

theorem kmalloc_first_fit_witness:
  "\<exists>h'. kmalloc (\<lambda>_ _ m. m) sample_layout 100 sample_heap = Some (0xC003000C, h') \<and>
     heap_ok h' [(29, True), (995, False)] [29]"
proof -
  have "heap_ok sample_heap ([] @ (1024, False) # []) ([] @ extent [] # [])" by (simp add: sample_heap_def init_ok)
  from kmalloc_first_fit [OF this, of 100 "\<lambda>_ _ m. m" sample_layout] show ?thesis
    by (auto simp: words_for_def allocated_def remainder_def haddr_def heap_start)
qed

theorem kfree_coalesces_witness:
  "\<exists>h'. kmalloc (\<lambda>_ _ m. m) sample_layout 100 sample_heap = Some (0xC003000C, h') \<and>
     (\<exists>fl. heap_ok (kfree 0xC003000C h') [(1024, False)] fl)"
proof -
  have "heap_ok sample_heap ([] @ (1024, False) # []) ([] @ extent [] # [])" by (simp add: sample_heap_def init_ok)
  from kmalloc_ok [OF this, of 100 "\<lambda>_ _ m. m" sample_layout] obtain h'
    where h': "kmalloc (\<lambda>_ _ m. m) sample_layout 100 sample_heap = Some (haddr 3, h')"
      "heap_ok h' ([] @ (29, True) # [(995, False)]) [29]"
    by (auto simp: words_for_def allocated_def remainder_def)
  have "haddr 3 = 0xC003000C" by (simp add: haddr_def heap_start)
  then show ?thesis using kfree_coalesces [OF h'(2)] h'(1) by (auto simp: freed_def join_right_def)
qed

text \<open>The heap stays well-formed: after its initialisation, whatever the calls of \<open>kmalloc\<close> that a free
  block can serve and of \<open>kfree\<close> for blocks other than the last, the memory of the first page is
  tiled by blocks with their tags, the free list holds exactly the free ones, and the pointers that were
  returned and not freed belong to exactly the blocks in use, of which no two overlap.\<close>

theorem heap_stays_wellformed:
  assumes "heap_run pg lay h0 h L"
  shows "\<exists>bs fl. heap_ok h bs fl \<and> extent bs = 1024 \<and> L = live bs \<and>
    (\<forall>p \<in> L. \<forall>q \<in> L. p < q \<longrightarrow> unat p + 4 * unat (get_size (hget h (p - 12) 0)) \<le> unat q)"
  using heap_run_ok [OF assms] live_apart by blast

theorem heap_stays_wellformed_witness:
  "\<exists>h' bs fl. kmalloc (\<lambda>_ _ m. m) sample_layout 100 sample_heap = Some (0xC003000C, h') \<and>
     heap_ok h' bs fl \<and> extent bs = 1024 \<and> {0xC003000C} = live bs"
proof -
  have start: "heap_ok sample_heap [(1024, False)] [0]" by (simp add: sample_heap_def init_ok)
  then have "heap_ok sample_heap ([] @ (1024, False) # []) ([] @ extent [] # [])" by simp
  from kmalloc_ok [OF this, of 100 "\<lambda>_ _ m. m" sample_layout]
    find_block_first [OF this, of "words_for 100"] obtain h'
    where h': "kmalloc (\<lambda>_ _ m. m) sample_layout 100 sample_heap = Some (haddr 3, h')"
    and f: "find_block sample_heap (of_nat (words_for 100)) (heap_head sample_heap) = Some (haddr 0)"
    by (auto simp: words_for_def)
  have run: "heap_run (\<lambda>_ _ m. m) sample_layout
      \<lparr> hmem = \<lambda>_. 0, first_free_virtual_address = 0, last_free_virtual_address = 0,
        number_of_pages_allocated = 0, heap_head = 0 \<rparr> sample_heap {}"
    unfolding sample_heap_def by (rule heap_start_run)
  have "heap_run (\<lambda>_ _ m. m) sample_layout
      \<lparr> hmem = \<lambda>_. 0, first_free_virtual_address = 0, last_free_virtual_address = 0,
        number_of_pages_allocated = 0, heap_head = 0 \<rparr> h' (insert (haddr 3) {})"
    by (rule heap_malloc_run [OF run _ f _ h']) (simp_all add: haddr_def heap_start)
  from heap_stays_wellformed [OF this] show ?thesis using h' by (auto simp: haddr_def heap_start)
qed

end
