(* ===== verification/HeapGrow.thy ===== *)
theory HeapGrow
  imports HeapProps
begin

text \<open>
  Growth of the kernel heap: \<open>increase_memory_pool\<close> takes a frame, maps it behind the last word of the heap and
  joins it to the last block or makes it a block of its own; \<open>kmalloc\<close> does so until a block is
  large enough.  The heap and the bits of the physical allocator lie in the same memory, so the theorems need
  room for the growth below them (\<open>below_allocator\<close>), and that mapping a page changes neither the memory below that
  page nor those bits (\<open>pages_quiet\<close>).
\<close>

unbundle bit_operations_syntax

section \<open>The heap and the physical allocator\<close>

definition below_allocator :: "layout \<Rightarrow> nat \<Rightarrow> bool" where
  "below_allocator lay words \<longleftrightarrow> unat HEAP_START_ADDR + 4 * words \<le> unat (global_phys_allocator lay) \<and>
     unat (global_phys_allocator lay) + 8192 \<le> 2 ^ 32"

definition pages_quiet :: "layout \<Rightarrow> page_map \<Rightarrow> bool" where
  "pages_quiet lay pg \<longleftrightarrow> (\<forall>a f m x. x < a \<or> unat (x - global_phys_allocator lay) < 8192 \<longrightarrow>
     pg a f m x = m x)"

lemma below_allocator_limit: "below_allocator lay n \<Longrightarrow> n < heap_limit"
  by (simp add: below_allocator_def heap_start heap_limit_def)

lemma below_allocator_less: "below_allocator lay n \<Longrightarrow> k \<le> n \<Longrightarrow> below_allocator lay k"
  by (auto simp: below_allocator_def)

lemma allocator_byte:
  assumes "below_allocator lay n" "unat (x - global_phys_allocator lay) < 8192"
  shows "unat x = unat (global_phys_allocator lay) + unat (x - global_phys_allocator lay)"
proof -
  have "unat (g + d) = unat g + unat d" if "unat g + unat d < 2 ^ 32" for g d :: u32
    using that by (simp add: unat_word_ariths)
  from this [of "global_phys_allocator lay" "x - global_phys_allocator lay"]
  show ?thesis using assms by (simp add: below_allocator_def)
qed

text \<open>A byte of a word of the heap.\<close>

lemma haddr_byte:
  assumes "i < heap_limit" "unat k < 4"
  shows "unat (haddr i + k) = unat HEAP_START_ADDR + 4 * i + unat k"
  using assms haddr_unat [OF assms(1)] by (simp add: heap_start heap_limit_def unat_word_ariths)

lemma byte_cases:
  assumes "HEAP_START_ADDR \<le> x"
  obtains i k where "x = haddr i + k" "unat k < 4" "i < heap_limit" "i = (unat x - unat HEAP_START_ADDR) div 4"
proof -
  let ?n = "unat x - unat HEAP_START_ADDR"
  have n: "unat x = unat HEAP_START_ADDR + ?n" using assms by (simp add: word_le_nat_alt)
  have lim: "?n div 4 < heap_limit" using unat_less_u32 [of x] by (simp add: heap_start heap_limit_def)
  have k: "unat (of_nat (?n mod 4) :: u32) = ?n mod 4" by (rule unat_of_nat_small) simp
  then have "unat (haddr (?n div 4) + of_nat (?n mod 4)) = unat x"
    using haddr_byte [OF lim, of "of_nat (?n mod 4)"] n by simp
  then show ?thesis using that [OF _ _ lim refl, of "of_nat (?n mod 4)"] k by (simp add: word_unat_eq_iff)
qed

lemma word_at_cong:
  assumes "i < heap_limit" "\<And>k. unat k < 4 \<Longrightarrow> hmem h' (haddr i + k) = hmem h (haddr i + k)"
  shows "word_at h' i = word_at h i"
  using assms(1) assms(2) [of 0] assms(2) [of 1] assms(2) [of 2] assms(2) [of 3] by (simp add: word_at_def rd32_def)

lemma rd32_bytes: "rd32 m a = rd32 m' a \<Longrightarrow> unat k < 4 \<Longrightarrow> m (a + k) = m' (a + k)"
proof -
  assume eq: "rd32 m a = rd32 m' a" and k: "unat k < 4"
  have byte: "m (a + k) = ucast (drop_bit (8 * unat k) (rd32 m a))" for m :: mem
  proof -
    have "k = 0 \<or> k = 1 \<or> k = 2 \<or> k = 3" using k by (auto simp: word_unat_eq_iff)
    then show ?thesis by (elim disjE; intro bit_word_eqI) (auto simp: rd32_def bit_simps dest: byte_bit)
  qed
  show ?thesis using byte [of m] byte [of m'] eq by simp
qed

text \<open>The bits of the allocator are behind the heap; they are the same when the words there are.\<close>

lemma phys_ready_bytes:
  assumes "phys_ready lay m" "\<And>x. unat (x - global_phys_allocator lay) < 8192 \<Longrightarrow> m' x = m x"
  shows "phys_ready lay m'"
proof -
  have "phys_page_used lay m' k = phys_page_used lay m k" if "k \<le> 32768" for k
  proof -
    define i :: u32 where "i = of_nat (32736 + k)"
    have "unat i = 32736 + k" unfolding i_def using that by (intro unat_of_nat_small) simp
    then have "unat (i div 8) < 8192" using that by (simp add: unat_div_8)
    then have "m' (global_phys_allocator lay + i div 8) = m (global_phys_allocator lay + i div 8)" by (simp add: assms(2))
    then show ?thesis
      by (simp add: phys_page_used_def page_used_def level_bit_def region_start_def bitset_at_bit flip: i_def [simplified])
  qed
  then show ?thesis using assms(1) by (simp add: phys_ready_def)
qed

lemma phys_ready_words:
  assumes "phys_ready lay (hmem h)" "below_allocator lay n" "\<And>i. n \<le> i \<Longrightarrow> word_at h' i = word_at h i"
  shows "phys_ready lay (hmem h')"
proof (rule phys_ready_bytes [OF assms(1)])
  fix x assume x: "unat (x - global_phys_allocator lay) < 8192"
  have "unat x = unat (global_phys_allocator lay) + unat (x - global_phys_allocator lay)"
    by (rule allocator_byte [OF assms(2) x])
  then have ge: "unat HEAP_START_ADDR + 4 * n \<le> unat x" using assms(2) by (simp add: below_allocator_def)
  then have "HEAP_START_ADDR \<le> x" by (simp add: word_le_nat_alt)
  then obtain i k where i: "x = haddr i + k" "unat k < 4" "i < heap_limit" "i = (unat x - unat HEAP_START_ADDR) div 4"
    by (rule byte_cases)
  then have "rd32 (hmem h') (haddr i) = rd32 (hmem h) (haddr i)" using assms(3) [of i] ge by (simp add: word_at_def)
  then show "hmem h' x = hmem h x" using rd32_bytes i(1,2) by blast
qed

section \<open>Growth\<close>

text \<open>A page from the allocator changes only its bits.\<close>

lemma phys_page_effect:
  assumes ready: "phys_ready lay m" and call: "global_phys_allocator_allocate_page lay m = (f, m')"
  shows "phys_ready lay m'" "agree_off (global_phys_allocator lay) 8192 m' m"
proof -
  let ?p = "global_phys_allocator lay"
  have last: "\<not> page_used 11 32 m ?p 32768" using ready by (simp add: phys_ready_def phys_page_used_def)
  have "phys_ready lay m' \<and> agree_off ?p 8192 m' m"
  proof (rule phys.alloc_page_cases [OF last, of PAGE_SIZE])
    assume "binary_buddy_memory_allocator_allocate m ?p PAGE_SIZE (of_nat 32768) (of_nat 11) 1 = (0, m)"
    then show ?thesis
      using call ready by (simp add: global_phys_allocator_allocate_page_def global_phys_allocator_allocate_pages_def)
  next
    fix i m2
    assume "binary_buddy_memory_allocator_allocate m ?p PAGE_SIZE (of_nat 32768) (of_nat 11) 1 = (of_nat i * PAGE_SIZE, m2)"
      and lev: "\<And>l k. l < 11 \<Longrightarrow> k < 32 * 2 ^ (11 - 1 - l) \<Longrightarrow>
        level_bit m2 ?p 11 32 l k \<longleftrightarrow> level_bit m ?p 11 32 l k \<or> k = i div 2 ^ l"
      and rest: "\<not> page_used 11 32 m2 ?p 32768" "agree_off ?p (32768 div 4) m2 m"
    then have "m' = m2"
      using call by (simp add: global_phys_allocator_allocate_page_def global_phys_allocator_allocate_pages_def)
    then show ?thesis
      using ready rest lev [of 0 0] by (simp add: phys_ready_def phys_page_used_def page_used_def)
  qed
  then show "phys_ready lay m'" "agree_off ?p 8192 m' m" by blast+
qed

lemma phys_page_none:
  assumes "phys_ready lay m" "global_phys_allocator_allocate_page lay m = (0, m')"
  shows "\<forall>k < 32768. phys_page_used lay m' k"
  using assms(1) by (cases rule: phys_pages.alloc_cases) (use assms(2) in auto)

text \<open>The heap survives when a page is taken and mapped behind it.\<close>

lemma block_ok_cong:
  "block_ok w (j, n, u) \<Longrightarrow> (\<And>k. j \<le> k \<Longrightarrow> k < j + n \<Longrightarrow> w' k = w k) \<Longrightarrow> block_ok w' (j, n, u)"
  by (auto simp: block_ok_def)

lemma heap_part_cong:
  assumes ok: "heap_part h bs fl" and words: "\<And>k. k < extent bs \<Longrightarrow> word_at h' k = word_at h k"
    and fields: "last_free_virtual_address h' = last_free_virtual_address h" "heap_head h' = heap_head h"
  shows "heap_part h' bs fl"
proof -
  have "block_ok (word_at h') b" if b: "b \<in> set (blocks 0 bs)" for b
  proof -
    obtain j n u where j: "b = (j, n, u)" by (cases b) auto
    then have "j + n \<le> extent bs" using blocks_range [of j n u 0 bs] b by simp
    moreover have "block_ok (word_at h) (j, n, u)" using ok b j by (simp add: heap_part_def)
    ultimately show ?thesis using words unfolding j by (auto elim!: block_ok_cong)
  qed
  moreover have "links (word_at h') 0 fl 0"
  proof (rule links_frame [of "word_at h"])
    fix p assume "p \<in> set fl"
    from free_block_room(1) [OF ok this]
    show "word_at h' (p + 1) = word_at h (p + 1) \<and> word_at h' (p + 2) = word_at h (p + 2)" by (auto intro!: words)
  qed (use ok in \<open>simp add: heap_part_def\<close>)
  ultimately show ?thesis using ok fields by (simp add: heap_part_def)
qed

lemma heap_ok_cong:
  assumes "heap_ok h bs fl" "\<And>k. k < extent bs \<Longrightarrow> word_at h' k = word_at h k"
    "last_free_virtual_address h' = last_free_virtual_address h" "heap_head h' = heap_head h"
  shows "heap_ok h' bs fl"
  using assms heap_part_cong [of h bs fl h'] by (simp add: heap_ok_def)

lemma page_mapped:
  assumes ok: "heap_ok h bs fl" and quiet: "pages_quiet lay pg" and ready: "phys_ready lay (hmem h)"
    and room: "below_allocator lay (extent bs)"
    and call: "global_phys_allocator_allocate_page lay (hmem h) = (f, m)"
  defines "h' \<equiv> h\<lparr> hmem := pg (last_free_virtual_address h) f m \<rparr>"
  shows "heap_ok (h\<lparr> hmem := m \<rparr>) bs fl" "heap_ok h' bs fl" "phys_ready lay m" "phys_ready lay (hmem h')"
    "\<And>k. k < extent bs \<Longrightarrow> word_at (h\<lparr> hmem := m \<rparr>) k = word_at h k \<and> word_at h' k = word_at h k"
    "low_kept h (h\<lparr> hmem := m \<rparr>)" "low_kept h h'"
proof -
  let ?p = "global_phys_allocator lay"
  note ph = phys_page_effect [OF ready call]
  have last: "last_free_virtual_address h = haddr (extent bs)" "extent bs < heap_limit"
    using ok by (simp_all add: heap_ok_def heap_part_def)
  have bytes: "m x = hmem h x" "pg (haddr (extent bs)) f m x = hmem h x"
    if x: "x = haddr k + j" "unat j < 4" "k < extent bs" for x k j
  proof -
    have u: "unat x = unat HEAP_START_ADDR + 4 * k + unat j" unfolding x(1) by (rule haddr_byte) (use x(2,3) last(2) in simp_all)
    then have "x < ?p" using room x(2,3) by (simp add: below_allocator_def word_less_nat_alt)
    then have "\<not> unat (x - ?p) < 8192" using allocator_byte [OF room, of x] by (auto simp: word_less_nat_alt)
    then show m: "m x = hmem h x" using ph(2) by (simp add: agree_off_def)
    have "HEAP_START_ADDR \<le> x" "x < haddr (extent bs)"
      using u x(2,3) haddr_unat [OF last(2)] by (simp_all add: word_le_nat_alt word_less_nat_alt heap_start)
    then show "pg (haddr (extent bs)) f m x = hmem h x" using quiet m by (simp add: pages_quiet_def)
  qed
  have low: "m x = hmem h x \<and> pg (haddr (extent bs)) f m x = hmem h x" if x: "x < HEAP_START_ADDR" for x
  proof -
    have "\<not> unat (x - ?p) < 8192"
      using allocator_byte [OF room, of x] room x by (auto simp: below_allocator_def word_less_nat_alt)
    then have "m x = hmem h x" using ph(2) by (simp add: agree_off_def)
    moreover have "x < haddr (extent bs)" using x haddr_unat [OF last(2)] by (simp add: word_less_nat_alt heap_start)
    ultimately show ?thesis using quiet by (simp add: pages_quiet_def)
  qed
  then show "low_kept h (h\<lparr> hmem := m \<rparr>)" "low_kept h h'" using last(1) by (simp_all add: low_kept_def h'_def)
  show words: "word_at (h\<lparr> hmem := m \<rparr>) k = word_at h k \<and> word_at h' k = word_at h k" if "k < extent bs" for k
    using that last bytes [OF refl _ that] by (intro conjI word_at_cong) (simp_all add: h'_def)
  show "heap_ok (h\<lparr> hmem := m \<rparr>) bs fl" "heap_ok h' bs fl"
    using words by (auto intro!: heap_ok_cong [OF ok] simp: h'_def)
  show "phys_ready lay m" by (rule ph(1))
  then show "phys_ready lay (hmem h')"
    by (rule phys_ready_bytes) (use quiet in \<open>auto simp: h'_def pages_quiet_def\<close>)
qed

text \<open>The blocks after the growth by a page.\<close>

definition grown :: "(nat \<times> bool) list \<Rightarrow> (nat \<times> bool) list" where
  "grown bs = (if bs \<noteq> [] \<and> \<not> snd (last bs) then butlast bs @ [(fst (last bs) + 1024, False)] else bs @ [(1024, False)])"

lemma grown_simps [simp]:
  "grown (xs @ [(n, False)]) = xs @ [(n + 1024, False)]" "grown (xs @ [(n, True)]) = xs @ [(n, True), (1024, False)]"
  by (simp_all add: grown_def)

text \<open>The last blocks are tiled anew.\<close>

lemma tail_part:
  assumes ok: "heap_part h (xs @ old) fl"
    and words: "\<And>k. k < extent xs \<Longrightarrow> word_at h' k = word_at h k"
      "\<And>p. p \<in> set fl \<Longrightarrow> word_at h' (p + 1) = word_at h (p + 1) \<and> word_at h' (p + 2) = word_at h (p + 2)"
    and new: "\<And>b. b \<in> set (blocks (extent xs) new) \<Longrightarrow> block_ok (word_at h') b" "set fl \<subseteq> free_blocks (xs @ new)"
    and fields: "extent (xs @ new) < heap_limit" "last_free_virtual_address h' = haddr (extent (xs @ new))" "heap_head h' = heap_head h"
  shows "heap_part h' (xs @ new) fl"
proof -
  have "block_ok (word_at h') b" if b: "b \<in> set (blocks 0 xs)" for b
  proof -
    obtain j n u where j: "b = (j, n, u)" by (cases b) auto
    then have "j + n \<le> extent xs" using blocks_range [of j n u 0 xs] b by simp
    moreover have "block_ok (word_at h) (j, n, u)" using ok b j by (simp add: heap_part_def blocks_append)
    ultimately show ?thesis using words(1) unfolding j by (auto elim!: block_ok_cong)
  qed
  then have "\<forall>b \<in> set (blocks 0 (xs @ new)). block_ok (word_at h') b" using new(1) by (auto simp: blocks_append)
  moreover have "links (word_at h') 0 fl 0"
    by (rule links_frame [of "word_at h"]) (use ok words(2) in \<open>simp_all add: heap_part_def\<close>)
  ultimately show ?thesis using ok new(2) fields by (simp add: heap_part_def)
qed

text \<open>The two ways in which the new words join the heap, after the page has been mapped.\<close>

definition extend_last :: "u32 \<Rightarrow> heap \<Rightarrow> heap" where
  "extend_last e h =
     (let new_block_ptr = e - 4 * hget h e (-1);
          a1 = hput new_block_ptr 0 (hget h new_block_ptr 0 + WORDS_IN_PAGE) h
      in hput new_block_ptr (hget a1 new_block_ptr 0 - 1) (hget a1 new_block_ptr 0) a1)"

definition new_last :: "u32 \<Rightarrow> heap \<Rightarrow> heap" where
  "new_last e h =
     (let b1 = hput e 0 1024 h;
          b2 = hput e 1 0 b1;
          b3 = hput e 2 (heap_head b2) b2;
          b4 = (if hget b3 e 2 \<noteq> 0 then hput (hget b3 e 2) 1 e b3 else b3)
      in (hput e 1023 (hget b4 e 0) b4)\<lparr> heap_head := e \<rparr>)"

definition page_added :: "heap \<Rightarrow> heap" where
  "page_added h = h\<lparr> number_of_pages_allocated := number_of_pages_allocated h + 1,
     last_free_virtual_address := last_free_virtual_address h + 4 * WORDS_IN_PAGE \<rparr>"

lemma page_added_simps [simp]:
  "word_at (page_added h) = word_at h" "heap_head (page_added h) = heap_head h" "hmem (page_added h) = hmem h"
  "last_free_virtual_address h = haddr i \<Longrightarrow> last_free_virtual_address (page_added h) = haddr (i + 1024)"
  by (simp_all add: page_added_def word_at_def fun_eq_iff haddr_def heap_constants)

lemma extend_last_ok:
  assumes ok: "heap_ok h (xs @ [(n, False)]) fl" and room: "extent xs + n + 1024 < heap_limit"
  defines "h' \<equiv> page_added (extend_last (haddr (extent xs + n)) h)"
  shows "heap_ok h' (xs @ [(n + 1024, False)]) fl"
    and "\<And>k. k < extent xs \<or> extent xs + n + 1024 \<le> k \<Longrightarrow> word_at h' k = word_at h k" and "low_kept h h'"
proof -
  let ?T = "extent xs"
  note part = heap_ok_part [OF ok]
  note f = free_block_size [OF part]
  have nn: "of_nat n + 1024 = (of_nat (n + 1024) :: u32)" by simp
  have size: "hget h (haddr (?T + n)) (- 1) = of_nat n" "hget h (haddr ?T) 0 = of_nat n"
    using f by (simp_all add: hget_before hget_word size_tag_def)
  have start: "haddr (?T + n) - 4 * of_nat n = haddr ?T" using f(3) by (simp add: haddr_minus unat_heap)
  define a1 where "a1 = hput (haddr ?T) 0 (of_nat (n + 1024)) h"
  have w1: "word_at a1 = (word_at h)(?T := of_nat (n + 1024))" using f by (simp add: a1_def hput_word)
  have h': "h' = page_added (hput (haddr ?T) (of_nat (n + 1024) - 1) (of_nat (n + 1024)) a1)"
    using f by (simp add: h'_def extend_last_def size start WORDS_IN_PAGE_def PAGE_SIZE_def BYTES_IN_WORD_def nn
        a1_def [symmetric] hget_word w1 del: of_nat_add)
  have w: "word_at h' = (word_at h)(?T := of_nat (n + 1024), ?T + n + 1023 := of_nat (n + 1024))"
    using room by (simp add: h' hput_word w1 of_nat_pred add_ac del: of_nat_add)
  show "word_at h' k = word_at h k" if "k < ?T \<or> ?T + n + 1024 \<le> k" for k using that by (auto simp: w)
  have "low_kept h (hput (haddr ?T) (of_nat (n + 1024) - 1) (of_nat (n + 1024)) a1)"
    unfolding a1_def by (intro low_hput low_kept_refl) (use room in \<open>simp_all add: of_nat_pred del: of_nat_add\<close>)
  then show "low_kept h h'" by (simp add: h' low_kept_def)
  have free: "free_blocks (xs @ [(n + 1024, False)]) = free_blocks (xs @ [(n, False)])"
    by (auto simp: free_blocks_def blocks_append)
  have "heap_part h' (xs @ [(n + 1024, False)]) fl"
  proof (rule tail_part [OF part])
    show "word_at h' k = word_at h k" if "k < ?T" for k using that by (simp add: w)
    show "word_at h' (p + 1) = word_at h (p + 1) \<and> word_at h' (p + 2) = word_at h (p + 2)" if p: "p \<in> set fl" for p
      using not_own [OF part p] free_block_room(1) [OF part p] f(1) by (cases "p = ?T") (auto simp: w)
    show "block_ok (word_at h') b" if "b \<in> set (blocks ?T [(n + 1024, False)])" for b
      using that by (simp add: block_ok_def size_tag_def w)
    show "last_free_virtual_address h' = haddr (extent (xs @ [(n + 1024, False)]))" "heap_head h' = heap_head h"
      using ok by (simp_all add: h' a1_def heap_ok_def heap_part_def add.assoc)
    show "set fl \<subseteq> free_blocks (xs @ [(n + 1024, False)])" using ok free by (simp add: heap_ok_def)
  qed (use room in simp)
  then show "heap_ok h' (xs @ [(n + 1024, False)]) fl" using ok free by (simp add: heap_ok_def)
qed

lemma set_prev_words:
  assumes "\<And>p. p \<in> set fl \<Longrightarrow> p + 3 < heap_limit"
  shows "word_at (set_prev y (first_ptr fl 0) s) = (if fl = [] then word_at s else (word_at s)(hd fl + 1 := y))"
proof (cases fl)
  case (Cons p ps)
  then have "p + 3 < heap_limit" using assms by simp
  then show ?thesis using Cons haddr_nonzero [of p] hput_word [of p 1] by (simp add: set_prev_def)
qed (simp add: set_prev_def)

text \<open>The words of a block that is put in front of the free list.\<close>

definition linked_front :: "nat \<Rightarrow> nat list \<Rightarrow> (nat \<Rightarrow> u32) \<Rightarrow> nat \<Rightarrow> u32" where
  "linked_front T fl w = relink [] fl (haddr T) (haddr T) (w(T + 1 := 0, T + 2 := first_ptr fl 0))"

lemma linked_front_words:
  "linked_front T fl w = (let w1 = w(T + 1 := 0, T + 2 := first_ptr fl 0) in if fl = [] then w1 else w1(hd fl + 1 := haddr T))"
  by (simp add: linked_front_def relink_def)

lemma new_last_words:
  assumes head: "heap_head h = first_ptr fl 0" and fl: "\<And>p. p \<in> set fl \<Longrightarrow> p + 4 \<le> T" and room: "T + 1024 < heap_limit"
  shows "word_at (new_last (haddr T) h) = linked_front T fl ((word_at h)(T := 1024, T + 1023 := 1024))"
    "heap_head (new_last (haddr T) h) = haddr T"
    "last_free_virtual_address (new_last (haddr T) h) = last_free_virtual_address h"
    "low_kept h (new_last (haddr T) h)"
proof -
  have room_fl: "p + 3 < heap_limit" if "p \<in> set fl" for p using fl [OF that] room by simp
  define b3 where "b3 = hput (haddr T) 2 (first_ptr fl 0) (hput (haddr T) 1 0 (hput (haddr T) 0 1024 h))"
  define b4 where "b4 = set_prev (haddr T) (first_ptr fl 0) b3"
  have w3: "word_at b3 = (word_at h)(T := 1024, T + 1 := 0, T + 2 := first_ptr fl 0)"
    using room by (simp add: b3_def hput_word)
  have w4: "word_at b4 = (if fl = [] then word_at b3 else (word_at b3)(hd fl + 1 := haddr T))"
    unfolding b4_def by (rule set_prev_words [OF room_fl])
  have hd: "hd fl + 4 \<le> T" if "fl \<noteq> []" using that fl by simp
  have g: "hget b3 (haddr T) 2 = first_ptr fl 0" "hget b4 (haddr T) 0 = 1024"
    using room hd by (auto simp: hget_word w3 w4)
  have new: "new_last (haddr T) h = (hput (haddr T) 1023 1024 b4)\<lparr> heap_head := haddr T \<rparr>"
    unfolding new_last_def Let_def hput_fields head b3_def [symmetric] g set_prev_def [symmetric] b4_def [symmetric] ..
  show "word_at (new_last (haddr T) h) = linked_front T fl ((word_at h)(T := 1024, T + 1023 := 1024))"
    using room hd by (auto simp: new hput_word w4 w3 linked_front_words Let_def fun_eq_iff)
  show "heap_head (new_last (haddr T) h) = haddr T"
    "last_free_virtual_address (new_last (haddr T) h) = last_free_virtual_address h"
    by (simp_all add: new b4_def b3_def)
  have "low_kept h (hput (haddr T) 1023 1024 b4)"
    unfolding b4_def b3_def by (intro low_hput low_set_links low_kept_refl) (use room room_fl in simp_all)
  then show "low_kept h (new_last (haddr T) h)" by (simp add: new)
qed

lemma new_last_ok:
  assumes ok: "heap_ok h bs fl" and room: "extent bs + 1024 < heap_limit"
  defines "h' \<equiv> page_added (new_last (haddr (extent bs)) h)"
  shows "heap_ok h' (bs @ [(1024, False)]) (extent bs # fl)"
    and "\<And>j m i. (j, m, True) \<in> set (blocks 0 bs) \<Longrightarrow> j \<le> i \<Longrightarrow> i < j + m \<Longrightarrow> word_at h' i = word_at h i"
    and "\<And>k. extent bs + 1024 \<le> k \<Longrightarrow> word_at h' k = word_at h k" and "low_kept h h'"
proof -
  let ?T = "extent bs" and ?w = "word_at h"
  note part = heap_ok_part [OF ok]
  have head: "heap_head h = first_ptr fl 0" and last: "last_free_virtual_address h = haddr ?T"
    using part by (simp_all add: heap_part_def)
  have room_fl: "p + 4 \<le> ?T" "p + 3 < heap_limit" if "p \<in> set fl" for p using free_block_room [OF part that] .
  define d where "d = page_added (hput (haddr ?T) 1023 1024 (hput (haddr ?T) 2 0 (hput (haddr ?T) 1 0 (hput (haddr ?T) 0 1024 h))))"
  have wd: "word_at d = ?w(?T := 1024, ?T + 1 := 0, ?T + 2 := 0, ?T + 1023 := 1024)"
    using room by (simp add: d_def hput_word)
  have "heap_part d (bs @ [(1024, False)]) fl"
  proof (rule tail_part)
    show "heap_part h (bs @ []) fl" using part by simp
    show "block_ok (word_at d) b" if "b \<in> set (blocks ?T [(1024, False)])" for b
      using that by (simp add: block_ok_def size_tag_def wd)
    show "last_free_virtual_address d = haddr (extent (bs @ [(1024, False)]))" "heap_head d = heap_head h"
      using last by (simp_all add: d_def)
    show "set fl \<subseteq> free_blocks (bs @ [(1024, False)])" using part by (auto simp: heap_part_def free_blocks_def blocks_append)
  qed (use room room_fl in \<open>force simp: wd\<close>)+
  moreover have "set fl = free_blocks (bs @ [(1024, False)]) - {?T}"
    using ok room_fl by (fastforce simp: heap_ok_def free_blocks_def blocks_append)
  ultimately have det: "detached d bs 1024 [] fl" by (simp add: detached_def wd)
  note ins = insert_front_words [OF det, folded linked_front_def] and new = new_last_words [OF head room_fl(1) room]
  have w: "word_at h' = linked_front ?T fl (?w(?T := 1024, ?T + 1023 := 1024))" using new(1) by (simp add: h'_def)
  show "heap_ok h' (bs @ [(1024, False)]) (?T # fl)"
  proof (rule heap_ok_cong [OF insert_front_ok(1) [OF det]])
    show "word_at h' k = word_at (insert_front (haddr ?T) d) k" for k
      by (simp add: w ins wd linked_front_words Let_def)
    show "last_free_virtual_address h' = last_free_virtual_address (insert_front (haddr ?T) d)"
      "heap_head h' = heap_head (insert_front (haddr ?T) d)"
      using ins new last by (simp_all add: h'_def d_def)
  qed
  show "low_kept h h'" using new(4) by (simp add: h'_def low_kept_def)
  show "word_at h' k = ?w k" if "?T + 1024 \<le> k" for k
    using that room_fl [of "hd fl"] by (auto simp: w linked_front_words Let_def)
  fix j m i assume used: "(j, m, True) \<in> set (blocks 0 bs)" "j \<le> i" "i < j + m"
  let ?x = "set_prev (haddr ?T) (first_ptr fl 0) h"
  have wx: "word_at ?x = (if fl = [] then ?w else ?w(hd fl + 1 := haddr ?T))" by (rule set_prev_words [OF room_fl(2)])
  have "only_changes h ?x ?T 0 (set fl)" by (auto simp: only_changes_def wx)
  then have "word_at ?x i = ?w i"
    using used_kept [where xs = bs and old = "[]" and ys = "[]" and h = h and fl = fl and h' = ?x, of j m i] part used by simp
  moreover have "i < ?T" using blocks_range [OF used(1)] used(3) by simp
  then have "word_at h' i = word_at ?x i" by (auto simp: w wx linked_front_words Let_def)
  ultimately show "word_at h' i = ?w i" by simp
qed

section \<open>Asking for a page\<close>

lemma last_fields [simp]:
  "last_free_virtual_address (extend_last e h) = last_free_virtual_address h"
  "last_free_virtual_address (new_last e h) = last_free_virtual_address h"
  by (simp_all add: extend_last_def new_last_def Let_def)

lemma increase_steps:
  fixes pg :: page_map
  assumes "HEAP_START_ADDR < last_free_virtual_address h + 4096"
    and "global_phys_allocator_allocate_page lay (hmem h) = (f, m)"
  defines "h2 \<equiv> h\<lparr> hmem := pg (last_free_virtual_address h) f m \<rparr>"
  shows "increase_memory_pool pg lay h =
    (if number_of_pages_allocated h < MAX_KERNEL_HEAP_SIZE
     then if f = 0 then (False, h\<lparr> hmem := m \<rparr>)
          else (True, page_added (if get_allocated_bit (hget h2 (last_free_virtual_address h) (-1))
                                  then new_last (last_free_virtual_address h) h2
                                  else extend_last (last_free_virtual_address h) h2))
     else (False, h))"
proof -
  let ?e = "last_free_virtual_address h"
  have "?e + 4 * WORDS_IN_PAGE > HEAP_START_ADDR" using assms(1) by (simp add: heap_constants)
  then show ?thesis
    unfolding increase_memory_pool_def assms(2) Let_def prod.case h2_def [symmetric] extend_last_def new_last_def page_added_def
    by (simp add: h2_def)
qed

text \<open>The words of the blocks in use stay what they are.\<close>

abbreviation kept_used :: "heap \<Rightarrow> heap \<Rightarrow> (nat \<times> bool) list \<Rightarrow> bool" where
  "kept_used h h' bs \<equiv> kept h h' (set (blocks 0 bs))"

lemma page_joined:
  assumes ok: "heap_ok h bs fl" and ne: "bs \<noteq> []" and ready: "phys_ready lay (hmem h)"
    and room: "below_allocator lay (extent bs + 1024)"
  defines "h' \<equiv> page_added (if get_allocated_bit (hget h (haddr (extent bs)) (-1))
                             then new_last (haddr (extent bs)) h else extend_last (haddr (extent bs)) h)"
  shows "\<exists>fl'. heap_ok h' (grown bs) fl'" "phys_ready lay (hmem h')" "kept_used h h' bs" "low_kept h h'"
proof -
  have lim: "extent bs + 1024 < heap_limit" by (rule below_allocator_limit [OF room])
  obtain xs n u where bs: "bs = xs @ [(n, u)]" using ne by (cases bs rule: rev_cases) auto
  have "heap_part h (xs @ (n, u) # []) fl" using heap_ok_part [OF ok] by (simp add: bs)
  note f = free_block_size [OF this]
  have "hget h (haddr (extent bs)) (- 1) = size_tag n u" using hget_before [of "extent bs" h] f bs by simp
  then have h': "h' = page_added (if u then new_last (haddr (extent bs)) h else extend_last (haddr (extent bs)) h)"
    using size_tag_simps(2) [OF f(3)] by (simp add: h'_def)
  have "(\<exists>fl'. heap_ok h' (grown bs) fl') \<and> phys_ready lay (hmem h') \<and> kept_used h h' bs \<and> low_kept h h'"
  proof (cases u)
    case True
    note new = new_last_ok [OF ok lim]
    have "phys_ready lay (hmem h')" by (rule phys_ready_words [OF ready room]) (use new(3) h' True in simp)
    then show ?thesis
      using new(1,2,4) bs True by (auto simp: h' kept_def)
  next
    case False
    have "heap_ok h (xs @ [(n, False)]) fl" "extent xs + n + 1024 < heap_limit" using ok lim bs False by simp_all
    note grow = extend_last_ok [OF this]
    have "i < extent xs" if "(j, k, True) \<in> set (blocks 0 bs)" "i < j + k" for i j k
      using that blocks_range [of j k True 0 xs] by (auto simp: bs False blocks_append)
    moreover have "phys_ready lay (hmem h')" by (rule phys_ready_words [OF ready room]) (use grow(2) h' bs False in simp)
    ultimately show ?thesis
      using grow bs False by (auto simp: h' kept_def)
  qed
  then show "\<exists>fl'. heap_ok h' (grown bs) fl'" "phys_ready lay (hmem h')" "kept_used h h' bs" "low_kept h h'" by blast+
qed

lemma increase_ok:
  assumes ok: "heap_ok h bs fl" and ne: "bs \<noteq> []" and quiet: "pages_quiet lay pg" and ready: "phys_ready lay (hmem h)"
    and room: "below_allocator lay (extent bs + 1024)"
  obtains (full) h' where "increase_memory_pool pg lay h = (False, h')" "heap_ok h' bs fl" "phys_ready lay (hmem h')" "kept_used h h' bs" "low_kept h h'"
      "MAX_KERNEL_HEAP_SIZE \<le> number_of_pages_allocated h' \<or> (\<forall>k < 32768. phys_page_used lay (hmem h') k)"
    | (page) h' fl' where "increase_memory_pool pg lay h = (True, h')" "heap_ok h' (grown bs) fl'" "phys_ready lay (hmem h')"
        "kept_used h h' bs" "low_kept h h'"
proof -
  have e: "last_free_virtual_address h = haddr (extent bs)" using ok by (simp add: heap_ok_def heap_part_def)
  have lim: "extent bs + 1024 < heap_limit" by (rule below_allocator_limit [OF room])
  obtain f m where call: "global_phys_allocator_allocate_page lay (hmem h) = (f, m)" by fastforce
  let ?h2 = "h\<lparr> hmem := pg (last_free_virtual_address h) f m \<rparr>"
  have below: "below_allocator lay (extent bs)" by (rule below_allocator_less [OF room]) simp
  note mapped = page_mapped [OF ok quiet ready below call]
  have kept: "kept_used h (h\<lparr> hmem := m \<rparr>) bs" "kept_used h ?h2 bs"
    unfolding kept_def using mapped(5) blocks_range by fastforce+
  have "haddr (extent bs) + 4096 = haddr (extent bs + 1024)" by (simp add: haddr_def)
  then have "HEAP_START_ADDR < last_free_virtual_address h + 4096"
    using haddr_unat [OF lim] e by (simp add: word_less_nat_alt heap_start)
  note steps = increase_steps [OF this call, of pg]
  consider (pages) "\<not> number_of_pages_allocated h < MAX_KERNEL_HEAP_SIZE" | (none) "number_of_pages_allocated h < MAX_KERNEL_HEAP_SIZE" "f = 0"
    | (some) "number_of_pages_allocated h < MAX_KERNEL_HEAP_SIZE" "f \<noteq> 0" by blast
  then show ?thesis
  proof cases
    case pages
    then show ?thesis using full [of h] steps ok ready by (simp add: kept_def not_less)
  next
    case none
    then show ?thesis using full [of "h\<lparr> hmem := m \<rparr>"] steps mapped kept phys_page_none [OF ready] call by simp
  next
    case some
    note joined = page_joined [OF mapped(2) ne mapped(4) room]
    obtain fl' where "heap_ok (page_added (if get_allocated_bit (hget ?h2 (haddr (extent bs)) (-1))
        then new_last (haddr (extent bs)) ?h2 else extend_last (haddr (extent bs)) ?h2)) (grown bs) fl'" using joined(1) by blast
    from page [OF _ this joined(2) kept_trans [OF kept(2) joined(3)] low_kept_trans [OF mapped(7) joined(4)]] show ?thesis using steps some e by simp
  qed
qed

section \<open>Allocation with growth\<close>

text \<open>The free words at the end of the heap, which growth adds to.\<close>

definition spare :: "(nat \<times> bool) list \<Rightarrow> nat" where
  "spare bs = (if bs \<noteq> [] \<and> \<not> snd (last bs) then fst (last bs) else 0)"

lemma grown_facts:
  assumes "bs \<noteq> []"
  shows "extent (grown bs) = extent bs + 1024" "spare (grown bs) = spare bs + 1024" "grown bs \<noteq> []"
    "(j, m, True) \<in> set (blocks 0 (grown bs)) \<longleftrightarrow> (j, m, True) \<in> set (blocks 0 bs)"
    "used_at 0 (grown bs) = used_at 0 bs"
proof -
  obtain xs n u where "bs = xs @ [(n, u)]" using assms by (cases bs rule: rev_cases) auto
  then show "extent (grown bs) = extent bs + 1024" "spare (grown bs) = spare bs + 1024" "grown bs \<noteq> []"
    "(j, m, True) \<in> set (blocks 0 (grown bs)) \<longleftrightarrow> (j, m, True) \<in> set (blocks 0 bs)"
    "used_at 0 (grown bs) = used_at 0 bs"
    by (cases u; auto simp: spare_def blocks_append)+
qed

lemma spare_block: "bs \<noteq> [] \<Longrightarrow> \<not> snd (last bs) \<Longrightarrow> (extent (butlast bs), spare bs, False) \<in> set (blocks 0 bs)"
  by (cases bs rule: rev_cases) (auto simp: spare_def blocks_append)

text \<open>A call that finds no block asks for a page and starts again.\<close>

lemma kmalloc_again:
  assumes "request \<noteq> 0" "find_block h (of_nat (words_for request)) (heap_head h) = Some 0"
  shows "kmalloc pg lay request h =
    (case increase_memory_pool pg lay h of (ok, h1) \<Rightarrow> if ok then kmalloc pg lay request h1 else Some (0, h1))"
  using assms by (simp add: kmalloc_def words_for_code) (subst kmalloc_loop.simps, simp add: Let_def words_for_code kmalloc_def split: prod.split)

text \<open>What a call of \<open>kmalloc\<close> promises.\<close>

definition kmalloc_result :: "layout \<Rightarrow> heap \<Rightarrow> (nat \<times> bool) list \<Rightarrow> nat \<Rightarrow> u32 \<Rightarrow> heap \<Rightarrow> (nat \<times> bool) list \<Rightarrow> nat list \<Rightarrow> bool" where
  "kmalloc_result lay h bs words p h' bs' fl' \<longleftrightarrow>
     heap_ok h' bs' fl' \<and> bs' \<noteq> [] \<and> kept_used h h' bs \<and> low_kept h h' \<and> phys_ready lay (hmem h') \<and> extent bs' \<le> max (extent bs) (extent bs + words + 1024 - spare bs) \<and>
     (if p = 0
      then used_at 0 bs' = used_at 0 bs \<and>
        (MAX_KERNEL_HEAP_SIZE \<le> number_of_pages_allocated h' \<or> (\<forall>k < 32768. phys_page_used lay (hmem h') k))
      else \<exists>j m. p = haddr (j + 3) \<and> words \<le> m \<and> (j, m, True) \<in> set (blocks 0 bs') \<and> j \<notin> used_at 0 bs \<and>
        used_at 0 bs' = insert j (used_at 0 bs))"

lemma kmalloc_served:
  assumes ok: "heap_ok h bs fl" and bs: "bs = xs @ (n, False) # ys" "fl = before @ extent xs # after"
    and req: "request \<noteq> 0" and fits: "words_for request \<le> n"
    and first: "\<And>p m. p \<in> set before \<Longrightarrow> (p, m, False) \<in> set (blocks 0 bs) \<Longrightarrow> m < words_for request"
    and ready: "phys_ready lay (hmem h)" and room: "below_allocator lay (extent bs)"
  shows "\<exists>h' bs' fl'. kmalloc pg lay request h = Some (haddr (extent xs + 3), h') \<and>
    kmalloc_result lay h bs (words_for request) (haddr (extent xs + 3)) h' bs' fl'"
proof -
  let ?words = "words_for request" and ?bs' = "xs @ allocated (words_for request) n @ ys"
  note f = free_block_size [OF heap_ok_part [OF ok [unfolded bs]]]
  obtain h' where h': "kmalloc pg lay request h = Some (haddr (extent xs + 3), h')"
    "heap_ok h' ?bs' (before @ remainder ?words n (extent xs) @ after)"
    and only: "only_changes h h' (extent xs) n (set fl)" and low: "low_kept h h'"
    using kmalloc_effect [OF ok [unfolded bs] req fits] first bs by blast
  have kept: "kept_used h h' bs"
    unfolding kept_def using used_kept [of h xs "[(n, False)]" ys fl h'] heap_ok_part [OF ok] only bs(1)
    by (auto simp: blocks_append)
  have "phys_ready lay (hmem h')"
  proof (rule phys_ready_words [OF ready room])
    fix k assume k: "extent bs \<le> k"
    show "word_at h' k = word_at h k"
    proof (rule ccontr)
      assume "word_at h' k \<noteq> word_at h k"
      moreover have "extent xs + n \<le> k" using k bs(1) by simp
      ultimately obtain p where "p \<in> set fl" "k = p + 1 \<or> k = p + 2" using only unfolding only_changes_def by blast
      then show False using free_block_room(1) [OF heap_ok_part [OF ok], of p] k by auto
    qed
  qed
  moreover obtain m where "?words \<le> m" "(extent xs, m, True) \<in> set (blocks 0 ?bs')"
    using fits by (cases "?words + 16 < n") (auto simp: allocated_def blocks_append)
  moreover have "extent xs \<notin> used_at 0 bs"
  proof
    assume "extent xs \<in> used_at 0 bs"
    then obtain m where m: "(extent xs, m, True) \<in> set (blocks 0 bs)" by (auto simp: used_at_def)
    moreover have "(extent xs, n, False) \<in> set (blocks 0 bs)" by (simp add: bs blocks_append)
    moreover have "0 < m" using m ok by (fastforce simp: heap_ok_def heap_part_def block_ok_def)
    ultimately show False using blocks_unique f(1) by fastforce
  qed
  moreover have "haddr (extent xs + 3) \<noteq> 0"
    using used_room(2) [OF h'(2), of "extent xs"] calculation(3) by (intro haddr_nonzero) (auto simp: used_at_def)
  ultimately have "kmalloc_result lay h bs ?words (haddr (extent xs + 3)) h' ?bs' (before @ remainder ?words n (extent xs) @ after)"
    using h' kept low used_allocated [OF fits, of xs ys] extent_allocated [OF fits] bs(1)
    by (auto simp: kmalloc_result_def)
  then show ?thesis using h'(1) by blast
qed

lemma kmalloc_serves:
  assumes "heap_ok h bs fl" "bs \<noteq> []" "pages_quiet lay pg" "phys_ready lay (hmem h)" "request \<noteq> 0"
    and "below_allocator lay (extent bs)" "below_allocator lay (extent bs + words_for request + 1024 - spare bs)"
  shows "\<exists>p h' bs' fl'. kmalloc pg lay request h = Some (p, h') \<and> kmalloc_result lay h bs (words_for request) p h' bs' fl'"
  using assms
proof (induction "words_for request - spare bs" arbitrary: h bs fl rule: less_induct)
  case less
  note prems = less.prems
  from prems(1) show ?case
  proof (cases rule: find_block_cases [where request = request])
    case (some xs n ys before after)
    then show ?thesis using kmalloc_served [OF prems(1) some(1,2) prems(5) some(3) _ prems(4,6)] by blast
  next
    case none
    have short: "spare bs < words_for request"
      using none(2) spare_block [OF prems(2)] by (auto simp: spare_def words_for_def)
    have room: "below_allocator lay (extent bs + 1024)" by (rule below_allocator_less [OF prems(7)]) (use short in simp)
    note again = kmalloc_again [OF prems(5) none(1), of pg lay]
    from prems(1-4) room show ?thesis
    proof (cases rule: increase_ok)
      case (full h')
      then have "kmalloc pg lay request h = Some (0, h')" using again by simp
      moreover have "kmalloc_result lay h bs (words_for request) 0 h' bs fl" using full prems(2) by (simp add: kmalloc_result_def)
      ultimately show ?thesis by blast
    next
      case (page h1 fl1)
      note g = grown_facts [OF prems(2)]
      have "\<exists>p h' bs' fl'. kmalloc pg lay request h1 = Some (p, h') \<and> kmalloc_result lay h1 (grown bs) (words_for request) p h' bs' fl'"
        by (rule less.hyps [OF _ page(2) g(3) prems(3) page(3) prems(5)]) (use short prems(7) room in \<open>simp_all add: g add_ac\<close>)
      then obtain p h' bs' fl' where r: "kmalloc pg lay request h1 = Some (p, h')"
        "kmalloc_result lay h1 (grown bs) (words_for request) p h' bs' fl'" by blast
      have "low_kept h h'" by (rule low_kept_trans [OF page(5)]) (use r(2) in \<open>simp add: kmalloc_result_def\<close>)
      moreover have "kept_used h h' bs"
        by (rule kept_trans [OF page(4)]) (use r(2) g(4) in \<open>auto simp: kmalloc_result_def intro: kept_subset\<close>)
      ultimately have "kmalloc_result lay h bs (words_for request) p h' bs' fl'"
        using r(2) short by (auto simp: kmalloc_result_def g)
      then show ?thesis using again page(1) r(1) by auto
    qed
  qed
qed

section \<open>Every reachable heap\<close>

text \<open>Initialisation leaves the bits of the allocator as its own allocation left them.\<close>

lemma kmemset_frame: "\<not> unat (x - ptr) < unat num \<Longrightarrow> snd (kmemset m ptr v num) x = m x"
proof -
  assume x: "\<not> unat (x - ptr) < unat num"
  have "for_up 0 num (\<lambda>i t. t(ptr + i := v')) m x = m x" for v'
  proof (rule for_up_invariant [where P = "\<lambda>_ t. t x = m x"])
    fix k and t :: mem assume k: "k < num" "t x = m x"
    then have "x \<noteq> ptr + k" using x by (auto simp: word_less_nat_alt)
    then show "(t(ptr + k := v')) x = m x" using k(2) by simp
  qed simp_all
  then show ?thesis by (simp add: kmemset_def)
qed

lemma init_ready:
  assumes ready: "phys_ready lay (hmem h)" and quiet: "pages_quiet lay pg" and room: "below_allocator lay 1024"
  shows "phys_ready lay (hmem (kdynamic_memory_init pg lay h))"
proof -
  obtain f m where call: "global_phys_allocator_allocate_page lay (hmem h) = (f, m)" by fastforce
  obtain q m' where set: "kmemset (pg HEAP_START_ADDR f m) HEAP_START_ADDR 0 PAGE_SIZE = (q, m')" by fastforce
  define h1 where "h1 = h\<lparr> hmem := m', number_of_pages_allocated := 1, first_free_virtual_address := HEAP_START_ADDR,
    last_free_virtual_address := HEAP_START_ADDR + 4 * WORDS_IN_PAGE, heap_head := HEAP_START_ADDR \<rparr>"
  have "phys_ready lay m'"
  proof (rule phys_ready_bytes [OF phys_page_effect(1) [OF ready call]])
    fix x assume x: "unat (x - global_phys_allocator lay) < 8192"
    then have "pg HEAP_START_ADDR f m x = m x" using quiet by (simp add: pages_quiet_def)
    moreover have "unat (global_phys_allocator lay) \<le> unat x" using allocator_byte [OF room x] by linarith
    then have "unat HEAP_START_ADDR + 4096 \<le> unat x" using room by (simp add: below_allocator_def)
    then have "\<not> unat (x - HEAP_START_ADDR) < unat PAGE_SIZE" by (simp add: PAGE_SIZE_def unat_sub word_le_nat_alt)
    from kmemset_frame [OF this, of "pg HEAP_START_ADDR f m" 0] have "m' x = pg HEAP_START_ADDR f m x" by (simp add: set)
    ultimately show "m' x = m x" by simp
  qed
  then have "phys_ready lay (hmem h1)" by (simp add: h1_def)
  then show ?thesis
  proof (rule phys_ready_words [OF _ room])
    have w: "WORDS_IN_PAGE = 1024" "HEAP_START_ADDR = haddr 0" by (simp_all add: heap_constants haddr_def)
    define h4 where "h4 = hput (haddr 0) 2 0 (hput (haddr 0) 1 0 (hput (haddr 0) 0 1024 h1))"
    have w4: "word_at h4 = (word_at h1)(0 := 1024, 1 := 0, 2 := 0)"
      by (simp add: h4_def hput_word heap_limit_def) (simp add: numeral_2_eq_2)
    then have "hget h4 (haddr 0) 0 = 1024" by (simp add: hget_word heap_limit_def)
    then have "kdynamic_memory_init pg lay h = hput (haddr 0) (1024 - 1) 1024 h4"
      using set unfolding kdynamic_memory_init_def call Let_def prod.case h4_def h1_def w by simp
    then show "word_at (kdynamic_memory_init pg lay h) i = word_at h1 i" if "1024 \<le> i" for i
      using that by (simp add: hput_word w4 heap_limit_def)
  qed
qed

text \<open>The heap and the pointers that have been returned and not yet freed, after any calls of \<open>kmalloc\<close>, also those
  that need more pages or fail, and any releases of blocks other than the last, while the heap keeps away from the
  allocator.\<close>

inductive heap_use :: "page_map \<Rightarrow> layout \<Rightarrow> heap \<Rightarrow> heap \<Rightarrow> u32 set \<Rightarrow> bool" for pg lay h0 where
  start_use: "heap_use pg lay h0 (kdynamic_memory_init pg lay h0) {}"
| malloc_use: "\<lbrakk> heap_use pg lay h0 h L; request \<noteq> 0;
    unat (last_free_virtual_address h) + 4 * (words_for request + 1024) \<le> unat (global_phys_allocator lay);
    kmalloc pg lay request h = Some (p, h') \<rbrakk> \<Longrightarrow> heap_use pg lay h0 h' (if p = 0 then L else insert p L)"
| free_use: "\<lbrakk> heap_use pg lay h0 h L; p \<in> L;
    p - 12 + 4 * get_size (hget h (p - 12) 0) \<noteq> last_free_virtual_address h \<rbrakk> \<Longrightarrow> heap_use pg lay h0 (kfree p h) (L - {p})"

lemma heap_use_ok:
  assumes "heap_use pg lay h0 h L" and "phys_ready lay (hmem h0)" "pages_quiet lay pg" "below_allocator lay 1024"
  shows "\<exists>bs fl. heap_ok h bs fl \<and> bs \<noteq> [] \<and> L = live bs \<and> phys_ready lay (hmem h) \<and> below_allocator lay (extent bs)"
  using assms
proof (induction rule: heap_use.induct)
  case start_use
  then show ?case
    by (intro exI [of _ "[(1024, False)]"] exI [of _ "[0]"]) (simp add: init_ok live_used init_ready)
next
  case (malloc_use h L request p h')
  then obtain bs fl where ok: "heap_ok h bs fl" "bs \<noteq> []" "L = live bs" "phys_ready lay (hmem h)" "below_allocator lay (extent bs)" by blast
  have "unat (last_free_virtual_address h) = unat HEAP_START_ADDR + 4 * extent bs"
    using ok(1) haddr_unat by (simp add: heap_ok_def heap_part_def heap_start)
  then have room: "below_allocator lay (extent bs + words_for request + 1024)"
    using malloc_use.hyps(3) ok(5) by (simp add: below_allocator_def)
  have "below_allocator lay (extent bs + words_for request + 1024 - spare bs)" by (rule below_allocator_less [OF room]) simp
  from kmalloc_serves [OF ok(1,2) malloc_use.prems(2) ok(4) malloc_use.hyps(2) ok(5) this]
  obtain bs' fl' where r: "kmalloc_result lay h bs (words_for request) p h' bs' fl'" using malloc_use.hyps(4) by auto
  have "below_allocator lay (extent bs')"
    by (rule below_allocator_less [OF room]) (use r in \<open>auto simp: kmalloc_result_def\<close>)
  moreover have "(if p = 0 then L else insert p L) = live bs'"
    using r ok(3) by (auto simp: kmalloc_result_def live_used)
  ultimately show ?case using r by (auto simp: kmalloc_result_def)
next
  case (free_use h L p)
  then obtain bs fl where ok: "heap_ok h bs fl" "bs \<noteq> []" "L = live bs" "phys_ready lay (hmem h)" "below_allocator lay (extent bs)" by blast
  obtain bs' fl' where f: "heap_ok (kfree p h) bs' fl'" "live bs' = L - {p}" "extent bs' = extent bs"
    and beyond: "\<forall>i \<ge> extent bs. word_at (kfree p h) i = word_at h i"
    using free_step [OF ok(1), of p] free_use.hyps(2,3) ok(3) by blast
  have "phys_ready lay (hmem (kfree p h))" by (rule phys_ready_words [OF ok(4,5)]) (use beyond in blast)
  moreover have "bs' \<noteq> []"
  proof -
    obtain n u zs where "bs = (n, u) # zs" using ok(2) by (cases bs) auto
    then have "0 < extent bs" using free_block_size(1) [of h "[]" n u zs fl] heap_ok_part [OF ok(1)] by simp
    then show ?thesis using f(3) by auto
  qed
  ultimately show ?case using f ok(5) by auto
qed

lemma kmalloc_total:
  assumes "heap_ok h bs fl" "bs \<noteq> []" "pages_quiet lay pg" "phys_ready lay (hmem h)" "request \<noteq> 0"
    and "below_allocator lay (extent bs + words_for request + 1024)"
  shows "\<exists>p h' bs' fl'. kmalloc pg lay request h = Some (p, h') \<and> kmalloc_result lay h bs (words_for request) p h' bs' fl'"
  by (rule kmalloc_serves [OF assms(1-5)]) (rule below_allocator_less [OF assms(6)], simp)+

section \<open>Properties\<close>



definition cold_heap :: "mem \<Rightarrow> heap" where
  "cold_heap m = \<lparr> hmem = m, first_free_virtual_address = 0, last_free_virtual_address = 0,
     number_of_pages_allocated = 0, heap_head = 0 \<rparr>"

lemma sample_room: "below_allocator sample_layout n \<longleftrightarrow> n \<le> 229376" "pages_quiet sample_layout (\<lambda>_ _ m. m)"
  by (simp_all add: below_allocator_def sample_layout_def heap_start pages_quiet_def)



end
