(* ===== verification/HeapUse.thy ===== *)
theory HeapUse
  imports KVector HeapGrow
begin

text \<open>
  What a user of the heap may rely on (theories \<open>Heap\<close>, \<open>HeapGrow\<close>): the bytes of a block in use may be
  written without harm to the heap, other blocks and the memory below, and they survive the allocations of
  others.  The boot files (\<open>BootFiles\<close>) and the vectors (\<open>VectorProps\<close>) rest on this theory.
\<close>

unbundle bit_operations_syntax

section \<open>Bytes in memory\<close>

definition bytes_at :: "mem \<Rightarrow> u32 \<Rightarrow> u8 list \<Rightarrow> bool" where
  "bytes_at m p f \<longleftrightarrow> (\<forall>i < length f. m (p + of_nat i) = f ! i)"

lemma bytes_at_frame: "bytes_at m p f \<Longrightarrow> (\<And>i. i < length f \<Longrightarrow> m' (p + of_nat i) = m (p + of_nat i)) \<Longrightarrow> bytes_at m' p f"
  by (simp add: bytes_at_def)

lemma window_iff:
  fixes p x :: u32
  assumes "unat p + n \<le> 2 ^ 32"
  shows "unat (x - p) < n \<longleftrightarrow> unat p \<le> unat x \<and> unat x < unat p + n"
proof (cases "p \<le> x")
  case True
  then show ?thesis by (auto simp: unat_sub word_le_nat_alt)
next
  case False
  then have "unat (x - p) = 2 ^ 32 - (unat p - unat x)"
    by (simp add: unat_sub_if_size word_le_nat_alt word_size)
  then show ?thesis using False assms unat_less_u32 [of p] by (simp add: word_le_nat_alt)
qed

lemma unat_offset: "unat (p :: u32) + i < 2 ^ 32 \<Longrightarrow> unat (p + of_nat i) = unat p + i"
  by (subst unat_add_small) (simp_all add: unat_of_nat_small)

text \<open>A copy between blocks that do not overlap.\<close>

lemma kmemcpy_copies:
  fixes d p :: u32
  assumes "d \<noteq> 0" "p \<noteq> 0" and apart: "\<And>i. i < n \<Longrightarrow> \<not> unat (p + i - d) < unat n"
  shows "snd (kmemcpy m d p n) = (\<lambda>x. if x - d < n then m (p + (x - d)) else m x)"
proof -
  have "for_up 0 n (\<lambda>len t. t(d + len := t (p + len))) m = (\<lambda>x. if x - d < n then m (p + (x - d)) else m x)"
  proof (rule for_up_invariant [where P = "\<lambda>k t. t = (\<lambda>x. if x - d < k then m (p + (x - d)) else m x)"])
    fix k t assume k: "k < n" and t: "t = (\<lambda>x. if x - d < k then m (p + (x - d)) else m x)"
    have "\<not> p + k - d < k" using apart [OF k] k by (auto simp: word_less_nat_alt)
    moreover have "x - d < k + 1 \<longleftrightarrow> x - d < k \<or> x = d + k" for x
      using k by (auto simp: window_Suc)
    ultimately show "t(d + k := t (p + k)) = (\<lambda>x. if x - d < k + 1 then m (p + (x - d)) else m x)"
      by (auto simp: t fun_eq_iff)
  qed simp_all
  then show ?thesis using assms(1,2) by (simp add: kmemcpy_def)
qed

section \<open>Writing into a block in use\<close>

text \<open>The bytes of a block that its user may write: all but those of its first three words and its last one.\<close>

definition payload :: "nat \<Rightarrow> nat \<Rightarrow> u32 \<Rightarrow> bool" where
  "payload j m x \<longleftrightarrow> unat (x - haddr (j + 3)) < 4 * (m - 4)"

lemma block_room:
  assumes "heap_part h bs fl" "(j, m, u) \<in> set (blocks 0 bs)"
  shows "4 \<le> m" "j + m \<le> extent bs" "j + m < heap_limit" "unat (haddr (j + 3)) = unat HEAP_START_ADDR + 4 * (j + 3)"
    "unat (haddr (j + 3)) + 4 * (m - 4) < 2 ^ 32"
proof -
  show m: "4 \<le> m" using assms by (fastforce simp: heap_part_def block_ok_def)
  show r: "j + m \<le> extent bs" using blocks_range [OF assms(2)] by simp
  then show l: "j + m < heap_limit" using assms(1) by (simp add: heap_part_def)
  show u: "unat (haddr (j + 3)) = unat HEAP_START_ADDR + 4 * (j + 3)"
    using haddr_unat [of "j + 3"] l m by (simp add: heap_start)
  show "unat (haddr (j + 3)) + 4 * (m - 4) < 2 ^ 32" using l m by (simp add: u heap_start heap_limit_def)
qed

lemma payload_iff:
  assumes "heap_part h bs fl" "(j, m, u) \<in> set (blocks 0 bs)"
  shows "payload j m x \<longleftrightarrow> unat HEAP_START_ADDR + 4 * (j + 3) \<le> unat x \<and> unat x < unat HEAP_START_ADDR + 4 * (j + m - 1)"
proof -
  note r = block_room [OF assms]
  have "unat HEAP_START_ADDR + 4 * (j + 3) + 4 * (m - 4) = unat HEAP_START_ADDR + 4 * (j + m - 1)" using r(1) by simp
  then show ?thesis unfolding payload_def window_iff [OF less_imp_le [OF r(5)]] unfolding r(4) by (simp only:)
qed

lemma payload_words:
  assumes part: "heap_part h bs fl" and b: "(j, m, u) \<in> set (blocks 0 bs)"
    and only: "\<And>x. \<not> payload j m x \<Longrightarrow> m' x = hmem h x" and i: "i < j + 3 \<or> j + m - 1 \<le> i"
  shows "word_at (h\<lparr> hmem := m' \<rparr>) i = word_at h i"
proof (cases "i < heap_limit")
  case True
  show ?thesis
  proof (rule word_at_cong [OF True])
    fix k :: u32 assume k: "unat k < 4"
    have "\<not> payload j m (haddr i + k)"
      unfolding payload_iff [OF part b] haddr_byte [OF True k] using i k block_room(1) [OF part b] by auto
    then show "hmem (h\<lparr> hmem := m' \<rparr>) (haddr i + k) = hmem h (haddr i + k)" using only by simp
  qed
qed (simp add: word_at_def)

lemma payload_write:
  assumes ok: "heap_ok h bs fl" and b: "(j, m, True) \<in> set (blocks 0 bs)"
    and only: "\<And>x. \<not> payload j m x \<Longrightarrow> m' x = hmem h x"
  shows "heap_ok (h\<lparr> hmem := m' \<rparr>) bs fl" "low_kept h (h\<lparr> hmem := m' \<rparr>)"
    "phys_ready lay (hmem h) \<Longrightarrow> below_allocator lay (extent bs) \<Longrightarrow> phys_ready lay m'"
proof -
  let ?h = "h\<lparr> hmem := m' \<rparr>"
  note part = heap_ok_part [OF ok]
  note words = payload_words [OF part b only] and r = block_room [OF part b]
  show "low_kept h ?h"
    unfolding low_kept_def using only payload_iff [OF part b] by (auto simp: word_less_nat_alt)
  show "phys_ready lay m'" if "phys_ready lay (hmem h)" "below_allocator lay (extent bs)"
  proof -
    have "phys_ready lay (hmem ?h)" by (rule phys_ready_words [OF that], rule words) (use r(1,2) in auto)
    then show ?thesis by simp
  qed
  have "heap_ok ?h (xs @ [(m, True)] @ ys) fl" if bs: "bs = xs @ [(m, True)] @ ys" "j = extent xs" for xs ys
  proof -
    have all: "\<forall>c \<in> set (blocks 0 (xs @ [(m, True)] @ ys)). block_ok (word_at h) c" using part by (simp add: heap_part_def bs(1))
    have out: "word_at ?h k = word_at h k" if "k < j \<or> j + m \<le> k" for k using that by (intro words) auto
    have only: "only_changes h ?h (extent xs) (extent [(m, True)]) (set fl)" using out bs(2) by (simp add: only_changes_def)
    have "heap_part ?h (xs @ [(m, True)] @ ys) fl"
    proof (rule region_part [OF _ refl _ only])
      show "heap_part h (xs @ [(m, True)] @ ys) fl" using part bs(1) by simp
      have "block_ok (word_at h) (j, m, True)" using part b by (simp add: heap_part_def)
      then show "block_ok (word_at ?h) c" if "c \<in> set (blocks (extent xs) [(m, True)])" for c
        using that words [of j] words [of "j + 1"] words [of "j + 2"] words [of "j + m - 1"] r(1) bs(2) by (simp add: block_ok_def)
      show "links (word_at ?h) 0 fl 0"
      proof (rule links_outside [where a = j and n = m])
        show "links (word_at h) 0 fl 0" using part by (simp add: heap_part_def)
        show "p + 4 \<le> j \<or> j + m \<le> p" if pfl: "p \<in> set fl" for p
        proof -
          have "p \<noteq> j"
          proof
            assume "p = j"
            then obtain l where "(j, l, False) \<in> set (blocks 0 bs)" using part pfl by (auto simp: heap_part_def free_blocks_def)
            then show False using blocks_unique [OF b, of l False] r(1) block_room(1) [OF part, of j l False] by auto
          qed
          then show ?thesis using not_own [of h xs m True ys fl p] part pfl bs by simp
        qed
      qed (use out in auto)
    qed (use part bs(1) in \<open>simp_all add: heap_part_def\<close>)
    then show ?thesis using ok bs(1) by (simp add: heap_ok_def)
  qed
  then show "heap_ok ?h bs fl" using blocks_split [OF b] by auto
qed

text \<open>A block in use stays where it is and of its size, with its bytes.\<close>

lemma block_persists:
  assumes ok: "heap_ok h bs fl" "heap_ok h' bs' fl'" and kept: "kept_used h h' bs" and used: "used_at 0 bs \<subseteq> used_at 0 bs'"
    and b: "(j, m, True) \<in> set (blocks 0 bs)"
  shows "(j, m, True) \<in> set (blocks 0 bs')"
proof -
  obtain m' where m': "(j, m', True) \<in> set (blocks 0 bs')" using used b by (auto simp: used_at_def)
  note part = heap_ok_part [OF ok(1)] and part' = heap_ok_part [OF ok(2)]
  have "word_at h' j = word_at h j" using kept b block_room(1) [OF part b] unfolding kept_def by fastforce
  moreover have "word_at h j = size_tag m True" using part b by (fastforce simp: heap_part_def block_ok_def)
  moreover have "word_at h' j = size_tag m' True" using part' m' by (fastforce simp: heap_part_def block_ok_def)
  ultimately have "get_size (size_tag m' True) = get_size (size_tag m True)" by simp
  then have "(of_nat m' :: u32) = of_nat m"
    using block_room(3) [OF part b] block_room(3) [OF part' m'] by (simp add: size_tag_simps)
  moreover have "m < heap_limit" "m' < heap_limit" using block_room(3) [OF part b] block_room(3) [OF part' m'] by simp_all
  ultimately have "m' = m" using unat_heap [of m] unat_heap [of m'] by simp
  then show ?thesis using m' by simp
qed

lemma payload_offset:
  assumes part: "heap_part h bs fl" and b: "(j, m, u) \<in> set (blocks 0 bs)" and i: "i < 4 * (m - 4)"
  shows "payload j m (haddr (j + 3) + of_nat i)"
proof -
  have "unat (haddr (j + 3) + of_nat i) = unat (haddr (j + 3)) + i"
    using block_room(5) [OF part b] i by (intro unat_offset) simp
  then show ?thesis
    using i block_room(5) [OF part b] window_iff [of "haddr (j + 3)" "4 * (m - 4)" "haddr (j + 3) + of_nat i"] by (simp add: payload_def)
qed

text \<open>The words of a block determine its bytes.\<close>

lemma kept_bytes:
  assumes part: "heap_part h bs fl" and b: "(j, m, True) \<in> set (blocks 0 bs)" and x: "payload j m x"
    and kept: "\<And>i. j \<le> i \<Longrightarrow> i < j + m \<Longrightarrow> word_at h' i = word_at h i"
  shows "hmem h' x = hmem h x"
proof -
  have x': "unat HEAP_START_ADDR + 4 * (j + 3) \<le> unat x" "unat x < unat HEAP_START_ADDR + 4 * (j + m - 1)"
    using x payload_iff [OF part b] by auto
  then have "HEAP_START_ADDR \<le> x" by (simp add: word_le_nat_alt)
  then obtain i k where i: "x = haddr i + k" "unat k < 4" "i < heap_limit" "i = (unat x - unat HEAP_START_ADDR) div 4"
    by (rule byte_cases)
  have "unat x = unat HEAP_START_ADDR + 4 * i + unat k" unfolding i(1) by (rule haddr_byte [OF i(3,2)])
  then have "j \<le> i" "i < j + m" using x' i(2) block_room(1) [OF part b] by simp_all
  then have "word_at h' i = word_at h i" by (rule kept)
  then have "rd32 (hmem h') (haddr i) = rd32 (hmem h) (haddr i)" using i(3) by (simp add: word_at_def)
  then show ?thesis using rd32_bytes i(1,2) by blast
qed

lemma words_for_length:
  "n < 2 ^ 32 \<Longrightarrow> words_for (of_nat n) = (n + 3) div 4 + 4"
  by (simp add: words_for_def unat_of_nat_small)

text \<open>The heap and the allocator do not depend on the memory below the heap.\<close>

lemma high_words:
  assumes "\<And>x. HEAP_START_ADDR \<le> x \<Longrightarrow> hmem h' x = hmem h x"
  shows "word_at h' i = word_at h i"
proof (cases "i < heap_limit")
  case True
  have "HEAP_START_ADDR \<le> haddr i + k" if "unat k < 4" for k using haddr_byte [OF True that] by (simp add: word_le_nat_alt)
  then show ?thesis using assms by (intro word_at_cong [OF True]) simp
qed (simp add: word_at_def)

lemma high_same:
  assumes "\<And>x. HEAP_START_ADDR \<le> x \<Longrightarrow> hmem h' x = hmem h x"
    and fields: "last_free_virtual_address h' = last_free_virtual_address h" "heap_head h' = heap_head h"
  shows "heap_ok h bs fl \<Longrightarrow> heap_ok h' bs fl"
    "phys_ready lay (hmem h) \<Longrightarrow> below_allocator lay k \<Longrightarrow> phys_ready lay (hmem h')"
proof -
  note words = high_words [OF assms(1)]
  show "heap_ok h bs fl \<Longrightarrow> heap_ok h' bs fl" by (rule heap_ok_cong) (simp_all add: words fields)
  show "phys_ready lay (hmem h) \<Longrightarrow> below_allocator lay k \<Longrightarrow> phys_ready lay (hmem h')"
    by (rule phys_ready_words) (simp_all add: words)
qed

section \<open>The other users\<close>

text \<open>Every block in use except those at \<open>K\<close> is still in use, with its bytes.\<close>

definition users_kept :: "heap \<Rightarrow> (nat \<times> bool) list \<Rightarrow> heap \<Rightarrow> (nat \<times> bool) list \<Rightarrow> nat set \<Rightarrow> bool" where
  "users_kept h bs h' bs' K \<longleftrightarrow> (\<forall>j m. (j, m, True) \<in> set (blocks 0 bs) \<and> j \<notin> K \<longrightarrow>
     (j, m, True) \<in> set (blocks 0 bs') \<and> (\<forall>x. payload j m x \<longrightarrow> hmem h' x = hmem h x))"

lemma users_kept_refl [simp]: "users_kept h bs h bs K"
  by (simp add: users_kept_def)

lemma users_kept_trans:
  "users_kept h bs h1 bs1 K \<Longrightarrow> users_kept h1 bs1 h2 bs2 L \<Longrightarrow> K \<union> L \<inter> used_at 0 bs \<subseteq> M \<Longrightarrow> users_kept h bs h2 bs2 M"
  unfolding users_kept_def used_at_def by (fastforce simp: subset_iff)

lemma users_kept_mono: "users_kept h bs h' bs' K \<Longrightarrow> K \<subseteq> L \<Longrightarrow> users_kept h bs h' bs' L"
  unfolding users_kept_def by blast

text \<open>What an allocation leaves alone.\<close>

lemma kmalloc_users:
  assumes ok: "heap_ok h bs fl" and r: "kmalloc_result lay h bs words p h' bs' fl'"
  shows "heap_ok h' bs' fl'" "bs' \<noteq> []" "phys_ready lay (hmem h')" "low_kept h h'" "users_kept h bs h' bs' {}"
proof -
  show ok': "heap_ok h' bs' fl'" "bs' \<noteq> []" "phys_ready lay (hmem h')" "low_kept h h'" using r by (auto simp: kmalloc_result_def)
  have kept: "kept_used h h' bs" "used_at 0 bs \<subseteq> used_at 0 bs'" using r by (auto simp: kmalloc_result_def split: if_splits)
  show "users_kept h bs h' bs' {}"
    unfolding users_kept_def
  proof (intro allI impI)
    fix j m assume "(j, m, True) \<in> set (blocks 0 bs) \<and> j \<notin> {}"
    then have b: "(j, m, True) \<in> set (blocks 0 bs)" by simp
    show "(j, m, True) \<in> set (blocks 0 bs') \<and> (\<forall>x. payload j m x \<longrightarrow> hmem h' x = hmem h x)"
      using block_persists [OF ok ok'(1) kept b] kept_bytes [OF heap_ok_part [OF ok] b] kept(1) b unfolding kept_def by blast
  qed
qed

lemma payload_apart:
  assumes part: "heap_part h bs fl" and b: "(j, m, u) \<in> set (blocks 0 bs)" "(k, l, v) \<in> set (blocks 0 bs)" "j \<noteq> k"
  shows "payload j m x \<Longrightarrow> \<not> payload k l x"
  using blocks_disjoint [OF b(1,2)] blocks_disjoint [OF b(2,1)] b(3) payload_iff [OF part b(1)] payload_iff [OF part b(2)]
    block_room(1) [OF part b(1)] block_room(1) [OF part b(2)]
  by (cases j k rule: linorder_cases) auto

lemma write_users:
  assumes part: "heap_part h bs fl" and b: "(j, m, True) \<in> set (blocks 0 bs)" and only: "\<And>x. \<not> payload j m x \<Longrightarrow> hmem h' x = hmem h x"
  shows "users_kept h bs h' bs {j}"
  unfolding users_kept_def using payload_apart [OF part _ b] only by blast

text \<open>A source of \<open>n\<close> bytes at \<open>q\<close>: memory below the heap, or in a block in use that is not one of \<open>J\<close>.\<close>

definition elsewhere :: "(nat \<times> bool) list \<Rightarrow> nat set \<Rightarrow> u32 \<Rightarrow> nat \<Rightarrow> bool" where
  "elsewhere bs J q n \<longleftrightarrow> q \<noteq> 0 \<and> (unat q + n \<le> unat HEAP_START_ADDR \<or> (\<exists>k l. (k, l, True) \<in> set (blocks 0 bs) \<and> k \<notin> J \<and>
     unat (haddr (k + 3)) \<le> unat q \<and> unat q + n \<le> unat (haddr (k + 3)) + 4 * (l - 4)))"

lemma elsewhere_less: "elsewhere bs J q n \<Longrightarrow> n' \<le> n \<Longrightarrow> elsewhere bs J q n'"
  unfolding elsewhere_def by (meson add_left_mono le_trans)

lemma elsewhere_byte:
  assumes part: "heap_part h bs fl" and e: "elsewhere bs J q n" and i: "i < n"
  shows "unat (q + of_nat i) = unat q + i"
    "q + of_nat i < HEAP_START_ADDR \<or> (\<exists>k l. (k, l, True) \<in> set (blocks 0 bs) \<and> k \<notin> J \<and> payload k l (q + of_nat i))"
proof -
  have "unat q + n < 2 ^ 32"
    using e block_room(5) [OF part] unat_less_u32 [of HEAP_START_ADDR] unfolding elsewhere_def by fastforce
  then show u: "unat (q + of_nat i) = unat q + i" using i by (intro unat_offset) simp
  from e consider "unat q + n \<le> unat HEAP_START_ADDR" | k l where "(k, l, True) \<in> set (blocks 0 bs)" "k \<notin> J"
    "unat (haddr (k + 3)) \<le> unat q" "unat q + n \<le> unat (haddr (k + 3)) + 4 * (l - 4)"
    unfolding elsewhere_def by blast
  then show "q + of_nat i < HEAP_START_ADDR \<or> (\<exists>k l. (k, l, True) \<in> set (blocks 0 bs) \<and> k \<notin> J \<and> payload k l (q + of_nat i))"
  proof cases
    case 1
    then show ?thesis using u i by (simp add: word_less_nat_alt)
  next
    case (2 k l)
    have "payload k l (q + of_nat i)"
      unfolding payload_def using window_iff [of "haddr (k + 3)" "4 * (l - 4)"] block_room(5) [OF part 2(1)] 2(3,4) u i by simp
    then show ?thesis using 2(1,2) by blast
  qed
qed

lemma elsewhere_apart:
  assumes part: "heap_part h bs fl" and e: "elsewhere bs J q n" and b: "(j, m, True) \<in> set (blocks 0 bs)" "j \<in> J" and i: "i < n"
  shows "\<not> payload j m (q + of_nat i)"
  using elsewhere_byte(2) [OF part e i]
proof
  assume "q + of_nat i < HEAP_START_ADDR"
  then show ?thesis using payload_iff [OF part b(1)] by (simp add: word_less_nat_alt)
next
  assume "\<exists>k l. (k, l, True) \<in> set (blocks 0 bs) \<and> k \<notin> J \<and> payload k l (q + of_nat i)"
  then show ?thesis using payload_apart [OF part _ b(1)] b(2) by blast
qed

lemma elsewhere_kept:
  assumes part: "heap_part h bs fl" and e: "elsewhere bs J q n" and kept: "users_kept h bs h' bs' K" "low_kept h h'" "K \<subseteq> J"
  shows "bytes_at (hmem h) q f \<Longrightarrow> length f = n \<Longrightarrow> bytes_at (hmem h') q f"
    "J' \<inter> used_at 0 bs \<subseteq> J \<Longrightarrow> elsewhere bs' J' q n"
proof -
  have "hmem h' (q + of_nat i) = hmem h (q + of_nat i)" if "i < n" for i
    using elsewhere_byte(2) [OF part e that] kept unfolding users_kept_def low_kept_def by blast
  then show "bytes_at (hmem h) q f \<Longrightarrow> length f = n \<Longrightarrow> bytes_at (hmem h') q f" by (simp add: bytes_at_def)
  have "(k, l, True) \<in> set (blocks 0 bs') \<and> k \<notin> J'" if "(k, l, True) \<in> set (blocks 0 bs)" "k \<notin> J" "J' \<inter> used_at 0 bs \<subseteq> J" for k l
    using kept(1,3) that unfolding users_kept_def used_at_def by blast
  then show "J' \<inter> used_at 0 bs \<subseteq> J \<Longrightarrow> elsewhere bs' J' q n" using e unfolding elsewhere_def by blast
qed

section \<open>Copying into a block\<close>

lemma write_bytes:
  assumes ok: "heap_ok h bs fl" and b: "(j, m, True) \<in> set (blocks 0 bs)" and room: "start + length f \<le> 4 * (m - 4)"
    and d: "d = haddr (j + 3) + of_nat start" and n: "unat n = length f"
    and src: "bytes_at (hmem h) q f" "elsewhere bs J q (length f)" "j \<in> J"
  shows "bytes_at (hmem (hcopy d q n h)) d f" "heap_ok (hcopy d q n h) bs fl" "low_kept h (hcopy d q n h)"
    "phys_ready lay (hmem h) \<Longrightarrow> below_allocator lay (extent bs) \<Longrightarrow> phys_ready lay (hmem (hcopy d q n h))"
    "users_kept h bs (hcopy d q n h) bs {j}"
    "\<not> (unat d \<le> unat x \<and> unat x < unat d + length f) \<Longrightarrow> hmem (hcopy d q n h) x = hmem h x"
    "\<not> payload j m x \<Longrightarrow> hmem (hcopy d q n h) x = hmem h x"
proof -
  note part = heap_ok_part [OF ok]
  note r = block_room [OF part b]
  let ?h = "hcopy d q n h"
  have ud: "unat d = unat (haddr (j + 3)) + start" unfolding d using room r(5) by (intro unat_offset) simp
  have bound: "unat d + length f < 2 ^ 32" using ud room r(5) by simp
  have inside: "payload j m x" if "unat d \<le> unat x" "unat x < unat d + length f" for x
    unfolding payload_def using window_iff [of "haddr (j + 3)" "4 * (m - 4)" x] r(5) room ud that by simp
  have idx: "unat (of_nat i :: u32) = i" if "i < length f" for i using that bound by (simp add: unat_of_nat_small)
  have "\<not> unat (q + i - d) < unat n" if "i < n" for i
  proof -
    have "\<not> payload j m (q + of_nat (unat i))"
      using elsewhere_apart [OF part src(2) b src(3), of "unat i"] that n by (simp add: word_less_nat_alt)
    then show ?thesis using inside [of "q + i"] window_iff [of d "length f" "q + i"] bound n by auto
  qed
  moreover have "d \<noteq> 0" using ud r(4) by (auto simp: heap_start)
  ultimately have mem: "hmem ?h = (\<lambda>x. if x - d < n then hmem h (q + (x - d)) else hmem h x)"
    using kmemcpy_copies [of d q n "hmem h"] src(2) by (simp add: hcopy_def elsewhere_def)
  have out: "hmem ?h x = hmem h x" if "\<not> (unat d \<le> unat x \<and> unat x < unat d + length f)" for x
  proof -
    have "\<not> x - d < n" using that window_iff [OF less_imp_le [OF bound], of x] n unfolding word_less_nat_alt by simp
    then show ?thesis by (simp add: mem)
  qed
  then show "\<not> (unat d \<le> unat x \<and> unat x < unat d + length f) \<Longrightarrow> hmem ?h x = hmem h x" .
  show "bytes_at (hmem ?h) d f"
    using src(1) n idx by (simp add: mem bytes_at_def word_less_nat_alt)
  have only: "hmem ?h x = hmem h x" if "\<not> payload j m x" for x using that out inside by blast
  then show "\<not> payload j m x \<Longrightarrow> hmem ?h x = hmem h x" .
  have same: "?h = h\<lparr> hmem := hmem ?h \<rparr>" by (simp add: hcopy_def)
  note wr = payload_write [OF ok b only, folded same]
  show "heap_ok ?h bs fl" "low_kept h ?h" "phys_ready lay (hmem h) \<Longrightarrow> below_allocator lay (extent bs) \<Longrightarrow> phys_ready lay (hmem ?h)"
    by (rule wr, assumption?)+
  show "users_kept h bs ?h bs {j}" using write_users [OF part b] only .
qed

text \<open>A word of a block.\<close>

lemma write_word:
  fixes h :: heap and v :: u32
  assumes ok: "heap_ok h bs fl" and b: "(j, m, True) \<in> set (blocks 0 bs)" and i: "unat i + 4 < m"
  defines "h' \<equiv> hput (haddr (j + 3)) i v h"
  shows "heap_ok h' bs fl" "low_kept h h'"
    "phys_ready lay (hmem h) \<Longrightarrow> below_allocator lay (extent bs) \<Longrightarrow> phys_ready lay (hmem h')"
    "users_kept h bs h' bs {j}" "word_at h' = (word_at h)(j + 3 + unat i := v)"
proof -
  note part = heap_ok_part [OF ok]
  note r = block_room [OF part b]
  have lim: "j + 3 + unat i < heap_limit" using i r(3) by simp
  have only: "hmem h' x = hmem h x" if "\<not> payload j m x" for x
  proof -
    have "x \<noteq> haddr (j + 3 + unat i) + k" if "unat k < 4" for k
      using \<open>\<not> payload j m x\<close> haddr_byte [OF lim that] payload_iff [OF part b, of x] i that by auto
    from this [of 0] this [of 1] this [of 2] this [of 3] show ?thesis
      by (simp add: h'_def hput_def wr32_def haddr_plus)
  qed
  have same: "h' = h\<lparr> hmem := hmem h' \<rparr>" by (simp add: h'_def hput_def)
  note wr = payload_write [OF ok b only, folded same]
  show "heap_ok h' bs fl" "low_kept h h'" "phys_ready lay (hmem h) \<Longrightarrow> below_allocator lay (extent bs) \<Longrightarrow> phys_ready lay (hmem h')"
    by (rule wr, assumption?)+
  show "users_kept h bs h' bs {j}" using write_users [OF part b] only .
  show "word_at h' = (word_at h)(j + 3 + unat i := v)" unfolding h'_def by (rule hput_word [OF lim])
qed

text \<open>A byte of a block.\<close>

lemma write_byte:
  fixes h :: heap and c :: u8
  assumes ok: "heap_ok h bs fl" and b: "(j, m, True) \<in> set (blocks 0 bs)" and i: "i < 4 * (m - 4)"
  defines "m' \<equiv> (hmem h)(haddr (j + 3) + of_nat i := c)"
  shows "\<forall>x. \<not> payload j m x \<longrightarrow> m' x = hmem h x" "low_kept h (h\<lparr> hmem := m' \<rparr>)" "users_kept h bs (h\<lparr> hmem := m' \<rparr>) bs {j}"
proof -
  note part = heap_ok_part [OF ok]
  show only: "\<forall>x. \<not> payload j m x \<longrightarrow> m' x = hmem h x" using payload_offset [OF part b i] by (auto simp: m'_def)
  then show "low_kept h (h\<lparr> hmem := m' \<rparr>)" using payload_write(2) [OF ok b] by blast
  show "users_kept h bs (h\<lparr> hmem := m' \<rparr>) bs {j}" using write_users [OF part b, of "h\<lparr> hmem := m' \<rparr>"] only by simp
qed

section \<open>The interface of the heap\<close>

text \<open>What the users of the heap rely on: an allocation returns NULL or a new block of the words asked for, it keeps the
  memory below the heap and the blocks of the others, and writing into a block in use keeps the heap.\<close>

definition new_block :: "(nat \<times> bool) list \<Rightarrow> (nat \<times> bool) list \<Rightarrow> nat \<Rightarrow> u32 \<Rightarrow> bool" where
  "new_block bs bs' words p \<longleftrightarrow> (\<exists>j m. p = haddr (j + 3) \<and> words \<le> m \<and> (j, m, True) \<in> set (blocks 0 bs') \<and> j \<notin> used_at 0 bs)"

locale block_allocator =
  fixes alloc :: "u32 \<Rightarrow> heap \<Rightarrow> (u32 \<times> heap) option" and ready :: "heap \<Rightarrow> (nat \<times> bool) list \<Rightarrow> bool" and room :: "nat \<Rightarrow> bool"
  assumes room_less: "room a \<Longrightarrow> b \<le> a \<Longrightarrow> room b"
    and sound: "ready h bs \<Longrightarrow> \<exists>fl. heap_ok h bs fl"
    and serves: "ready h bs \<Longrightarrow> n \<noteq> 0 \<Longrightarrow> room (extent bs + words_for n + 1024) \<Longrightarrow>
      \<exists>p h' bs'. alloc n h = Some (p, h') \<and> ready h' bs' \<and> extent bs' \<le> extent bs + words_for n + 1024 \<and>
        low_kept h h' \<and> users_kept h bs h' bs' {} \<and> (p = 0 \<or> new_block bs bs' (words_for n) p)"
    and writes: "ready h bs \<Longrightarrow> room (extent bs) \<Longrightarrow> (j, m, True) \<in> set (blocks 0 bs) \<Longrightarrow>
      \<forall>x. \<not> payload j m x \<longrightarrow> m' x = hmem h x \<Longrightarrow> ready (h\<lparr> hmem := m' \<rparr>) bs"
begin

text \<open>Copying bytes into a new block.\<close>

lemma alloc_copy:
  assumes r: "ready h bs" "n \<noteq> 0" "room (extent bs + words_for n + 1024)"
    and f: "bytes_at (hmem h) q f" "elsewhere bs {} q (length f)" "unat l = length f" "length f \<le> unat n"
  obtains p h1 bs' where "alloc n h = Some (p, h1)" "low_kept h h1" "ready (hcopy p q l h1) bs'"
    "extent bs' \<le> extent bs + words_for n + 1024" "low_kept h (hcopy p q l h1)" "users_kept h bs (hcopy p q l h1) bs' {}"
    "p = 0 \<and> hcopy p q l h1 = h1 \<or> new_block bs bs' (words_for n) p \<and> bytes_at (hmem (hcopy p q l h1)) p f"
proof -
  obtain fl where ok: "heap_ok h bs fl" using sound [OF r(1)] by blast
  obtain p h1 bs' where c: "alloc n h = Some (p, h1)" "ready h1 bs'" "extent bs' \<le> extent bs + words_for n + 1024"
    "low_kept h h1" "users_kept h bs h1 bs' {}" and p: "p = 0 \<or> new_block bs bs' (words_for n) p"
    using serves [OF r] by blast
  obtain fl1 where ok1: "heap_ok h1 bs' fl1" using sound [OF c(2)] by blast
  let ?h2 = "hcopy p q l h1"
  show ?thesis
  proof (cases "p = 0")
    case True
    then have "?h2 = h1" by (simp add: hcopy_def kmemcpy_def)
    then show ?thesis using that c True by simp
  next
    case False
    then obtain j m where j: "p = haddr (j + 3)" "words_for n \<le> m" "(j, m, True) \<in> set (blocks 0 bs')" "j \<notin> used_at 0 bs"
      using p by (auto simp: new_block_def)
    note kept = elsewhere_kept [OF heap_ok_part [OF ok] f(2) c(5,4)]
    have src: "bytes_at (hmem h1) q f" "elsewhere bs' {j} q (length f)" using kept(1) [OF _ f(1)] kept(2) [of "{j}"] j(4) by simp_all
    have fits: "0 + length f \<le> 4 * (m - 4)" using j(2) f(4) by (simp add: words_for_def)
    note wr = write_bytes [OF ok1 j(3) fits _ f(3) src, where d = p]
    have d: "p = haddr (j + 3) + of_nat 0" using j(1) by simp
    obtain m' where same: "?h2 = h1\<lparr> hmem := m' \<rparr>" unfolding hcopy_def by blast
    have "m' x = hmem h1 x" if "\<not> payload j m x" for x
    proof -
      have "hmem ?h2 x = hmem h1 x" using that by (intro wr(7) [OF d]) simp_all
      then show ?thesis unfolding same by simp
    qed
    then have re: "ready ?h2 bs'" unfolding same by (intro writes [OF c(2) room_less [OF r(3) c(3)] j(3)]) blast
    have us: "users_kept h bs ?h2 bs' {}" by (rule users_kept_trans [OF c(5) wr(5) [OF d]]) (use j(4) in simp_all)
    have low: "low_kept h ?h2" by (rule low_kept_trans [OF c(4) wr(3) [OF d]]) simp
    have "bytes_at (hmem ?h2) p f" by (rule wr(1) [OF d]) simp
    then show ?thesis using that [OF c(1,4) re c(3) low us] p False by blast
  qed
qed

end

text \<open>The kernel's heap behind \<open>kmalloc\<close>.\<close>

definition heap_ready :: "layout \<Rightarrow> page_map \<Rightarrow> heap \<Rightarrow> (nat \<times> bool) list \<Rightarrow> bool" where
  "heap_ready lay pg h bs \<longleftrightarrow> bs \<noteq> [] \<and> pages_quiet lay pg \<and> phys_ready lay (hmem h) \<and> (\<exists>fl. heap_ok h bs fl)"

interpretation kernel_heap: block_allocator "kmalloc pg lay" "heap_ready lay pg" "below_allocator lay"
proof unfold_locales
  show "below_allocator lay b" if "below_allocator lay a" "b \<le> a" for a b by (rule below_allocator_less [OF that])
  show "\<exists>fl. heap_ok h bs fl" if "heap_ready lay pg h bs" for h bs using that by (simp add: heap_ready_def)
  show "\<exists>p h' bs'. kmalloc pg lay n h = Some (p, h') \<and> heap_ready lay pg h' bs' \<and> extent bs' \<le> extent bs + words_for n + 1024 \<and>
      low_kept h h' \<and> users_kept h bs h' bs' {} \<and> (p = 0 \<or> new_block bs bs' (words_for n) p)"
    if r: "heap_ready lay pg h bs" "n \<noteq> 0" "below_allocator lay (extent bs + words_for n + 1024)" for h bs n
  proof -
    obtain fl where ok: "heap_ok h bs fl" "bs \<noteq> []" "pages_quiet lay pg" "phys_ready lay (hmem h)" using r(1) by (auto simp: heap_ready_def)
    from kmalloc_total [OF ok r(2,3)] obtain p h' bs' fl' where
      c: "kmalloc pg lay n h = Some (p, h')" "kmalloc_result lay h bs (words_for n) p h' bs' fl'" by blast
    note u = kmalloc_users [OF ok(1) c(2)]
    have "extent bs' \<le> extent bs + words_for n + 1024" "p = 0 \<or> new_block bs bs' (words_for n) p"
      using c(2) by (auto simp: kmalloc_result_def new_block_def split: if_splits)
    then show ?thesis using c(1) u ok(3) by (auto simp: heap_ready_def)
  qed
  show "heap_ready lay pg (h\<lparr> hmem := m' \<rparr>) bs"
    if r: "heap_ready lay pg h bs" "below_allocator lay (extent bs)" "(j, m, True) \<in> set (blocks 0 bs)" "\<forall>x. \<not> payload j m x \<longrightarrow> m' x = hmem h x"
    for h bs j m m'
  proof -
    obtain fl where ok: "heap_ok h bs fl" "bs \<noteq> []" "pages_quiet lay pg" "phys_ready lay (hmem h)" using r(1) by (auto simp: heap_ready_def)
    have "heap_ok (h\<lparr> hmem := m' \<rparr>) bs fl" "phys_ready lay m'"
      using payload_write(1) [OF ok(1) r(3)] payload_write(3) [OF ok(1) r(3) _ ok(4) r(2)] r(4) by blast+
    then show ?thesis using ok(2,3) by (auto simp: heap_ready_def)
  qed
qed

end
