(* ===== verification/BootFiles.thy ===== *)
theory BootFiles
  imports Elf HeapUse
begin

text \<open>
  From the boot module to the files: \<open>parse_headers\<close> (theory \<open>Elf\<close>) copies every file of the module to a
  block of the heap (theories \<open>HeapGrow\<close>, \<open>HeapUse\<close>), and the functions that look a file up by its name find
  the copy.  The module is a list of byte lists stored one after the other, \<open>archive\<close>.
\<close>

unbundle bit_operations_syntax

section \<open>The boot module\<close>

text \<open>Files one after the other, each with its size in the first word and at least a header long, and a size of 0.\<close>

fun archive :: "mem \<Rightarrow> u32 \<Rightarrow> u8 list list \<Rightarrow> bool" where
  "archive m a [] \<longleftrightarrow> rd32 m a = 0"
| "archive m a (f # fs) \<longleftrightarrow> rd32 m a = of_nat (length f) \<and> 128 \<le> length f \<and> bytes_at m a f \<and>
     archive m (a + of_nat (length f)) fs"

fun archive_size :: "u8 list list \<Rightarrow> nat" where
  "archive_size [] = 4"
| "archive_size (f # fs) = length f + archive_size fs"

lemma archive_size_ge: "4 \<le> archive_size fs"
  by (induction fs) auto

text \<open>An archive below the heap, and the bytes at its addresses.\<close>

definition low_archive :: "u32 \<Rightarrow> u8 list list \<Rightarrow> bool" where
  "low_archive a fs \<longleftrightarrow> 0 < unat a \<and> unat a + archive_size fs \<le> unat HEAP_START_ADDR"

lemma low_archive_Cons:
  assumes "low_archive a (f # fs)"
  shows "unat (a + of_nat (length f)) = unat a + length f" "low_archive (a + of_nat (length f)) fs"
    "\<And>i. i < length f \<Longrightarrow> unat (a + of_nat i) = unat a + i"
    "unat (of_nat (length f) :: u32) = length f"
proof -
  have b: "unat a + length f < 2 ^ 32" using assms archive_size_ge [of fs] unat_less_u32 [of HEAP_START_ADDR] by (simp add: low_archive_def)
  then show u: "unat (a + of_nat (length f)) = unat a + length f" by (rule unat_offset)
  show "low_archive (a + of_nat (length f)) fs" using assms unfolding low_archive_def u by auto
  show "\<And>i. i < length f \<Longrightarrow> unat (a + of_nat i) = unat a + i" using b by (intro unat_offset) simp
  show "unat (of_nat (length f) :: u32) = length f" using b by (simp add: unat_of_nat_small)
qed

lemma archive_frame:
  assumes "archive m a fs" "low_archive a fs"
    and "\<And>x. unat a \<le> unat x \<Longrightarrow> unat x < unat a + archive_size fs \<Longrightarrow> m' x = m x"
  shows "archive m' a fs"
  using assms
proof (induction fs arbitrary: a)
  case Nil
  have "unat (a + k) = unat a + unat k" if "unat k < 4" for k
    using Nil.prems(2) that unat_less_u32 [of HEAP_START_ADDR] by (intro unat_add_small) (simp add: low_archive_def)
  from this [of 1] this [of 2] this [of 3] show ?case using Nil.prems(1) Nil.prems(3) by (simp add: rd32_def)
next
  case (Cons f fs)
  note l = low_archive_Cons [OF Cons.prems(2)]
  have len: "128 \<le> length f" using Cons.prems(1) by simp
  have same: "m' (a + of_nat i) = m (a + of_nat i)" if "i < length f" for i
    using that l(3) [OF that] by (intro Cons.prems(3)) simp_all
  have "bytes_at m' a f" by (rule bytes_at_frame [of m, OF _ same]) (use Cons.prems(1) in simp_all)
  moreover have "m' (a + of_nat i) = m (a + of_nat i)" if "i < 128" for i using same [of i] that len by simp
  from this [of 0] this [of 1] this [of 2] this [of 3] have "rd32 m' a = rd32 m a" by (simp add: rd32_def)
  moreover have "archive m' (a + of_nat (length f)) fs"
    by (rule Cons.IH [OF _ l(2)]) (use Cons.prems(1,3) l(1) in simp_all)
  ultimately show ?case using Cons.prems(1) by simp
qed

text \<open>Mapping a page at its own address (\<open>idpg\<close>) may take a frame for a page table, so it changes the bits of the
  allocator, but keeps it intact; it changes neither the first \<open>w\<close> words of the heap nor the bytes at \<open>S\<close>, among
  which the module is.\<close>

definition region :: "u32 \<Rightarrow> nat \<Rightarrow> u32 set" where
  "region a n = {x. unat a \<le> unat x \<and> unat x < unat a + n}"

definition identity_quiet :: "layout \<Rightarrow> (u32 \<Rightarrow> mem \<Rightarrow> mem) \<Rightarrow> nat \<Rightarrow> u32 set \<Rightarrow> bool" where
  "identity_quiet lay idpg w S \<longleftrightarrow> (\<forall>p m. (phys_ready lay m \<longrightarrow> phys_ready lay (idpg p m)) \<and>
     (\<forall>x \<in> region HEAP_START_ADDR (4 * w) \<union> S. idpg p m x = m x))"

lemma map_file_effect:
  assumes "identity_quiet lay idpg w S"
  shows "x \<in> region HEAP_START_ADDR (4 * w) \<union> S \<Longrightarrow> hmem (map_file idpg b h) x = hmem h x"
    "heap_head (map_file idpg b h) = heap_head h"
    "last_free_virtual_address (map_file idpg b h) = last_free_virtual_address h"
    "phys_ready lay (hmem h) \<Longrightarrow> phys_ready lay (hmem (map_file idpg b h))"
proof -
  let ?P = "\<lambda>_ t. heap_head t = heap_head h \<and> last_free_virtual_address t = last_free_virtual_address h \<and>
    (\<forall>x \<in> region HEAP_START_ADDR (4 * w) \<union> S. hmem t x = hmem h x) \<and> (phys_ready lay (hmem h) \<longrightarrow> phys_ready lay (hmem t))"
  have "?P 0 (map_file idpg b h)"
    unfolding map_file_def Let_def
    by (rule for_up_invariant [where P = ?P]) (use assms in \<open>simp_all add: identity_quiet_def\<close>)
  then show "x \<in> region HEAP_START_ADDR (4 * w) \<union> S \<Longrightarrow> hmem (map_file idpg b h) x = hmem h x"
    "heap_head (map_file idpg b h) = heap_head h"
    "last_free_virtual_address (map_file idpg b h) = last_free_virtual_address h"
    "phys_ready lay (hmem h) \<Longrightarrow> phys_ready lay (hmem (map_file idpg b h))" by blast+
qed

text \<open>Such an effect keeps a heap of at most \<open>w\<close> words, its users and the archive.\<close>

lemma quiet_keeps:
  assumes same: "\<forall>x \<in> region HEAP_START_ADDR (4 * w) \<union> S. hmem h' x = hmem h x"
    and fields: "last_free_virtual_address h' = last_free_virtual_address h" "heap_head h' = heap_head h" and w: "extent bs \<le> w"
  shows "heap_ok h bs fl \<Longrightarrow> heap_ok h' bs fl" "heap_part h bs fl \<Longrightarrow> users_kept h bs h' bs {}"
    "region b (archive_size fs) \<subseteq> S \<Longrightarrow> low_archive b fs \<Longrightarrow> archive (hmem h) b fs \<Longrightarrow> archive (hmem h') b fs"
proof -
  have word: "word_at h' k = word_at h k" if "k < extent bs" for k
  proof (cases "k < heap_limit")
    case True
    have "haddr k + l \<in> region HEAP_START_ADDR (4 * w)" if "unat l < 4" for l
      using haddr_byte [OF True that] \<open>k < extent bs\<close> w that by (simp add: region_def)
    then show ?thesis using same by (intro word_at_cong [OF True]) blast
  qed (simp add: word_at_def)
  show "heap_ok h bs fl \<Longrightarrow> heap_ok h' bs fl" by (rule heap_ok_cong) (simp_all add: word fields)
  show "users_kept h bs h' bs {}" if part: "heap_part h bs fl"
  proof -
    have "x \<in> region HEAP_START_ADDR (4 * w)" if "(j, m, True) \<in> set (blocks 0 bs)" "payload j m x" for j m x
    proof -
      have "4 * (j + m - 1) \<le> 4 * w" using block_room(2) [OF part that(1)] w by simp
      then show ?thesis using that(2) payload_iff [OF part that(1)] by (simp add: region_def)
    qed
    then show ?thesis using same unfolding users_kept_def by blast
  qed
  show "archive (hmem h') b fs" if "region b (archive_size fs) \<subseteq> S" "low_archive b fs" "archive (hmem h) b fs"
    by (rule archive_frame [OF that(3,2)]) (use that(1) same in \<open>auto simp: region_def\<close>)
qed

section \<open>Copying the files\<close>

text \<open>A header pointer: NULL, or the payload of a block in use with a copy of the file.\<close>

definition copied :: "heap \<Rightarrow> (nat \<times> bool) list \<Rightarrow> u32 \<Rightarrow> u8 list \<Rightarrow> bool" where
  "copied h bs p f \<longleftrightarrow> p = 0 \<or> (\<exists>j m. p = haddr (j + 3) \<and> (j, m, True) \<in> set (blocks 0 bs) \<and> length f \<le> 4 * (m - 4) \<and>
     bytes_at (hmem h) p f)"

lemma copied_kept:
  assumes part: "heap_part h bs fl" and c: "copied h bs p f" and kept: "users_kept h bs h' bs' {}"
  shows "copied h' bs' p f"
proof (cases "p = 0")
  case False
  then obtain j m where j: "p = haddr (j + 3)" "(j, m, True) \<in> set (blocks 0 bs)" "length f \<le> 4 * (m - 4)" "bytes_at (hmem h) p f"
    using c by (auto simp: copied_def)
  have k: "(j, m, True) \<in> set (blocks 0 bs')" "\<And>x. payload j m x \<Longrightarrow> hmem h' x = hmem h x"
    using kept j(2) by (auto simp: users_kept_def)
  have "bytes_at (hmem h') p f"
    by (rule bytes_at_frame [OF j(4)]) (use j(1,3) payload_offset [OF part j(2)] k(2) in simp)
  then show ?thesis using j k(1) unfolding copied_def by blast
qed (simp add: copied_def)

text \<open>One file is copied.\<close>

lemma copy_file:
  assumes ok: "heap_ok h bs fl" "bs \<noteq> []" "pages_quiet lay pg" "phys_ready lay (hmem h)"
    and f: "bytes_at (hmem h) a f" "0 < length f" "low_archive a (f # fs)"
    and room: "below_allocator lay (extent bs + words_for (of_nat (length f)) + 1024)"
  obtains p h1 h2 bs' fl' where "kmalloc pg lay (of_nat (length f)) h = Some (p, h1)"
    "h2 = h1\<lparr> hmem := snd (kmemcpy (hmem h1) p a (of_nat (length f))) \<rparr>" "low_kept h h1"
    "heap_ok h2 bs' fl'" "bs' \<noteq> []" "phys_ready lay (hmem h2)" "extent bs' \<le> extent bs + words_for (of_nat (length f)) + 1024"
    "low_kept h h2" "copied h2 bs' p f" "\<And>q g. copied h bs q g \<Longrightarrow> copied h2 bs' q g"
proof -
  let ?n = "of_nat (length f) :: u32"
  have n: "length f < 2 ^ 32" "unat ?n = length f" "?n \<noteq> 0"
    using low_archive_Cons(4) [OF f(3)] f(2) unat_less_u32 [of ?n] by (auto simp: word_unat_eq_iff)
  have "heap_ready lay pg h bs" "elsewhere bs {} a (length f)"
    using ok f(3) by (auto simp: heap_ready_def elsewhere_def low_archive_def)
  from kernel_heap.alloc_copy [OF this(1) n(3) room f(1) this(2) n(2)] n(2) obtain p h1 bs' where
    call: "kmalloc pg lay ?n h = Some (p, h1)" "low_kept h h1" and re: "heap_ready lay pg (hcopy p a ?n h1) bs'"
    and h2: "extent bs' \<le> extent bs + words_for ?n + 1024" "low_kept h (hcopy p a ?n h1)" "users_kept h bs (hcopy p a ?n h1) bs' {}"
    and p: "p = 0 \<or> new_block bs bs' (words_for ?n) p \<and> bytes_at (hmem (hcopy p a ?n h1)) p f" by (metis order_refl)
  have "copied (hcopy p a ?n h1) bs' p f" using p n(1) by (fastforce simp: copied_def new_block_def words_for_length)
  moreover have "copied (hcopy p a ?n h1) bs' q g" if "copied h bs q g" for q g
    by (rule copied_kept [OF heap_ok_part [OF ok(1)] that h2(3)])
  moreover obtain fl' where "heap_ok (hcopy p a ?n h1) bs' fl'" "bs' \<noteq> []" "phys_ready lay (hmem (hcopy p a ?n h1))"
    using re by (auto simp: heap_ready_def)
  ultimately show ?thesis using that [OF call(1) _ call(2) _ _ _ h2(1)] h2(2) unfolding hcopy_def by blast
qed

lemma low_kept_archive:
  assumes "archive (hmem h) a fs" "low_archive a fs" "low_kept h h'"
  shows "archive (hmem h') a fs"
  by (rule archive_frame [OF assms(1,2)]) (use assms(2,3) in \<open>auto simp: low_kept_def low_archive_def word_less_nat_alt\<close>)

text \<open>Mapping a file's pages keeps the archive, the heap, the allocator and the copies.\<close>

lemma map_file_keeps:
  fixes h :: heap and a :: u32
  assumes "identity_quiet lay idpg w S" and w: "extent bs \<le> w"
  defines "h' \<equiv> map_file idpg a h"
  shows "region b (archive_size fs) \<subseteq> S \<Longrightarrow> low_archive b fs \<Longrightarrow> archive (hmem h) b fs \<Longrightarrow> archive (hmem h') b fs"
    "heap_ok h bs fl \<Longrightarrow> heap_ok h' bs fl" "phys_ready lay (hmem h) \<Longrightarrow> phys_ready lay (hmem h')"
    "heap_part h bs fl \<Longrightarrow> copied h bs q g \<Longrightarrow> copied h' bs q g"
proof -
  note m = map_file_effect [OF assms(1), where b = a and h = h, folded h'_def]
  have "\<forall>x \<in> region HEAP_START_ADDR (4 * w) \<union> S. hmem h' x = hmem h x" using m(1) by blast
  note k = quiet_keeps [OF this m(3,2) w]
  show "region b (archive_size fs) \<subseteq> S \<Longrightarrow> low_archive b fs \<Longrightarrow> archive (hmem h) b fs \<Longrightarrow> archive (hmem h') b fs"
    "heap_ok h bs fl \<Longrightarrow> heap_ok h' bs fl" using k(1,3) by blast+
  show "phys_ready lay (hmem h) \<Longrightarrow> phys_ready lay (hmem h')" by (rule m(4))
  show "heap_part h bs fl \<Longrightarrow> copied h bs q g \<Longrightarrow> copied h' bs q g" using copied_kept k(2) by blast
qed

section \<open>The list of files\<close>

text \<open>The words that copies of the files may take.\<close>

definition words_for_files :: "u8 list list \<Rightarrow> nat" where
  "words_for_files fs = sum_list (map (\<lambda>f. words_for (of_nat (length f)) + 1024) fs)"

lemma parse_headers_copies:
  assumes "heap_ok h bs fl" "bs \<noteq> []" "pages_quiet lay pg" "phys_ready lay (hmem h)"
    and "archive (hmem h) a fs" "low_archive a fs" "identity_quiet lay idpg w S" "region a (archive_size fs) \<subseteq> S"
    and "extent bs + words_for_files (take (32 - length ps) fs) \<le> w" "below_allocator lay w"
    and "list_all2 (copied h bs) ps gs" "length ps \<le> 32"
  shows "\<exists>ps' h' bs' fl'. parse_headers idpg pg lay a ps h = Some (ps', h') \<and> heap_ok h' bs' fl' \<and>
    list_all2 (copied h' bs') ps' (gs @ take (32 - length ps) fs)"
  using assms
proof (induction fs arbitrary: a h bs fl ps gs)
  case Nil
  then show ?case by (subst parse_headers.simps) auto
next
  case (Cons f fs)
  note prems = Cons.prems
  let ?h = "map_file idpg a h"
  note l = low_archive_Cons [OF prems(6)]
  have "extent bs \<le> w" using prems(9) by simp
  note keeps = map_file_keeps [OF prems(7) this, where a = a and h = h]
  have f: "rd32 (hmem h) a = of_nat (length f)" "0 < length f" using prems(5) by auto
  have nz: "(of_nat (length f) :: u32) \<noteq> 0" using l(4) f(2) by (metis less_irrefl unat_0)
  have ar: "archive (hmem ?h) a (f # fs)" by (rule keeps(1) [OF prems(8,6,5)])
  have ok: "heap_ok ?h bs fl" "phys_ready lay (hmem ?h)" using keeps(2) [OF prems(1)] keeps(3) [OF prems(4)] .
  have old: "list_all2 (copied ?h bs) ps gs"
    using prems(11) keeps(4) [OF heap_ok_part [OF prems(1)]] by (rule list_all2_mono)
  show ?case
  proof (cases "length ps < 32")
    case False
    then have "parse_headers idpg pg lay a ps h = Some (ps, ?h)" using f(1) nz by (subst parse_headers.simps) simp
    then show ?thesis using ok(1) old False by auto
  next
    case True
    let ?words = "words_for (of_nat (length f))"
    have "32 - length ps = Suc (31 - length ps)" using True by simp
    then have take: "take (32 - length ps) (f # fs) = f # take (31 - length ps) fs" by simp
    then have room: "extent bs + ?words + 1024 + words_for_files (take (31 - length ps) fs) \<le> w"
      using prems(9) by (simp add: words_for_files_def add_ac)
    have room': "below_allocator lay (extent bs + ?words + 1024)" by (rule below_allocator_less [OF prems(10)]) (use room in simp)
    obtain p h1 h2 bs' fl' where c: "kmalloc pg lay (of_nat (length f)) ?h = Some (p, h1)"
      "h2 = h1\<lparr> hmem := snd (kmemcpy (hmem h1) p a (of_nat (length f))) \<rparr>" "low_kept ?h h1"
      and r: "heap_ok h2 bs' fl'" "bs' \<noteq> []" "phys_ready lay (hmem h2)" "extent bs' \<le> extent bs + ?words + 1024"
      "low_kept ?h h2" "copied h2 bs' p f" "\<And>q g. copied ?h bs q g \<Longrightarrow> copied h2 bs' q g"
      by (rule copy_file [OF ok(1) prems(2,3) ok(2) _ f(2) prems(6) room']) (use ar in simp_all)
    have "rd32 (hmem h1) a = of_nat (length f)" "rd32 (hmem h2) a = of_nat (length f)" "rd32 (hmem ?h) a = of_nat (length f)"
      and ar2: "archive (hmem h2) (a + of_nat (length f)) fs"
      using low_kept_archive [OF ar prems(6) c(3)] low_kept_archive [OF ar prems(6) r(5)] ar by simp_all
    then have step: "parse_headers idpg pg lay a ps h = parse_headers idpg pg lay (a + of_nat (length f)) (ps @ [p]) h2"
      using f(1) nz True c(1,2) by (subst parse_headers.simps) (simp add: Let_def)
    have "list_all2 (copied h2 bs') (ps @ [p]) (gs @ [f])"
      using old r(6,7) by (auto intro!: list_all2_appendI elim: list_all2_mono)
    then have "\<exists>ps' h' bs'' fl''. parse_headers idpg pg lay (a + of_nat (length f)) (ps @ [p]) h2 = Some (ps', h') \<and> heap_ok h' bs'' fl'' \<and>
      list_all2 (copied h' bs'') ps' ((gs @ [f]) @ take (32 - length (ps @ [p])) fs)"
    proof (intro Cons.IH [OF r(1,2) prems(3) r(3) ar2 l(2) prems(7) _ _ prems(10)])
      show "region (a + of_nat (length f)) (archive_size fs) \<subseteq> S" using prems(8) l(1) by (auto simp: region_def)
      show "extent bs' + words_for_files (take (32 - length (ps @ [p])) fs) \<le> w" using room r(4) by simp
    qed (use True in simp_all)
    then show ?thesis unfolding step take by simp
  qed
qed

section \<open>Looking a file up\<close>

definition header_name :: "u8 list \<Rightarrow> u8 list" where
  "header_name f = takeWhile (\<lambda>c. c \<noteq> 0) (drop 4 f)"

definition contents :: "u8 list \<Rightarrow> u8 list" where
  "contents f = drop 128 f"

text \<open>A file with its size in the first word and a terminated name, stored at \<open>p\<close>.\<close>

definition stored_file :: "mem \<Rightarrow> u32 \<Rightarrow> u8 list \<Rightarrow> bool" where
  "stored_file m p f \<longleftrightarrow> p \<noteq> 0 \<and> p + 4 \<noteq> 0 \<and> bytes_at m p f \<and> rd32 m p = of_nat (length f) \<and> 128 \<le> length f \<and>
     length f < 2 ^ 32 \<and> 0 \<in> set (drop 4 f)"

lemma takeWhile_end: "x \<in> set xs \<Longrightarrow> \<not> P x \<Longrightarrow> length (takeWhile P xs) < length xs \<and> \<not> P (xs ! length (takeWhile P xs))"
  by (induction xs) auto

lemma stored_file_name:
  assumes "stored_file m p f"
  shows "cstr m (p + 4) (header_name f)"
proof (rule cstrI)
  have byte: "m (p + 4 + of_nat i) = f ! (4 + i)" if "i < length (drop 4 f)" for i
  proof -
    have "4 + i < length f" using that by simp
    then have "m (p + of_nat (4 + i)) = f ! (4 + i)" using assms unfolding stored_file_def bytes_at_def by blast
    then show ?thesis by (simp add: add.assoc)
  qed
  have stop: "length (header_name f) < length (drop 4 f)" "drop 4 f ! length (header_name f) = 0"
    using takeWhile_end [of 0 "drop 4 f" "\<lambda>c. c \<noteq> 0"] assms by (auto simp: header_name_def stored_file_def)
  show "m (p + 4 + of_nat i) = header_name f ! i" if "i < length (header_name f)" for i
    using that stop(1) byte [of i] by (simp add: header_name_def takeWhile_nth)
  show "m (p + 4 + of_nat (length (header_name f))) = 0" using stop byte by simp
  show "0 \<notin> set (header_name f)" by (auto simp: header_name_def dest: set_takeWhileD)
qed

lemma lookup_file:
  assumes "list_all2 (stored_file m) ps gs" "q \<noteq> 0" "cstr m q name"
  shows "get_file_header_from_list m q ps = Some (case find (\<lambda>(p, f). header_name f = name) (zip ps gs) of None \<Rightarrow> 0 | Some (p, f) \<Rightarrow> p)"
  using assms(1)
proof (induction rule: list_all2_induct)
  case (Cons p ps f gs)
  note name = stored_file_name [OF Cons.hyps(1)]
  have "p + 4 \<noteq> 0" using Cons.hyps(1) by (simp add: stored_file_def)
  with assms(2,3) name have "kstrcmp m q (p + 4) = Some (cmp_spec name (header_name f))" by (intro kstrcmp_cstr)
  moreover have "cmp_spec name (header_name f) = 0 \<longleftrightarrow> header_name f = name"
    using cmp_spec_eq_0 [OF cstr_nonzero [OF assms(3)] cstr_nonzero [OF name]] by auto
  ultimately show ?case using Cons.IH by simp
qed simp

text \<open>What is printed: the contents of the first file of that name.\<close>

lemma print_stored:
  assumes "list_all2 (stored_file m) ps gs" "q \<noteq> 0" "cstr m q name"
  shows "print_file m ps q = Some (case find (\<lambda>f. header_name f = name) gs of None \<Rightarrow> [] | Some f \<Rightarrow> contents f)"
proof -
  have lookup: "\<exists>p. (find (\<lambda>f. header_name f = name) gs = None \<and> p = 0 \<or>
      (\<exists>f. find (\<lambda>f. header_name f = name) gs = Some f \<and> stored_file m p f)) \<and> get_file_header_from_list m q ps = Some p"
    unfolding lookup_file [OF assms] using assms(1)
    by (induction rule: list_all2_induct) auto
  have printed: "map (\<lambda>i. m (p + HEADER_SIZE + of_nat i)) [0..<unat (rd32 m p - HEADER_SIZE)] = contents f"
    if "stored_file m p f" for p f
  proof (rule nth_equalityI)
    have "unat (rd32 m p) = length f" using that by (simp add: stored_file_def unat_of_nat_small)
    moreover have "unat (128 :: u32) \<le> unat (rd32 m p)" using calculation that by (simp add: stored_file_def)
    ultimately have n: "unat (rd32 m p - HEADER_SIZE) = length f - 128"
      by (simp add: HEADER_SIZE_def unat_sub word_le_nat_alt)
    then show "length (map (\<lambda>i. m (p + HEADER_SIZE + of_nat i)) [0..<unat (rd32 m p - HEADER_SIZE)]) = length (contents f)"
      by (simp add: contents_def)
    fix i assume "i < length (map (\<lambda>i. m (p + HEADER_SIZE + of_nat i)) [0..<unat (rd32 m p - HEADER_SIZE)])"
    then have i: "i < length f - 128" by (simp add: n)
    then have "128 + i < length f" by simp
    then have "m (p + of_nat (128 + i)) = f ! (128 + i)" using that unfolding stored_file_def bytes_at_def by blast
    then show "map (\<lambda>i. m (p + HEADER_SIZE + of_nat i)) [0..<unat (rd32 m p - HEADER_SIZE)] ! i = contents f ! i"
      using i by (simp add: n [unfolded HEADER_SIZE_def] contents_def HEADER_SIZE_def add.assoc)
  qed
  show ?thesis using lookup printed by (auto simp: print_file_def stored_file_def)
qed

lemma bytes_at_size:
  assumes "bytes_at m p f" "bytes_at m' p' f" "4 \<le> length f"
  shows "rd32 m p = rd32 m' p'"
proof -
  have "m (p + of_nat i) = m' (p' + of_nat i)" if "i < 4" for i using assms that by (simp add: bytes_at_def)
  from this [of 0] this [of 1] this [of 2] this [of 3] show ?thesis by (simp add: rd32_def)
qed

text \<open>The copies of the files of an archive are stored files.\<close>

lemma archive_sizes:
  "archive m a fs \<Longrightarrow> low_archive a fs \<Longrightarrow> f \<in> set fs \<Longrightarrow>
     128 \<le> length f \<and> length f < 2 ^ 32 \<and> (\<forall>m' p. bytes_at m' p f \<longrightarrow> rd32 m' p = of_nat (length f))"
proof (induction fs arbitrary: a)
  case (Cons g fs)
  note l = low_archive_Cons [OF Cons.prems(2)]
  show ?case
  proof (cases "f = g")
    case True
    then have "bytes_at m a f" "rd32 m a = of_nat (length f)" "128 \<le> length f" using Cons.prems(1) by simp_all
    moreover have "length f < 2 ^ 32" using l(4) True unat_less_u32 [of "of_nat (length f)"] by simp
    moreover have "rd32 m' p = of_nat (length f)" if "bytes_at m' p f" for m' p
      using bytes_at_size [OF that calculation(1)] calculation(2,3) by simp
    ultimately show ?thesis by blast
  next
    case False
    then show ?thesis using Cons.IH [OF _ l(2)] Cons.prems by simp
  qed
qed simp

lemma copied_stored:
  assumes ok: "heap_ok h bs fl" and c: "copied h bs p f" "p \<noteq> 0" and f: "archive m a fs" "low_archive a fs" "f \<in> set fs" "0 \<in> set (drop 4 f)"
  shows "stored_file (hmem h) p f"
proof -
  note size = archive_sizes [OF f(1-3)]
  obtain j k where j: "p = haddr (j + 3)" "(j, k, True) \<in> set (blocks 0 bs)" "bytes_at (hmem h) p f"
    using c by (auto simp: copied_def)
  note r = block_room [OF heap_ok_part [OF ok] j(2)]
  have "unat (p + of_nat 4) = unat p + 4" using r(5) c(1,2) size j r(1,3,4) by (intro unat_offset) (simp add: heap_start heap_limit_def)
  then have "p + 4 \<noteq> 0" by (auto simp: word_unat_eq_iff)
  then show ?thesis using size j(3) c(2) f(4) by (simp add: stored_file_def)
qed

text \<open>From the boot module to a file's contents.  For a module of files with terminated names below the
  heap, \<open>parse_headers\<close> returns, with a well-formed heap and a copy of each of the first 32 files; when no allocation
  failed, \<open>print_file\<close> with a name prints exactly the contents of the first of these files that has the name, and
  nothing when there is none.\<close>

lemma boot_files_found:
  assumes "heap_ok h bs fl" "bs \<noteq> []" "pages_quiet lay pg" "phys_ready lay (hmem h)"
    and "archive (hmem h) a fs" "low_archive a fs" "\<forall>f \<in> set fs. 0 \<in> set (drop 4 f)"
    and "identity_quiet lay idpg w S" "region a (archive_size fs) \<subseteq> S" "extent bs + words_for_files (take 32 fs) \<le> w" "below_allocator lay w"
  shows "\<exists>ps h' bs' fl'. parse_headers idpg pg lay a [] h = Some (ps, h') \<and> heap_ok h' bs' fl' \<and> length ps = min 32 (length fs) \<and>
    (0 \<notin> set ps \<longrightarrow> (\<forall>q name. q \<noteq> 0 \<and> cstr (hmem h') q name \<longrightarrow>
       print_file (hmem h') ps q =
         Some (case find (\<lambda>f. header_name f = name) (take 32 fs) of None \<Rightarrow> [] | Some f \<Rightarrow> contents f)))"
proof -
  from parse_headers_copies [OF assms(1-6,8,9) _ assms(11), of "[]" "[]"] assms(10) obtain ps h' bs' fl' where
    p: "parse_headers idpg pg lay a [] h = Some (ps, h')" "heap_ok h' bs' fl'" "list_all2 (copied h' bs') ps (take 32 fs)"
    by auto
  have "list_all2 (stored_file (hmem h')) ps (take 32 fs)" if "0 \<notin> set ps"
  proof (rule list_all2_all_nthI)
    fix i assume i: "i < length ps"
    have "take 32 fs ! i \<in> set (take 32 fs)" using i list_all2_lengthD [OF p(3)] by (intro nth_mem) simp
    then have "take 32 fs ! i \<in> set fs" by (rule in_set_takeD)
    moreover have "copied h' bs' (ps ! i) (take 32 fs ! i)" using p(3) i by (rule list_all2_nthD)
    moreover have "ps ! i \<noteq> 0" using that i nth_mem by metis
    ultimately show "stored_file (hmem h') (ps ! i) (take 32 fs ! i)" using copied_stored [OF p(2) _ _ assms(5,6)] assms(7) by blast
  qed (rule list_all2_lengthD [OF p(3)])
  then show ?thesis using p(1,2) list_all2_lengthD [OF p(3)] print_stored by (auto simp: min.commute)
qed

end
