(* ===== verification/KernelMain.thy ===== *)
theory KernelMain
  imports BootFiles BootProps
begin

text \<open>
  The part of \<open>kernel_main\<close> (arch/i686/boot/kernel.c) that turns the multiboot information into the list of files:
  the search for the module and \<open>parse_headers\<close>.  It
  composes the physical allocator, the heap, the boot information (theory \<open>Boot\<close>) and the file list (theory \<open>Elf\<close>).
\<close>

unbundle bit_operations_syntax

definition kernel_main_files ::
  "(u32 \<Rightarrow> mem \<Rightarrow> mem) \<Rightarrow> page_map \<Rightarrow> layout \<Rightarrow> u32 \<Rightarrow> heap \<Rightarrow> (u32 list \<times> heap) option" where
  "kernel_main_files idpg pg lay mboot_header h =
     do {
       (addr, m) \<leftarrow> module_start idpg mboot_header (hmem h);
       parse_headers idpg pg lay addr [] (h\<lparr> hmem := m \<rparr>)
     }"

section \<open>The search for the module\<close>

text \<open>The address behind the last tag, and the bytes of a tag that are read.\<close>

fun tags_end :: "mem \<Rightarrow> u32 \<Rightarrow> (u32 \<times> u32) list \<Rightarrow> u32" where
  "tags_end m a [] = a"
| "tags_end m a (_ # ts) = tags_end m (next_tag a (rd32 m (a + 4))) ts"

definition word_bytes :: "u32 \<Rightarrow> nat \<Rightarrow> u32 set" where
  "word_bytes b n = (\<lambda>k. b + of_nat k) ` {..<n}"

lemma rd32_same:
  assumes "\<forall>x \<in> S. m' x = m x" "word_bytes b 12 \<subseteq> S" "k \<le> 8"
  shows "rd32 m' (b + of_nat k) = rd32 m (b + of_nat k)"
proof -
  have "m' (b + of_nat i) = m (b + of_nat i)" if "i < 12" for i using assms(1,2) that by (auto simp: word_bytes_def)
  from this [of k] this [of "k + 1"] this [of "k + 2"] this [of "k + 3"] show ?thesis
    using assms(3) by (simp add: rd32_def add_ac)
qed

lemma find_module_quiet:
  assumes "tags_at m a ts" and quiet: "identity_quiet lay idpg w S"
    and "\<forall>b \<in> fst ` set ts \<union> {tags_end m a ts}. word_bytes b 12 \<subseteq> S" and "\<forall>x \<in> S. m1 x = m x"
  shows "\<exists>m'. find_module idpg a module m1 = Some (last_module ts module, m') \<and>
    (\<forall>x \<in> region HEAP_START_ADDR (4 * w) \<union> S. m' x = m1 x) \<and> (phys_ready lay m1 \<longrightarrow> phys_ready lay m')"
  using assms(1,3,4)
proof (induction arbitrary: module m1 rule: tags_at.induct)
  case (last a)
  then have "rd32 m1 a = rd32 m a" using rd32_same [of S m1 m a 0] by simp
  then show ?case using last by (subst find_module.simps) (simp add: last_module_def)
next
  case (tag a ts)
  let ?m2 = "idpg (a AND 0xFFFFF000) m1"
  have a: "word_bytes a 12 \<subseteq> S" using tag.prems(1) by simp
  have m2: "\<forall>x \<in> region HEAP_START_ADDR (4 * w) \<union> S. ?m2 x = m1 x" "phys_ready lay m1 \<longrightarrow> phys_ready lay ?m2"
    using quiet by (simp_all add: identity_quiet_def)
  then have same: "\<forall>x \<in> S. ?m2 x = m x" using tag.prems(2) by simp
  have r: "rd32 m1 a = rd32 m a" "rd32 ?m2 a = rd32 m a" "rd32 ?m2 (a + 4) = rd32 m (a + 4)"
    using rd32_same [OF tag.prems(2) a, of 0] rd32_same [OF same a, of 0] rd32_same [OF same a, of 4] by simp_all
  have "\<forall>b \<in> fst ` set ts \<union> {tags_end m (next_tag a (rd32 m (a + 4))) ts}. word_bytes b 12 \<subseteq> S" using tag.prems(1) by simp
  from tag.IH [OF this same, of "if rd32 m a = MULTIBOOT_TAG_TYPE_MODULE then a else module"] obtain m' where
    "find_module idpg (next_tag a (rd32 m (a + 4))) (if rd32 m a = MULTIBOOT_TAG_TYPE_MODULE then a else module) ?m2 =
      Some (last_module ((a, rd32 m a) # ts) module, m')"
    "\<forall>x \<in> region HEAP_START_ADDR (4 * w) \<union> S. m' x = ?m2 x" "phys_ready lay ?m2 \<longrightarrow> phys_ready lay m'"
    unfolding last_module_Cons by blast
  moreover from this(1) have "find_module idpg a module m1 = Some (last_module ((a, rd32 m a) # ts) module, m')"
    using r tag.hyps(1) by (subst find_module.simps) (simp add: Let_def)
  ultimately show ?case using m2 by auto
qed

lemma last_module_in: "last_module ts 0 \<noteq> 0 \<Longrightarrow> last_module ts 0 \<in> fst ` set ts"
proof (cases "filter (\<lambda>t. snd t = MULTIBOOT_TAG_TYPE_MODULE) ts")
  case (Cons t us)
  then have "last (t # us) \<in> set ts" using last_in_set [of "t # us"] by (metis filter_is_subset list.distinct(1) subsetD)
  then show ?thesis using Cons by (simp add: last_module_def)
qed (simp add: last_module_def)

lemma module_start_quiet:
  assumes tags: "tags_at m (mboot_header + 8) ts" "\<forall>b \<in> fst ` set ts \<union> {tags_end m (mboot_header + 8) ts}. word_bytes b 12 \<subseteq> S"
    and quiet: "identity_quiet lay idpg w S" and module: "last_module ts 0 \<noteq> 0"
  shows "\<exists>m'. module_start idpg mboot_header m = Some (rd32 m (last_module ts 0 + 8), m') \<and>
    (\<forall>x \<in> region HEAP_START_ADDR (4 * w) \<union> S. m' x = m x) \<and> (phys_ready lay m \<longrightarrow> phys_ready lay m')"
proof -
  let ?tag = "mboot_header + 8"
  let ?m1 = "idpg (?tag AND 0xFFFFF000) (idpg (mboot_header AND 0xFFFFF000) m)"
  have one: "\<forall>x \<in> region HEAP_START_ADDR (4 * w) \<union> S. idpg p t x = t x" "phys_ready lay t \<longrightarrow> phys_ready lay (idpg p t)" for p t
    using quiet by (simp_all add: identity_quiet_def)
  have m1: "\<forall>x \<in> region HEAP_START_ADDR (4 * w) \<union> S. ?m1 x = m x" "phys_ready lay m \<longrightarrow> phys_ready lay ?m1" using one by simp_all
  then have "\<forall>x \<in> S. ?m1 x = m x" by simp
  from find_module_quiet [OF tags(1) quiet tags(2) this] obtain m2 where
    m2: "find_module idpg ?tag 0 ?m1 = Some (last_module ts 0, m2)"
      "\<forall>x \<in> region HEAP_START_ADDR (4 * w) \<union> S. m2 x = ?m1 x" "phys_ready lay ?m1 \<longrightarrow> phys_ready lay m2" by blast
  have "last_module ts 0 \<in> fst ` set ts" using module by (rule last_module_in)
  then have "word_bytes (last_module ts 0) 12 \<subseteq> S" using tags(2) by blast
  then have "rd32 m2 (last_module ts 0 + 8) = rd32 m (last_module ts 0 + 8)"
    using rd32_same [of S m2 m "last_module ts 0" 8] m1 m2 by simp
  then show ?thesis using m1 m2 one by (simp add: module_start_def Let_def)
qed

section \<open>Properties\<close>


text \<open>A module with one file, of the name b with the contents hi, and the loader's information about it.\<close>

definition sample_file :: "u8 list" where
  "sample_file = [130, 0, 0, 0, 98] @ replicate 123 0 @ [104, 105]"

definition with_module :: "heap \<Rightarrow> heap" where
  "with_module h = h\<lparr> hmem := \<lambda>x. if x < 0x2000 then (if 0x1000 \<le> x \<and> unat x - 4096 < 130 then sample_file ! (unat x - 4096)
       else if x = 0x1808 then 3 else if x = 0x180C then 16 else if x = 0x1811 then 16 else 0)
     else hmem h x \<rparr>"

lemma with_module_keeps:
  "heap_ok h bs fl \<Longrightarrow> heap_ok (with_module h) bs fl"
  "phys_ready lay (hmem h) \<Longrightarrow> below_allocator lay k \<Longrightarrow> phys_ready lay (hmem (with_module h))"
  by (rule high_same; auto simp: with_module_def heap_start word_le_nat_alt word_less_nat_alt)+

lemma sample_file_facts: "length sample_file = 130" "0 \<in> set (drop 4 sample_file)" "header_name sample_file = [98]" "contents sample_file = [104, 105]"
  by (simp_all add: sample_file_def header_name_def contents_def)

lemma sample_archive: "archive (hmem (with_module h)) 0x1000 [sample_file]" "low_archive 0x1000 [sample_file]"
proof -
  have byte: "hmem (with_module h) (0x1000 + of_nat i) = (if i < 130 then sample_file ! i else 0)" if "i < 200" for i
  proof -
    have "unat (0x1000 + of_nat i :: u32) = 4096 + i" using that unat_offset [of "0x1000" i] by simp
    moreover from this have "(0x1000 + of_nat i :: u32) \<notin> {0x1808, 0x180C, 0x1811}" using that by (auto simp: word_unat_eq_iff)
    ultimately show ?thesis using that by (simp add: with_module_def word_less_nat_alt word_le_nat_alt)
  qed
  have "rd32 (hmem (with_module h)) 0x1000 = 130"
    using byte [of 0] byte [of 1] byte [of 2] byte [of 3] by (simp add: rd32_def sample_file_def)
  moreover have "rd32 (hmem (with_module h)) 4226 = 0"
    using byte [of 130] byte [of 131] byte [of 132] byte [of 133] by (simp add: rd32_def)
  ultimately show "archive (hmem (with_module h)) 0x1000 [sample_file]"
    using byte by (simp add: bytes_at_def sample_file_facts)
  show "low_archive 0x1000 [sample_file]" by (simp add: low_archive_def sample_file_facts heap_start)
qed

lemma map_file_identity: "map_file (\<lambda>_ m. m) file h = h"
proof -
  have "(\<lambda>i :: u32. \<lambda>t :: heap. t\<lparr> hmem := hmem t \<rparr>) = (\<lambda>_ t. t)" by simp
  then show ?thesis unfolding map_file_def Let_def by (simp add: for_up_noop)
qed

text \<open>\<open>parse_headers\<close> only appends to the list of headers.\<close>

lemma parse_headers_prefix:
  assumes "parse_headers idpg pg lay file ps h = Some (ps', h')"
  shows "\<exists>qs. ps' = ps @ qs"
proof -
  have "\<exists>qs. fst r = ps @ qs" if r: "parse_headers idpg pg lay file ps h = Some r" for r
  proof (rule parse_headers.raw_induct [where P = "\<lambda>idpg pg lay file ps h r. \<exists>qs. fst r = ps @ qs", OF _ r])
    fix parse :: "(u32 \<Rightarrow> mem \<Rightarrow> mem) \<Rightarrow> page_map \<Rightarrow> layout \<Rightarrow> u32 \<Rightarrow> u32 list \<Rightarrow> heap \<Rightarrow> (u32 list \<times> heap) option"
      and idpg pg lay a ps h r
    assume ih: "\<And>idpg pg lay a ps h r. parse idpg pg lay a ps h = Some r \<Longrightarrow> \<exists>qs. fst r = ps @ qs"
      and eq: "(if rd32 (hmem h) a = 0 then Some (ps, h)
        else if length ps \<ge> 32 then Some (ps, map_file idpg a h)
        else do {
          (new_file_header, h2) \<leftarrow> kmalloc pg lay (rd32 (hmem (map_file idpg a h)) a) (map_file idpg a h);
          let h3 = h2\<lparr> hmem := snd (kmemcpy (hmem h2) new_file_header a (rd32 (hmem h2) a)) \<rparr>;
          parse idpg pg lay (a + rd32 (hmem h3) a) (ps @ [new_file_header]) h3
        }) = Some r"
    show "\<exists>qs. fst r = ps @ qs"
      using eq by (fastforce split: if_splits option.splits prod.splits simp: Let_def bind_eq_Some_conv dest: ih)
  qed
  then show ?thesis using assms by fastforce
qed


end
