(* ===== verification/VectorProps.thy ===== *)
theory VectorProps
  imports HeapUse
begin

text \<open>
  The vectors of theory \<open>KVector\<close> as lists: a vector is a block of the heap with its four fields and, once it
  has had an element, a block with the elements one after the other.  \<open>push_back\<close> refines appending, through
  the allocator, as long as the array has room; the growth of a full array, which goes through \<open>krealloc\<close>, is not
  covered (\<open>krealloc\<close> takes the size of the next block for its address).
\<close>

unbundle bit_operations_syntax

section \<open>The representation\<close>

text \<open>The fields of a vector in the block at word \<open>j\<close>, and its elements of \<open>sz\<close> bytes in the block at word \<open>k\<close>.\<close>

definition fields_at :: "heap \<Rightarrow> (nat \<times> bool) list \<Rightarrow> nat \<Rightarrow> u32 \<Rightarrow> u32 \<Rightarrow> u32 \<Rightarrow> u32 \<Rightarrow> bool" where
  "fields_at h bs j d sz capacity len \<longleftrightarrow> (\<exists>m. (j, m, True) \<in> set (blocks 0 bs) \<and> 8 \<le> m) \<and>
     word_at h (j + 3) = d \<and> word_at h (j + 4) = sz \<and> word_at h (j + 5) = capacity \<and> word_at h (j + 6) = len"

definition elements_at :: "heap \<Rightarrow> (nat \<times> bool) list \<Rightarrow> nat \<Rightarrow> nat \<Rightarrow> nat \<Rightarrow> u8 list list \<Rightarrow> bool" where
  "elements_at h bs k sz capacity es \<longleftrightarrow> (\<exists>m. (k, m, True) \<in> set (blocks 0 bs) \<and> capacity * sz \<le> 4 * (m - 4)) \<and>
     length es \<le> capacity \<and>
     (\<forall>i < length es. length (es ! i) = sz \<and> bytes_at (hmem h) (haddr (k + 3) + of_nat (i * sz)) (es ! i))"

text \<open>The vector at \<open>v\<close> with elements of \<open>sz\<close> bytes is the list \<open>es\<close>; \<open>J\<close> are its blocks.\<close>

definition vector_stored :: "heap \<Rightarrow> (nat \<times> bool) list \<Rightarrow> nat set \<Rightarrow> u32 \<Rightarrow> u32 \<Rightarrow> u8 list list \<Rightarrow> bool" where
  "vector_stored h bs J v sz es \<longleftrightarrow> (\<exists>j. v = haddr (j + 3) \<and>
     (es = [] \<and> J = {j} \<and> fields_at h bs j 0 sz 0 0 \<or>
      (\<exists>k capacity. k \<noteq> j \<and> J = {j, k} \<and> fields_at h bs j (haddr (k + 3)) sz capacity (of_nat (length es)) \<and>
         elements_at h bs k (unat sz) (unat capacity) es)))"

lemma fields_kept:
  assumes part: "heap_part h bs fl" and f: "fields_at h bs j d sz capacity len" and kept: "users_kept h bs h' bs' K" "j \<notin> K"
  shows "fields_at h' bs' j d sz capacity len"
proof -
  obtain m where b: "(j, m, True) \<in> set (blocks 0 bs)" "8 \<le> m" using f by (auto simp: fields_at_def)
  note r = block_room [OF part b(1)]
  have k: "(j, m, True) \<in> set (blocks 0 bs')" "\<And>x. payload j m x \<Longrightarrow> hmem h' x = hmem h x"
    using kept b(1) by (auto simp: users_kept_def)
  have "word_at h' i = word_at h i" if "j + 3 \<le> i" "i < j + 7" for i
  proof (rule word_at_cong)
    show "i < heap_limit" using that b(2) r(3) by simp
    then show "hmem h' (haddr i + l) = hmem h (haddr i + l)" if "unat l < 4" for l :: u32
      using k(2) payload_iff [OF part b(1)] haddr_byte [of i l] \<open>j + 3 \<le> i\<close> \<open>i < j + 7\<close> b(2) that by simp
  qed
  from this [of "j + 3"] this [of "j + 4"] this [of "j + 5"] this [of "j + 6"] show ?thesis
    using f k(1) b(2) by (auto simp: fields_at_def)
qed

lemma elements_kept:
  assumes part: "heap_part h bs fl" and e: "elements_at h bs k sz capacity es" and kept: "users_kept h bs h' bs' K" "k \<notin> K"
  shows "elements_at h' bs' k sz capacity es"
proof -
  obtain m where b: "(k, m, True) \<in> set (blocks 0 bs)" "capacity * sz \<le> 4 * (m - 4)" using e by (auto simp: elements_at_def)
  have k: "(k, m, True) \<in> set (blocks 0 bs')" "\<And>x. payload k m x \<Longrightarrow> hmem h' x = hmem h x"
    using kept b(1) by (auto simp: users_kept_def)
  have "bytes_at (hmem h') (haddr (k + 3) + of_nat (i * sz)) (es ! i)" if i: "i < length es" for i
  proof (rule bytes_at_frame)
    show "bytes_at (hmem h) (haddr (k + 3) + of_nat (i * sz)) (es ! i)" using e i by (simp add: elements_at_def)
    fix l assume l: "l < length (es ! i)"
    have "i * sz + l < capacity * sz"
    proof -
      have "i * sz + l < Suc i * sz" using l e i by (simp add: elements_at_def)
      also have "\<dots> \<le> capacity * sz" using e i by (intro mult_le_mono1) (simp add: elements_at_def)
      finally show ?thesis .
    qed
    then have "payload k m (haddr (k + 3) + of_nat (i * sz + l))" using b(2) by (intro payload_offset [OF part b(1)]) simp
    then show "hmem h' (haddr (k + 3) + of_nat (i * sz) + of_nat l) = hmem h (haddr (k + 3) + of_nat (i * sz) + of_nat l)"
      using k(2) by (simp add: add.assoc)
  qed
  then show ?thesis using e k(1) b(2) unfolding elements_at_def by blast
qed

text \<open>The fields as the operations read and write them.\<close>

lemma fields_read:
  assumes part: "heap_part h bs fl" and f: "fields_at h bs j d sz capacity len"
  shows "vec_d h (haddr (j + 3)) = d" "vec_data_size h (haddr (j + 3)) = sz" "vec_capacity h (haddr (j + 3)) = capacity"
    "vec_len h (haddr (j + 3)) = len" "haddr (j + 3) \<noteq> 0"
proof -
  obtain m where b: "(j, m, True) \<in> set (blocks 0 bs)" "8 \<le> m" using f by (auto simp: fields_at_def)
  have lim: "j + 3 + 3 < heap_limit" using block_room(3) [OF part b(1)] b(2) by simp
  then show "vec_d h (haddr (j + 3)) = d" "vec_data_size h (haddr (j + 3)) = sz" "vec_capacity h (haddr (j + 3)) = capacity"
    "vec_len h (haddr (j + 3)) = len" 
    using f hget_word [of "j + 3" 0 h] hget_word [of "j + 3" 1 h] hget_word [of "j + 3" 2 h] hget_word [of "j + 3" 3 h]
    by (simp_all add: fields_at_def add.commute [of _ j])
  show "haddr (j + 3) \<noteq> 0" by (rule haddr_nonzero) (use lim in simp)
qed

text \<open>Writing a field.\<close>

definition users_ready :: "layout \<Rightarrow> heap \<Rightarrow> (nat \<times> bool) list \<Rightarrow> nat list \<Rightarrow> heap \<Rightarrow> nat set \<Rightarrow> bool" where
  "users_ready lay h bs fl h' K \<longleftrightarrow> heap_ok h' bs fl \<and> low_kept h h' \<and> phys_ready lay (hmem h') \<and> users_kept h bs h' bs K"

lemma fields_put:
  assumes ok: "heap_ok h bs fl" "phys_ready lay (hmem h)" "below_allocator lay (extent bs)" and f: "fields_at h bs j d sz capacity len"
  shows "fields_at (hput (haddr (j + 3)) 0 x h) bs j x sz capacity len" "fields_at (hput (haddr (j + 3)) 2 x h) bs j d sz x len"
    "fields_at (hput (haddr (j + 3)) 3 x h) bs j d sz capacity x"
    "unat i \<le> 3 \<Longrightarrow> users_ready lay h bs fl (hput (haddr (j + 3)) i x h) {j}"
proof -
  obtain m where b: "(j, m, True) \<in> set (blocks 0 bs)" "8 \<le> m" using f by (auto simp: fields_at_def)
  note w = write_word [OF ok(1) b(1)]
  show "fields_at (hput (haddr (j + 3)) 0 x h) bs j x sz capacity len" "fields_at (hput (haddr (j + 3)) 2 x h) bs j d sz x len"
    "fields_at (hput (haddr (j + 3)) 3 x h) bs j d sz capacity x"
    using f b w(5) [of 0] w(5) [of 2] w(5) [of 3] by (auto simp: fields_at_def)
  show "users_ready lay h bs fl (hput (haddr (j + 3)) i x h) {j}" if "unat i \<le> 3"
    using w(1-4) [of i] that ok(2,3) b(2) by (simp add: users_ready_def)
qed

text \<open>Storing the next element.\<close>

lemma elements_snoc:
  assumes ok: "heap_ok h bs fl" "phys_ready lay (hmem h)" "below_allocator lay (extent bs)" and e: "elements_at h bs k (unat sz) capacity es"
    and room: "length es < capacity" and src: "bytes_at (hmem h) q f" "length f = unat sz" "elsewhere bs J q (unat sz)" "k \<in> J"
  defines "h' \<equiv> hcopy (haddr (k + 3) + of_nat (length es) * sz) q sz h"
  shows "elements_at h' bs k (unat sz) capacity (es @ [f])" "users_ready lay h bs fl h' {k}"
proof -
  obtain m where b: "(k, m, True) \<in> set (blocks 0 bs)" "capacity * unat sz \<le> 4 * (m - 4)" using e by (auto simp: elements_at_def)
  note part = heap_ok_part [OF ok(1)]
  have "Suc (length es) * unat sz \<le> capacity * unat sz" using room by (intro mult_le_mono1) simp
  then have fits: "length es * unat sz + length f \<le> 4 * (m - 4)" using b(2) src(2) by simp
  have d: "haddr (k + 3) + of_nat (length es) * sz = haddr (k + 3) + of_nat (length es * unat sz)" by simp
  note wr = write_bytes [OF ok(1) b(1) fits d src(2) [symmetric] src(1) _ src(4), folded h'_def]
  have src': "elsewhere bs J q (length f)" using src(2,3) by simp
  show "users_ready lay h bs fl h' {k}" using wr(2-5) [OF src'] ok(2,3) by (simp add: users_ready_def)
  have "bytes_at (hmem h') (haddr (k + 3) + of_nat (i * unat sz)) (es ! i)" if i: "i < length es" for i
  proof (rule bytes_at_frame)
    show "bytes_at (hmem h) (haddr (k + 3) + of_nat (i * unat sz)) (es ! i)" using e i by (simp add: elements_at_def)
    fix l assume l: "l < length (es ! i)"
    have "i * unat sz + l < Suc i * unat sz" using l e i by (simp add: elements_at_def)
    also have "\<dots> \<le> length es * unat sz" using i by (intro mult_le_mono1) simp
    finally have before: "i * unat sz + l < length es * unat sz" .
    have "unat (haddr (k + 3) + of_nat n) = unat (haddr (k + 3)) + n" if "n \<le> length es * unat sz" for n
      using block_room(5) [OF part b(1)] fits that by (intro unat_offset) simp
    from this [of "i * unat sz + l"] this [of "length es * unat sz"] before
    have "unat (haddr (k + 3) + of_nat (i * unat sz) + of_nat l) < unat (haddr (k + 3) + of_nat (length es) * sz)"
      by (simp add: add.assoc)
    then show "hmem h' (haddr (k + 3) + of_nat (i * unat sz) + of_nat l) = hmem h (haddr (k + 3) + of_nat (i * unat sz) + of_nat l)"
      by (intro wr(6) [OF src']) simp
  qed
  moreover have "bytes_at (hmem h') (haddr (k + 3) + of_nat (length es * unat sz)) f" using wr(1) [OF src'] by (simp only: d)
  ultimately show "elements_at h' bs k (unat sz) capacity (es @ [f])"
    using e b room src(2) by (auto simp: elements_at_def nth_append less_Suc_eq)
qed

lemma users_ready_trans:
  "users_ready lay h bs fl h1 K \<Longrightarrow> users_ready lay h1 bs fl h2 L \<Longrightarrow> users_ready lay h bs fl h2 (K \<union> L)"
  unfolding users_ready_def using low_kept_trans users_kept_trans by blast

section \<open>Reading\<close>

text \<open>What \<open>vector_at\<close> returns: the address of an element, and NULL for every other index.\<close>

definition vector_reads :: "heap \<Rightarrow> u32 \<Rightarrow> u8 list list \<Rightarrow> bool" where
  "vector_reads h v es \<longleftrightarrow> (\<forall>i. if unat i < length es then vector_at v i h \<noteq> 0 \<and> bytes_at (hmem h) (vector_at v i h) (es ! unat i)
     else vector_at v i h = 0)"

lemma stored_reads:
  assumes ok: "heap_ok h bs fl" and v: "vector_stored h bs J v sz es"
  shows "vector_reads h v es"
proof -
  note part = heap_ok_part [OF ok]
  obtain j where j: "v = haddr (j + 3)" and cases: "es = [] \<and> fields_at h bs j 0 sz 0 0 \<or>
      (\<exists>k capacity. fields_at h bs j (haddr (k + 3)) sz capacity (of_nat (length es)) \<and> elements_at h bs k (unat sz) (unat capacity) es)"
    using v by (auto simp: vector_stored_def)
  from cases show ?thesis
  proof (elim disjE conjE exE)
    assume "es = []" "fields_at h bs j 0 sz 0 0"
    then show ?thesis using fields_read [OF part] by (simp add: vector_reads_def vector_at_def j)
  next
    fix k capacity assume f: "fields_at h bs j (haddr (k + 3)) sz capacity (of_nat (length es))"
      and e: "elements_at h bs k (unat sz) (unat capacity) es"
    note r = fields_read [OF part f]
    obtain m where b: "(k, m, True) \<in> set (blocks 0 bs)" "unat capacity * unat sz \<le> 4 * (m - 4)" using e by (auto simp: elements_at_def)
    have len: "length es \<le> unat capacity" using e by (simp add: elements_at_def)
    then have n: "unat (of_nat (length es) :: u32) = length es" using unat_less_u32 [of capacity] by (intro unat_of_nat_small) simp
    have "vector_at v i h \<noteq> 0 \<and> bytes_at (hmem h) (vector_at v i h) (es ! unat i)" if i: "unat i < length es" for i
    proof -
      have at: "vector_at v i h = haddr (k + 3) + of_nat (unat i * unat sz)" using i r n by (simp add: vector_at_def j word_less_nat_alt)
      have "unat i * unat sz \<le> unat capacity * unat sz" using i len by (intro mult_le_mono1) simp
      then have "unat (vector_at v i h) = unat (haddr (k + 3)) + unat i * unat sz"
        unfolding at using b(2) block_room(5) [OF part b(1)] by (intro unat_offset) linarith
      then have "vector_at v i h \<noteq> 0" using block_room(4) [OF part b(1)] by (auto simp: heap_start)
      then show ?thesis using e i unfolding elements_at_def at by blast
    qed
    then show ?thesis using r n by (simp add: vector_reads_def vector_at_def j word_less_nat_alt)
  qed
qed

section \<open>Appending\<close>

lemma append_stored:
  assumes ok: "heap_ok h bs fl" "phys_ready lay (hmem h)" "below_allocator lay (extent bs)"
    and f: "fields_at h bs j (haddr (k + 3)) sz capacity (of_nat (length es))" "k \<noteq> j"
    and e: "elements_at h bs k (unat sz) (unat capacity) es" "length es < unat capacity"
    and src: "bytes_at (hmem h) q x" "length x = unat sz" "elsewhere bs {j, k} q (unat sz)"
  defines "h' \<equiv> append_element (haddr (j + 3)) q h"
  shows "users_ready lay h bs fl h' {j, k}" "vector_stored h' bs {j, k} (haddr (j + 3)) sz (es @ [x])"
proof -
  let ?v = "haddr (j + 3)"
  note part = heap_ok_part [OF ok(1)]
  define h1 where "h1 = hput ?v 3 (of_nat (length es) + 1) h"
  note put = fields_put [OF ok f(1), where x = "of_nat (length es) + 1", folded h1_def]
  have r1: "users_ready lay h bs fl h1 {j}" using put(4) [of 3] by (simp add: h1_def)
  then have ok1: "heap_ok h1 bs fl" "phys_ready lay (hmem h1)" "low_kept h h1" "users_kept h bs h1 bs {j}" by (simp_all add: users_ready_def)
  have f1: "fields_at h1 bs j (haddr (k + 3)) sz capacity (of_nat (length es) + 1)" by (rule put(3))
  have e1: "elements_at h1 bs k (unat sz) (unat capacity) es" by (rule elements_kept [OF part e(1) ok1(4)]) (use f(2) in simp)
  have q1: "bytes_at (hmem h1) q x" by (rule elsewhere_kept(1) [OF part src(3) ok1(4,3) _ src(1,2)]) simp
  have h': "h' = hcopy (haddr (k + 3) + of_nat (length es) * sz) q sz h1"
    using fields_read [OF part f(1)] fields_read [OF heap_ok_part [OF ok1(1)] f1] by (simp add: h'_def append_element_def Let_def h1_def)
  note sn = elements_snoc [OF ok1(1,2) ok(3) e1 e(2) q1 src(2,3), folded h']
  have r2: "users_ready lay h1 bs fl h' {k}" using sn(2) by simp
  show "users_ready lay h bs fl h' {j, k}" using users_ready_trans [OF r1 r2] by (simp add: insert_commute)
  have "fields_at h' bs j (haddr (k + 3)) sz capacity (of_nat (length (es @ [x])))"
    using fields_kept [OF heap_ok_part [OF ok1(1)] f1, of h' bs "{k}"] r2 f(2) by (simp add: users_ready_def add.commute)
  then show "vector_stored h' bs {j, k} ?v sz (es @ [x])" using sn(1) f(2) unfolding vector_stored_def by blast
qed

text \<open>The first element, in a new block of room for two.\<close>

lemma first_stored:
  assumes ok: "heap_ok h bs fl" "phys_ready lay (hmem h)" "below_allocator lay (extent bs)"
    and f: "fields_at h bs j 0 sz 0 0" "k \<noteq> j"
    and k: "(k, m, True) \<in> set (blocks 0 bs)" "2 * unat sz \<le> 4 * (m - 4)"
    and src: "bytes_at (hmem h) q x" "length x = unat sz" "elsewhere bs {j, k} q (unat sz)"
  defines "h2 \<equiv> hput (haddr (j + 3)) 0 (haddr (k + 3)) h"
  defines "h3 \<equiv> hcopy (vec_d h2 (haddr (j + 3))) q (vec_data_size h2 (haddr (j + 3))) h2"
  defines "h' \<equiv> hput (haddr (j + 3)) 3 1 (hput (haddr (j + 3)) 2 2 h3)"
  shows "users_ready lay h bs fl h' {j, k}" "vector_stored h' bs {j, k} (haddr (j + 3)) sz [x]"
proof -
  let ?v = "haddr (j + 3)"
  note part = heap_ok_part [OF ok(1)]
  have r2: "users_ready lay h bs fl h2 {j}" unfolding h2_def by (rule fields_put(4) [OF ok f(1)]) simp
  then have ok2: "heap_ok h2 bs fl" "phys_ready lay (hmem h2)" "low_kept h h2" "users_kept h bs h2 bs {j}" by (simp_all add: users_ready_def)
  have f2: "fields_at h2 bs j (haddr (k + 3)) sz 0 0" unfolding h2_def by (rule fields_put(1) [OF ok f(1)])
  have e2: "elements_at h2 bs k (unat sz) 2 []" using k by (auto simp: elements_at_def)
  have q2: "bytes_at (hmem h2) q x" by (rule elsewhere_kept(1) [OF part src(3) ok2(4,3) _ src(1,2)]) simp
  have h3: "h3 = hcopy (haddr (k + 3) + of_nat (length ([] :: u8 list list)) * sz) q sz h2"
    using fields_read [OF heap_ok_part [OF ok2(1)] f2] by (simp add: h3_def)
  note sn = elements_snoc [OF ok2(1,2) ok(3) e2 _ q2 src(2,3), folded h3]
  have r3: "users_ready lay h2 bs fl h3 {k}" "elements_at h3 bs k (unat sz) 2 [x]" using sn by simp_all
  then have ok3: "heap_ok h3 bs fl" "phys_ready lay (hmem h3)" "users_kept h2 bs h3 bs {k}" by (simp_all add: users_ready_def)
  have f3: "fields_at h3 bs j (haddr (k + 3)) sz 0 0" by (rule fields_kept [OF heap_ok_part [OF ok2(1)] f2 ok3(3)]) (use f(2) in simp)
  define h4 where "h4 = hput ?v 2 2 h3"
  note put3 = fields_put [OF ok3(1,2) ok(3) f3, where x = 2, folded h4_def]
  have r4: "users_ready lay h3 bs fl h4 {j}" using put3(4) [of 2] by (simp add: h4_def)
  then have ok4: "heap_ok h4 bs fl" "phys_ready lay (hmem h4)" by (simp_all add: users_ready_def)
  have h'4: "h' = hput ?v 3 1 h4" by (simp add: h'_def h4_def)
  have r5: "users_ready lay h4 bs fl h' {j}" unfolding h'4 by (rule fields_put(4) [OF ok4 ok(3) put3(2)]) simp
  have f5: "fields_at h' bs j (haddr (k + 3)) sz 2 1" unfolding h'4 by (rule fields_put(3) [OF ok4 ok(3) put3(2)])
  show "users_ready lay h bs fl h' {j, k}"
    using users_ready_trans [OF users_ready_trans [OF users_ready_trans [OF r2 r3(1)] r4] r5] by (simp add: insert_commute)
  have "users_kept h3 bs h' bs {j}" using users_ready_trans [OF r4 r5] by (simp add: users_ready_def)
  from elements_kept [OF heap_ok_part [OF ok3(1)] r3(2) this] f(2) have "elements_at h' bs k (unat sz) (unat (2 :: u32)) [x]" by simp
  then show "vector_stored h' bs {j, k} ?v sz [x]" using f5 f(2) unfolding vector_stored_def
    by (intro exI [of _ j] conjI refl disjI2 exI [of _ k] exI [of _ 2]) simp_all
qed

text \<open>After an operation on the vector at \<open>v\<close> with the blocks \<open>J\<close> of the heap \<open>h\<close>, it is the list \<open>es\<close>, the heap
  is well-formed, and the other users of the heap and the memory below it are as before.\<close>

definition vector_after :: "layout \<Rightarrow> heap \<Rightarrow> (nat \<times> bool) list \<Rightarrow> nat set \<Rightarrow> u32 \<Rightarrow> u32 \<Rightarrow> u8 list list \<Rightarrow> heap \<Rightarrow> bool" where
  "vector_after lay h bs J v sz es h' \<longleftrightarrow> (\<exists>bs' fl' J'. heap_ok h' bs' fl' \<and> phys_ready lay (hmem h') \<and> low_kept h h' \<and>
     users_kept h bs h' bs' J \<and> vector_stored h' bs' J' v sz es) \<and> vector_reads h' v es"

lemma vector_afterI:
  "heap_ok h' bs' fl' \<Longrightarrow> phys_ready lay (hmem h') \<Longrightarrow> low_kept h h' \<Longrightarrow> users_kept h bs h' bs' J \<Longrightarrow>
     vector_stored h' bs' J' v sz es \<Longrightarrow> vector_after lay h bs J v sz es h'"
  unfolding vector_after_def using stored_reads by blast

lemma push_first:
  assumes ok: "heap_ok h bs fl" "bs \<noteq> []" "pages_quiet lay pg" "phys_ready lay (hmem h)"
    and room: "below_allocator lay (extent bs + words_for (2 * sz) + 1024)"
    and f: "fields_at h bs j 0 sz 0 0" and sz: "0 < unat sz" "unat sz < 2 ^ 31"
    and src: "bytes_at (hmem h) q x" "length x = unat sz" "elsewhere bs {j} q (unat sz)"
  shows "\<exists>ok h'. push_back pg lay (haddr (j + 3)) q h = Some (ok, h') \<and> (ok \<or> (\<exists>h1. kmalloc pg lay (2 * sz) h = Some (0, h1))) \<and>
    vector_after lay h bs {j} (haddr (j + 3)) sz (if ok then [x] else []) h'"
proof -
  let ?v = "haddr (j + 3)"
  note part = heap_ok_part [OF ok(1)] and r = fields_read [OF heap_ok_part [OF ok(1)] f]
  have q: "q \<noteq> 0" using src(3) by (simp add: elsewhere_def)
  have n: "unat (2 * sz) = 2 * unat sz" using sz(2) by (simp add: unat_word_ariths)
  then have "2 * sz \<noteq> 0" using sz(1) by (auto simp: word_unat_eq_iff)
  from kmalloc_total [OF ok this room] obtain p h1 bs' fl' where call: "kmalloc pg lay (2 * sz) h = Some (p, h1)"
    and res: "kmalloc_result lay h bs (words_for (2 * sz)) p h1 bs' fl'" by blast
  note m = kmalloc_users [OF ok(1) res]
  have f1: "fields_at h1 bs' j 0 sz 0 0" by (rule fields_kept [OF part f m(5)]) simp
  show ?thesis
  proof (cases "p = 0")
    case True
    have "push_back pg lay ?v q h = Some (False, h1)" using r q call True by (simp add: push_back_def)
    moreover have "vector_stored h1 bs' {j} ?v sz []" using f1 unfolding vector_stored_def by blast
    ultimately show ?thesis using vector_afterI [OF m(1,3,4) users_kept_mono [OF m(5)]] call True by auto
  next
    case False
    then obtain k l where k: "p = haddr (k + 3)" "words_for (2 * sz) \<le> l" "(k, l, True) \<in> set (blocks 0 bs')" "k \<notin> used_at 0 bs"
      using res by (auto simp: kmalloc_result_def)
    have fits: "2 * unat sz \<le> 4 * (l - 4)" using k(2) n by (simp add: words_for_def)
    have kj: "k \<noteq> j" using k(4) f by (auto simp: used_at_def fields_at_def)
    have src': "bytes_at (hmem h1) q x" "elsewhere bs' {j, k} q (unat sz)"
      using elsewhere_kept(1) [OF part src(3) m(5,4), of x] elsewhere_kept(2) [OF part src(3) m(5,4), of "{j, k}"] src k(4) by auto
    have room': "below_allocator lay (extent bs')"
      by (rule below_allocator_less [OF room]) (use res in \<open>auto simp: kmalloc_result_def\<close>)
    note fs = first_stored [OF m(1,3) room' f1 kj k(3) fits src'(1) src(2) src'(2), folded k(1)]
    let ?h2 = "hput ?v 0 p h1"
    let ?h' = "hput ?v 3 1 (hput ?v 2 2 (hcopy (vec_d ?h2 ?v) q (vec_data_size ?h2 ?v) ?h2))"
    have u: "heap_ok ?h' bs' fl'" "phys_ready lay (hmem ?h')" "low_kept h1 ?h'" "users_kept h1 bs' ?h' bs' {j, k}"
      using fs(1) by (simp_all add: users_ready_def)
    have "push_back pg lay ?v q h = Some (True, ?h')" using r q call False by (simp add: push_back_def Let_def)
    moreover have "users_kept h bs ?h' bs' {j}" by (rule users_kept_trans [OF m(5) u(4)]) (use k(4) in auto)
    ultimately show ?thesis using vector_afterI [OF u(1,2) low_kept_trans [OF m(4) u(3)] _ fs(2)] by auto
  qed
qed

text \<open>A new vector is empty.\<close>

lemma fields_init:
  fixes h :: heap and sz :: u32
  assumes ok: "heap_ok h bs fl" "phys_ready lay (hmem h)" "below_allocator lay (extent bs)" and b: "(j, m, True) \<in> set (blocks 0 bs)" "8 \<le> m"
  defines "h' \<equiv> hput (haddr (j + 3)) 3 0 (hput (haddr (j + 3)) 2 0 (hput (haddr (j + 3)) 1 sz (hput (haddr (j + 3)) 0 0 h)))"
  shows "users_ready lay h bs fl h' {j}" "fields_at h' bs j 0 sz 0 0"
proof -
  let ?p = "haddr (j + 3)"
  have put: "users_ready lay h2 bs fl (hput ?p i x h2) {j}" "word_at (hput ?p i x h2) = (word_at h2)(j + 3 + unat i := x)"
    if "heap_ok h2 bs fl" "phys_ready lay (hmem h2)" "unat i \<le> 3" for h2 i x
    using write_word [OF that(1) b(1), where i = i and v = x] that(2,3) b(2) ok(3) by (simp_all add: users_ready_def)
  let ?h1 = "hput ?p 0 0 h" let ?h2 = "hput ?p 1 sz ?h1" let ?h3 = "hput ?p 2 0 ?h2"
  have r1: "users_ready lay h bs fl ?h1 {j}" using put(1) [OF ok(1,2), of 0] by simp
  have r2: "users_ready lay ?h1 bs fl ?h2 {j}" using put(1) [of ?h1 1] r1 by (simp add: users_ready_def)
  have r3: "users_ready lay ?h2 bs fl ?h3 {j}" using put(1) [of ?h2 2] r2 by (simp add: users_ready_def)
  have r4: "users_ready lay ?h3 bs fl h' {j}" using put(1) [of ?h3 3] r3 by (simp add: users_ready_def h'_def)
  show "users_ready lay h bs fl h' {j}"
    using users_ready_trans [OF users_ready_trans [OF users_ready_trans [OF r1 r2] r3] r4] by simp
  show "fields_at h' bs j 0 sz 0 0"
    using put(2) [OF ok(1,2), of 0 0] put(2) [of ?h1 1 sz] put(2) [of ?h2 2 0] put(2) [of ?h3 3 0] r1 r2 r3 b
    by (auto simp: fields_at_def users_ready_def h'_def)
qed

section \<open>Owned strings\<close>

lemma cstr_bytes: "cstr m p s \<longleftrightarrow> bytes_at m p (s @ [0]) \<and> 0 \<notin> set s"
proof (induction s arbitrary: p)
  case Nil
  show ?case by (simp add: bytes_at_def)
next
  case (Cons c s)
  have "bytes_at m p (c # s @ [0]) \<longleftrightarrow> m p = c \<and> bytes_at m (p + 1) (s @ [0])"
    by (auto simp: bytes_at_def All_less_Suc2 add_ac)
  then show ?case using Cons.IH [of "p + 1"] by auto
qed

text \<open>Ending a string whose bytes have been copied.\<close>

lemma hcopy_null: "hcopy 0 q n h = h"
  by (simp add: hcopy_def kmemcpy_def)

lemma new_block_live:
  assumes ok: "heap_ok h bs fl" "heap_ok h' bs' fl'" and b: "(j, m, True) \<in> set (blocks 0 bs')" "j \<notin> used_at 0 bs"
  shows "haddr (j + 3) \<in> live bs' - live bs"
proof -
  have lim: "i + 3 < heap_limit" if "(i, c, True) \<in> set (blocks 0 cs)" "heap_ok g cs gl" for i c cs g gl
    using block_room(1,3) [OF heap_ok_part [OF that(2)] that(1)] by simp
  have "haddr (j + 3) \<noteq> haddr (i + 3)" if "(i, c, True) \<in> set (blocks 0 bs)" for i c
    using haddr_inj [OF lim [OF b(1) ok(2)] lim [OF that ok(1)]] that b(2) by (auto simp: used_at_def)
  then have "haddr (j + 3) \<notin> live bs" unfolding live_def by blast
  moreover have "haddr (j + 3) \<in> live bs'" unfolding live_def using b(1) by blast
  ultimately show ?thesis by simp
qed

lemma string_ended:
  assumes "bytes_at t p s" "0 \<notin> set s" "length s < 2 ^ 32"
  shows "cstr (t(p + of_nat (length s) := 0)) p s"
proof -
  have "p + of_nat i \<noteq> p + of_nat (length s)" if "i < length s" for i
    using of_nat_eq_iff_small [where 'a = 32, of i "length s"] that assms(3) by simp
  then have "bytes_at (t(p + of_nat (length s) := 0)) p (s @ [0])"
    using assms(1) by (auto simp: bytes_at_def nth_append less_Suc_eq)
  then show ?thesis using assms(2) by (simp add: cstr_bytes)
qed

section \<open>Properties\<close>




definition with_text :: "heap \<Rightarrow> heap" where
  "with_text h = h\<lparr> hmem := (hmem h)(0x1000 := 104, 0x1001 := 105, 0x1002 := 0) \<rparr>"


end
