(* ===== verification/HashmapProps.thy ===== *)
theory HashmapProps
  imports Hashmap
begin

text \<open>
  Correctness of the hash map (theory \<open>Hashmap\<close>).  A hash map represents a family of chains: every
  bucket is the head of a doubly linked list of live entries whose keys hash to the bucket.
  Adding an entry refines the insertion of a first binding; removing one behind the head of its
  bucket leaves a dangling link.
\<close>

unbundle bit_operations_syntax

section \<open>Chains\<close>

fun chain :: "(u32 \<Rightarrow> ('k, 'd) entry option) \<Rightarrow> u32 \<Rightarrow> u32 \<Rightarrow> u32 list \<Rightarrow> bool" where
  "chain es prev p [] \<longleftrightarrow> p = 0"
| "chain es prev p (q # qs) \<longleftrightarrow>
     p = q \<and> q \<noteq> 0 \<and>
     (case es q of None \<Rightarrow> False | Some e \<Rightarrow> e_prev e = prev \<and> chain es q (e_next e) qs)"

definition key_at :: "(u32 \<Rightarrow> ('k, 'd) entry option) \<Rightarrow> u32 \<Rightarrow> 'k" where
  "key_at es q = e_key (the (es q))"

lemma chain_live: "chain es prev p qs \<Longrightarrow> q \<in> set qs \<Longrightarrow> q \<noteq> 0 \<and> (\<exists>e. es q = Some e)"
  by (induction qs arbitrary: prev p) (auto split: option.splits)

lemma chain_frame:
  "chain es prev p qs \<Longrightarrow> (\<And>q. q \<in> set qs \<Longrightarrow> es' q = es q) \<Longrightarrow> chain es' prev p qs"
  by (induction qs arbitrary: prev p) (auto split: option.splits)

lemma chain_head: "chain es prev p qs \<Longrightarrow> p = 0 \<longleftrightarrow> qs = []"
  by (cases qs) auto

lemma chain_last_entry:
  "chain (entries hm) prev p qs \<Longrightarrow> qs \<noteq> [] \<Longrightarrow> last_entry hm p = Some (last qs)"
proof (induction qs arbitrary: prev p)
  case (Cons q qs)
  then obtain e where e: "entries hm p = Some e" "p = q" "chain (entries hm) q (e_next e) qs"
    by (auto split: option.splits)
  show ?case
  proof (cases "qs = []")
    case True
    then show ?thesis using e by (simp add: last_entry.simps)
  next
    case False
    then show ?thesis using e Cons.IH [OF e(3)] chain_head [OF e(3)] by (simp add: last_entry.simps)
  qed
qed simp

text \<open>The search along a chain returns the first entry with the key.\<close>

definition first_match :: "('k \<Rightarrow> 'k \<Rightarrow> bool) \<Rightarrow> (u32 \<Rightarrow> ('k, 'd) entry option) \<Rightarrow> 'k \<Rightarrow> u32 list \<Rightarrow> u32" where
  "first_match same_key es key qs =
     (case find (\<lambda>q. same_key (key_at es q) key) qs of None \<Rightarrow> 0 | Some q \<Rightarrow> q)"

lemma chain_search:
  "chain (entries hm) prev p qs \<Longrightarrow> find_in_chain sk hm key p = Some (first_match sk (entries hm) key qs)"
proof (induction qs arbitrary: prev p)
  case Nil
  then show ?case by (simp add: find_in_chain.simps first_match_def)
next
  case (Cons q qs)
  then obtain e where e: "entries hm p = Some e" "p = q" "q \<noteq> 0" "chain (entries hm) q (e_next e) qs"
    by (auto split: option.splits)
  then show ?case
    using Cons.IH [OF e(4)] by (simp add: find_in_chain.simps first_match_def key_at_def)
qed

lemma chain_append:
  assumes "chain es prev p qs" "qs \<noteq> []" "distinct qs" "new \<notin> set qs" "new \<noteq> 0"
    and "es' = es(last qs := map_option (\<lambda>x. x\<lparr> e_next := new \<rparr>) (es (last qs)), new := Some e)"
    and "e_prev e = last qs" "e_next e = 0"
  shows "chain es' prev p (qs @ [new])"
  using assms
proof (induction qs arbitrary: prev p)
  case (Cons q qs)
  then obtain d where d: "es p = Some d" "p = q" "q \<noteq> 0" "e_prev d = prev" "chain es q (e_next d) qs"
    by (auto split: option.splits)
  show ?case
  proof (cases "qs = []")
    case True
    then show ?thesis using Cons.prems d by simp
  next
    case False
    have "last qs \<noteq> q" using Cons.prems(3) False by (metis distinct.simps(2) last_in_set)
    then have "es' q = Some d" using Cons.prems False d by auto
    moreover have "chain es' q (e_next d) (qs @ [new])"
      by (rule Cons.IH) (use Cons.prems False d in simp_all)
    ultimately show ?thesis using d by simp
  qed
qed simp

section \<open>Representation\<close>

definition hashmap_rep :: "('k, 'd) hashmap \<Rightarrow> (u32 \<Rightarrow> u32 list) \<Rightarrow> bool" where
  "hashmap_rep hm cs \<longleftrightarrow> num_of_buckets hm \<noteq> 0 \<and>
     (\<forall>b < num_of_buckets hm.
        chain (entries hm) 0 (list_of_buckets hm b) (cs b) \<and> distinct (cs b) \<and>
        (\<forall>q \<in> set (cs b). get_hash hm (key_at (entries hm) q) = b))"

lemma hashmap_repD:
  assumes "hashmap_rep hm cs" "b < num_of_buckets hm"
  shows "chain (entries hm) 0 (list_of_buckets hm b) (cs b)" "distinct (cs b)"
    "q \<in> set (cs b) \<Longrightarrow> get_hash hm (key_at (entries hm) q) = b"
  using assms by (auto simp: hashmap_rep_def)

lemma get_hash_less: "num_of_buckets hm \<noteq> 0 \<Longrightarrow> get_hash hm key < num_of_buckets hm"
proof -
  assume n: "num_of_buckets hm \<noteq> 0"
  have "get_hash hm key \<le> num_of_buckets hm - 1"
    unfolding get_hash_def by (rule word_and_le1)
  moreover have "unat (num_of_buckets hm) \<noteq> 0" using n by (simp add: unat_eq_0)
  ultimately show ?thesis using n by (simp add: word_le_nat_alt word_less_nat_alt unat_minus_one)
qed

definition data_of :: "(u32 \<Rightarrow> ('k, 'd) entry option) \<Rightarrow> u32 \<Rightarrow> 'd option" where
  "data_of es p = (if p = 0 then None else Some (e_data (the (es p))))"

lemma first_match_cases:
  "first_match sk es key qs = 0 \<or> first_match sk es key qs \<in> set qs"
  by (auto simp: first_match_def find_Some_iff split: option.splits)

lemma find_entry_chain:
  assumes "chain (entries hm) 0 (list_of_buckets hm (get_hash hm key)) qs"
  shows "hashmap_find_entry sk hm key = Some (first_match sk (entries hm) key qs)"
proof (cases qs)
  case Nil
  then show ?thesis using assms by (simp add: hashmap_find_entry_def first_match_def)
next
  case (Cons q qs')
  let ?p = "list_of_buckets hm (get_hash hm key)"
  obtain e where e: "entries hm ?p = Some e" "?p = q" "q \<noteq> 0" "chain (entries hm) q (e_next e) qs'"
    using assms Cons by (auto split: option.splits)
  show ?thesis
  proof (cases "e_next e = 0")
    case True
    then have "qs' = []" using chain_head [OF e(4)] by simp
    then show ?thesis using e True Cons
      by (simp add: hashmap_find_entry_def first_match_def key_at_def Let_def)
  next
    case False
    then show ?thesis using e chain_search [OF assms] by (simp add: hashmap_find_entry_def Let_def)
  qed
qed

lemma find_chain:
  assumes "chain (entries hm) 0 (list_of_buckets hm (get_hash hm key)) qs"
  shows "hashmap_find sk hm key = Some (data_of (entries hm) (first_match sk (entries hm) key qs))"
proof -
  let ?p = "first_match sk (entries hm) key qs"
  have "?p = 0 \<or> (\<exists>e. entries hm ?p = Some e)"
    using first_match_cases [of sk "entries hm" key qs] chain_live [OF assms, of ?p] by blast
  then show ?thesis by (auto simp: hashmap_find_def find_entry_chain [OF assms] data_of_def)
qed

lemma find_rep:
  assumes "hashmap_rep hm cs"
  shows "hashmap_find sk hm key =
    Some (data_of (entries hm) (first_match sk (entries hm) key (cs (get_hash hm key))))"
  using assms by (intro find_chain hashmap_repD(1)) (auto intro!: get_hash_less simp: hashmap_rep_def)

section \<open>Adding an entry\<close>

text \<open>The store after the code has linked a new entry behind the last of a bucket.\<close>

definition linked_entries ::
  "(u32 \<Rightarrow> ('k, 'd) entry option) \<Rightarrow> u32 list \<Rightarrow> u32 \<Rightarrow> 'k \<Rightarrow> 'd \<Rightarrow> (u32 \<Rightarrow> ('k, 'd) entry option)" where
  "linked_entries es qs new key data =
     (if qs = [] then es(new \<mapsto> \<lparr> e_key = key, e_data = data, e_prev = 0, e_next = 0 \<rparr>)
      else es(last qs := map_option (\<lambda>x. x\<lparr> e_next := new \<rparr>) (es (last qs)),
              new \<mapsto> \<lparr> e_key = key, e_data = data, e_prev = last qs, e_next = 0 \<rparr>))"

lemma linked_keys:
  assumes "es q = Some e" "q \<noteq> new"
  shows "key_at (linked_entries es qs new key data) q = key_at es q"
    "e_data (the (linked_entries es qs new key data q)) = e_data (the (es q))"
  using assms by (auto simp: linked_entries_def key_at_def)

lemma linked_new:
  "key_at (linked_entries es qs new key data) new = key"
  "e_data (the (linked_entries es qs new key data new)) = data"
  by (auto simp: linked_entries_def key_at_def)

lemma linked_chain:
  assumes "chain es 0 p qs" "distinct qs" "new \<notin> set qs" "new \<noteq> 0"
  shows "chain (linked_entries es qs new key data) 0 (if qs = [] then new else p) (qs @ [new])"
proof (cases "qs = []")
  case False
  have "chain (linked_entries es qs new key data) 0 p (qs @ [new])"
    by (rule chain_append [OF assms(1) False assms(2-4),
        where e = "\<lparr> e_key = key, e_data = data, e_prev = last qs, e_next = 0 \<rparr>"])
      (simp_all add: linked_entries_def False)
  then show ?thesis using False by simp
qed (use assms in \<open>simp add: linked_entries_def\<close>)

lemma hashmap_add_result:
  fixes hm :: "('k, 'd) hashmap" and key :: 'k
  assumes rep: "hashmap_rep hm cs" and load: "num_of_entries hm div num_of_buckets hm < HASHMAP_LOAD_FACTOR"
    and new: "new \<noteq> 0" "entries hm new = None"
  defines "b \<equiv> get_hash hm key"
  shows "hashmap_add new hm key data = Some (hm\<lparr> num_of_entries := num_of_entries hm + 1,
     list_of_buckets := (list_of_buckets hm)(b := if cs b = [] then new else list_of_buckets hm b),
     entries := linked_entries (entries hm) (cs b) new key data \<rparr>)"
proof -
  have b: "b < num_of_buckets hm" unfolding b_def using rep by (intro get_hash_less) (simp add: hashmap_rep_def)
  note c = hashmap_repD [OF rep b]
  have hash: "get_hash hm key = b" by (simp add: b_def)
  have low: "\<not> HASHMAP_LOAD_FACTOR \<le> num_of_entries hm div num_of_buckets hm" using load by simp
  show ?thesis
  proof (cases "cs b = []")
    case True
    then have "list_of_buckets hm b = 0" using c(1) by simp
    then show ?thesis using new(1) True
      by (simp add: hashmap_add_def linked_entries_def hash low Let_def)
  next
    case False
    let ?q = "last (cs b)"
    let ?hm1 = "hm\<lparr> entries := (entries hm)(new \<mapsto> \<lparr> e_key = key, e_data = data, e_prev = 0, e_next = 0 \<rparr>) \<rparr>"
    have first: "list_of_buckets hm b \<noteq> 0" using chain_head [OF c(1)] False by simp
    obtain e where e: "entries hm ?q = Some e" using chain_live [OF c(1), of ?q] False by auto
    have ne: "?q \<noteq> new" using e new by auto
    have "chain (entries ?hm1) 0 (list_of_buckets hm b) (cs b)"
      by (rule chain_frame [OF c(1)]) (use chain_live [OF c(1)] new in force)
    then have "last_entry ?hm1 (list_of_buckets hm b) = Some ?q" using False by (rule chain_last_entry)
    moreover have "(list_of_buckets hm)(b := list_of_buckets hm b) = list_of_buckets hm" by simp
    ultimately show ?thesis using new(1) False first e ne
      by (simp add: hashmap_add_def linked_entries_def hash low Let_def set_entry_links_def
          fun_upd_twist [OF ne])
  qed
qed

lemma first_match_append:
  assumes "\<And>q. q \<in> set qs \<Longrightarrow> key_at es' q = key_at es q \<and> q \<noteq> 0"
  shows "first_match sk es' key (qs @ rest) =
    (if first_match sk es key qs \<noteq> 0 then first_match sk es key qs else first_match sk es' key rest)"
  using assms by (induction qs) (auto simp: first_match_def split: if_splits)

lemma get_hash_fields [simp]:
  "get_hash (hm\<lparr> num_of_entries := n \<rparr>) = get_hash hm"
  "get_hash (hm\<lparr> list_of_buckets := l \<rparr>) = get_hash hm"
  "get_hash (hm\<lparr> entries := es \<rparr>) = get_hash hm"
  by (simp_all add: get_hash_def fun_eq_iff)

lemma hashmap_add_rep:
  fixes hm :: "('k, 'd) hashmap" and key :: 'k
  assumes rep: "hashmap_rep hm cs" and new: "new \<noteq> 0" "entries hm new = None"
  defines "b \<equiv> get_hash hm key"
  shows "hashmap_rep (hm\<lparr> num_of_entries := n,
     list_of_buckets := (list_of_buckets hm)(b := if cs b = [] then new else list_of_buckets hm b),
     entries := linked_entries (entries hm) (cs b) new key data \<rparr>) (cs(b := cs b @ [new]))"
    (is "hashmap_rep ?hm' _")
proof -
  let ?es = "linked_entries (entries hm) (cs b) new key data"
  have n: "num_of_buckets hm \<noteq> 0" using rep by (simp add: hashmap_rep_def)
  have b: "b < num_of_buckets hm" unfolding b_def using n by (rule get_hash_less)
  have old: "q \<noteq> new \<and> (\<exists>e. entries hm q = Some e)" if "q \<in> set (cs i)" "i < num_of_buckets hm" for q i
    using chain_live [OF hashmap_repD(1) [OF rep that(2)] that(1)] new by auto
  have bucket: "chain ?es 0 (if i = b then (if cs b = [] then new else list_of_buckets hm b) else list_of_buckets hm i)
      ((cs(b := cs b @ [new])) i) \<and> distinct ((cs(b := cs b @ [new])) i) \<and>
      (\<forall>q \<in> set ((cs(b := cs b @ [new])) i). get_hash hm (key_at ?es q) = i)" if i: "i < num_of_buckets hm" for i
  proof (cases "i = b")
    case True
    have "chain ?es 0 (if cs b = [] then new else list_of_buckets hm b) (cs b @ [new])"
      by (rule linked_chain) (use hashmap_repD(1,2) [OF rep b] old [OF _ b] new in auto)
    moreover have "distinct (cs b @ [new])" using hashmap_repD(2) [OF rep b] old [OF _ b] by auto
    moreover have "get_hash hm (key_at ?es q) = b" if "q \<in> set (cs b @ [new])" for q
      using that old [of q b] b hashmap_repD(3) [OF rep b, of q]
      by (cases "q = new") (auto simp: linked_new b_def [symmetric] linked_keys)
    ultimately show ?thesis using True by simp
  next
    case False
    have ne: "last (cs b) \<noteq> q" if "cs b \<noteq> []" "q \<in> set (cs i)" for q
      using hashmap_repD(3) [OF rep b, of q] hashmap_repD(3) [OF rep i, of q] that False last_in_set by metis
    have same: "?es q = entries hm q" if "q \<in> set (cs i)" for q
      using that ne [of q] old [OF that i] by (auto simp: linked_entries_def)
    have "chain ?es 0 (list_of_buckets hm i) (cs i)"
      by (rule chain_frame [OF hashmap_repD(1) [OF rep i]]) (rule same)
    then show ?thesis using False hashmap_repD(2,3) [OF rep i] same by (simp add: key_at_def)
  qed
  show ?thesis unfolding hashmap_rep_def using n bucket by simp
qed

text \<open>What is found in a bucket whose entries were followed by the new one.\<close>

lemma linked_found:
  fixes ps :: "u32 list" and key k :: 'k and data :: 'd
  assumes live: "\<forall>q \<in> set qs. q \<noteq> 0 \<and> q \<noteq> new \<and> (\<exists>e. es q = Some e)" and new: "new \<noteq> 0"
  defines "es' \<equiv> linked_entries es ps new key data" and "p \<equiv> first_match (=) es k qs"
  shows "data_of es' (first_match (=) es' k (qs @ [new])) =
      (if k = key \<and> data_of es p = None then Some data else data_of es p)"
    "data_of es' (first_match (=) es' k qs) = data_of es p"
proof -
  have keys: "key_at es' q = key_at es q \<and> q \<noteq> 0" if "q \<in> set qs" for q
    using bspec [OF live that] by (auto simp: linked_keys es'_def)
  have step: "first_match (=) es' k (qs @ rest) = (if p \<noteq> 0 then p else first_match (=) es' k rest)" for rest
    unfolding p_def by (rule first_match_append) (rule keys)
  have data: "data_of es' p = data_of es p"
    using first_match_cases [of "(=)" es k qs] live by (auto simp: data_of_def linked_keys es'_def p_def)
  have none: "data_of es p = None \<longleftrightarrow> p = 0" by (simp add: data_of_def)
  have "first_match (=) es' k [] = 0" by (simp add: first_match_def)
  then show "data_of es' (first_match (=) es' k qs) = data_of es p" using step [of "[]"] data by (cases "p = 0") auto
  have "first_match (=) es' k [new] = (if key = k then new else 0)"
    by (simp add: first_match_def linked_new es'_def)
  moreover have "data_of es' (if key = k then new else 0) = (if k = key then Some data else None)"
    using new by (simp add: data_of_def linked_new es'_def)
  ultimately show "data_of es' (first_match (=) es' k (qs @ [new])) =
      (if k = key \<and> data_of es p = None then Some data else data_of es p)"
    using step [of "[new]"] none data by (cases "p = 0") auto
qed

text \<open>C17. Below the load factor, \<open>hashmap_add\<close> at a fresh address succeeds on every well-formed hash
  map, keeps it well-formed, and refines the insertion of a first binding: a later search finds
  the new data under the new key if that key was absent, and what it found before otherwise.\<close>

theorem hashmap_add_refines:
  fixes hm :: "('k, 'd) hashmap" and key :: 'k
  assumes rep: "hashmap_rep hm cs" and load: "num_of_entries hm div num_of_buckets hm < HASHMAP_LOAD_FACTOR"
    and new: "new \<noteq> 0" "entries hm new = None"
  shows "\<exists>hm'. hashmap_add new hm key data = Some hm' \<and>
    hashmap_rep hm' (cs(get_hash hm key := cs (get_hash hm key) @ [new])) \<and>
    num_of_entries hm' = num_of_entries hm + 1 \<and>
    (\<forall>k. hashmap_find (=) hm' k =
       (if k = key \<and> hashmap_find (=) hm k = Some None then Some (Some data) else hashmap_find (=) hm k))"
proof -
  let ?b = "get_hash hm key"
  let ?es = "linked_entries (entries hm) (cs ?b) new key data"
  let ?hm' = "hm\<lparr> num_of_entries := num_of_entries hm + 1,
     list_of_buckets := (list_of_buckets hm)(?b := if cs ?b = [] then new else list_of_buckets hm ?b),
     entries := ?es \<rparr>"
  let ?cs' = "cs(?b := cs ?b @ [new])"
  have rep': "hashmap_rep ?hm' ?cs'" by (rule hashmap_add_rep [OF rep new])
  have n: "num_of_buckets hm \<noteq> 0" using rep by (simp add: hashmap_rep_def)
  have "hashmap_find (=) ?hm' k =
      (if k = key \<and> hashmap_find (=) hm k = Some None then Some (Some data) else hashmap_find (=) hm k)" for k
  proof -
    let ?h = "get_hash hm k"
    have live: "\<forall>q \<in> set (cs ?h). q \<noteq> 0 \<and> q \<noteq> new \<and> (\<exists>e. entries hm q = Some e)"
      using chain_live [OF hashmap_repD(1) [OF rep get_hash_less [OF n]]] new by fastforce
    have found: "hashmap_find (=) ?hm' k = Some (data_of ?es (first_match (=) ?es k (?cs' ?h)))"
      using find_rep [OF rep', of "(=)" k] by simp
    have old: "hashmap_find (=) hm k = Some (data_of (entries hm) (first_match (=) (entries hm) k (cs ?h)))"
      by (rule find_rep [OF rep])
    note f = linked_found [of "cs ?h" new "entries hm" "cs ?b" key data k, OF live new(1)]
    show ?thesis
    proof (cases "?h = ?b")
      case True
      then have chain: "?cs' ?h = cs ?h @ [new]" by simp
      show ?thesis unfolding found old chain f(1) by (cases "k = key") auto
    next
      case False
      then have chain: "?cs' ?h = cs ?h" "k \<noteq> key" by auto
      show ?thesis unfolding found old chain(1) f(2) using chain(2) by simp
    qed
  qed
  then show ?thesis using hashmap_add_result [OF rep load new] rep' by auto
qed

text \<open>A map with one entry whose key hashes to bucket 1.\<close>

definition sample_hashmap :: "(u32, u32) hashmap" where
  "sample_hashmap =
     (hashmap_init (\<lambda>k. k) [16 \<mapsto> \<lparr> e_key = 257, e_data = 7, e_prev = 0, e_next = 0 \<rparr>])
       \<lparr> list_of_buckets := (\<lambda>_. 0)(1 := 16), num_of_entries := 1 \<rparr>"

lemma sample_hashmap_rep: "hashmap_rep sample_hashmap ((\<lambda>_. [])(1 := [16]))"
  by (auto simp: hashmap_rep_def sample_hashmap_def hashmap_init_def HASHMAP_STARTING_NUM_OF_BUCKETS_def
      get_hash_def key_at_def)

theorem hashmap_add_refines_witness:
  "\<exists>hm'. hashmap_add 32 sample_hashmap 513 (9 :: u32) = Some hm' \<and>
     hashmap_find (=) hm' 513 = Some (Some 9) \<and> hashmap_find (=) hm' 257 = Some (Some 7)"
proof -
  have old: "hashmap_find (=) sample_hashmap 513 = Some None" "hashmap_find (=) sample_hashmap 257 = Some (Some 7)"
    by (simp_all add: hashmap_find_def hashmap_find_entry_def Let_def get_hash_def sample_hashmap_def
        hashmap_init_def HASHMAP_STARTING_NUM_OF_BUCKETS_def)
  have fresh: "num_of_entries sample_hashmap div num_of_buckets sample_hashmap < HASHMAP_LOAD_FACTOR"
    "entries sample_hashmap 32 = None"
    by (simp_all add: sample_hashmap_def hashmap_init_def HASHMAP_STARTING_NUM_OF_BUCKETS_def HASHMAP_LOAD_FACTOR_def)
  show ?thesis
    using hashmap_add_refines [OF sample_hashmap_rep fresh(1) _ fresh(2), of 513 9] old by auto
qed

section \<open>Removing an entry\<close>

lemma chain_split:
  "chain es prev p (before @ q # after) \<Longrightarrow>
     \<exists>e. es q = Some e \<and> e_prev e = (if before = [] then prev else last before) \<and> chain es q (e_next e) after"
  by (induction before arbitrary: prev p) (auto split: option.splits if_splits)

text \<open>Only the backward link of the first entry of a chain matters to it.\<close>

lemma chain_reprev:
  assumes "chain es prev p qs" "\<And>q. q \<in> set qs \<Longrightarrow> q \<noteq> p \<Longrightarrow> es' q = es q"
    "p \<noteq> 0 \<Longrightarrow> es' p = map_option (\<lambda>x. x\<lparr> e_prev := prev' \<rparr>) (es p)" "distinct qs"
  shows "chain es' prev' p qs"
proof (cases qs)
  case (Cons q qs')
  then obtain e where e: "es p = Some e" "p = q" "q \<noteq> 0" "chain es q (e_next e) qs'"
    using assms(1) by (auto split: option.splits)
  have "chain es' q (e_next e) qs'"
    by (rule chain_frame [OF e(4)]) (use assms(2,4) Cons e(2) in auto)
  then show ?thesis using Cons e assms(3) by simp
qed (use assms in simp)

text \<open>The search reaches a freed entry when no earlier entry of the chain has the key.\<close>

lemma search_dangling:
  assumes "chain es prev p (before @ q # after)" "\<And>x. x \<in> set before \<Longrightarrow> entries hm x = es x"
    "entries hm q = None" "\<And>x. x \<in> set before \<Longrightarrow> key_at es x \<noteq> k"
  shows "find_in_chain (=) hm k p = None"
  using assms
proof (induction before arbitrary: prev p)
  case Nil
  then show ?case by (simp add: find_in_chain.simps)
next
  case (Cons x xs)
  then obtain e where e: "es p = Some e" "p = x" "x \<noteq> 0" "chain es x (e_next e) (xs @ q # after)"
    by (auto split: option.splits)
  have "find_in_chain (=) hm k (e_next e) = None" by (rule Cons.IH [OF e(4)]) (use Cons.prems in auto)
  moreover have "entries hm p = Some e" "e_key e \<noteq> k"
    using Cons.prems(2) [of x] Cons.prems(4) [of x] e by (auto simp: key_at_def)
  ultimately show ?case using e by (simp add: find_in_chain.simps)
qed

lemma first_match_split:
  assumes "\<And>x. x \<in> set before \<Longrightarrow> key_at es x \<noteq> key" "key_at es q = key"
  shows "first_match (=) es key (before @ q # after) = q"
  using assms by (induction before) (auto simp: first_match_def)

text \<open>The store that removing entry \<open>q\<close> leaves: the next entry gets the backward link \<open>prev\<close>.\<close>

definition removed_entries ::
  "(u32 \<Rightarrow> ('k, 'd) entry option) \<Rightarrow> u32 \<Rightarrow> ('k, 'd) entry \<Rightarrow> u32 \<Rightarrow> (u32 \<Rightarrow> ('k, 'd) entry option)" where
  "removed_entries es q e prev =
     (if e_next e = 0 then es else es(e_next e := map_option (\<lambda>x. x\<lparr> e_prev := prev \<rparr>) (es (e_next e))))(q := None)"

text \<open>\<open>q\<close> is the first entry with the key in its bucket.\<close>

definition found_at ::
  "('k, 'd) hashmap \<Rightarrow> (u32 \<Rightarrow> u32 list) \<Rightarrow> 'k \<Rightarrow> u32 list \<Rightarrow> u32 \<Rightarrow> u32 list \<Rightarrow> ('k, 'd) entry \<Rightarrow> bool" where
  "found_at hm cs key before q after e \<longleftrightarrow>
     cs (get_hash hm key) = before @ q # after \<and> entries hm q = Some e \<and> e_key e = key \<and>
     (\<forall>x \<in> set before. key_at (entries hm) x \<noteq> key)"

lemma found_bucket:
  fixes hm :: "('k, 'd) hashmap" and key :: 'k
  assumes rep: "hashmap_rep hm cs" and at: "found_at hm cs key before q after e"
  defines "b \<equiv> get_hash hm key"
  shows "b < num_of_buckets hm" "chain (entries hm) 0 (list_of_buckets hm b) (before @ q # after)"
    "distinct (before @ q # after)" "hashmap_find_entry (=) hm key = Some q" "q \<noteq> 0"
    "chain (entries hm) q (e_next e) after" "e_prev e = 0 \<longleftrightarrow> before = []"
    "e_next e \<noteq> 0 \<Longrightarrow> e_next e \<noteq> q \<and> e_next e \<in> set after"
proof -
  show b: "b < num_of_buckets hm"
    unfolding b_def using rep by (intro get_hash_less) (simp add: hashmap_rep_def)
  show c: "chain (entries hm) 0 (list_of_buckets hm b) (before @ q # after)"
    and d: "distinct (before @ q # after)"
    using hashmap_repD(1,2) [OF rep b] at by (simp_all add: found_at_def b_def)
  show "hashmap_find_entry (=) hm key = Some q"
    using find_entry_chain [OF c [unfolded b_def]] first_match_split [of before "entries hm" key q after] at
    by (simp add: key_at_def found_at_def)
  show "q \<noteq> 0" using chain_live [OF c, of q] by simp
  show r: "chain (entries hm) q (e_next e) after"
    using chain_split [OF c] at by (auto simp: found_at_def)
  show "e_prev e = 0 \<longleftrightarrow> before = []"
    using chain_split [OF c] chain_live [OF c, of "last before"] at
    by (cases "before = []") (auto simp: found_at_def)
  show "e_next e \<noteq> q \<and> e_next e \<in> set after" if "e_next e \<noteq> 0"
    using r d that by (cases after) auto
qed

lemma remove_result:
  fixes hm :: "('k, 'd) hashmap" and key :: 'k
  assumes rep: "hashmap_rep hm cs" and at: "found_at hm cs key before q after e"
  shows "hashmap_remove (=) hm key = Some (Some (e_data e), hm\<lparr>
     list_of_buckets := (if before = [] then (list_of_buckets hm)(get_hash hm key := e_next e) else list_of_buckets hm),
     entries := removed_entries (entries hm) q e (if before = [] then 0 else e_next e),
     num_of_entries := num_of_entries hm - 1 \<rparr>)"
proof -
  note f = found_bucket [OF rep at]
  have e: "entries hm q = Some e" using at by (simp add: found_at_def)
  show ?thesis
  proof (cases "e_next e = 0")
    case True
    then show ?thesis using e f(4,5,7)
      by (cases "before = []") (simp_all add: hashmap_remove_def set_entry_links_def removed_entries_def)
  next
    case False
    then have n: "e_next e \<noteq> q" "q \<noteq> e_next e" using f(8) by auto
    have "\<exists>d. entries hm (e_next e) = Some d" using f(8) [OF False] chain_live [OF f(6)] by blast
    then obtain d where d: "entries hm (e_next e) = Some d" by auto
    then show ?thesis using e f(4,5,7) False n
      by (cases "before = []")
        (simp_all add: hashmap_remove_def set_entry_links_def removed_entries_def fun_upd_twist [OF n(2)])
  qed
qed

lemma removed_other: "x \<noteq> q \<Longrightarrow> x \<noteq> e_next e \<Longrightarrow> removed_entries es q e prev x = es x"
  by (simp add: removed_entries_def)

lemma remove_head_rep:
  fixes hm :: "('k, 'd) hashmap" and key :: 'k
  assumes rep: "hashmap_rep hm cs" and at: "found_at hm cs key [] q after e"
  shows "hashmap_rep (hm\<lparr> list_of_buckets := (list_of_buckets hm)(get_hash hm key := e_next e),
     entries := removed_entries (entries hm) q e 0, num_of_entries := n \<rparr>) (cs(get_hash hm key := after))"
proof -
  let ?b = "get_hash hm key" and ?es = "removed_entries (entries hm) q e 0"
  note f = found_bucket [OF rep at]
  have cb: "cs ?b = q # after" and e: "entries hm q = Some e" using at by (simp_all add: found_at_def)
  have keys: "key_at ?es x = key_at (entries hm) x" if "x \<noteq> q" "x = e_next e \<Longrightarrow> \<exists>d. entries hm x = Some d" for x
    using that by (auto simp: removed_entries_def key_at_def)
  have head: "chain ?es 0 (e_next e) after"
    by (rule chain_reprev [OF f(6)]) (use f(3,8) in \<open>auto simp: removed_entries_def\<close>)
  have bucket: "chain ?es 0 (if i = ?b then e_next e else list_of_buckets hm i) ((cs(?b := after)) i) \<and>
      distinct ((cs(?b := after)) i) \<and> (\<forall>x \<in> set ((cs(?b := after)) i). get_hash hm (key_at ?es x) = i)"
    if i: "i < num_of_buckets hm" for i
  proof (cases "i = ?b")
    case True
    have "get_hash hm (key_at ?es x) = ?b" if "x \<in> set after" for x
    proof -
      have "x \<noteq> q" "\<exists>d. entries hm x = Some d" using that f(3) chain_live [OF f(6) that] by auto
      then have "key_at ?es x = key_at (entries hm) x" by (intro keys) auto
      then show ?thesis using hashmap_repD(3) [OF rep f(1), of x] cb that by simp
    qed
    then show ?thesis using True head f(3) by simp
  next
    case False
    have far: "x \<noteq> q \<and> (e_next e \<noteq> 0 \<longrightarrow> x \<noteq> e_next e)" if "x \<in> set (cs i)" for x
      using hashmap_repD(3) [OF rep i that] hashmap_repD(3) [OF rep f(1), of x] cb f(8) False by auto
    have same: "?es x = entries hm x" if "x \<in> set (cs i)" for x
      using far [OF that] by (auto simp: removed_entries_def)
    have "chain ?es 0 (list_of_buckets hm i) (cs i)"
      by (rule chain_frame [OF hashmap_repD(1) [OF rep i]]) (rule same)
    then show ?thesis using False hashmap_repD(2,3) [OF rep i] same by (simp add: key_at_def)
  qed
  show ?thesis unfolding hashmap_rep_def using rep bucket by (simp add: hashmap_rep_def)
qed

text \<open>C40. \<open>hashmap_remove\<close> of a present key returns its data.  At the head of its bucket the entry is
  unlinked and the map stays well-formed; behind the head the code stores the next entry into the
  removed entry instead of its predecessor, so the freed entry stays linked: every later search
  that passes the earlier entries of the bucket, one for the removed key included, reads freed
  memory.\<close>

theorem hashmap_remove_effect:
  fixes hm :: "('k, 'd) hashmap" and key :: 'k
  assumes rep: "hashmap_rep hm cs" and at: "found_at hm cs key before q after e"
  shows "\<exists>hm'. hashmap_remove (=) hm key = Some (Some (e_data e), hm') \<and>
    (before = [] \<longrightarrow> hashmap_rep hm' (cs(get_hash hm key := after))) \<and>
    (before \<noteq> [] \<longrightarrow> (\<forall>k. get_hash hm k = get_hash hm key \<and> k \<notin> key_at (entries hm) ` set before \<longrightarrow>
        hashmap_find (=) hm' k = None))"
proof -
  let ?b = "get_hash hm key"
  let ?hm' = "hm\<lparr> list_of_buckets := (if before = [] then (list_of_buckets hm)(?b := e_next e) else list_of_buckets hm),
     entries := removed_entries (entries hm) q e (if before = [] then 0 else e_next e),
     num_of_entries := num_of_entries hm - 1 \<rparr>"
  note f = found_bucket [OF rep at]
  have "hashmap_rep ?hm' (cs(?b := after))" if "before = []"
    using remove_head_rep [OF rep, of key q after e] at that by simp
  moreover have "hashmap_find (=) ?hm' k = None"
    if b: "before \<noteq> []" and k: "get_hash hm k = ?b" "k \<notin> key_at (entries hm) ` set before" for k
  proof -
    let ?p = "list_of_buckets hm ?b"
    have same: "entries ?hm' x = entries hm x" if "x \<in> set before" for x
    proof -
      have "x \<noteq> q" "x \<noteq> 0" "x \<notin> set after" using that f(3) chain_live [OF f(2), of x] by auto
      then show ?thesis using f(8) by (cases "e_next e = 0") (auto simp: removed_entries_def)
    qed
    have gone: "entries ?hm' q = None" by (simp add: removed_entries_def)
    have dangling: "find_in_chain (=) ?hm' k ?p = None"
      by (rule search_dangling [OF f(2)]) (use same gone k(2) in auto)
    obtain x xs where x: "before = x # xs" using b by (cases before) auto
    obtain d where d: "entries hm ?p = Some d" "?p = x" "?p \<noteq> 0" "chain (entries hm) x (e_next d) (xs @ q # after)"
      using f(2) x by (auto split: option.splits)
    have "e_next d \<noteq> 0" using chain_head [OF d(4)] by simp
    moreover have "entries ?hm' ?p = Some d" using same [of x] x d by simp
    ultimately have "hashmap_find_entry (=) ?hm' k = None"
      using dangling d b k(1) by (simp add: hashmap_find_entry_def Let_def)
    then show ?thesis by (simp add: hashmap_find_def)
  qed
  ultimately show ?thesis using remove_result [OF rep at] by (intro exI [of _ ?hm'] conjI impI allI) auto
qed

text \<open>A bucket with the keys 257 and 513.\<close>

definition sample_hashmap2 :: "(u32, u32) hashmap" where
  "sample_hashmap2 =
     (hashmap_init (\<lambda>k. k) [16 \<mapsto> \<lparr> e_key = 257, e_data = 7, e_prev = 0, e_next = 32 \<rparr>,
                             32 \<mapsto> \<lparr> e_key = 513, e_data = 9, e_prev = 16, e_next = 0 \<rparr>])
       \<lparr> list_of_buckets := (\<lambda>_. 0)(1 := 16), num_of_entries := 2 \<rparr>"

lemma sample_hashmap2_rep: "hashmap_rep sample_hashmap2 ((\<lambda>_. [])(1 := [16, 32]))"
  by (auto simp: hashmap_rep_def sample_hashmap2_def hashmap_init_def HASHMAP_STARTING_NUM_OF_BUCKETS_def
      get_hash_def key_at_def)

theorem hashmap_remove_effect_witness:
  "\<exists>hm'. hashmap_remove (=) sample_hashmap2 513 = Some (Some 9, hm') \<and>
     hashmap_find (=) hm' 513 = None \<and> hashmap_find (=) hm' 769 = None"
proof -
  let ?e = "\<lparr> e_key = 513, e_data = 9, e_prev = 16, e_next = 0 \<rparr> :: (u32, u32) entry"
  have hash: "get_hash sample_hashmap2 k = k AND 255" for k
    by (simp add: get_hash_def sample_hashmap2_def hashmap_init_def HASHMAP_STARTING_NUM_OF_BUCKETS_def)
  have at: "found_at sample_hashmap2 ((\<lambda>_. [])(1 := [16, 32])) 513 [16] 32 [] ?e"
    by (simp add: found_at_def hash key_at_def) (simp add: sample_hashmap2_def hashmap_init_def)
  have "key_at (entries sample_hashmap2) 16 = 257"
    by (simp add: key_at_def sample_hashmap2_def hashmap_init_def)
  then show ?thesis using hashmap_remove_effect [OF sample_hashmap2_rep at] by (auto simp: hash)
qed

end
