(* ===== verification/VgaProps.thy ===== *)
theory VgaProps
  imports Vga
begin

text \<open>
  Correctness of the text screen (theory \<open>Vga\<close>): the closed forms of the loops, the invariant that
  keeps the cursor, the cells and the scroll-back histories in bounds, and scrolling back.
\<close>

unbundle bit_operations_syntax

section \<open>Closed forms of the loops\<close>

lemma cell_unat: "unat y \<le> 24 \<Longrightarrow> unat x \<le> 80 \<Longrightarrow> unat (y * 80 + x :: u32) = unat y * 80 + unat x"
  by (simp add: unat_word_ariths)

lemma cell_eq: "unat y \<le> 24 \<Longrightarrow> unat x \<le> 80 \<Longrightarrow> i = y * 80 + x \<longleftrightarrow> unat i = unat y * 80 + unat (x :: u32)"
  by (simp add: word_unat_eq_iff cell_unat)

lemma unat_succ_small: "unat x < 4000 \<Longrightarrow> unat (x + 1 :: u32) = unat x + 1"
  by (simp add: unat_word_ariths)

definition shift_up :: "(u32 \<Rightarrow> u16) \<Rightarrow> nat \<Rightarrow> u32 \<Rightarrow> u16" where
  "shift_up b n i = (if unat i < n then b (i + 80) else b i)"

lemma shift_up_0 [simp]: "shift_up b 0 = b"
  by (simp add: fun_eq_iff shift_up_def)

lemma rows_up_closed: "rows_up c = c\<lparr> terminal_buffer := shift_up (terminal_buffer c) 1920 \<rparr>"
proof -
  let ?b = "terminal_buffer c"
  have inner: "for_up 0 80 (\<lambda>x u. put_cell (y * 80 + x) (terminal_buffer u ((y + 1) * 80 + x)) u)
      (c\<lparr> terminal_buffer := shift_up ?b (unat y * 80) \<rparr>)
      = c\<lparr> terminal_buffer := shift_up ?b (unat y * 80 + 80) \<rparr>" (is "for_up 0 80 ?body ?s = _")
    if y: "unat y < 24" for y :: u32
  proof -
    have "for_up 0 80 ?body ?s = c\<lparr> terminal_buffer := shift_up ?b (unat y * 80 + unat (80 :: u32)) \<rparr>"
    proof (rule for_up_invariant [where P = "\<lambda>x t. t = c\<lparr> terminal_buffer := shift_up ?b (unat y * 80 + unat x) \<rparr>"])
      fix k t assume k: "k < (80 :: u32)" and t: "t = c\<lparr> terminal_buffer := shift_up ?b (unat y * 80 + unat k) \<rparr>"
      have kn: "unat k < 80" using k by (simp add: word_less_nat_alt)
      have e: "(y + 1) * 80 + k = (y * 80 + k) + 80" by (simp add: algebra_simps)
      have u: "unat (y * 80 + k + 80) = unat y * 80 + unat k + 80" "unat (y * 80 + k) = unat y * 80 + unat k"
        using y kn by (simp_all add: unat_word_ariths)
      have "(shift_up ?b (unat y * 80 + unat k))(y * 80 + k := ?b (y * 80 + k + 80)) =
          shift_up ?b (unat y * 80 + unat (k + 1))"
      proof
        fix i :: u32
        show "((shift_up ?b (unat y * 80 + unat k))(y * 80 + k := ?b (y * 80 + k + 80))) i =
          shift_up ?b (unat y * 80 + unat (k + 1)) i"
        proof (cases "i = y * 80 + k")
          case True
          then show ?thesis using kn u by (simp add: shift_up_def unat_succ_small)
        next
          case False
          then have "unat i \<noteq> unat y * 80 + unat k" using cell_eq [of y k i] y kn by simp
          then show ?thesis using False kn by (auto simp: shift_up_def unat_succ_small)
        qed
      qed
      then show "?body k t = c\<lparr> terminal_buffer := shift_up ?b (unat y * 80 + unat (k + 1)) \<rparr>"
        unfolding t e using u by (simp add: put_cell_def shift_up_def [of _ _ "y * 80 + k + 80"])
    qed simp_all
    then show ?thesis by simp
  qed
  have height: "(25 :: u32) - 1 = 24" by simp
  have "rows_up c = c\<lparr> terminal_buffer := shift_up ?b (unat (24 :: u32) * 80) \<rparr>"
    unfolding rows_up_def vga_constants height
  proof (rule for_up_invariant [where P = "\<lambda>y t. t = c\<lparr> terminal_buffer := shift_up ?b (unat y * 80) \<rparr>"])
    fix k t assume k: "k < (24 :: u32)" and t: "t = c\<lparr> terminal_buffer := shift_up ?b (unat k * 80) \<rparr>"
    have "unat k < 24" using k by (simp add: word_less_nat_alt)
    then show "for_up 0 80 (\<lambda>x u. put_cell (k * 80 + x) (terminal_buffer u ((k + 1) * 80 + x)) u) t =
        c\<lparr> terminal_buffer := shift_up ?b (unat (k + 1) * 80) \<rparr>"
      unfolding t using inner [of k] by (simp only: unat_succ_small) (simp add: algebra_simps)
  qed simp_all
  then show ?thesis by simp
qed

text \<open>Rows from \<open>n\<close> cells on have moved down a row.\<close>

definition shift_down :: "(u32 \<Rightarrow> u16) \<Rightarrow> nat \<Rightarrow> nat \<Rightarrow> u32 \<Rightarrow> u16" where
  "shift_down b lo hi i = (if lo \<le> unat i \<and> unat i < hi then b (i - 80) else b i)"

lemma shift_down_empty [simp]: "shift_down b n n = b"
  by (auto simp: fun_eq_iff shift_down_def)

definition moved_row :: "(u32 \<Rightarrow> u16) \<Rightarrow> nat \<Rightarrow> nat \<Rightarrow> u32 \<Rightarrow> u16" where
  "moved_row b y x i = (if y * 80 \<le> unat i \<and> unat i < y * 80 + x then b (i - 80) else shift_down b (y * 80 + 80) 2000 i)"

lemma moved_row_0 [simp]: "moved_row b y 0 = shift_down b (y * 80 + 80) 2000"
  by (auto simp: fun_eq_iff moved_row_def)

lemma moved_row_80: "y \<le> 24 \<Longrightarrow> moved_row b y 80 = shift_down b (y * 80) 2000"
  by (auto simp: fun_eq_iff moved_row_def shift_down_def)

lemma rows_down_closed: "rows_down c = c\<lparr> terminal_buffer := shift_down (terminal_buffer c) 80 2000 \<rparr>"
proof -
  let ?b = "terminal_buffer c"
  have inner: "for_up 0 80 (\<lambda>x u. put_cell (y * 80 + x) (terminal_buffer u ((y - 1) * 80 + x)) u)
      (c\<lparr> terminal_buffer := moved_row ?b (unat y) 0 \<rparr>) = c\<lparr> terminal_buffer := moved_row ?b (unat y) 80 \<rparr>"
    (is "for_up 0 80 ?body ?s = _")
    if y: "0 < unat y" "unat y \<le> 24" for y :: u32
  proof -
    have "for_up 0 80 ?body ?s = c\<lparr> terminal_buffer := moved_row ?b (unat y) (unat (80 :: u32)) \<rparr>"
    proof (rule for_up_invariant [where P = "\<lambda>x t. t = c\<lparr> terminal_buffer := moved_row ?b (unat y) (unat x) \<rparr>"])
      fix k t assume k: "k < (80 :: u32)" and t: "t = c\<lparr> terminal_buffer := moved_row ?b (unat y) (unat k) \<rparr>"
      have kn: "unat k < 80" using k by (simp add: word_less_nat_alt)
      have e: "(y - 1) * 80 + k = (y * 80 + k) - 80" by (simp add: algebra_simps)
      have u: "unat (y * 80 + k) = unat y * 80 + unat k" using y kn by (simp add: unat_word_ariths)
      have "80 \<le> y * 80 + k" using y u by (simp add: word_le_nat_alt)
      then have v: "unat (y * 80 + k - 80) = unat y * 80 + unat k - 80" using u by (simp add: unat_sub)
      have row_above: "unat (y * 80 + k - 80) < unat y * 80" using v kn y by simp
      have "(moved_row ?b (unat y) (unat k))(y * 80 + k := ?b (y * 80 + k - 80)) = moved_row ?b (unat y) (unat (k + 1))"
      proof
        fix i :: u32
        show "((moved_row ?b (unat y) (unat k))(y * 80 + k := ?b (y * 80 + k - 80))) i =
          moved_row ?b (unat y) (unat (k + 1)) i"
        proof (cases "i = y * 80 + k")
          case True
          then show ?thesis using kn u by (simp add: moved_row_def unat_succ_small)
        next
          case False
          then have "unat i \<noteq> unat y * 80 + unat k" using cell_eq [of y k i] y kn by simp
          then show ?thesis using False kn by (auto simp: moved_row_def unat_succ_small)
        qed
      qed
      moreover have "moved_row ?b (unat y) (unat k) (y * 80 + k - 80) = ?b (y * 80 + k - 80)"
        using row_above by (simp add: moved_row_def shift_down_def)
      ultimately show "?body k t = c\<lparr> terminal_buffer := moved_row ?b (unat y) (unat (k + 1)) \<rparr>"
        unfolding t e by (simp add: put_cell_def)
    qed simp_all
    then show ?thesis by simp
  qed
  have height: "(25 :: u32) - 1 = 24" by simp
  have "rows_down c = c\<lparr> terminal_buffer := shift_down ?b (unat (0 :: u32) * 80 + 80) 2000 \<rparr>"
    unfolding rows_down_def vga_constants height
  proof (rule for_down_invariant [where P = "\<lambda>y t. t = c\<lparr> terminal_buffer := shift_down ?b (unat y * 80 + 80) 2000 \<rparr>"])
    fix k t assume k: "0 < k" "k \<le> (24 :: u32)" and t: "t = c\<lparr> terminal_buffer := shift_down ?b (unat k * 80 + 80) 2000 \<rparr>"
    have kn: "0 < unat k" "unat k \<le> 24" using k by (simp_all add: word_less_nat_alt word_le_nat_alt)
    have "unat (k - 1) * 80 + 80 = unat k * 80" using k kn by (simp add: unat_pred_of_less)
    then show "for_up 0 80 (\<lambda>x u. put_cell (k * 80 + x) (terminal_buffer u ((k - 1) * 80 + x)) u) t =
        c\<lparr> terminal_buffer := shift_down ?b (unat (k - 1) * 80 + 80) 2000 \<rparr>"
      unfolding t using inner [OF kn] kn by (simp only: moved_row_80 moved_row_0)
  qed simp_all
  then show ?thesis by simp
qed

text \<open>The pushes and pops of a row.\<close>

definition with_row :: "(u32 \<Rightarrow> u16) \<Rightarrow> nat \<Rightarrow> nat \<Rightarrow> (u32 \<Rightarrow> u16) \<Rightarrow> u32 \<Rightarrow> u16" where
  "with_row h lo n f i = (if lo \<le> unat i \<and> unat i < lo + n then f (i - of_nat lo) else h i)"

lemma with_row_0 [simp]: "with_row h lo 0 f = h"
  by (auto simp: fun_eq_iff with_row_def)

lemma with_row_Suc:
  assumes "lo + n < 2 ^ 32"
  shows "(with_row h lo n f)(of_nat (lo + n) := f (of_nat n)) = with_row h lo (n + 1) f"
proof
  fix i :: u32
  have l: "unat (of_nat (lo + n) :: u32) = lo + n" using assms by (intro unat_of_nat_small) simp
  then have "i = of_nat (lo + n) \<longleftrightarrow> unat i = lo + n" by (auto simp: word_unat_eq_iff)
  then show "((with_row h lo n f)(of_nat (lo + n) := f (of_nat n))) i = with_row h lo (n + 1) f i"
    using l by (auto simp: with_row_def)
qed

text \<open>Where the next row goes in a history: a full one starts again.\<close>

definition history_start :: "u32 \<Rightarrow> u32" where
  "history_start n = (if n \<ge> 2000 then 0 else n)"

text \<open>A push as a function of a history and its size, and the loop over the cells \<open>f\<close> of a row.\<close>

definition push :: "u16 \<Rightarrow> (u32 \<Rightarrow> u16) \<times> u32 \<Rightarrow> (u32 \<Rightarrow> u16) \<times> u32" where
  "push v s = (let n = history_start (snd s) in ((fst s)(n := v), n + 1))"

lemma history_start_small:
  assumes "n \<le> 2000" "80 dvd unat n"
  shows "unat (history_start n) \<le> 1920" "80 dvd unat (history_start n)"
proof -
  have "unat n \<le> 2000" using assms(1) by (simp add: word_le_nat_alt)
  then show "unat (history_start n) \<le> 1920" "80 dvd unat (history_start n)"
    using assms(2) by (auto simp: history_start_def word_le_nat_alt elim!: dvdE)
qed

lemma push_row:
  assumes "s \<le> 2000" "80 dvd unat s"
  defines "n \<equiv> history_start s"
  shows "for_up 0 80 (\<lambda>x. push (f x)) (h, s) = (with_row h (unat n) 80 f, n + 80)"
proof -
  have n: "unat n \<le> 1920" unfolding n_def by (rule history_start_small [OF assms(1,2)])
  have "for_up 0 80 (\<lambda>x. push (f x)) (h, s) =
      (with_row h (unat n) (unat (80 :: u32)) f, if (80 :: u32) = 0 then s else n + 80)"
  proof (rule for_up_invariant [where P = "\<lambda>x t. t = (with_row h (unat n) (unat x) f, if x = 0 then s else n + x)"])
    fix k t assume k: "k < (80 :: u32)" and t: "t = (with_row h (unat n) (unat k) f, if k = 0 then s else n + k)"
    have kn: "unat k < 80" using k by (simp add: word_less_nat_alt)
    have u: "unat (n + k) = unat n + unat k" using n kn by (simp add: unat_word_ariths)
    have start: "history_start (snd t) = n + k"
    proof (cases "k = 0")
      case False
      have "\<not> n + k \<ge> 2000" using u n kn by (simp add: word_le_nat_alt)
      then show ?thesis using False by (simp add: t history_start_def)
    qed (simp add: t n_def)
    have "of_nat (unat n + unat k) = n + k" by simp
    then have row: "(with_row h (unat n) (unat k) f)(n + k := f k) = with_row h (unat n) (unat (k + 1)) f"
      using with_row_Suc [of "unat n" "unat k" h f] n kn by (simp add: unat_succ_small)
    have "k + 1 \<noteq> 0" using kn by (auto simp: word_unat_eq_iff unat_succ_small)
    then show "push (f k) t = (with_row h (unat n) (unat (k + 1)) f, if k + 1 = 0 then s else n + (k + 1))"
      unfolding push_def using start row by (simp add: Let_def t add.assoc)
  qed simp_all
  then show ?thesis by simp
qed

text \<open>A loop over a part of the state is a loop over that part.\<close>

lemma for_up_part:
  assumes "\<And>k p. body k (R p) = R (part k p)"
  shows "for_up i n body (R p) = R (for_up i n part p)"
proof -
  have "fold (\<lambda>k. body (of_nat k)) ks (R p) = R (fold (\<lambda>k. part (of_nat k)) ks p)" for ks :: "nat list"
    by (induction ks arbitrary: p) (simp_all add: assms)
  then show ?thesis unfolding for_up_fold .
qed

lemma pushes_upward:
  assumes "terminal_upward_history_size c \<le> 2000" "80 dvd unat (terminal_upward_history_size c)"
  defines "n \<equiv> history_start (terminal_upward_history_size c)"
  shows "for_up 0 80 push_upward c =
    c\<lparr> terminal_upward_history := with_row (terminal_upward_history c) (unat n) 80 (terminal_buffer c),
       terminal_upward_history_size := n + 80 \<rparr>"
proof -
  let ?R = "\<lambda>p. c\<lparr> terminal_upward_history := fst p, terminal_upward_history_size := snd p \<rparr>"
  have "for_up 0 80 push_upward (?R (terminal_upward_history c, terminal_upward_history_size c)) =
      ?R (for_up 0 80 (\<lambda>x. push (terminal_buffer c x)) (terminal_upward_history c, terminal_upward_history_size c))"
    by (rule for_up_part) (simp add: push_upward_def push_def history_start_def vga_constants Let_def fun_upd_def)
  then show ?thesis by (simp add: push_row [OF assms(1,2)] n_def)
qed

lemma pushes_downward:
  assumes "terminal_downward_history_size c \<le> 2000" "80 dvd unat (terminal_downward_history_size c)"
  defines "n \<equiv> history_start (terminal_downward_history_size c)"
  shows "for_up 0 80 push_downward c =
    c\<lparr> terminal_downward_history := with_row (terminal_downward_history c) (unat n) 80 (\<lambda>x. terminal_buffer c (1920 + x)),
       terminal_downward_history_size := n + 80 \<rparr>"
proof -
  let ?R = "\<lambda>p. c\<lparr> terminal_downward_history := fst p, terminal_downward_history_size := snd p \<rparr>"
  have "for_up 0 80 push_downward (?R (terminal_downward_history c, terminal_downward_history_size c)) =
      ?R (for_up 0 80 (\<lambda>x. push (terminal_buffer c (1920 + x)))
           (terminal_downward_history c, terminal_downward_history_size c))"
    by (rule for_up_part) (simp add: push_downward_def push_def history_start_def vga_constants Let_def fun_upd_def)
  then show ?thesis by (simp add: push_row [OF assms(1,2)] n_def)
qed

text \<open>The last row comes back from the downward history, the first one from the upward history.\<close>

definition last_row :: "(u32 \<Rightarrow> u16) \<Rightarrow> nat \<Rightarrow> (u32 \<Rightarrow> u16) \<Rightarrow> u32 \<Rightarrow> u16" where
  "last_row b x f i = (if 1920 + x \<le> unat i \<and> unat i < 2000 then f (i - 1920) else b i)"

lemma pops_downward:
  assumes "80 \<le> terminal_downward_history_size c"
  defines "n \<equiv> terminal_downward_history_size c - 80"
  shows "for_down 80 0 pop_downward c =
    c\<lparr> terminal_downward_history_size := n,
       terminal_buffer := last_row (terminal_buffer c) 0 (\<lambda>x. terminal_downward_history c (n + x)) \<rparr>"
proof -
  let ?b = "terminal_buffer c" and ?f = "\<lambda>x. terminal_downward_history c (n + x)"
  have "for_down 80 0 pop_downward c =
    c\<lparr> terminal_downward_history_size := n + 0, terminal_buffer := last_row ?b (unat (0 :: u32)) ?f \<rparr>"
  proof (rule for_down_invariant [where P = "\<lambda>x t. t = c\<lparr> terminal_downward_history_size := n + x,
       terminal_buffer := last_row ?b (unat x) ?f \<rparr>"])
    show "c = c\<lparr> terminal_downward_history_size := n + 80, terminal_buffer := last_row ?b (unat (80 :: u32)) ?f \<rparr>"
    proof -
      have "last_row ?b (unat (80 :: u32)) ?f = ?b" by (auto simp: fun_eq_iff last_row_def)
      then show ?thesis by (simp add: n_def)
    qed
    fix k t assume k: "0 < k" "k \<le> (80 :: u32)"
      and t: "t = c\<lparr> terminal_downward_history_size := n + k, terminal_buffer := last_row ?b (unat k) ?f \<rparr>"
    have kn: "0 < unat k" "unat k \<le> 80" using k by (simp_all add: word_less_nat_alt word_le_nat_alt)
    have p: "unat (k - 1) = unat k - 1" using k by (simp add: unat_pred_of_less)
    have u: "unat (1920 + k - 1) = 1920 + unat k - 1"
      using kn by (simp add: unat_sub unat_word_ariths word_le_nat_alt)
    have "(last_row ?b (unat k) ?f)(1920 + k - 1 := ?f (k - 1)) = last_row ?b (unat (k - 1)) ?f"
    proof
      fix i :: u32
      show "((last_row ?b (unat k) ?f)(1920 + k - 1 := ?f (k - 1))) i = last_row ?b (unat (k - 1)) ?f i"
      proof (cases "i = 1920 + k - 1")
        case True
        then have "i - 1920 = k - 1" by simp
        then show ?thesis using True kn u p by (simp add: last_row_def)
      next
        case False
        then have "unat i \<noteq> 1920 + unat k - 1" using u by (simp add: word_unat_eq_iff)
        then show ?thesis using False kn p by (auto simp: last_row_def)
      qed
    qed
    then show "pop_downward k t = c\<lparr> terminal_downward_history_size := n + (k - 1),
        terminal_buffer := last_row ?b (unat (k - 1)) ?f \<rparr>"
      unfolding t by (simp add: pop_downward_def put_cell_def vga_constants Let_def algebra_simps)
  qed simp_all
  then show ?thesis by simp
qed

definition first_row :: "(u32 \<Rightarrow> u16) \<Rightarrow> nat \<Rightarrow> (u32 \<Rightarrow> u16) \<Rightarrow> u32 \<Rightarrow> u16" where
  "first_row b x f i = (if 81 \<le> unat i + x \<and> unat i < 80 then f i else b i)"

lemma pops_upward:
  assumes "80 \<le> terminal_upward_history_size c"
  defines "n \<equiv> terminal_upward_history_size c - 80"
  shows "for_up 1 81 pop_upward c =
    c\<lparr> terminal_upward_history_size := n,
       terminal_buffer := first_row (terminal_buffer c) 81 (\<lambda>x. terminal_upward_history c (n + x)) \<rparr>"
proof -
  let ?b = "terminal_buffer c" and ?f = "\<lambda>x. terminal_upward_history c (n + x)"
  have "for_up 1 81 pop_upward c =
    c\<lparr> terminal_upward_history_size := n + (81 - 81), terminal_buffer := first_row ?b (unat (81 :: u32)) ?f \<rparr>"
  proof (rule for_up_invariant [where P = "\<lambda>x t. t = c\<lparr> terminal_upward_history_size := n + (81 - x),
       terminal_buffer := first_row ?b (unat x) ?f \<rparr>"])
    show "c = c\<lparr> terminal_upward_history_size := n + (81 - 1), terminal_buffer := first_row ?b (unat (1 :: u32)) ?f \<rparr>"
    proof -
      have "first_row ?b (unat (1 :: u32)) ?f = ?b" by (auto simp: fun_eq_iff first_row_def)
      then show ?thesis by (simp add: n_def)
    qed
    fix k t assume k: "1 \<le> k" "k < (81 :: u32)"
      and t: "t = c\<lparr> terminal_upward_history_size := n + (81 - k), terminal_buffer := first_row ?b (unat k) ?f \<rparr>"
    have kn: "0 < unat k" "unat k < 81" using k by (simp_all add: word_less_nat_alt word_le_nat_alt)
    have u: "unat (80 - k) = 80 - unat k" using kn by (simp add: unat_sub word_le_nat_alt)
    have "(first_row ?b (unat k) ?f)(80 - k := ?f (80 - k)) = first_row ?b (unat (k + 1)) ?f"
    proof
      fix i :: u32
      show "((first_row ?b (unat k) ?f)(80 - k := ?f (80 - k))) i = first_row ?b (unat (k + 1)) ?f i"
      proof (cases "i = 80 - k")
        case True
        then show ?thesis using kn u by (simp add: first_row_def unat_succ_small)
      next
        case False
        then have "unat i \<noteq> 80 - unat k" using u by (simp add: word_unat_eq_iff)
        then show ?thesis using False kn by (auto simp: first_row_def unat_succ_small)
      qed
    qed
    then show "pop_upward k t = c\<lparr> terminal_upward_history_size := n + (81 - (k + 1)),
        terminal_buffer := first_row ?b (unat (k + 1)) ?f \<rparr>"
      unfolding t by (simp add: pop_upward_def put_cell_def vga_constants Let_def algebra_simps)
  qed simp_all
  then show ?thesis by simp
qed

lemma blank_row:
  "for_up 0 80 (\<lambda>x. terminal_putentryat ch color x 24) c =
   c\<lparr> terminal_buffer := last_row (terminal_buffer c) 0 (\<lambda>_. vga_entry ch color) \<rparr>"
proof -
  let ?b = "terminal_buffer c" and ?v = "vga_entry ch color"
  let ?P = "\<lambda>x i. if 1920 \<le> unat i \<and> unat i < 1920 + x then ?v else ?b i"
  have "for_up 0 80 (\<lambda>x. terminal_putentryat ch color x 24) c = c\<lparr> terminal_buffer := ?P (unat (80 :: u32)) \<rparr>"
  proof (rule for_up_invariant [where P = "\<lambda>x t. t = c\<lparr> terminal_buffer := ?P (unat x) \<rparr>"])
    have "?P (unat (0 :: u32)) = ?b" by (auto simp: fun_eq_iff)
    then show "c = c\<lparr> terminal_buffer := ?P (unat (0 :: u32)) \<rparr>" by simp
    fix k t assume k: "k < (80 :: u32)" and t: "t = c\<lparr> terminal_buffer := ?P (unat k) \<rparr>"
    have kn: "unat k < 80" using k by (simp add: word_less_nat_alt)
    have "(?P (unat k))(24 * 80 + k := ?v) = ?P (unat (k + 1))"
    proof
      fix i :: u32
      have "i = 24 * 80 + k \<longleftrightarrow> unat i = 1920 + unat k" using cell_eq [of 24 k i] kn by simp
      then show "((?P (unat k))(24 * 80 + k := ?v)) i = ?P (unat (k + 1)) i"
        using kn by (auto simp: unat_succ_small)
    qed
    then show "terminal_putentryat ch color k 24 t = c\<lparr> terminal_buffer := ?P (unat (k + 1)) \<rparr>"
      unfolding t by (simp add: terminal_putentryat_def put_cell_def vga_constants)
  qed simp_all
  moreover have "?P (unat (80 :: u32)) = last_row ?b 0 (\<lambda>_. ?v)" by (auto simp: fun_eq_iff last_row_def)
  ultimately show ?thesis by simp
qed

section \<open>Scrolling\<close>

definition histories_ok :: "vga \<Rightarrow> bool" where
  "histories_ok c \<longleftrightarrow>
     terminal_upward_history_size c \<le> 2000 \<and> 80 dvd unat (terminal_upward_history_size c) \<and>
     terminal_downward_history_size c \<le> 2000 \<and> 80 dvd unat (terminal_downward_history_size c)"

lemma row_size: "80 dvd unat (n :: u32) \<Longrightarrow> n \<noteq> 0 \<Longrightarrow> 80 \<le> n"
  by (auto simp: word_le_nat_alt dvd_imp_le unat_gt_0)

abbreviation blank :: u16 where "blank \<equiv> vga_entry 32 (color_number VGA_COLOR_WHITE)"

definition scrolled_down :: "vga \<Rightarrow> u32 \<Rightarrow> u16" where
  "scrolled_down c =
     (let d = terminal_downward_history_size c
      in last_row (shift_up (terminal_buffer c) 1920) 0
           (if d = 0 then (\<lambda>_. blank) else (\<lambda>x. terminal_downward_history c (d - 80 + x))))"

lemma scroll_down_closed:
  assumes "histories_ok c"
  shows "terminal_scroll_down c =
    c\<lparr> terminal_upward_history := with_row (terminal_upward_history c)
          (unat (history_start (terminal_upward_history_size c))) 80 (terminal_buffer c),
       terminal_upward_history_size := history_start (terminal_upward_history_size c) + 80,
       terminal_buffer := scrolled_down c,
       terminal_downward_history_size :=
         (if terminal_downward_history_size c = 0 then 0 else terminal_downward_history_size c - 80),
       terminal_row := 24, terminal_column := 0,
       start_of_command := start_of_command c - 80, end_of_command := end_of_command c - 80,
       terminal_on := False \<rparr>"
proof -
  have push: "for_up 0 80 push_upward c =
    c\<lparr> terminal_upward_history := with_row (terminal_upward_history c)
          (unat (history_start (terminal_upward_history_size c))) 80 (terminal_buffer c),
       terminal_upward_history_size := history_start (terminal_upward_history_size c) + 80 \<rparr>"
    using assms by (intro pushes_upward) (auto simp: histories_ok_def)
  have height: "(25 :: u32) - 1 = 24" by simp
  show ?thesis
  proof (cases "terminal_downward_history_size c = 0")
    case True
    then show ?thesis
      unfolding terminal_scroll_down_def vga_constants height push Let_def rows_up_closed
      by (simp add: blank_row scrolled_down_def default_terminal_shift_def)
  next
    case False
    have "80 \<le> terminal_downward_history_size c"
      by (rule row_size) (use assms False in \<open>auto simp: histories_ok_def\<close>)
    then show ?thesis using False
      unfolding terminal_scroll_down_def vga_constants height push Let_def rows_up_closed
      by (simp add: pops_downward scrolled_down_def default_terminal_shift_def Let_def)
  qed
qed

definition scrolled_up :: "vga \<Rightarrow> u32 \<Rightarrow> u16" where
  "scrolled_up c = first_row (shift_down (terminal_buffer c) 80 2000) 81
     (\<lambda>x. terminal_upward_history c (terminal_upward_history_size c - 80 + x))"

lemma scroll_up_closed:
  assumes "histories_ok c" "terminal_upward_history_size c \<noteq> 0"
  shows "terminal_scroll_up c =
    c\<lparr> terminal_downward_history := with_row (terminal_downward_history c)
          (unat (history_start (terminal_downward_history_size c))) 80 (\<lambda>x. terminal_buffer c (1920 + x)),
       terminal_downward_history_size := history_start (terminal_downward_history_size c) + 80,
       terminal_buffer := scrolled_up c,
       terminal_upward_history_size := terminal_upward_history_size c - 80,
       terminal_row := 0, terminal_column := 0 \<rparr>"
proof -
  have push: "for_up 0 80 push_downward c =
    c\<lparr> terminal_downward_history := with_row (terminal_downward_history c)
          (unat (history_start (terminal_downward_history_size c))) 80 (\<lambda>x. terminal_buffer c (1920 + x)),
       terminal_downward_history_size := history_start (terminal_downward_history_size c) + 80 \<rparr>"
    using assms by (intro pushes_downward) (auto simp: histories_ok_def)
  have "80 \<le> terminal_upward_history_size c"
    by (rule row_size) (use assms in \<open>auto simp: histories_ok_def\<close>)
  moreover have "(80 :: u32) + 1 = 81" by simp
  ultimately show ?thesis using assms(2)
    unfolding terminal_scroll_up_def vga_constants push Let_def rows_down_closed
    by (simp add: pops_upward scrolled_up_def)
qed

lemma history_start_bounds:
  assumes "n \<le> 2000" "80 dvd unat n"
  shows "history_start n + 80 \<le> 2000" "80 dvd unat (history_start n + 80)" "history_start n + 80 \<noteq> 0"
    "unat (history_start n + 80) = unat (history_start n) + 80"
proof -
  note h = history_start_small [OF assms]
  show u: "unat (history_start n + 80) = unat (history_start n) + 80" using h by (simp add: unat_word_ariths)
  show "history_start n + 80 \<le> 2000" "80 dvd unat (history_start n + 80)" "history_start n + 80 \<noteq> 0"
    using h u by (auto simp: word_le_nat_alt unat_eq_0 [symmetric])
qed

lemma row_minus: "80 dvd unat (n :: u32) \<Longrightarrow> n \<noteq> 0 \<Longrightarrow> unat (n - 80) = unat n - 80"
  using row_size by (simp add: unat_sub)

lemma scroll_down_histories: "histories_ok c \<Longrightarrow> histories_ok (terminal_scroll_down c)"
  using history_start_bounds [of "terminal_upward_history_size c"] row_minus [of "terminal_downward_history_size c"]
  by (auto simp: scroll_down_closed histories_ok_def word_le_nat_alt)

lemma scroll_up_histories: "histories_ok c \<Longrightarrow> histories_ok (terminal_scroll_up c)"
proof (cases "terminal_upward_history_size c = 0")
  case True
  then show "histories_ok c \<Longrightarrow> ?thesis" by (simp add: terminal_scroll_up_def)
next
  case False
  then show "histories_ok c \<Longrightarrow> ?thesis"
    using history_start_bounds [of "terminal_downward_history_size c"] row_minus [of "terminal_upward_history_size c"]
    by (auto simp: scroll_up_closed histories_ok_def word_le_nat_alt)
qed

text \<open>Cells of a row just pushed.\<close>

lemma with_row_read:
  assumes "unat n \<le> 1920" "unat x < 80"
  shows "with_row h (unat n) 80 f (n + x) = f x"
proof -
  have "unat (n + x) = unat n + unat x" using assms by (simp add: unat_word_ariths)
  then show ?thesis using assms by (simp add: with_row_def)
qed

text \<open>One scroll undoes the other.\<close>

lemma scroll_down_up:
  assumes ok: "histories_ok c"
  defines "d \<equiv> terminal_scroll_down c"
  shows "terminal_buffer (terminal_scroll_up d) = terminal_buffer c"
    "terminal_upward_history_size (terminal_scroll_up d) =
      (if terminal_upward_history_size c = 2000 then 0 else terminal_upward_history_size c)"
proof -
  have sizes: "terminal_upward_history_size c \<le> 2000" "80 dvd unat (terminal_upward_history_size c)"
    using ok by (auto simp: histories_ok_def)
  note up = history_start_small(1) [OF sizes] history_start_bounds(3) [OF sizes]
  note dc = scroll_down_closed [OF ok, folded d_def]
  have ud: "terminal_upward_history_size d \<noteq> 0" using up by (simp add: dc)
  have after: "terminal_buffer (terminal_scroll_up d) = scrolled_up d"
    "terminal_upward_history_size (terminal_scroll_up d) = terminal_upward_history_size d - 80"
    unfolding scroll_up_closed [OF scroll_down_histories [OF ok, folded d_def] ud] by simp_all
  show "terminal_upward_history_size (terminal_scroll_up d) =
      (if terminal_upward_history_size c = 2000 then 0 else terminal_upward_history_size c)"
    unfolding after using sizes(1) by (simp add: dc history_start_def)
  note defs = scrolled_up_def first_row_def shift_down_def scrolled_down_def last_row_def shift_up_def
  show "terminal_buffer (terminal_scroll_up d) = terminal_buffer c"
  proof
    fix i :: u32
    consider "unat i < 80" | "80 \<le> unat i" "unat i < 2000" | "2000 \<le> unat i" by linarith
    then show "terminal_buffer (terminal_scroll_up d) i = terminal_buffer c i"
    proof cases
      case 1
      then show ?thesis unfolding after using up by (simp add: dc scrolled_up_def first_row_def with_row_read)
    next
      case 2
      then have "unat (i - 80) = unat i - 80" by (simp add: unat_sub word_le_nat_alt)
      moreover have "\<not> 1920 \<le> unat i - 80" using 2 by linarith
      ultimately show ?thesis unfolding after using 2 by (simp add: dc defs Let_def)
    next
      case 3
      then show ?thesis unfolding after by (simp add: dc defs Let_def)
    qed
  qed
qed

lemma scroll_up_down:
  assumes ok: "histories_ok c" and nz: "terminal_upward_history_size c \<noteq> 0"
  defines "u \<equiv> terminal_scroll_up c"
  shows "terminal_buffer (terminal_scroll_down u) = terminal_buffer c"
proof
  have sizes: "terminal_downward_history_size c \<le> 2000" "80 dvd unat (terminal_downward_history_size c)"
    using ok by (auto simp: histories_ok_def)
  note down = history_start_small(1) [OF sizes] history_start_bounds(3) [OF sizes]
  note uc = scroll_up_closed [OF ok nz, folded u_def]
  have after: "terminal_buffer (terminal_scroll_down u) = scrolled_down u"
    unfolding scroll_down_closed [OF scroll_up_histories [OF ok, folded u_def]] by simp
  note defs = scrolled_up_def first_row_def shift_down_def scrolled_down_def last_row_def shift_up_def
  fix i :: u32
  consider "unat i < 1920" | "1920 \<le> unat i" "unat i < 2000" | "2000 \<le> unat i" by linarith
  then show "terminal_buffer (terminal_scroll_down u) i = terminal_buffer c i"
  proof cases
    case 1
    then have "unat (i + 80) = unat i + 80" by (simp add: unat_word_ariths)
    then show ?thesis unfolding after using 1 by (simp add: uc defs Let_def)
  next
    case 2
    then have "unat (i - 1920) < 80" by (simp add: unat_sub word_le_nat_alt)
    then show ?thesis unfolding after using 2 down by (simp add: uc scrolled_down_def last_row_def with_row_read)
  next
    case 3
    then show ?thesis unfolding after by (simp add: uc defs Let_def)
  qed
qed

text \<open>C22. Scrolling back restores the screen: scrolling up after scrolling down, and scrolling down
  after scrolling up when there is a line to scroll up to, leave every cell as it was, for every
  screen whose histories hold whole lines; the upward history has its size back unless it was
  full, when \<open>terminal_scroll_down\<close> starts it again and the older lines are lost.\<close>

theorem scroll_roundtrip:
  assumes ok: "histories_ok c"
  shows "terminal_buffer (terminal_scroll_up (terminal_scroll_down c)) = terminal_buffer c \<and>
    terminal_upward_history_size (terminal_scroll_up (terminal_scroll_down c)) =
      (if terminal_upward_history_size c = 2000 then 0 else terminal_upward_history_size c) \<and>
    (terminal_upward_history_size c \<noteq> 0 \<longrightarrow>
      terminal_buffer (terminal_scroll_down (terminal_scroll_up c)) = terminal_buffer c)"
  using scroll_down_up [OF ok] scroll_up_down [OF ok] by blast

text \<open>A screen with one line to scroll up to.\<close>

definition sample_screen :: vga where
  "sample_screen = \<lparr> terminal_row = 24, terminal_column = 79, terminal_color = 7,
     terminal_buffer = (\<lambda>i. ucast i), terminal_on = True, terminal_upward_history = (\<lambda>_. 42),
     terminal_downward_history = (\<lambda>_. 0), terminal_upward_history_size = 80,
     terminal_downward_history_size = 0, start_of_command = 0, end_of_command = 0, ports = [] \<rparr>"

lemma sample_screen_ok: "histories_ok sample_screen"
  by (simp add: histories_ok_def sample_screen_def)

theorem scroll_roundtrip_witness:
  "terminal_buffer (terminal_scroll_up (terminal_scroll_down sample_screen)) 100 = 100 \<and>
   terminal_buffer (terminal_scroll_down (terminal_scroll_up sample_screen)) 100 = 100"
  using scroll_roundtrip [OF sample_screen_ok] by (simp add: sample_screen_def)

section \<open>Staying on the screen\<close>

definition on_grid :: "vga \<Rightarrow> bool" where
  "on_grid c \<longleftrightarrow> terminal_row c < 25 \<and> terminal_column c < 80 \<and> histories_ok c"

text \<open>Only the cells of the screen and the entries of the histories change.\<close>

definition confined :: "vga \<Rightarrow> vga \<Rightarrow> bool" where
  "confined c c' \<longleftrightarrow> (\<forall>i. 2000 \<le> unat i \<longrightarrow> terminal_buffer c' i = terminal_buffer c i \<and>
     terminal_upward_history c' i = terminal_upward_history c i \<and>
     terminal_downward_history c' i = terminal_downward_history c i)"

lemma confined_refl [simp]: "confined c c"
  by (simp add: confined_def)

lemma confined_trans: "confined a b \<Longrightarrow> confined b c \<Longrightarrow> confined a c"
  by (simp add: confined_def)

lemma confined_fields [simp]:
  "confined c (d\<lparr> terminal_row := r \<rparr>) = confined c d" "confined c (d\<lparr> terminal_column := r \<rparr>) = confined c d"
  "confined c (d\<lparr> terminal_color := r \<rparr>) = confined c d" "confined c (d\<lparr> ports := p \<rparr>) = confined c d"
  "confined (d\<lparr> terminal_row := r \<rparr>) c = confined d c" "confined (d\<lparr> terminal_column := r \<rparr>) c = confined d c"
  "confined (d\<lparr> terminal_color := r \<rparr>) c = confined d c"
  by (simp_all add: confined_def)

lemma histories_ok_fields [simp]:
  "histories_ok (d\<lparr> terminal_row := r \<rparr>) = histories_ok d" "histories_ok (d\<lparr> terminal_column := r \<rparr>) = histories_ok d"
  "histories_ok (d\<lparr> terminal_color := r \<rparr>) = histories_ok d" "histories_ok (d\<lparr> ports := p \<rparr>) = histories_ok d"
  "histories_ok (d\<lparr> terminal_buffer := b \<rparr>) = histories_ok d"
  by (simp_all add: histories_ok_def)

lemma scroll_down_confined: "histories_ok c \<Longrightarrow> confined c (terminal_scroll_down c)"
  using history_start_small(1) [of "terminal_upward_history_size c"]
  by (auto simp: scroll_down_closed confined_def scrolled_down_def last_row_def shift_up_def with_row_def
      histories_ok_def Let_def)

lemma scroll_up_confined: "histories_ok c \<Longrightarrow> confined c (terminal_scroll_up c)"
proof (cases "terminal_upward_history_size c = 0")
  case True
  then show "histories_ok c \<Longrightarrow> ?thesis" by (simp add: terminal_scroll_up_def)
next
  case False
  then show "histories_ok c \<Longrightarrow> ?thesis"
    using history_start_small(1) [of "terminal_downward_history_size c"]
    by (auto simp: scroll_up_closed confined_def scrolled_up_def first_row_def shift_down_def with_row_def
        histories_ok_def)
qed

lemma updatecursor_fields [simp]:
  "on_grid (terminal_updatecursor c) = on_grid c"
  "confined d (terminal_updatecursor c) = confined d c"
  by (simp_all add: terminal_updatecursor_def vga_outb_def on_grid_def histories_ok_def confined_def Let_def)

lemma putentry_on_grid:
  assumes "on_grid c" "x < 80" "y < 25"
  shows "on_grid (terminal_putentryat ch color x y c) \<and> confined c (terminal_putentryat ch color x y c)"
proof -
  have "unat y \<le> 24" "unat x < 80" using assms by (simp_all add: word_less_nat_alt)
  then have "unat (y * 80 + x) < 2000" by (simp add: cell_unat)
  then show ?thesis using assms(1)
    by (auto simp: terminal_putentryat_def put_cell_def on_grid_def confined_def vga_constants)
qed

lemma new_row_on_grid:
  assumes "on_grid c"
  shows "on_grid (new_row c) \<and> confined c (new_row c)"
proof -
  have h: "histories_ok c" "terminal_row c < 25" "terminal_column c < 80" using assms by (simp_all add: on_grid_def)
  let ?c = "c\<lparr> terminal_row := terminal_row c + 1 \<rparr>"
  have "unat (terminal_row c + 1) = unat (terminal_row c) + 1" using h(2) by (simp add: unat_succ_small word_less_nat_alt)
  then have "terminal_row c + 1 < 25" if "terminal_row c + 1 \<noteq> 25"
    using h(2) that by (simp add: word_less_nat_alt word_unat_eq_iff)
  moreover have hc: "histories_ok ?c" using h(1) by simp
  moreover have "terminal_row (terminal_scroll_down ?c) = 24" "terminal_column (terminal_scroll_down ?c) = 0"
    unfolding scroll_down_closed [OF hc] by simp_all
  ultimately show ?thesis using h scroll_down_histories [OF hc] scroll_down_confined [OF hc]
    by (cases "terminal_row c = 24") (simp_all add: new_row_def on_grid_def vga_constants Let_def)
qed

lemma column_succ: "x < (80 :: u32) \<Longrightarrow> x + 1 \<noteq> 80 \<Longrightarrow> x + 1 < 80"
  by (simp add: word_less_nat_alt word_unat_eq_iff unat_succ_small)

lemma put_plain_on_grid:
  assumes "on_grid c"
  shows "on_grid (put_plain ch c) \<and> confined c (put_plain ch c)"
proof (cases "ch = 10")
  case True
  then show ?thesis using new_row_on_grid [OF assms]
    by (simp add: put_plain_def) (simp add: on_grid_def)
next
  case False
  let ?c1 = "terminal_putentryat ch (terminal_color c) (terminal_column c) (terminal_row c) c"
  have c1: "on_grid ?c1" "confined c ?c1"
    using putentry_on_grid [OF assms, of "terminal_column c" "terminal_row c"] assms by (auto simp: on_grid_def)
  let ?c2 = "?c1\<lparr> terminal_column := terminal_column ?c1 + 1 \<rparr>"
  show ?thesis
  proof (cases "terminal_column ?c1 + 1 = 80")
    case True
    let ?c3 = "?c1\<lparr> terminal_column := 0 \<rparr>"
    have g: "on_grid ?c3" using c1(1) by (simp add: on_grid_def)
    have "put_plain ch c = terminal_updatecursor (new_row ?c3)"
      using True False by (simp add: put_plain_def vga_constants Let_def)
    then show ?thesis using new_row_on_grid [OF g] confined_trans [OF c1(2)] by auto
  next
    case False
    then have "put_plain ch c = terminal_updatecursor ?c2"
      using \<open>ch \<noteq> 10\<close> by (simp add: put_plain_def vga_constants Let_def)
    moreover have "on_grid ?c2" using c1(1) column_succ [OF _ False] by (simp add: on_grid_def)
    ultimately show ?thesis using c1(2) by simp
  qed
qed

lemma fold_on_grid:
  assumes "\<And>x c. on_grid c \<Longrightarrow> on_grid (f x c) \<and> confined c (f x c)" "on_grid c"
  shows "on_grid (fold f xs c) \<and> confined c (fold f xs c)"
  using assms(2)
proof (induction xs arbitrary: c)
  case (Cons x xs)
  then show ?case using assms(1) [of c x] confined_trans [of c "f x c"] by auto
qed simp

lemma putchar_on_grid: "on_grid c \<Longrightarrow> on_grid (terminal_putchar ch c) \<and> confined c (terminal_putchar ch c)"
proof -
  assume g: "on_grid c"
  have "terminal_putchar ch c = (if ch = 9 then fold put_plain [32, 32, 32, 32] c else put_plain ch c)"
    by (rule terminal_putchar_def)
  moreover have "on_grid (fold put_plain xs c) \<and> confined c (fold put_plain xs c)" for xs
    by (rule fold_on_grid [OF _ g]) (rule put_plain_on_grid)
  ultimately show ?thesis using put_plain_on_grid [OF g, of ch] by (simp only: split: if_split) simp
qed

lemma write_on_grid: "on_grid c \<Longrightarrow> on_grid (terminal_write txt c) \<and> confined c (terminal_write txt c)"
  unfolding terminal_write_def using putchar_on_grid by (rule fold_on_grid)

lemma with_color_on_grid:
  assumes "\<And>c. on_grid c \<Longrightarrow> on_grid (f c) \<and> confined c (f c)" "on_grid c"
  shows "on_grid (with_color col f c) \<and> confined c (with_color col f c)"
proof -
  have "on_grid (terminal_setcolor col c)" using assms(2) by (simp add: terminal_setcolor_def on_grid_def)
  then show ?thesis using assms(1) [of "terminal_setcolor col c"]
    by (simp add: with_color_def terminal_setcolor_def on_grid_def)
qed

lemma clear_closed: "\<exists>b. terminal_clear c = c\<lparr> terminal_row := 0, terminal_column := 0, terminal_buffer := b,
    terminal_upward_history_size := 0, terminal_downward_history_size := 0 \<rparr> \<and>
    (\<forall>i. 2000 \<le> unat i \<longrightarrow> b i = terminal_buffer c i)"
proof -
  let ?P = "\<lambda>t. \<exists>b. t = c\<lparr> terminal_row := 0, terminal_column := 0, terminal_buffer := b \<rparr> \<and>
    (\<forall>i. 2000 \<le> unat i \<longrightarrow> b i = terminal_buffer c i)"
  have inner: "?P (for_up 0 80 (\<lambda>x u. put_cell (y * 80 + x) (vga_entry 32 (terminal_color u)) u) t)"
    if y: "y < 25" and t: "?P t" for y t
  proof (rule for_up_invariant [where P = "\<lambda>_. ?P"])
    fix x u assume x: "x < (80 :: u32)" and u: "?P u"
    have "unat y \<le> 24" "unat x < 80" using x y by (simp_all add: word_less_nat_alt)
    then have "unat (y * 80 + x) < 2000" by (simp add: cell_unat)
    moreover obtain b where b: "u = c\<lparr> terminal_row := 0, terminal_column := 0, terminal_buffer := b \<rparr>"
      "\<forall>i. 2000 \<le> unat i \<longrightarrow> b i = terminal_buffer c i" using u by blast
    ultimately show "?P (put_cell (y * 80 + x) (vga_entry 32 (terminal_color u)) u)"
      by (intro exI [of _ "b(y * 80 + x := vga_entry 32 (terminal_color u))"]) (auto simp: put_cell_def)
  qed (use t in auto)
  have "?P (for_up 0 25 (\<lambda>y t. for_up 0 80 (\<lambda>x u. put_cell (y * 80 + x) (vga_entry 32 (terminal_color u)) u) t)
      (c\<lparr> terminal_row := 0, terminal_column := 0 \<rparr>))"
  proof (rule for_up_invariant [where P = "\<lambda>_. ?P"])
    show "?P (c\<lparr> terminal_row := 0, terminal_column := 0 \<rparr>)" by (rule exI [of _ "terminal_buffer c"]) simp
  qed (use inner in auto)
  then show ?thesis unfolding terminal_clear_def vga_constants Let_def by auto
qed

text \<open>The operations of the screen.\<close>

inductive screen_step :: "vga \<Rightarrow> vga \<Rightarrow> bool" where
  putchar: "screen_step c (terminal_putchar ch c)"
| putchar_color: "screen_step c (terminal_putchar_color ch color c)"
| swapchar: "screen_step c (terminal_swapchar ch c)"
| swapchar_color: "screen_step c (terminal_swapchar_color ch color c)"
| write_text: "screen_step c (terminal_write txt c)"
| writestring: "screen_step c (terminal_writestring txt c)"
| write_color: "screen_step c (terminal_write_color txt color c)"
| writestring_color: "screen_step c (terminal_writestring_color txt color c)"
| clear_screen: "screen_step c (terminal_clear c)"
| scroll_clear: "screen_step c (terminal_scroll_clear c)"
| setcolor: "screen_step c (terminal_setcolor color c)"
| resetcolor: "screen_step c (terminal_resetcolor c)"
| putentryat: "x < 80 \<Longrightarrow> y < 25 \<Longrightarrow> screen_step c (terminal_putentryat ch color x y c)"
| scroll_down: "screen_step c (terminal_scroll_down c)"
| scroll_up: "screen_step c (terminal_scroll_up c)"
| cursor_up: "screen_step c (terminal_cursor_up c)"
| cursor_left: "screen_step c (terminal_cursor_left c)"
| cursor_right: "screen_step c (terminal_cursor_right c)"
| cursor_down: "screen_step c (terminal_cursor_down c)"
| backspace: "screen_step c (terminal_backspace c)"
| updatecursor: "screen_step c (terminal_updatecursor c)"

lemma scroll_on_grid:
  assumes "histories_ok c"
  shows "on_grid (terminal_scroll_down c)" "on_grid ((terminal_scroll_up c)\<lparr> terminal_row := 0, terminal_column := 0 \<rparr>)"
    "terminal_column c < 80 \<Longrightarrow> terminal_column (terminal_scroll_up c) < 80"
proof -
  show "on_grid (terminal_scroll_down c)"
    using scroll_down_histories [OF assms] unfolding on_grid_def by (simp add: scroll_down_closed [OF assms])
  show "on_grid ((terminal_scroll_up c)\<lparr> terminal_row := 0, terminal_column := 0 \<rparr>)"
    using scroll_up_histories [OF assms] by (simp add: on_grid_def)
  show "terminal_column c < 80 \<Longrightarrow> terminal_column (terminal_scroll_up c) < 80"
    by (cases "terminal_upward_history_size c = 0") (simp_all add: terminal_scroll_up_def [of c] scroll_up_closed [OF assms])
qed

lemma scroll_up_step: "on_grid c \<Longrightarrow> on_grid (terminal_scroll_up c)"
proof (cases "terminal_upward_history_size c = 0")
  case True
  then show "on_grid c \<Longrightarrow> ?thesis" by (simp add: terminal_scroll_up_def)
next
  case False
  assume g: "on_grid c"
  then have h: "histories_ok c" by (simp add: on_grid_def)
  have "terminal_scroll_up c = (terminal_scroll_up c)\<lparr> terminal_row := 0, terminal_column := 0 \<rparr>"
    unfolding scroll_up_closed [OF h False] by simp
  then show ?thesis using scroll_on_grid(2) [OF h] by simp
qed

lemma cursor_on_grid:
  assumes g: "on_grid c"
  shows "on_grid (terminal_cursor_up c) \<and> confined c (terminal_cursor_up c)"
    "on_grid (terminal_cursor_left c) \<and> confined c (terminal_cursor_left c)"
    "on_grid (terminal_cursor_right c) \<and> confined c (terminal_cursor_right c)"
    "on_grid (terminal_cursor_down c) \<and> confined c (terminal_cursor_down c)"
    "on_grid (terminal_backspace c) \<and> confined c (terminal_backspace c)"
proof -
  have h: "histories_ok c" "terminal_row c < 25" "terminal_column c < 80" using g by (simp_all add: on_grid_def)
  have pred: "x - 1 < n" if "x \<noteq> 0" "x < n" for x n :: u32
    using that unat_pred_of_less [of 0 x] by (simp add: word_less_nat_alt word_neq_0_conv)
  let ?up = "c\<lparr> terminal_row := terminal_row c - 1 \<rparr>" and ?down = "c\<lparr> terminal_row := terminal_row c + 1 \<rparr>"
  have hu: "histories_ok ?up" and hd: "histories_ok ?down" using h(1) by simp_all
  show "on_grid (terminal_cursor_up c) \<and> confined c (terminal_cursor_up c)"
  proof (cases "terminal_row c = 0")
    case True
    then show ?thesis
      using scroll_up_histories [OF hu] scroll_on_grid(3) [OF hu] scroll_up_confined [OF hu] h
      by (simp add: terminal_cursor_up_def) (simp add: on_grid_def)
  next
    case False
    then show ?thesis using h pred [OF False h(2)] by (simp add: terminal_cursor_up_def) (simp add: on_grid_def)
  qed
  show "on_grid (terminal_cursor_left c) \<and> confined c (terminal_cursor_left c)"
    using h pred [OF _ h(3)] by (auto simp: terminal_cursor_left_def) (auto simp: on_grid_def)
  have "terminal_column c + 1 < 80" if "\<not> 79 < terminal_column c + 1"
    using that by (simp add: word_less_nat_alt)
  then show "on_grid (terminal_cursor_right c) \<and> confined c (terminal_cursor_right c)"
    using h by (auto simp: terminal_cursor_right_def) (auto simp: on_grid_def)
  have "terminal_row c + 1 < 25" if "\<not> 24 < terminal_row c + 1"
    using that by (simp add: word_less_nat_alt)
  then show "on_grid (terminal_cursor_down c) \<and> confined c (terminal_cursor_down c)"
    using h scroll_on_grid(1) [OF hd] scroll_down_confined [OF hd]
    by (auto simp: terminal_cursor_down_def Let_def) (auto simp: on_grid_def)
  show "on_grid (terminal_backspace c) \<and> confined c (terminal_backspace c)"
  proof (cases "terminal_column c = 0")
    case True
    then show ?thesis using h by (simp add: terminal_backspace_def) (simp add: on_grid_def)
  next
    case False
    let ?c = "c\<lparr> terminal_column := terminal_column c - 1 \<rparr>"
    have "on_grid ?c" using h pred [OF False h(3)] by (simp add: on_grid_def)
    then show ?thesis using False putentry_on_grid [of ?c "terminal_column c - 1" "terminal_row c" 32] h pred [OF False h(3)]
      by (simp add: terminal_backspace_def terminal_swapchar_def)
  qed
qed

lemma screen_step_on_grid:
  assumes "screen_step c c'" and g: "on_grid c"
  shows "on_grid c' \<and> confined c c'"
  using assms(1)
proof cases
  case putchar then show ?thesis using putchar_on_grid [OF g] by simp
next
  case putchar_color then show ?thesis
    using with_color_on_grid [OF putchar_on_grid g] by (simp add: terminal_putchar_color_def)
next
  case swapchar then show ?thesis
    using putentry_on_grid [OF g] g by (simp add: terminal_swapchar_def) (simp add: on_grid_def)
next
  case (swapchar_color ch color)
  have "on_grid (terminal_swapchar ch d) \<and> confined d (terminal_swapchar ch d)" if "on_grid d" for d
    using putentry_on_grid [OF that] that by (simp add: terminal_swapchar_def) (simp add: on_grid_def)
  then show ?thesis using swapchar_color with_color_on_grid [of "terminal_swapchar ch", OF _ g]
    by (simp add: terminal_swapchar_color_def)
next
  case write_text then show ?thesis using write_on_grid [OF g] by simp
next
  case writestring then show ?thesis using write_on_grid [OF g] by (simp add: terminal_writestring_def)
next
  case write_color then show ?thesis
    using with_color_on_grid [OF write_on_grid g] by (simp add: terminal_write_color_def)
next
  case writestring_color then show ?thesis
    using with_color_on_grid [OF write_on_grid g] by (simp add: terminal_writestring_color_def terminal_write_color_def)
next
  case clear_screen
  obtain b where "terminal_clear c = c\<lparr> terminal_row := 0, terminal_column := 0, terminal_buffer := b,
      terminal_upward_history_size := 0, terminal_downward_history_size := 0 \<rparr>"
    "\<forall>i. 2000 \<le> unat i \<longrightarrow> b i = terminal_buffer c i" using clear_closed [of c] by blast
  then show ?thesis using clear_screen by (simp add: on_grid_def histories_ok_def confined_def)
next
  case scroll_clear
  have "on_grid (for_up (0 :: u32) 25 (\<lambda>_. terminal_writestring [10]) c) \<and>
      confined c (for_up (0 :: u32) 25 (\<lambda>_. terminal_writestring [10]) c)"
    unfolding for_up_fold
    by (rule fold_on_grid [OF _ g]) (simp add: terminal_writestring_def write_on_grid)
  then show ?thesis using scroll_clear by (simp add: terminal_scroll_clear_def) (simp add: on_grid_def)
next
  case setcolor then show ?thesis using g by (simp add: terminal_setcolor_def) (simp add: on_grid_def)
next
  case resetcolor then show ?thesis
    using g by (simp add: terminal_resetcolor_def terminal_setcolor_def) (simp add: on_grid_def)
next
  case putentryat then show ?thesis using putentry_on_grid [OF g] by simp
next
  case scroll_down then show ?thesis using g scroll_on_grid(1) scroll_down_confined by (simp add: on_grid_def)
next
  case scroll_up then show ?thesis
    using g scroll_up_step [OF g] scroll_up_confined [of c] by (simp add: on_grid_def)
qed (use cursor_on_grid [OF g] g in simp_all)

text \<open>C20. Nothing leaves the screen: after \<open>terminal_initialize\<close>, however the operations of the driver
  follow each other, the cursor is in the 25 rows and 80 columns, the sizes of the scroll-back
  histories are whole lines within their arrays, and no cell and no history entry from index 2000
  on has been written.\<close>

theorem screen_stays_in_bounds:
  assumes "screen_step\<^sup>*\<^sup>* (terminal_initialize c0) c"
  shows "terminal_row c < 25 \<and> terminal_column c < 80 \<and> histories_ok c \<and> confined c0 c"
  using assms
proof (induction rule: rtranclp_induct)
  case base
  obtain b where "terminal_initialize c0 = c0\<lparr> terminal_color := terminal_color (terminal_resetcolor c0),
      terminal_row := 0, terminal_column := 0, terminal_buffer := b,
      terminal_upward_history_size := 0, terminal_downward_history_size := 0 \<rparr>"
    "\<forall>i. 2000 \<le> unat i \<longrightarrow> b i = terminal_buffer c0 i"
    using clear_closed [of "(terminal_resetcolor c0)\<lparr> terminal_upward_history_size := 0,
      terminal_downward_history_size := 0 \<rparr>"]
    by (auto simp: terminal_initialize_def terminal_resetcolor_def terminal_setcolor_def)
  then show ?case by (simp add: histories_ok_def confined_def)
next
  case (step c c')
  then show ?case using screen_step_on_grid [of c c'] confined_trans [of c0 c c'] by (auto simp: on_grid_def)
qed

theorem screen_stays_in_bounds_witness:
  "let c = terminal_cursor_up (terminal_scroll_down (terminal_initialize sample_screen))
   in terminal_row c < 25 \<and> terminal_column c < 80"
proof -
  have "screen_step\<^sup>*\<^sup>* (terminal_initialize sample_screen)
      (terminal_cursor_up (terminal_scroll_down (terminal_initialize sample_screen)))"
    by (meson rtranclp.rtrancl_into_rtrancl rtranclp.rtrancl_refl screen_step.scroll_down screen_step.cursor_up)
  then show ?thesis using screen_stays_in_bounds by (simp add: Let_def)
qed

end
