(* ===== verification/InterruptProps.thy ===== *)
theory InterruptProps
  imports Timer Pit
begin

text \<open>
  Correctness of the descriptor tables (theory \<open>Interrupts\<close>) and of the interval timer (theories
  \<open>Pit\<close> and \<open>Timer\<close>).
\<close>

unbundle bit_operations_syntax

lemma unat_lt2p_32: "unat (x :: u32) < 4294967296"
  using unsigned_less [of x] by simp

section \<open>Descriptors\<close>

lemma split_address:
  "ucast (ucast (a AND 0xffff) :: u16) OR push_bit 16 (ucast (ucast (drop_bit 16 (a AND 0xffff0000)) :: u16)) = (a :: u32)"
proof -
  have m: "(0xffff :: u32) = mask 16" "(0xffff0000 :: u32) = push_bit 16 (mask 16)"
    by (simp_all add: mask_eq_exp_minus_1 push_bit_eq_mult)
  show ?thesis unfolding m by (rule bit_word_eqI) (auto simp: bit_simps)
qed

definition handler_entry :: "u32 \<Rightarrow> IDT_entry" where
  "handler_entry address =
     \<lparr> offset_lowerbits = ucast (address AND 0xffff), selector = KERNEL_CODE_SEGMENT_OFFSET,
       zero_byte = 0, type_attr = IDT_PRESENT OR INTERRUPT_GATE,
       offset_higherbits = ucast (drop_bit 16 (address AND 0xffff0000)) \<rparr>"

lemma register_handler: "idt_register_handler v a s = s\<lparr> idt := (idt s)(v := handler_entry a) \<rparr>"
  by (simp add: idt_register_handler_def handler_entry_def)

lemma handler_gate: "gate_offset (handler_entry a) = a"
  "gate_present (handler_entry a)" "gate_ring (handler_entry a) = 0"
  using split_address [of a]
  by (simp_all add: handler_entry_def gate_offset_def gate_present_def gate_ring_def idt_constants)

lemma register_range:
  assumes "i \<le> n"
  shows "for_up i n (\<lambda>k. idt_register_handler k (f k)) s =
    s\<lparr> idt := (\<lambda>v. if i \<le> v \<and> v < n then handler_entry (f v) else idt s v) \<rparr>"
  using assms
proof (rule for_up_invariant [where P = "\<lambda>k t. t = s\<lparr> idt := (\<lambda>v. if i \<le> v \<and> v < k then handler_entry (f v) else idt s v) \<rparr>", rotated])
  show "s = s\<lparr> idt := (\<lambda>v. if i \<le> v \<and> v < i then handler_entry (f v) else idt s v) \<rparr>"
  proof -
    have "(\<lambda>v. if i \<le> v \<and> v < i then handler_entry (f v) else idt s v) = idt s" by (auto simp: fun_eq_iff)
    then show ?thesis by simp
  qed
  fix k t assume k: "i \<le> k" "k < n" and t: "t = s\<lparr> idt := (\<lambda>v. if i \<le> v \<and> v < k then handler_entry (f v) else idt s v) \<rparr>"
  have "v < k + 1 \<longleftrightarrow> v < k \<or> v = k" for v
    using unat_Suc_less [OF k(2)] by (auto simp: word_less_nat_alt word_unat_eq_iff)
  then show "idt_register_handler k (f k) t =
      s\<lparr> idt := (\<lambda>v. if i \<le> v \<and> v < k + 1 then handler_entry (f v) else idt s v) \<rparr>"
    using k(1) by (auto simp: register_handler t fun_eq_iff)
qed

text \<open>The processor reads the limit of the table from the first two bytes of the pseudo-descriptor and
  its base from the next four.\<close>

definition idtr_limit :: "u32 \<times> u32 \<Rightarrow> u16" where
  "idtr_limit p = ucast (fst p)"

definition idtr_base :: "u32 \<times> u32 \<Rightarrow> u32" where
  "idtr_base p = drop_bit 16 (fst p) OR push_bit 16 (snd p)"

lemma bit_2048: "bit (2048 :: 'a::len word) n \<longleftrightarrow> n = 11 \<and> 11 < LENGTH('a)"
proof -
  have "bit (push_bit 11 (1 :: 'a word)) n \<longleftrightarrow> n = 11 \<and> 11 < LENGTH('a)" by (simp only: bit_simps) auto
  moreover have "push_bit 11 (1 :: 'a word) = 2048" by simp
  ultimately show ?thesis by simp
qed

lemma idtr_split:
  "idtr_base (2048 + push_bit 16 (a AND 0xffff), drop_bit 16 a) = a"
  "idtr_limit (2048 + push_bit 16 (a AND 0xffff), drop_bit 16 a) = 2048"
proof -
  have m: "(0xffff :: u32) = mask 16" "(2048 :: u32) = push_bit 11 1" by (simp_all add: mask_eq_exp_minus_1)
  have b: "bit (2048 :: u32) = (\<lambda>n. n = 11)" by (rule ext) (use bit_2048 [where 'a = 32] in simp)
  have b': "bit (2048 :: int) = (\<lambda>n. n = 11)"
  proof
    fix n
    have "bit (push_bit 11 (1 :: int)) n \<longleftrightarrow> n = 11" by (simp only: bit_simps) auto
    moreover have "push_bit 11 (1 :: int) = 2048" by simp
    ultimately show "bit (2048 :: int) n \<longleftrightarrow> n = 11" by simp
  qed
  have "2048 AND push_bit 16 (a AND 0xffff) = 0"
    unfolding m(1) by (rule bit_word_eqI) (auto simp: bit_simps b)
  then have d: "2048 + push_bit 16 (a AND 0xffff) = 2048 OR push_bit 16 (a AND 0xffff)"
    by (rule disjunctive_add_eq_or)
  show "idtr_base (2048 + push_bit 16 (a AND 0xffff), drop_bit 16 a) = a"
    unfolding d idtr_base_def fst_conv snd_conv unfolding m(1)
    by (rule bit_word_eqI) (auto simp: bit_simps b b', (metis le_add_diff_inverse not_less)+)
  show "idtr_limit (2048 + push_bit 16 (a AND 0xffff), drop_bit 16 a) = 2048"
    unfolding d idtr_limit_def fst_conv unfolding m(1) 
    by (rule bit_word_eqI) (auto simp: bit_simps b, simp only: b')
qed

lemma idt_init_ptr:
  "idtr_base (idt_ptr (idt_init a s)) = a" "idtr_limit (idt_ptr (idt_init a s)) = 2048"
proof -
  have "(8 * 256 :: u32) = 2048" by simp
  then have "idt_ptr (idt_init a s) = (2048 + push_bit 16 (a AND 0xffff), drop_bit 16 a)"
    unfolding idt_init_def by (cases s) (simp only: interrupts.update_convs interrupts.select_convs)
  then show "idtr_base (idt_ptr (idt_init a s)) = a" "idtr_limit (idt_ptr (idt_init a s)) = 2048"
    by (simp_all only: idtr_split)
qed

text \<open>C21. After \<open>isr_install\<close> every exception vector is a present gate of ring 0 to its own handler,
  the reserved vectors to theirs, and vector 128 is a present gate that ring 3 may call, to the
  system call handler, provided the installation of the timer writes only vector 32; the
  processor reads back each address from its two halves in the descriptor, and the table's
  address from the pseudo-descriptor.\<close>

theorem isr_install_gates:
  fixes isr :: "u8 \<Rightarrow> u32" and reserved common table :: u32 and s :: interrupts
  assumes timer: "\<And>s v. v \<noteq> 32 \<Longrightarrow> idt (timer_inst s) v = idt s v"
  defines "t \<equiv> isr_install isr reserved common table timer_inst s"
  shows "(\<forall>v < 19. gate_offset (idt t v) = isr v \<and> gate_present (idt t v) \<and> gate_ring (idt t v) = 0) \<and>
    (\<forall>v. 19 \<le> v \<and> v < 32 \<longrightarrow> gate_offset (idt t v) = reserved \<and> gate_present (idt t v) \<and> gate_ring (idt t v) = 0) \<and>
    gate_offset (idt t 128) = common \<and> gate_present (idt t 128) \<and> gate_ring (idt t 128) = 3 \<and>
    (\<forall>v. v \<noteq> 128 \<and> 32 < v \<longrightarrow> idt t v = idt s v) \<and> idtr_base (idt_ptr t) = table \<and> idtr_limit (idt_ptr t) = 8 * 256"
proof -
  let ?gate = "handler_entry common\<lparr> type_attr := IDT_PRESENT OR IDT_RING_3 OR INTERRUPT_GATE \<rparr>"
  have "idt t v = (if v = 128 then ?gate else if v < 19 then handler_entry (isr v)
      else if v < 32 then handler_entry reserved else idt s v)" if "v \<noteq> 32" for v
    using that by (simp add: t_def isr_install_def idt_init_def timer register_range register_handler Let_def)
  moreover have "gate_offset ?gate = common" "gate_present ?gate" "gate_ring ?gate = 3"
    using handler_gate(1) [of common]
    by (simp_all add: handler_entry_def gate_offset_def gate_present_def gate_ring_def idt_constants)
  moreover have "idtr_base (idt_ptr t) = table" "idtr_limit (idt_ptr t) = 8 * 256"
    unfolding t_def isr_install_def Let_def by (simp_all only: idt_init_ptr) simp
  moreover have "v \<noteq> 128" "v \<noteq> 32" if "v < 32" for v :: u8 using that by auto
  moreover have "\<not> v < 19" "\<not> v < 32" "v \<noteq> 32" if "32 < v" for v :: u8
    using that by (auto simp: word_less_nat_alt)
  moreover have "\<not> v < 19" if "19 \<le> v" for v :: u8 using that by simp
  moreover have "v < 32" if "v < 19" for v :: u8 using that by (simp add: word_less_nat_alt)
  ultimately show ?thesis by (simp add: handler_gate)
qed


text \<open>The hypothesis holds of the timer the kernel installs: its installation writes vector 32 only.\<close>

lemma pit_counter_install_idt:
  "pit_counter_install h t = Some (c, t') \<Longrightarrow> v \<noteq> 32 \<Longrightarrow> idt (tints t') v = idt (tints t) v"
  by (auto simp: pit_counter_install_def timer_set_timer_frequency_def timer_set_counter_frequency_def
      int_outb_def pic_irq_enable_def register_handler Let_def split: option.splits if_splits)

definition empty_interrupts :: interrupts where
  "empty_interrupts = \<lparr> pic1_mask = 0xff, pic2_mask = 0xff,
     idt = (\<lambda>_. \<lparr> offset_lowerbits = 0, selector = 0, zero_byte = 0, type_attr = 0, offset_higherbits = 0 \<rparr>),
     idt_address = 0, idt_ptr = (0, 0), int_trace = [] \<rparr>"

lemma isr_install_gates_witness:
  "gate_offset (idt (isr_install (\<lambda>v. 0x100000 + 16 * ucast v) 0x100900 0x100a00 0x200000
      (idt_register_handler 32 0x100b00) empty_interrupts) 14) = 0x1000e0"
proof -
  have "idt (idt_register_handler 32 0x100b00 s) v = idt s v" if "v \<noteq> 32" for s v
    using that by (simp add: register_handler)
  from isr_install_gates [where timer_inst = "idt_register_handler 32 0x100b00" and isr = "\<lambda>v. 0x100000 + 16 * ucast v"
      and reserved = "0x100900" and common = "0x100a00" and table = "0x200000" and s = empty_interrupts, OF this,
      THEN conjunct1]
  show ?thesis by (auto simp: word_less_nat_alt dest: spec [of _ 14])
qed

section \<open>The interval timer\<close>

text \<open>The reload value that \<open>init_pit\<close> programs fits the 16-bit channel and is never zero, and the
  frequency it records is at least the requested one, up to the highest the timer has; a request of
  18 or less is given the slowest rate, and one between the limits is missed by less than one
  in the reload value.\<close>

theorem reload_value_bounds:
  fixes f :: u32
  shows "1 \<le> reload_value f \<and> reload_value f \<le> 65535 \<and>
    HIGHEST_HZ div reload_value f \<ge> (if f \<ge> HIGHEST_HZ then HIGHEST_HZ else if f \<le> LOWEST_HZ then LOWEST_HZ else f) \<and>
    (18 < f \<and> f < HIGHEST_HZ \<longrightarrow> unat (reload_value f) * unat f \<le> 1193180 \<and> 1193180 < (unat (reload_value f) + 1) * unat f)"
proof -
  consider "f \<le> 18" | "1193180 \<le> f" | (mid) "18 < f" "f < 1193180" by force
  then show ?thesis
  proof cases
    case mid
    then have f: "18 < unat f" "unat f < 1193180" by (simp_all add: word_less_nat_alt)
    have r: "reload_value f = 1193180 div f" using mid by (auto simp: reload_value_def pit_constants not_le)
    then have u: "unat (reload_value f) = 1193180 div unat f" by (simp add: unat_div)
    have lo: "1 \<le> 1193180 div unat f" using f by (simp add: div_greater_zero_iff Suc_le_eq)
    have hi: "1193180 div unat f \<le> 1193180 div 19" using f by (intro div_le_mono2) simp_all
    have q: "(1193180 div unat f) * unat f \<le> 1193180" by simp
    have q': "1193180 < (1193180 div unat f + 1) * unat f"
      using f by (simp add: dividend_less_div_times)
    have "unat f \<le> 1193180 div (1193180 div unat f)" using q lo by (simp add: less_eq_div_iff_mult_less_eq mult.commute)
    then have "f \<le> 1193180 div reload_value f" by (simp add: word_le_nat_alt unat_div u)
    then show ?thesis using mid f lo hi q q' by (simp add: u pit_constants word_le_nat_alt not_le)
  qed (auto simp: reload_value_def pit_constants word_le_nat_alt word_less_nat_alt)
qed

lemma reload_value_bounds_witness:
  "unat (reload_value 1000) * unat (1000 :: u32) \<le> 1193180 \<and> 1193180 < (unat (reload_value 1000) + 1) * unat (1000 :: u32)"
  using reload_value_bounds [of 1000] by (simp add: pit_constants)

lemma ceil_div:
  fixes x :: nat
  shows "x \<le> (x div 1000000 + (if x mod 1000000 > 0 then 1 else 0)) * 1000000"
    "(x div 1000000 + (if x mod 1000000 > 0 then 1 else 0)) * 1000000 < x + 1000000"
proof -
  define q r where "q = x div 1000000" and "r = x mod 1000000"
  then have "x = q * 1000000 + r" "r < 1000000" by simp_all
  then show "x \<le> (x div 1000000 + (if x mod 1000000 > 0 then 1 else 0)) * 1000000"
    "(x div 1000000 + (if x mod 1000000 > 0 then 1 else 0)) * 1000000 < x + 1000000"
    unfolding q_def [symmetric] r_def [symmetric] by (simp_all add: add_mult_distrib)
qed

lemma wait_loop_value:
  "unat (current_ticks s) \<le> unat n \<Longrightarrow> wait_loop fuel n s =
    (if fuel < unat n - unat (current_ticks s) then None else Some (s\<lparr> current_ticks := n \<rparr>))"
proof (induction fuel n s rule: wait_loop.induct)
  case (1 n s)
  then show ?case by (cases s) (auto simp: word_less_nat_alt word_unat_eq_iff)
next
  case (2 m n s)
  show ?case
  proof (cases "current_ticks s < n")
    case True
    then have u: "unat (current_ticks s + 1) = Suc (unat (current_ticks s))"
      by (simp add: unat_Suc_less)
    have "unat (current_ticks s) < unat n" using True by (simp add: word_less_nat_alt)
    then show ?thesis using 2(1) True u by (simp add: increment_ticks_def) auto
  next
    case False
    then have "current_ticks s = n" using 2(2) by (simp add: word_less_nat_alt word_unat_eq_iff)
    then show ?thesis by (cases s) simp
  qed
qed

text \<open>C23. The wait of \<open>pit_wait_us\<close> ends: at once when the timer was never programmed, and otherwise
  exactly when the tick counter has been incremented the computed number of times, with the
  counter at that number; that number covers the requested time when the product of frequency and
  time fits in 32 bits.\<close>

theorem pit_wait_us_returns:
  fixes s :: pit and us :: u32
  shows "pit_wait_us fuel us s =
    (if current_frequency s = 0 \<or> current_reload_value s = 0 then Some s
     else if fuel < unat (wait_ticks us s) then None
     else Some (s\<lparr> current_ticks := wait_ticks us s \<rparr>)) \<and>
    (unat (current_frequency s) * unat us < 2 ^ 32 \<longrightarrow>
      unat (current_frequency s) * unat us \<le> unat (wait_ticks us s) * 1000000 \<and>
      unat (wait_ticks us s) * 1000000 < unat (current_frequency s) * unat us + 1000000)"
proof (intro conjI impI)
  show "pit_wait_us fuel us s =
    (if current_frequency s = 0 \<or> current_reload_value s = 0 then Some s
     else if fuel < unat (wait_ticks us s) then None
     else Some (s\<lparr> current_ticks := wait_ticks us s \<rparr>))"
    by (simp add: pit_wait_us_def pit_wait_ticks_def reset_ticks_def wait_loop_value wait_ticks_def)
  assume "unat (current_frequency s) * unat us < 2 ^ 32"
  then have m: "unat (current_frequency s * us) = unat (current_frequency s) * unat us"
    by (simp add: unat_word_ariths)
  have w: "unat (wait_ticks us s) = unat (current_frequency s * us) div 1000000
      + (if unat (current_frequency s * us) mod 1000000 > 0 then 1 else 0)"
  proof -
    have "unat (current_frequency s * us) div 1000000 < 4295" using unat_lt2p_32 [of "current_frequency s * us"] by simp
    then show ?thesis
      by (auto simp: wait_ticks_def word_less_nat_alt unat_mod unat_div unat_word_ariths)
  qed
  show "unat (current_frequency s) * unat us \<le> unat (wait_ticks us s) * 1000000"
    "unat (wait_ticks us s) * 1000000 < unat (current_frequency s) * unat us + 1000000"
    unfolding w m by (rule ceil_div)+
qed

lemma pit_wait_us_returns_witness:
  "unat (wait_ticks 2500 \<lparr> current_command_bitset = 0, current_frequency = 1000, current_reload_value = 1193, seconds = 0,
    microseconds = 0, current_ticks = 0, pit_trace = [] \<rparr>) * 1000000 \<ge> 1000 * 2500"
  using pit_wait_us_returns [of 3 2500 "\<lparr> current_command_bitset = 0, current_frequency = 1000, current_reload_value = 1193, seconds = 0,
    microseconds = 0, current_ticks = 0, pit_trace = [] \<rparr>"]
  by simp

end
