(* ===== verification/Spec2Isabelle.thy ===== *)
theory Spec2Isabelle
  imports KString KCtype KMath PageAlloc Quicksort MsgQueue Observer Scheduler PagingProps
    KVector Hashmap Terminal Timer Ata Elf UserProgram Osi Locks KStdioProps PageTables BootProps TasksProps AhciProps PcieProps HeapGrow HeapUse BootFiles KernelMain VectorProps HashmapProps VgaProps InterruptProps
begin

text \<open>
  The RocketOS kernel (C, i686): its library, memory management, scheduler, data structures,
  drivers and loader, as definitions that follow the functions of src/kernel one by one, with the
  theorems about them.

  How the parts fit.  The loader places the image at 1 MiB, the start code turns paging on with the tables of the
  image, and the kernel runs at 0xC0000000 above it.  \<open>initialize_kernel_memory\<close> initialises the page allocators and turns paging on; the heap takes
  physical pages from the allocator and maps them; vectors, owned strings and hash maps allocate
  from the heap.  The timer interrupt calls the scheduler, which switches between processes and their page
  directories; the keyboard interrupt translates a scan code and notifies its observers, of which the
  terminal is one, and the terminal writes to the text screen.  The shim gives the ACPI library (vendored, not
  modelled) the kernel's memory, ports and waits; its tables lead to the processors and to the PCI Express
  configuration space, and that to the AHCI disks.  The file list and the ELF loader set up user processes.

  What a value is.  Machine integers are words of their width (\<open>u8\<close> to \<open>u64\<close>, theory \<open>Prelude\<close>), so
  arithmetic wraps as it does in the kernel; signed reads go through \<open>sint\<close>.  Memory is a total function
  from 32-bit addresses to bytes (\<open>CMem\<close>); pointers are addresses and NULL is 0.  Structures are records,
  enumerations datatypes.  A failed assertion (\<open>kassert\<close>) is the early return that the macro is in
  the default build.  A function that may not return, fault or divide by zero has an option type: a
  \<open>partial_function\<close> for a loop that can run for ever, \<open>None\<close> for a fault.  The C \<open>for\<close> loops over a
  counter are \<open>for_up\<close>, \<open>for_down\<close> and, with an early return, \<open>for_ret\<close> (\<open>Prelude\<close>), with their
  invariant rules.  Ports are a trace of accesses with the device's answers as an argument (\<open>PortIO\<close>).
  Printing to the log is left out.

  Theories, by part of the kernel:
  \<^item> library (libk): \<open>KString\<close> (kstring.c), \<open>KCtype\<close> (kctype.c), \<open>KMath\<close> (kmath.c), \<open>KStdio\<close> (kstdio.c),
    \<open>Heap\<close> (kstdlib.c);
  \<^item> allocators (kernel/utils, kernel/mem): \<open>Bitset\<close>, \<open>Bitmap\<close>, \<open>Buddy\<close>, and \<open>PageAlloc\<close> for the physical, the
    kernel's virtual, the shim's and the heap's pages;
  \<^item> paging (kernel/mem/paging and physical_pointer.c): \<open>Paging\<close>;
  \<^item> processes (kernel/scheduler): \<open>Process\<close>, \<open>Scheduler\<close>, \<open>Timer\<close>, and \<open>Tasks\<close> for the creation of
    kernel tasks and of programs; locks (kernel/synchronization_primitives): \<open>Locks\<close>;
  \<^item> data structures (kernel/utils): \<open>Quicksort\<close>, \<open>MsgQueue\<close>, \<open>Observer\<close>, \<open>KVector\<close> (vectors and owned
    strings), \<open>Hashmap\<close>;
  \<^item> drivers (arch/i686/drivers, kernel/ATA): \<open>PortIO\<close>, \<open>Serial\<close>, \<open>Vga\<close>, \<open>Keyboard\<close>, \<open>Pit\<close>, \<open>Pci\<close>, \<open>Ata\<close>,
    \<open>Pcie\<close> (configuration space and MADT), \<open>Ahci\<close>;
  \<^item> boot (arch/i686/boot), exceptions and the task state segment: \<open>Boot\<close>; processor tables
    (arch/i686/interrupts, usermode): \<open>Interrupts\<close>;
  \<^item> terminal (kernel/subsystems/terminal): \<open>Terminal\<close>; ACPI shim (arch/i686/osi_shim): \<open>Osi\<close>; boot
    files and programs (kernel/tar_fs): \<open>Elf\<close>; the program of the boot disk (src/ramdisk_files): \<open>UserProgram\<close>.

  The definitions of a theory have the names and the order of the C functions; a static variable is a field
  of the theory's state record, and what the linker, the hardware or another processor chooses
  (addresses of the image, answers of devices, register contents) is an argument.

  What is proved:
  \<^item> page allocators: successive allocations after initialisation are distinct frames above the image, each
    the least free one; the effect of a free, which by the mask of \<open>bitset_set_at\<close> reaches frames
    below in the same byte, and the double allocation that follows.  The buddy allocator is proved on its levels
    once (locale \<open>buddy_geometry\<close>) and instantiated by the three allocators, which all meet
    the interface \<open>page_allocator\<close>;
  \<^item> paging (\<open>PagingProps\<close>): the state that \<open>paging_init\<close> leaves; \<open>map_page\<close>, \<open>unmap_page\<close> and
    \<open>get_physical_address\<close> against the processor's walk, for pages whose table exists; \<open>map_page\<close> when it
    allocates, clears and enters a new table (\<open>PageTables\<close>);
  \<^item> scheduler: the invariant of every reachable state (one running process, in its queue), the
    selection of the highest priority and its round robin, the switch, the sleep, and the loss of
    sleepers when the timer's frequency rises; that the invariant holds from \<open>scheduler_init\<close> on, that a kernel
    task enters its function with a return address, and that a resumed process repeats its own switch
    (\<open>TasksProps\<close>); mutual exclusion of the spin lock under every interleaving (\<open>Locks\<close>);
  \<^item> boot (\<open>BootProps\<close>): what the first page tables map; from the loader's tags over the heap to the
    contents of a file (\<open>BootFiles\<close>, \<open>KernelMain\<close>): \<open>kernel_main\<close> finds the last module, \<open>parse_headers\<close> copies its
    files to blocks of their own, and a file looked up by its name is printed with the contents it has in the module;
  \<^item> PCI Express and processors (\<open>PcieProps\<close>): the enumeration counts the functions present, \<open>detect_cores\<close> reads a
    well-formed MADT and never returns for a record of length 0; disks (\<open>AhciProps\<close>): the command of
    \<open>read_sector\<close>, and that it returns;
  \<^item> heap (\<open>HeapProps\<close>, \<open>HeapGrow\<close>): first fit with splitting, release with coalescing, growth by pages, that
    \<open>kmalloc\<close> returns, and the invariant that the heap is tiled by tagged blocks whose free ones are the free list, while
    the heap stays below the physical allocator's bits, and for releases of blocks other than the last, for which
    \<open>kfree\<close> reads past the end of the heap; what a user of a block may write and keeps, as the interface
    \<open>block_allocator\<close> that \<open>kmalloc\<close> meets (\<open>HeapUse\<close>); \<open>push_back\<close>
    refines appending to a list and \<open>string_new\<close> copies a string (\<open>VectorProps\<close>);
  \<^item> hash map (\<open>HashmapProps\<close>): insertion refines a finite map below the load factor; removal;
  \<^item> text screen (\<open>VgaProps\<close>): bounds of the cursor and the histories in every reachable state, scrolling
    back;
  \<^item> descriptors and timer (\<open>InterruptProps\<close>): the gates after \<open>isr_install\<close>, the bounds of the reload
    value, and when the wait ends;
  \<^item> user program (\<open>UserProgram\<close>): what the program of the boot disk sends over the serial port;
  \<^item> library: overlapping moves, concatenation, comparison, number conversion and back, \<open>kprintf\<close>
    against a reference interpreter of formats (\<open>KStdioProps\<close>), character classes, powers and remainders; sorting;
    the ring buffer as a queue (locale \<open>fifo_queue\<close>); observers.

  Bounds and fuel.  \<open>pit_wait_us\<close> takes the number of calls of \<open>increment_ticks\<close> that happen while it
  waits; the theorem gives the exact number that is enough.  \<open>test_program_rounds\<close> takes the
  number of rounds of a program that never ends, and the theorem is for every number.  Everywhere else recursion terminates
  by a measure or is a \<open>partial_function\<close>, and the theorems about those state that they return.

  Devices.  The memory that an AHCI controller or another processor changes is read through
  \<open>dev\<close>, a function of the time, counted in reads, and the memory (\<open>Ahci\<close>); theorems about it state
  what of the device they need (\<open>always_busy\<close>, \<open>idle_device\<close>).  The page maps that these drivers call for
  addresses outside the kernel are arguments too, and the theorems take them to leave the memory read unchanged.

  Not modelled: the vendored ACPI library (the shim, what the kernel calls of it, and the tables it finds are);
  the order of the calls in \<open>kernel_main\<close> beyond the search for the module and its files; functions that only print; the
  bodies of the tasks that only print; assertions and error numbers as such; tests.  Of
  the heap \<open>krealloc\<close> (and with it the growth of a full vector), and of the legacy drivers and the ELF loader most
  behaviour is defined but has no theorem.
\<close>

end
